(* ===== verification/Prelude.thy ===== *)
theory Prelude
  imports Main "HOL-Library.Word" "HOL-Library.AList" "HOL-Library.Sublist"
    "HOL-Library.Char_ord" "HOL-Library.List_Lexorder"
begin

text \<open>
  Shared vocabulary of the development: the machine integer types of the Rust sources, the
  result type of fallible code, Rust's saturating arithmetic, big- and little-endian byte
  strings, UTF-8 text and the few list facts that several components use.

  A Rust \<open>String\<close> or \<open>&str\<close> is a HOL \<open>string\<close> holding its UTF-8 bytes, one \<open>char\<close> per
  byte, so \<open>length\<close> is Rust's \<open>len()\<close>. A \<open>usize\<close> is a \<open>nat\<close> (the code targets 64-bit
  machines, where the casts between \<open>usize\<close> and \<open>u64\<close> keep the value); \<open>u8\<close> to \<open>u64\<close> are
  words, on which \<open>+\<close> and \<open>-\<close> wrap as Rust's atomic \<open>fetch_add\<close> and \<open>fetch_sub\<close> do.
\<close>

unbundle bit_operations_syntax

named_theorems codec \<open>decoding undoes encoding, with the remaining bytes left over\<close>
named_theorems u64_simps \<open>the value of saturating and checked u64 arithmetic\<close>
named_theorems fs_simps \<open>lookups after an update of the file system\<close>

type_synonym byte = "8 word"
type_synonym u16 = "16 word"
type_synonym u32 = "32 word"
type_synonym u64 = "64 word"
type_synonym bytes = "byte list"
type_synonym ('e, 'a) result = "'e + 'a"

section \<open>Results\<close>

text \<open>The \<open>?\<close> operator of Rust: an error ends the computation and is returned.\<close>

fun bindR :: "('e, 'a) result \<Rightarrow> ('a \<Rightarrow> ('e, 'b) result) \<Rightarrow> ('e, 'b) result" where
  "bindR (Inl e) f = Inl e"
| "bindR (Inr x) f = f x"

lemma bindR_Inr_conv: "bindR r f = Inr y \<longleftrightarrow> (\<exists>x. r = Inr x \<and> f x = Inr y)"
  by (cases r) auto

lemma bindR_Inl_conv: "bindR r f = Inl e \<longleftrightarrow> r = Inl e \<or> (\<exists>x. r = Inr x \<and> f x = Inl e)"
  by (cases r) auto

lemma bindR_cong [fundef_cong]:
  "r = r' \<Longrightarrow> (\<And>x. r' = Inr x \<Longrightarrow> f x = g x) \<Longrightarrow> bindR r f = bindR r' g"
  by (cases r') auto

definition is_ok :: "('e, 'a) result \<Rightarrow> bool" where
  "is_ok r = (case r of Inl _ \<Rightarrow> False | Inr _ \<Rightarrow> True)"

lemma is_ok_simps [simp]: "is_ok (Inr x)" "\<not> is_ok (Inl e)"
  by (simp_all add: is_ok_def)

section \<open>Saturating arithmetic on u64\<close>

definition sat_add :: "u64 \<Rightarrow> u64 \<Rightarrow> u64" where
  "sat_add x y = (if unat x + unat y < 2 ^ 64 then x + y else - 1)"

definition sat_sub :: "u64 \<Rightarrow> u64 \<Rightarrow> u64" where
  "sat_sub x y = (if y \<le> x then x - y else 0)"

lemma unat_less_u64 [simp, intro]: "unat (x :: u64) < 18446744073709551616"
  using unsigned_less [of x, where ?'a = nat] by simp

lemma unat_less_u32 [simp, intro]: "unat (x :: u32) < 4294967296"
  using unsigned_less [of x, where ?'a = nat] by simp

lemma unat_less_u16 [simp, intro]: "unat (x :: u16) < 65536"
  using unsigned_less [of x, where ?'a = nat] by simp

lemma unat_less_byte [simp, intro]: "unat (b :: byte) < 256"
  using unsigned_less [of b, where ?'a = nat] by simp

lemma unat_minus_one_u64: "unat (- 1 :: u64) = 2 ^ 64 - 1"
  by (simp add: unsigned_minus_1_eq_mask mask_eq_exp_minus_1)

lemma unat_sat_add [u64_simps]: "unat (sat_add x y) = min (unat x + unat y) (2 ^ 64 - 1)"
  by (auto simp: sat_add_def unat_minus_one_u64 unat_word_ariths min_def)

lemma unat_sat_sub [u64_simps]: "unat (sat_sub x y) = unat x - unat y"
proof (cases "y \<le> x")
  case True
  then show ?thesis by (simp add: sat_sub_def unat_sub)
next
  case False
  then have "unat x < unat y" by (simp add: word_less_nat_alt not_le)
  then show ?thesis using False by (simp add: sat_sub_def)
qed

lemma sat_add_no_overflow: "unat x + unat y < 2 ^ 64 \<Longrightarrow> sat_add x y = x + y"
  by (simp add: sat_add_def)

text \<open>The same by word comparison, for evaluation.\<close>

lemma sat_add_code [code]: "sat_add x y = (if x \<le> - 1 - y then x + y else - 1)"
proof -
  have y: "unat y \<le> 18446744073709551615" using unat_less_u64 [of y] by linarith
  then have "y \<le> - 1" using unat_minus_one_u64 by (simp add: word_le_nat_alt)
  then have "unat (- 1 - y) = 2 ^ 64 - 1 - unat y" using unat_minus_one_u64 unat_sub [of y "- 1"] by simp
  then have "x \<le> - 1 - y \<longleftrightarrow> unat x + unat y < 2 ^ 64"
    using y by (auto simp: word_le_nat_alt)
  then show ?thesis by (simp add: sat_add_def)
qed

lemma sat_sub_le: "sat_sub x y \<le> x"
  by (simp add: word_le_nat_alt u64_simps)

lemma sat_sub_zero [simp]: "sat_sub x 0 = x"
  by (simp add: sat_sub_def)

lemma sat_add_zero [simp]: "sat_add x 0 = x"
  by (simp add: sat_add_def)

lemma unat_plus_u64 [u64_simps]: "unat x + unat y < 2 ^ 64 \<Longrightarrow> unat (x + y) = unat x + unat (y :: u64)"
  by (simp add: unat_word_ariths)

lemma unat_minus_u64 [u64_simps]: "unat y \<le> unat x \<Longrightarrow> unat (x - y) = unat x - unat (y :: u64)"
  by (simp add: unat_sub word_le_nat_alt)

lemma unat_of_nat_u64 [u64_simps]: "n < 2 ^ 64 \<Longrightarrow> unat (of_nat n :: u64) = n"
  by (simp add: unat_of_nat)

section \<open>Endianness\<close>

text \<open>\<open>le_bytes n v\<close> is the \<open>n\<close>-byte little-endian form of \<open>v\<close>; \<open>be_bytes\<close> the big-endian one.\<close>

fun le_bytes :: "nat \<Rightarrow> nat \<Rightarrow> bytes" where
  "le_bytes 0 v = []"
| "le_bytes (Suc n) v = of_nat (v mod 256) # le_bytes n (v div 256)"

fun of_le_bytes :: "bytes \<Rightarrow> nat" where
  "of_le_bytes [] = 0"
| "of_le_bytes (b # bs) = unat b + 256 * of_le_bytes bs"

definition be_bytes :: "nat \<Rightarrow> nat \<Rightarrow> bytes" where
  "be_bytes n v = rev (le_bytes n v)"

definition of_be_bytes :: "bytes \<Rightarrow> nat" where
  "of_be_bytes bs = of_le_bytes (rev bs)"

lemma le_bytes_numeral:
  "le_bytes (numeral k) v = of_nat (v mod 256) # le_bytes (pred_numeral k) (v div 256)"
  unfolding numeral_eq_Suc [of k] by (rule le_bytes.simps(2))

lemma length_le_bytes [simp]: "length (le_bytes n v) = n"
  by (induction n arbitrary: v) auto

lemma length_be_bytes [simp]: "length (be_bytes n v) = n"
  by (simp add: be_bytes_def)

lemma unat_of_nat_byte: "unat (of_nat (v mod 256) :: byte) = v mod 256"
  by (simp add: unat_of_nat)

lemma of_le_bytes_le_bytes: "of_le_bytes (le_bytes n v) = v mod 256 ^ n"
proof (induction n arbitrary: v)
  case 0
  show ?case by simp
next
  case (Suc n)
  have "of_le_bytes (le_bytes (Suc n) v) = v mod 256 + 256 * ((v div 256) mod 256 ^ n)"
    using Suc.IH [of "v div 256"] by (simp add: unat_of_nat_byte)
  also have "\<dots> = v mod (256 * 256 ^ n)"
    by (simp add: mod_mult2_eq)
  finally show ?case by simp
qed

lemma of_le_bytes_inverse [simp]: "v < 256 ^ n \<Longrightarrow> of_le_bytes (le_bytes n v) = v"
  by (simp add: of_le_bytes_le_bytes)

lemma of_be_bytes_inverse [simp]: "v < 256 ^ n \<Longrightarrow> of_be_bytes (be_bytes n v) = v"
  by (simp add: be_bytes_def of_be_bytes_def)

lemma of_le_bytes_bound: "of_le_bytes bs < 256 ^ length bs"
proof (induction bs)
  case Nil
  show ?case by simp
next
  case (Cons b bs)
  have step: "u + 256 * w < 256 * y" if "u < 256" "w < y" for u w y :: nat
    using that by linarith
  show ?case
    using step [OF unat_less_byte Cons.IH] by (simp only: of_le_bytes.simps length_Cons power_Suc)
qed

lemma le_bytes_of_le_bytes [simp]: "le_bytes (length bs) (of_le_bytes bs) = bs"
proof (induction bs)
  case Nil
  show ?case by simp
next
  case (Cons b bs)
  have b: "unat b < 256" by simp
  then have "(unat b + 256 * of_le_bytes bs) mod 256 = unat b"
    "(unat b + 256 * of_le_bytes bs) div 256 = of_le_bytes bs" by auto
  then show ?case using Cons.IH by simp
qed

lemma be_bytes_of_be_bytes: "length bs = n \<Longrightarrow> be_bytes n (of_be_bytes bs) = bs"
  using le_bytes_of_le_bytes [of "rev bs"] by (simp add: be_bytes_def of_be_bytes_def)

lemma of_be_bytes_bound: "of_be_bytes bs < 256 ^ length bs"
  using of_le_bytes_bound [of "rev bs"] by (simp add: of_be_bytes_def)

lemma drop_le_bytes: "drop n (le_bytes (n + m) v) = le_bytes m (v div 256 ^ n)"
  by (induction n arbitrary: v) (auto simp: div_mult2_eq)

lemma take_be_bytes: "take m (be_bytes (m + n) v) = be_bytes m (v div 256 ^ n)"
  using drop_le_bytes [of n m v] by (simp add: be_bytes_def take_rev add.commute)

lemma be_bytes_inj: "v < 256 ^ n \<Longrightarrow> w < 256 ^ n \<Longrightarrow> be_bytes n v = be_bytes n w \<Longrightarrow> v = w"
  by (metis of_be_bytes_inverse)

section \<open>Text\<close>

text \<open>The bytes of a string, and the string that holds given bytes.\<close>

definition string_bytes :: "string \<Rightarrow> bytes" where
  "string_bytes s = map (\<lambda>c. of_nat (of_char c)) s"

definition bytes_string :: "bytes \<Rightarrow> string" where
  "bytes_string bs = map (\<lambda>b. char_of (unat b)) bs"

lemma length_string_bytes [simp]: "length (string_bytes s) = length s"
  by (simp add: string_bytes_def)

lemma unat_of_char [simp]: "unat (of_nat (of_char c) :: byte) = of_char c"
  using unat_of_nat_byte [of "of_char c"] by simp

lemma bytes_string_inverse [simp]: "bytes_string (string_bytes s) = s"
  by (simp add: string_bytes_def bytes_string_def comp_def)

text \<open>
  Well-formed UTF-8, as \<open>String::from_utf8\<close> accepts it: one to four bytes per scalar value,
  no overlong forms, no surrogates, nothing above U+10FFFF.
\<close>

definition utf8_cont :: "byte \<Rightarrow> bool" where
  "utf8_cont b \<longleftrightarrow> 0x80 \<le> unat b \<and> unat b \<le> 0xBF"

fun utf8_valid :: "bytes \<Rightarrow> bool" where
  "utf8_valid [] = True"
| "utf8_valid (a # bs) =
     (if unat a \<le> 0x7F then utf8_valid bs
      else (case bs of
          [] \<Rightarrow> False
        | b # cs \<Rightarrow>
            (if 0xC2 \<le> unat a \<and> unat a \<le> 0xDF then utf8_cont b \<and> utf8_valid cs
             else (case cs of
                 [] \<Rightarrow> False
               | c # ds \<Rightarrow>
                   (if unat a = 0xE0 then 0xA0 \<le> unat b \<and> unat b \<le> 0xBF \<and> utf8_cont c \<and> utf8_valid ds
                    else if unat a = 0xED then 0x80 \<le> unat b \<and> unat b \<le> 0x9F \<and> utf8_cont c \<and> utf8_valid ds
                    else if 0xE1 \<le> unat a \<and> unat a \<le> 0xEF then utf8_cont b \<and> utf8_cont c \<and> utf8_valid ds
                    else (case ds of
                        [] \<Rightarrow> False
                      | d # es \<Rightarrow>
                          (if unat a = 0xF0 then 0x90 \<le> unat b \<and> unat b \<le> 0xBF \<and> utf8_cont c \<and> utf8_cont d \<and> utf8_valid es
                           else if unat a = 0xF4 then 0x80 \<le> unat b \<and> unat b \<le> 0x8F \<and> utf8_cont c \<and> utf8_cont d \<and> utf8_valid es
                           else if 0xF1 \<le> unat a \<and> unat a \<le> 0xF3 then utf8_cont b \<and> utf8_cont c \<and> utf8_cont d \<and> utf8_valid es
                           else False)))))))"

definition utf8_string :: "string \<Rightarrow> bool" where
  "utf8_string s \<longleftrightarrow> utf8_valid (string_bytes s)"

lemma utf8_valid_ascii: "(\<forall>b \<in> set bs. unat b \<le> 0x7F) \<Longrightarrow> utf8_valid bs"
  by (induction bs) auto

lemma utf8_ascii: "(\<forall>c \<in> set s. (of_char c :: nat) \<le> 0x7F) \<Longrightarrow> utf8_string s"
  unfolding utf8_string_def by (rule utf8_valid_ascii) (simp add: string_bytes_def)

text \<open>Decimal digits, as \<open>format!\<close> prints an unsigned integer.\<close>

definition digit_char :: "nat \<Rightarrow> char" where
  "digit_char d = char_of (48 + d)"

fun show_nat :: "nat \<Rightarrow> string" where
  "show_nat n = (if n < 10 then [digit_char n] else show_nat (n div 10) @ [digit_char (n mod 10)])"

declare show_nat.simps [simp del]

definition show_u64 :: "'a::len word \<Rightarrow> string" where
  "show_u64 w = show_nat (unat w)"

lemma show_nat_nonempty: "show_nat n \<noteq> []"
  by (subst show_nat.simps) simp

section \<open>Lists and option\<close>

definition ends_with :: "'a list \<Rightarrow> 'a list \<Rightarrow> bool" where
  "ends_with xs suf \<longleftrightarrow> suffix suf xs"

lemma ends_with_append [simp]: "ends_with (xs @ ys) ys"
  by (auto simp: ends_with_def suffix_def)

definition opt_or :: "'a option \<Rightarrow> 'a \<Rightarrow> 'a" where
  "opt_or m d = (case m of None \<Rightarrow> d | Some v \<Rightarrow> v)"

lemma opt_or_simps [simp]: "opt_or None d = d" "opt_or (Some v) d = v"
  by (simp_all add: opt_or_def)

lemma take_drop_split: "n \<le> length xs \<Longrightarrow> xs = take n xs @ drop n xs"
  by simp

lemma prefix_butlast_parent:
  "prefix r p \<Longrightarrow> p \<noteq> r \<Longrightarrow> prefix r (butlast p)"
  by (metis append_butlast_last_id butlast.simps(1) prefix_order.antisym prefix_snoc prefix_bot.extremum_uniqueI)

lemma map_of_update_alist [fs_simps, simp]: "map_of (AList.update k v al) = (map_of al)(k \<mapsto> v)"
  by (rule update_conv')

lemma map_of_delete_alist [fs_simps, simp]: "map_of (AList.delete k al) = (map_of al)(k := None)"
  by (rule delete_conv')

end
