(* ===== verification/Protocol.thy ===== *)
theory Protocol
  imports Prelude
begin

text \<open>
  The message types of \<open>crates/qftp-common/src/protocol.rs\<close>: the numeric enums with their
  assigned wire values, requests, responses and the per-field caps that both peers apply to a
  decoded message. The byte layout of these messages is in theory \<open>Wire\<close>.
\<close>

section \<open>Numeric enums\<close>

datatype FileType =
    FileType_Regular | FileType_Directory | FileType_Symlink | FileType_Other
  | FileType_Unknown u32

fun FileType_to_u32 :: "FileType \<Rightarrow> u32" where
  "FileType_to_u32 FileType_Regular = 0"
| "FileType_to_u32 FileType_Directory = 1"
| "FileType_to_u32 FileType_Symlink = 2"
| "FileType_to_u32 FileType_Other = 3"
| "FileType_to_u32 (FileType_Unknown n) = n"

definition FileType_from_u32 :: "u32 \<Rightarrow> FileType" where
  "FileType_from_u32 n =
     (if n = 0 then FileType_Regular
      else if n = 1 then FileType_Directory
      else if n = 2 then FileType_Symlink
      else if n = 3 then FileType_Other
      else FileType_Unknown n)"

datatype HashAlgorithm = HashAlgorithm_Blake3 | HashAlgorithm_Unknown u32

fun HashAlgorithm_to_u32 :: "HashAlgorithm \<Rightarrow> u32" where
  "HashAlgorithm_to_u32 HashAlgorithm_Blake3 = 0"
| "HashAlgorithm_to_u32 (HashAlgorithm_Unknown n) = n"

definition HashAlgorithm_from_u32 :: "u32 \<Rightarrow> HashAlgorithm" where
  "HashAlgorithm_from_u32 n = (if n = 0 then HashAlgorithm_Blake3 else HashAlgorithm_Unknown n)"

fun digest_len :: "HashAlgorithm \<Rightarrow> nat option" where
  "digest_len HashAlgorithm_Blake3 = Some 32"
| "digest_len (HashAlgorithm_Unknown n) = None"

datatype Encoding = Encoding_Identity | Encoding_Zstd | Encoding_Unknown u32

fun Encoding_to_u32 :: "Encoding \<Rightarrow> u32" where
  "Encoding_to_u32 Encoding_Identity = 0"
| "Encoding_to_u32 Encoding_Zstd = 1"
| "Encoding_to_u32 (Encoding_Unknown n) = n"

definition Encoding_from_u32 :: "u32 \<Rightarrow> Encoding" where
  "Encoding_from_u32 n =
     (if n = 0 then Encoding_Identity else if n = 1 then Encoding_Zstd else Encoding_Unknown n)"

fun is_supported :: "Encoding \<Rightarrow> bool" where
  "is_supported Encoding_Identity = True"
| "is_supported Encoding_Zstd = True"
| "is_supported (Encoding_Unknown n) = False"

datatype ErrorCode =
    NotFound | PermissionDenied | AlreadyExists | NotADirectory | IsADirectory | FileTooLarge
  | UploadOverflow | UploadTruncated | DecodeError | ChecksumMismatch | RateLimited | Malformed
  | Internal | Unauthorized | InvalidRange | Unsupported | QuotaExceeded
  | ErrorCode_Unknown u32

fun ErrorCode_to_u32 :: "ErrorCode \<Rightarrow> u32" where
  "ErrorCode_to_u32 Malformed = 400"
| "ErrorCode_to_u32 Unauthorized = 401"
| "ErrorCode_to_u32 PermissionDenied = 403"
| "ErrorCode_to_u32 NotFound = 404"
| "ErrorCode_to_u32 Unsupported = 405"
| "ErrorCode_to_u32 AlreadyExists = 409"
| "ErrorCode_to_u32 FileTooLarge = 413"
| "ErrorCode_to_u32 InvalidRange = 416"
| "ErrorCode_to_u32 NotADirectory = 420"
| "ErrorCode_to_u32 IsADirectory = 421"
| "ErrorCode_to_u32 ChecksumMismatch = 422"
| "ErrorCode_to_u32 UploadOverflow = 423"
| "ErrorCode_to_u32 UploadTruncated = 424"
| "ErrorCode_to_u32 RateLimited = 429"
| "ErrorCode_to_u32 QuotaExceeded = 430"
| "ErrorCode_to_u32 DecodeError = 431"
| "ErrorCode_to_u32 Internal = 500"
| "ErrorCode_to_u32 (ErrorCode_Unknown n) = n"

definition ErrorCode_from_u32 :: "u32 \<Rightarrow> ErrorCode" where
  "ErrorCode_from_u32 n =
     (if n = 400 then Malformed
      else if n = 401 then Unauthorized
      else if n = 403 then PermissionDenied
      else if n = 404 then NotFound
      else if n = 405 then Unsupported
      else if n = 409 then AlreadyExists
      else if n = 413 then FileTooLarge
      else if n = 416 then InvalidRange
      else if n = 420 then NotADirectory
      else if n = 421 then IsADirectory
      else if n = 422 then ChecksumMismatch
      else if n = 423 then UploadOverflow
      else if n = 424 then UploadTruncated
      else if n = 429 then RateLimited
      else if n = 430 then QuotaExceeded
      else if n = 431 then DecodeError
      else if n = 500 then Internal
      else ErrorCode_Unknown n)"

datatype ErrorClass = Class_Client | Class_Server

definition ErrorCode_class :: "ErrorCode \<Rightarrow> ErrorClass" where
  "ErrorCode_class c =
     (let d = ErrorCode_to_u32 c div 100
      in if d = 4 then Class_Client else if d = 5 then Class_Server else Class_Server)"

section \<open>Messages\<close>

datatype ErrorDetails =
    Range u64 u64 \<comment> \<open>offset, file_size\<close>
  | Upload u64 u64 \<comment> \<open>received, declared\<close>
  | RetryAfter u32 \<comment> \<open>millis\<close>

record ErrorResponse =
  er_code :: ErrorCode
  er_message :: string
  er_details :: "ErrorDetails option"

definition ErrorResponse_new :: "ErrorCode \<Rightarrow> string \<Rightarrow> ErrorResponse" where
  "ErrorResponse_new c msg = \<lparr>er_code = c, er_message = msg, er_details = None\<rparr>"

definition ErrorResponse_with_details :: "ErrorCode \<Rightarrow> string \<Rightarrow> ErrorDetails \<Rightarrow> ErrorResponse" where
  "ErrorResponse_with_details c msg d = \<lparr>er_code = c, er_message = msg, er_details = Some d\<rparr>"

record PutArgs =
  put_path :: string
  put_size :: u64
  put_mode :: u32
  put_offset :: u64
  put_hash_algorithm :: HashAlgorithm
  put_checksum :: "bytes option"
  put_no_clobber :: bool
  put_checksum_trailer :: bool
  put_encoding :: Encoding
  put_plaintext_size :: u64

datatype Request =
    Req_Ls string "string option"
  | Req_Cd string
  | Req_Pwd
  | Req_Get string u64 "u64 option" "Encoding list"
  | Req_Put PutArgs
  | Req_Mkdir string
  | Req_Rmdir string
  | Req_Rm string
  | Req_Rename string string
  | Req_Chmod string u32
  | Req_Stat string
  | Req_Quota
  | Req_Quit

record FileStat =
  st_file_type :: FileType
  st_size :: u64
  st_modified :: u64
  st_mtime_nanos :: u32
  st_uid :: u32
  st_gid :: u32
  st_mode :: u32

record DirEntry =
  de_name :: string
  de_file_type :: FileType
  de_size :: u64
  de_modified :: u64
  de_mtime_nanos :: u32
  de_uid :: u32
  de_gid :: u32
  de_mode :: u32

definition DirEntry_is_dir :: "DirEntry \<Rightarrow> bool" where
  "DirEntry_is_dir e \<longleftrightarrow> de_file_type e = FileType_Directory"

definition FileStat_is_dir :: "FileStat \<Rightarrow> bool" where
  "FileStat_is_dir s \<longleftrightarrow> st_file_type s = FileType_Directory"

record FileReady =
  fr_size :: u64
  fr_total_size :: u64
  fr_checksum_follows :: bool
  fr_hash_algorithm :: HashAlgorithm
  fr_encoding :: Encoding
  fr_plaintext_size :: u64

datatype Response =
    Resp_Ok
  | Resp_Err ErrorResponse
  | Resp_DirListing "DirEntry list" "string option"
  | Resp_Path string
  | Resp_FileStat FileStat
  | Resp_FileReady FileReady
  | Resp_QuotaInfo u64 u64 "u64 option" \<comment> \<open>used_bytes, file_count, limit_bytes\<close>

fun is_err :: "Response \<Rightarrow> bool" where
  "is_err (Resp_Err e) = True"
| "is_err r = False"

section \<open>Sanity caps\<close>

definition MAX_PATH_LEN :: nat where "MAX_PATH_LEN = 4 * 1024"
definition MAX_ERROR_MESSAGE_LEN :: nat where "MAX_ERROR_MESSAGE_LEN = 1024"
definition MAX_DIR_ENTRIES :: nat where "MAX_DIR_ENTRIES = 100000"
definition MAX_CHECKSUM_LEN :: nat where "MAX_CHECKSUM_LEN = 64"

text \<open>Directory-entry names that cannot leave their parent directory.\<close>

definition safe_entry_name :: "string \<Rightarrow> bool" where
  "safe_entry_name name =
     (if name = [] \<or> name = ''.'' \<or> name = ''..'' then False
      else \<not> (\<exists>c \<in> set name. c = CHR ''/'' \<or> c = CHR 0x5C \<or> c = CHR 0x00))"

datatype ValidationError =
    PathTooLong string nat nat \<comment> \<open>field, len, max\<close>
  | ErrorMessageTooLong nat nat
  | DirEntriesTooMany nat nat
  | ChecksumTooLong nat nat

definition check_path :: "string \<Rightarrow> string \<Rightarrow> (ValidationError, unit) result" where
  "check_path field value =
     (if length value > MAX_PATH_LEN then Inl (PathTooLong field (length value) MAX_PATH_LEN)
      else Inr ())"

fun validate_request :: "Request \<Rightarrow> (ValidationError, unit) result" where
  "validate_request (Req_Ls path cursor) =
     bindR (check_path ''path'' path)
       (\<lambda>_. case cursor of None \<Rightarrow> Inr () | Some c \<Rightarrow> check_path ''cursor'' c)"
| "validate_request (Req_Put p) =
     bindR (check_path ''path'' (put_path p))
       (\<lambda>_. case put_checksum p of
               None \<Rightarrow> Inr ()
             | Some c \<Rightarrow> (if length c > MAX_CHECKSUM_LEN
                         then Inl (ChecksumTooLong (length c) MAX_CHECKSUM_LEN) else Inr ()))"
| "validate_request (Req_Cd path) = check_path ''path'' path"
| "validate_request (Req_Get path offset len acc) = check_path ''path'' path"
| "validate_request (Req_Mkdir path) = check_path ''path'' path"
| "validate_request (Req_Rmdir path) = check_path ''path'' path"
| "validate_request (Req_Rm path) = check_path ''path'' path"
| "validate_request (Req_Chmod path mode) = check_path ''path'' path"
| "validate_request (Req_Stat path) = check_path ''path'' path"
| "validate_request (Req_Rename from to) =
     bindR (check_path ''from'' from) (\<lambda>_. check_path ''to'' to)"
| "validate_request Req_Pwd = Inr ()"
| "validate_request Req_Quit = Inr ()"
| "validate_request Req_Quota = Inr ()"

fun check_entries :: "DirEntry list \<Rightarrow> (ValidationError, unit) result" where
  "check_entries [] = Inr ()"
| "check_entries (e # es) = bindR (check_path ''DirEntry.name'' (de_name e)) (\<lambda>_. check_entries es)"

fun validate_response :: "Response \<Rightarrow> (ValidationError, unit) result" where
  "validate_response (Resp_Err e) =
     (if length (er_message e) > MAX_ERROR_MESSAGE_LEN
      then Inl (ErrorMessageTooLong (length (er_message e)) MAX_ERROR_MESSAGE_LEN) else Inr ())"
| "validate_response (Resp_DirListing entries next_cursor) =
     (if length entries > MAX_DIR_ENTRIES
      then Inl (DirEntriesTooMany (length entries) MAX_DIR_ENTRIES) else check_entries entries)"
| "validate_response (Resp_Path p) = check_path ''Path'' p"
| "validate_response Resp_Ok = Inr ()"
| "validate_response (Resp_FileStat s) = Inr ()"
| "validate_response (Resp_FileReady f) = Inr ()"
| "validate_response (Resp_QuotaInfo u c l) = Inr ()"

section \<open>Lemmas\<close>

subsection \<open>Wire values of the numeric enums\<close>

lemma FileType_u32 [simp]: "FileType_to_u32 (FileType_from_u32 n) = n"
  by (simp add: FileType_from_u32_def)

lemma HashAlgorithm_u32 [simp]: "HashAlgorithm_to_u32 (HashAlgorithm_from_u32 n) = n"
  by (simp add: HashAlgorithm_from_u32_def)

lemma Encoding_u32 [simp]: "Encoding_to_u32 (Encoding_from_u32 n) = n"
  by (simp add: Encoding_from_u32_def)

lemma ErrorCode_u32 [simp]: "ErrorCode_to_u32 (ErrorCode_from_u32 n) = n"
  by (simp add: ErrorCode_from_u32_def)

text \<open>
  A value is canonical when it is the one its number decodes to: \<open>Unknown(n)\<close> only for numbers
  that have no named variant.
\<close>

definition FileType_canonical :: "FileType \<Rightarrow> bool" where
  "FileType_canonical t \<longleftrightarrow> (\<forall>n. t = FileType_Unknown n \<longrightarrow> n \<notin> {0, 1, 2, 3})"

definition HashAlgorithm_canonical :: "HashAlgorithm \<Rightarrow> bool" where
  "HashAlgorithm_canonical t \<longleftrightarrow> t \<noteq> HashAlgorithm_Unknown 0"

definition Encoding_canonical :: "Encoding \<Rightarrow> bool" where
  "Encoding_canonical t \<longleftrightarrow> t \<noteq> Encoding_Unknown 0 \<and> t \<noteq> Encoding_Unknown 1"

definition ErrorCode_canonical :: "ErrorCode \<Rightarrow> bool" where
  "ErrorCode_canonical c \<longleftrightarrow>
     (\<forall>n. c = ErrorCode_Unknown n \<longrightarrow>
        n \<notin> {400, 401, 403, 404, 405, 409, 413, 416, 420, 421, 422, 423, 424, 429, 430, 431, 500})"

lemma FileType_from_to: "FileType_from_u32 (FileType_to_u32 t) = t \<longleftrightarrow> FileType_canonical t"
  by (cases t) (auto simp: FileType_from_u32_def FileType_canonical_def)

lemma HashAlgorithm_from_to: "HashAlgorithm_from_u32 (HashAlgorithm_to_u32 t) = t \<longleftrightarrow> HashAlgorithm_canonical t"
  by (cases t) (auto simp: HashAlgorithm_from_u32_def HashAlgorithm_canonical_def)

lemma Encoding_from_to: "Encoding_from_u32 (Encoding_to_u32 t) = t \<longleftrightarrow> Encoding_canonical t"
  by (cases t) (auto simp: Encoding_from_u32_def Encoding_canonical_def)

lemma ErrorCode_from_to: "ErrorCode_from_u32 (ErrorCode_to_u32 c) = c \<longleftrightarrow> ErrorCode_canonical c"
  by (cases c) (auto simp: ErrorCode_from_u32_def ErrorCode_canonical_def)

lemmas enum_canonical = FileType_from_to HashAlgorithm_from_to Encoding_from_to ErrorCode_from_to

subsection \<open>Field caps\<close>

lemma check_path_ok [simp]: "check_path f v = Inr u \<longleftrightarrow> length v \<le> MAX_PATH_LEN"
  by (auto simp: check_path_def)

lemma check_entries_ok: "check_entries es = Inr u \<longleftrightarrow> (\<forall>e \<in> set es. length (de_name e) \<le> MAX_PATH_LEN)"
  by (induction es) (auto simp: bindR_Inr_conv)

text \<open>The strings of a request that are bounded like a path.\<close>

fun request_paths :: "Request \<Rightarrow> string list" where
  "request_paths (Req_Ls p c) = p # (case c of None \<Rightarrow> [] | Some x \<Rightarrow> [x])"
| "request_paths (Req_Cd p) = [p]"
| "request_paths Req_Pwd = []"
| "request_paths (Req_Get p a b c) = [p]"
| "request_paths (Req_Put a) = [put_path a]"
| "request_paths (Req_Mkdir p) = [p]"
| "request_paths (Req_Rmdir p) = [p]"
| "request_paths (Req_Rm p) = [p]"
| "request_paths (Req_Rename p q) = [p, q]"
| "request_paths (Req_Chmod p m) = [p]"
| "request_paths (Req_Stat p) = [p]"
| "request_paths Req_Quota = []"
| "request_paths Req_Quit = []"

fun request_checksum :: "Request \<Rightarrow> bytes" where
  "request_checksum (Req_Put a) = opt_or (put_checksum a) []"
| "request_checksum r = []"

lemma validate_request_ok:
  "validate_request r = Inr () \<longleftrightarrow>
     (\<forall>s \<in> set (request_paths r). length s \<le> MAX_PATH_LEN) \<and>
     length (request_checksum r) \<le> MAX_CHECKSUM_LEN"
  by (cases r) (auto simp: bindR_Inr_conv split: option.splits if_splits)

lemma validate_response_ok:
  "validate_response r = Inr () \<longleftrightarrow>
     (case r of
        Resp_Err e \<Rightarrow> length (er_message e) \<le> MAX_ERROR_MESSAGE_LEN
      | Resp_DirListing es c \<Rightarrow>
          length es \<le> MAX_DIR_ENTRIES \<and> (\<forall>e \<in> set es. length (de_name e) \<le> MAX_PATH_LEN)
      | Resp_Path p \<Rightarrow> length p \<le> MAX_PATH_LEN
      | _ \<Rightarrow> True)"
  by (cases r) (auto simp: check_entries_ok split: if_splits)

end
