(* ===== verification/Wire.thy ===== *)
theory Wire
  imports Protocol
begin

text \<open>
  The byte layout of the control messages. \<open>protocol.rs\<close> derives serde for \<open>Request\<close>,
  \<open>Response\<close>, \<open>ErrorDetails\<close> and the structs, and hand-writes it for the numeric enums; the
  normative statement of the bytes this produces is \<open>spec/wire-format.md\<close>, which this theory
  follows: fixed-width little-endian integers, one tag byte for \<open>bool\<close> and \<open>Option\<close>, a \<open>u64\<close>
  length before strings and sequences, a \<open>u32\<close> discriminant before the fields of a variant.

  A decoder returns the value and the bytes it left, or \<open>None\<close> when it rejects the input. The
  locale \<open>codec\<close> is the contract between an encoder and its decoder: decoding undoes encoding
  whatever follows, and a decoder accepts nothing but encodings of admissible values. Every
  primitive and every message type is an interpretation of it.
\<close>

type_synonym 'a decoder = "bytes \<Rightarrow> ('a \<times> bytes) option"

section \<open>The contract of a codec\<close>

locale codec =
  fixes enc :: "'a \<Rightarrow> bytes"
    and dec :: "'a decoder"
    and ok :: "'a \<Rightarrow> bool"
  assumes dec_enc: "ok x \<Longrightarrow> dec (enc x @ r) = Some (x, r)"
    and enc_dec: "dec bs = Some (x, r) \<Longrightarrow> bs = enc x @ r \<and> ok x"
begin

lemma dec_enc_exact: "ok x \<Longrightarrow> dec (enc x) = Some (x, [])"
  using dec_enc [of x "[]"] by simp

lemma dec_iff: "dec bs = Some (x, r) \<longleftrightarrow> ok x \<and> bs = enc x @ r"
  using dec_enc enc_dec by blast

lemma prefix_free: "ok x \<Longrightarrow> ok y \<Longrightarrow> enc x @ r = enc y @ s \<Longrightarrow> x = y \<and> r = s"
  using dec_enc by (metis option.inject prod.inject)

lemma dec_extends: "dec bs = Some (x, r) \<Longrightarrow> dec (bs @ t) = Some (x, r @ t)"
  using dec_enc enc_dec by (metis append.assoc)

end

section \<open>Primitives\<close>

definition dec_ret :: "'a \<Rightarrow> 'a decoder" where
  "dec_ret x bs = Some (x, bs)"

definition dec_bind :: "'a decoder \<Rightarrow> ('a \<Rightarrow> 'b decoder) \<Rightarrow> 'b decoder" where
  "dec_bind d f bs = (case d bs of None \<Rightarrow> None | Some (x, r) \<Rightarrow> f x r)"

definition dec_fail :: "'a decoder" where
  "dec_fail bs = None"

definition dec_take :: "nat \<Rightarrow> bytes decoder" where
  "dec_take n bs = (if length bs < n then None else Some (take n bs, drop n bs))"

definition enc_u8 :: "byte \<Rightarrow> bytes" where
  "enc_u8 b = [b]"

definition dec_u8 :: "byte decoder" where
  "dec_u8 bs = (case bs of [] \<Rightarrow> None | b # r \<Rightarrow> Some (b, r))"

definition enc_u32 :: "u32 \<Rightarrow> bytes" where
  "enc_u32 w = le_bytes 4 (unat w)"

definition dec_u32 :: "u32 decoder" where
  "dec_u32 = dec_bind (dec_take 4) (\<lambda>bs. dec_ret (of_nat (of_le_bytes bs)))"

definition enc_u64 :: "u64 \<Rightarrow> bytes" where
  "enc_u64 w = le_bytes 8 (unat w)"

definition dec_u64 :: "u64 decoder" where
  "dec_u64 = dec_bind (dec_take 8) (\<lambda>bs. dec_ret (of_nat (of_le_bytes bs)))"

definition enc_bool :: "bool \<Rightarrow> bytes" where
  "enc_bool b = enc_u8 (if b then 1 else 0)"

definition dec_bool :: "bool decoder" where
  "dec_bool = dec_bind dec_u8
     (\<lambda>t. if t = 0 then dec_ret False else if t = 1 then dec_ret True else dec_fail)"

definition enc_option :: "('a \<Rightarrow> bytes) \<Rightarrow> 'a option \<Rightarrow> bytes" where
  "enc_option e m = (case m of None \<Rightarrow> enc_u8 0 | Some x \<Rightarrow> enc_u8 1 @ e x)"

definition dec_option :: "'a decoder \<Rightarrow> 'a option decoder" where
  "dec_option d = dec_bind dec_u8
     (\<lambda>t. if t = 0 then dec_ret None
          else if t = 1 then dec_bind d (\<lambda>x. dec_ret (Some x)) else dec_fail)"

definition enc_len :: "nat \<Rightarrow> bytes" where
  "enc_len n = le_bytes 8 n"

definition dec_len :: "nat decoder" where
  "dec_len = dec_bind (dec_take 8) (\<lambda>bs. dec_ret (of_le_bytes bs))"

definition enc_string :: "string \<Rightarrow> bytes" where
  "enc_string s = enc_len (length s) @ string_bytes s"

definition dec_string :: "string decoder" where
  "dec_string = dec_bind dec_len (\<lambda>n. dec_bind (dec_take n)
     (\<lambda>bs. if utf8_valid bs then dec_ret (bytes_string bs) else dec_fail))"

definition enc_seq :: "('a \<Rightarrow> bytes) \<Rightarrow> 'a list \<Rightarrow> bytes" where
  "enc_seq e xs = enc_len (length xs) @ concat (map e xs)"

primrec dec_many :: "'a decoder \<Rightarrow> nat \<Rightarrow> 'a list decoder" where
  "dec_many d 0 bs = dec_ret [] bs"
| "dec_many d (Suc n) bs = dec_bind d (\<lambda>x. dec_bind (dec_many d n) (\<lambda>xs. dec_ret (x # xs))) bs"

definition dec_seq :: "'a decoder \<Rightarrow> 'a list decoder" where
  "dec_seq d = dec_bind dec_len (dec_many d)"

subsection \<open>Decoder algebra\<close>

lemma dec_bind_Some: "dec_bind d f bs = Some y \<longleftrightarrow> (\<exists>x r. d bs = Some (x, r) \<and> f x r = Some y)"
  by (auto simp: dec_bind_def split: option.splits)

lemma dec_bind_eval: "d bs = Some (x, r) \<Longrightarrow> dec_bind d f bs = f x r"
  by (simp add: dec_bind_def)

lemma dec_ret_Some [simp]: "dec_ret x bs = Some (y, r) \<longleftrightarrow> y = x \<and> r = bs"
  by (auto simp: dec_ret_def)

lemma dec_fail_Some [simp]: "dec_fail bs \<noteq> Some y"
  by (simp add: dec_fail_def)

lemma dec_take_append: "length bs = n \<Longrightarrow> dec_take n (bs @ r) = Some (bs, r)"
  by (simp add: dec_take_def)

lemma dec_take_Some: "dec_take n bs = Some (x, r) \<longleftrightarrow> bs = x @ r \<and> length x = n"
  by (auto simp: dec_take_def)

text \<open>An admissible string: well-formed UTF-8 whose length fits the length prefix.\<close>

definition str_ok :: "string \<Rightarrow> bool" where
  "str_ok s \<longleftrightarrow> utf8_string s \<and> length s < 2 ^ 64"

definition seq_ok :: "('a \<Rightarrow> bool) \<Rightarrow> 'a list \<Rightarrow> bool" where
  "seq_ok P xs \<longleftrightarrow> length xs < 2 ^ 64 \<and> list_all P xs"

lemma string_bytes_inverse [simp]: "string_bytes (bytes_string bs) = bs"
  by (induction bs) (simp_all add: string_bytes_def bytes_string_def unat_of_nat)

lemma length_bytes_string [simp]: "length (bytes_string bs) = length bs"
  by (simp add: bytes_string_def)

interpretation u8_codec: codec enc_u8 dec_u8 "\<lambda>_. True"
  by unfold_locales (auto simp: enc_u8_def dec_u8_def split: list.splits)

interpretation u32_codec: codec enc_u32 dec_u32 "\<lambda>_. True"
proof unfold_locales
  fix x :: u32 and r
  show "dec_u32 (enc_u32 x @ r) = Some (x, r)"
    by (simp add: dec_u32_def enc_u32_def dec_bind_def dec_take_append)
next
  fix bs r and x :: u32
  assume "dec_u32 bs = Some (x, r)"
  then obtain ys where ys: "bs = ys @ r" "length ys = 4" "x = of_nat (of_le_bytes ys)"
    by (auto simp: dec_u32_def dec_bind_Some dec_take_Some)
  from of_le_bytes_bound [of ys] have "unat x = of_le_bytes ys"
    using ys by (simp add: unat_of_nat)
  then have "enc_u32 x = ys"
    using le_bytes_of_le_bytes [of ys] ys(2) by (simp add: enc_u32_def)
  then show "bs = enc_u32 x @ r \<and> True" using ys(1) by simp
qed

interpretation u64_codec: codec enc_u64 dec_u64 "\<lambda>_. True"
proof unfold_locales
  fix x :: u64 and r
  show "dec_u64 (enc_u64 x @ r) = Some (x, r)"
    by (simp add: dec_u64_def enc_u64_def dec_bind_def dec_take_append)
next
  fix bs r and x :: u64
  assume "dec_u64 bs = Some (x, r)"
  then obtain ys where ys: "bs = ys @ r" "length ys = 8" "x = of_nat (of_le_bytes ys)"
    by (auto simp: dec_u64_def dec_bind_Some dec_take_Some)
  from of_le_bytes_bound [of ys] have "unat x = of_le_bytes ys"
    using ys by (simp add: unat_of_nat)
  then have "enc_u64 x = ys"
    using le_bytes_of_le_bytes [of ys] ys(2) by (simp add: enc_u64_def)
  then show "bs = enc_u64 x @ r \<and> True" using ys(1) by simp
qed

interpretation len_codec: codec enc_len dec_len "\<lambda>n. n < 2 ^ 64"
proof unfold_locales
  fix n :: nat and r
  assume "n < 2 ^ 64"
  then show "dec_len (enc_len n @ r) = Some (n, r)"
    by (simp add: dec_len_def enc_len_def dec_bind_def dec_take_append)
next
  fix bs r n
  assume "dec_len bs = Some (n, r)"
  then obtain ys where ys: "bs = ys @ r" "length ys = 8" "n = of_le_bytes ys"
    by (auto simp: dec_len_def dec_bind_Some dec_take_Some)
  then show "bs = enc_len n @ r \<and> n < 2 ^ 64"
    using le_bytes_of_le_bytes [of ys] of_le_bytes_bound [of ys] by (simp add: enc_len_def)
qed

interpretation bool_codec: codec enc_bool dec_bool "\<lambda>_. True"
proof unfold_locales
  fix x r
  show "dec_bool (enc_bool x @ r) = Some (x, r)"
    by (simp add: enc_bool_def dec_bool_def dec_bind_def u8_codec.dec_enc)
next
  fix bs x r
  assume "dec_bool bs = Some (x, r)"
  then show "bs = enc_bool x @ r \<and> True"
    by (auto simp: enc_bool_def dec_bool_def dec_bind_Some u8_codec.dec_iff split: if_splits)
qed

interpretation string_codec: codec enc_string dec_string str_ok
proof unfold_locales
  fix s r
  assume "str_ok s"
  then show "dec_string (enc_string s @ r) = Some (s, r)"
    by (simp add: str_ok_def utf8_string_def enc_string_def dec_string_def
        dec_bind_def len_codec.dec_enc dec_bind_def dec_take_append)
next
  fix bs s r
  assume "dec_string bs = Some (s, r)"
  then show "bs = enc_string s @ r \<and> str_ok s"
    by (auto simp: dec_string_def dec_bind_Some dec_take_Some len_codec.dec_iff enc_string_def
        str_ok_def utf8_string_def split: if_splits)
qed

subsection \<open>Options and sequences of a codec\<close>

context codec
begin

lemma option_codec: "codec (enc_option enc) (dec_option dec) (pred_option ok)"
proof
  fix m r
  assume "pred_option ok m"
  then show "dec_option dec (enc_option enc m @ r) = Some (m, r)"
    by (cases m) (simp_all add: dec_option_def enc_option_def dec_bind_def u8_codec.dec_enc
        dec_bind_def dec_enc)
next
  fix bs m r
  assume "dec_option dec bs = Some (m, r)"
  then show "bs = enc_option enc m @ r \<and> pred_option ok m"
    by (auto simp: dec_option_def dec_bind_Some u8_codec.dec_iff dec_iff enc_option_def split: if_splits)
qed

lemma many_enc: "list_all ok xs \<Longrightarrow> dec_many dec (length xs) (concat (map enc xs) @ r) = Some (xs, r)"
  by (induction xs) (simp_all add: dec_bind_def dec_enc)

lemma enc_many:
  "dec_many dec n bs = Some (xs, r) \<Longrightarrow> length xs = n \<and> list_all ok xs \<and> bs = concat (map enc xs) @ r"
  by (induction n arbitrary: bs xs) (fastforce simp: dec_bind_Some dec_iff)+

lemma seq_codec: "codec (enc_seq enc) (dec_seq dec) (seq_ok ok)"
proof
  fix xs r
  assume "seq_ok ok xs"
  then show "dec_seq dec (enc_seq enc xs @ r) = Some (xs, r)"
    by (simp add: seq_ok_def dec_seq_def enc_seq_def dec_bind_def len_codec.dec_enc many_enc)
next
  fix bs xs r
  assume "dec_seq dec bs = Some (xs, r)"
  then show "bs = enc_seq enc xs @ r \<and> seq_ok ok xs"
    by (auto simp: dec_seq_def dec_bind_Some len_codec.dec_iff enc_seq_def seq_ok_def dest!: enc_many)
qed

end

interpretation opt_string_codec: codec "enc_option enc_string" "dec_option dec_string" "pred_option str_ok"
  by (rule string_codec.option_codec)

interpretation opt_u64_codec: codec "enc_option enc_u64" "dec_option dec_u64" "pred_option (\<lambda>_. True)"
  by (rule u64_codec.option_codec)

interpretation bytes_codec: codec "enc_seq enc_u8" "dec_seq dec_u8" "seq_ok (\<lambda>_. True)"
  by (rule u8_codec.seq_codec)

interpretation opt_bytes_codec:
  codec "enc_option (enc_seq enc_u8)" "dec_option (dec_seq dec_u8)" "pred_option (seq_ok (\<lambda>_. True))"
  by (rule bytes_codec.option_codec)

section \<open>Numeric enums\<close>

definition enc_FileType :: "FileType \<Rightarrow> bytes" where
  "enc_FileType t = enc_u32 (FileType_to_u32 t)"

definition dec_FileType :: "FileType decoder" where
  "dec_FileType = dec_bind dec_u32 (\<lambda>n. dec_ret (FileType_from_u32 n))"

definition enc_HashAlgorithm :: "HashAlgorithm \<Rightarrow> bytes" where
  "enc_HashAlgorithm t = enc_u32 (HashAlgorithm_to_u32 t)"

definition dec_HashAlgorithm :: "HashAlgorithm decoder" where
  "dec_HashAlgorithm = dec_bind dec_u32 (\<lambda>n. dec_ret (HashAlgorithm_from_u32 n))"

definition enc_Encoding :: "Encoding \<Rightarrow> bytes" where
  "enc_Encoding t = enc_u32 (Encoding_to_u32 t)"

definition dec_Encoding :: "Encoding decoder" where
  "dec_Encoding = dec_bind dec_u32 (\<lambda>n. dec_ret (Encoding_from_u32 n))"

definition enc_ErrorCode :: "ErrorCode \<Rightarrow> bytes" where
  "enc_ErrorCode t = enc_u32 (ErrorCode_to_u32 t)"

definition dec_ErrorCode :: "ErrorCode decoder" where
  "dec_ErrorCode = dec_bind dec_u32 (\<lambda>n. dec_ret (ErrorCode_from_u32 n))"

lemmas enum_codec_defs = enc_FileType_def dec_FileType_def enc_HashAlgorithm_def dec_HashAlgorithm_def
  enc_Encoding_def dec_Encoding_def enc_ErrorCode_def dec_ErrorCode_def

interpretation FileType_codec: codec enc_FileType dec_FileType FileType_canonical
  by unfold_locales
    (auto simp: enum_codec_defs dec_bind_Some u32_codec.dec_iff
      simp flip: enum_canonical)

interpretation HashAlgorithm_codec: codec enc_HashAlgorithm dec_HashAlgorithm HashAlgorithm_canonical
  by unfold_locales
    (auto simp: enum_codec_defs dec_bind_Some u32_codec.dec_iff
      simp flip: enum_canonical)

interpretation Encoding_codec: codec enc_Encoding dec_Encoding Encoding_canonical
  by unfold_locales
    (auto simp: enum_codec_defs dec_bind_Some u32_codec.dec_iff
      simp flip: enum_canonical)

interpretation ErrorCode_codec: codec enc_ErrorCode dec_ErrorCode ErrorCode_canonical
  by unfold_locales
    (auto simp: enum_codec_defs dec_bind_Some u32_codec.dec_iff
      simp flip: enum_canonical)

interpretation encodings_codec:
  codec "enc_seq enc_Encoding" "dec_seq dec_Encoding" "seq_ok Encoding_canonical"
  by (rule Encoding_codec.seq_codec)

section \<open>Structs\<close>

definition enc_DirEntry :: "DirEntry \<Rightarrow> bytes" where
  "enc_DirEntry e =
     enc_string (de_name e) @ enc_FileType (de_file_type e) @ enc_u64 (de_size e) @
     enc_u64 (de_modified e) @ enc_u32 (de_mtime_nanos e) @ enc_u32 (de_uid e) @
     enc_u32 (de_gid e) @ enc_u32 (de_mode e)"

definition dec_DirEntry :: "DirEntry decoder" where
  "dec_DirEntry =
     dec_bind dec_string (\<lambda>name. dec_bind dec_FileType (\<lambda>ft. dec_bind dec_u64 (\<lambda>size.
     dec_bind dec_u64 (\<lambda>modified. dec_bind dec_u32 (\<lambda>nanos. dec_bind dec_u32 (\<lambda>uid.
     dec_bind dec_u32 (\<lambda>gid. dec_bind dec_u32 (\<lambda>mode.
     dec_ret \<lparr>de_name = name, de_file_type = ft, de_size = size, de_modified = modified,
       de_mtime_nanos = nanos, de_uid = uid, de_gid = gid, de_mode = mode\<rparr>))))))))"

definition enc_FileStat :: "FileStat \<Rightarrow> bytes" where
  "enc_FileStat e =
     enc_FileType (st_file_type e) @ enc_u64 (st_size e) @
     enc_u64 (st_modified e) @ enc_u32 (st_mtime_nanos e) @ enc_u32 (st_uid e) @
     enc_u32 (st_gid e) @ enc_u32 (st_mode e)"

definition dec_FileStat :: "FileStat decoder" where
  "dec_FileStat =
     dec_bind dec_FileType (\<lambda>ft. dec_bind dec_u64 (\<lambda>size.
     dec_bind dec_u64 (\<lambda>modified. dec_bind dec_u32 (\<lambda>nanos. dec_bind dec_u32 (\<lambda>uid.
     dec_bind dec_u32 (\<lambda>gid. dec_bind dec_u32 (\<lambda>mode.
     dec_ret \<lparr>st_file_type = ft, st_size = size, st_modified = modified,
       st_mtime_nanos = nanos, st_uid = uid, st_gid = gid, st_mode = mode\<rparr>)))))))"

definition enc_ErrorDetails :: "ErrorDetails \<Rightarrow> bytes" where
  "enc_ErrorDetails d = (case d of
       Range off fsz \<Rightarrow> enc_u32 0 @ enc_u64 off @ enc_u64 fsz
     | Upload rcv decl \<Rightarrow> enc_u32 1 @ enc_u64 rcv @ enc_u64 decl
     | RetryAfter ms \<Rightarrow> enc_u32 2 @ enc_u32 ms)"

definition dec_ErrorDetails :: "ErrorDetails decoder" where
  "dec_ErrorDetails = dec_bind dec_u32 (\<lambda>t.
     if t = 0 then dec_bind dec_u64 (\<lambda>a. dec_bind dec_u64 (\<lambda>b. dec_ret (Range a b)))
     else if t = 1 then dec_bind dec_u64 (\<lambda>a. dec_bind dec_u64 (\<lambda>b. dec_ret (Upload a b)))
     else if t = 2 then dec_bind dec_u32 (\<lambda>a. dec_ret (RetryAfter a))
     else dec_fail)"

definition enc_ErrorResponse :: "ErrorResponse \<Rightarrow> bytes" where
  "enc_ErrorResponse e =
     enc_ErrorCode (er_code e) @ enc_string (er_message e) @ enc_option enc_ErrorDetails (er_details e)"

definition dec_ErrorResponse :: "ErrorResponse decoder" where
  "dec_ErrorResponse =
     dec_bind dec_ErrorCode (\<lambda>c. dec_bind dec_string (\<lambda>m.
     dec_bind (dec_option dec_ErrorDetails) (\<lambda>d.
     dec_ret \<lparr>er_code = c, er_message = m, er_details = d\<rparr>)))"

definition DirEntry_ok :: "DirEntry \<Rightarrow> bool" where
  "DirEntry_ok e \<longleftrightarrow> str_ok (de_name e) \<and> FileType_canonical (de_file_type e)"

definition FileStat_ok :: "FileStat \<Rightarrow> bool" where
  "FileStat_ok e \<longleftrightarrow> FileType_canonical (st_file_type e)"

definition ErrorResponse_ok :: "ErrorResponse \<Rightarrow> bool" where
  "ErrorResponse_ok e \<longleftrightarrow> ErrorCode_canonical (er_code e) \<and> str_ok (er_message e)"

lemmas prim_dec = u8_codec.dec_enc u32_codec.dec_enc u64_codec.dec_enc bool_codec.dec_enc
  string_codec.dec_enc opt_string_codec.dec_enc opt_u64_codec.dec_enc bytes_codec.dec_enc
  opt_bytes_codec.dec_enc FileType_codec.dec_enc HashAlgorithm_codec.dec_enc
  Encoding_codec.dec_enc ErrorCode_codec.dec_enc encodings_codec.dec_enc

lemmas prim_iff = u8_codec.dec_iff u32_codec.dec_iff u64_codec.dec_iff bool_codec.dec_iff
  string_codec.dec_iff opt_string_codec.dec_iff opt_u64_codec.dec_iff bytes_codec.dec_iff
  opt_bytes_codec.dec_iff FileType_codec.dec_iff HashAlgorithm_codec.dec_iff
  Encoding_codec.dec_iff ErrorCode_codec.dec_iff encodings_codec.dec_iff

lemma dec_ret_apply [simp]: "dec_ret x bs = Some (x, bs)"
  by (simp add: dec_ret_def)

interpretation DirEntry_codec: codec enc_DirEntry dec_DirEntry DirEntry_ok
proof unfold_locales
  fix e r
  assume "DirEntry_ok e"
  then show "dec_DirEntry (enc_DirEntry e @ r) = Some (e, r)"
    by (simp add: DirEntry_ok_def enc_DirEntry_def dec_DirEntry_def dec_bind_def prim_dec)
next
  fix bs e r
  assume "dec_DirEntry bs = Some (e, r)"
  then show "bs = enc_DirEntry e @ r \<and> DirEntry_ok e"
    by (auto simp: dec_DirEntry_def dec_bind_Some prim_iff enc_DirEntry_def DirEntry_ok_def)
qed

interpretation FileStat_codec: codec enc_FileStat dec_FileStat FileStat_ok
proof unfold_locales
  fix e r
  assume "FileStat_ok e"
  then show "dec_FileStat (enc_FileStat e @ r) = Some (e, r)"
    by (simp add: FileStat_ok_def enc_FileStat_def dec_FileStat_def dec_bind_def prim_dec)
next
  fix bs e r
  assume "dec_FileStat bs = Some (e, r)"
  then show "bs = enc_FileStat e @ r \<and> FileStat_ok e"
    by (auto simp: dec_FileStat_def dec_bind_Some prim_iff enc_FileStat_def FileStat_ok_def)
qed

interpretation ErrorDetails_codec: codec enc_ErrorDetails dec_ErrorDetails "\<lambda>_. True"
proof unfold_locales
  fix d r
  show "dec_ErrorDetails (enc_ErrorDetails d @ r) = Some (d, r)"
    by (cases d) (simp_all add: enc_ErrorDetails_def dec_ErrorDetails_def dec_bind_def prim_dec)
next
  fix bs d r
  assume "dec_ErrorDetails bs = Some (d, r)"
  then show "bs = enc_ErrorDetails d @ r \<and> True"
    by (auto simp: dec_ErrorDetails_def dec_bind_Some prim_iff enc_ErrorDetails_def split: if_splits)
qed

interpretation opt_ErrorDetails_codec:
  codec "enc_option enc_ErrorDetails" "dec_option dec_ErrorDetails" "pred_option (\<lambda>_. True)"
  by (rule ErrorDetails_codec.option_codec)

lemma pred_option_True [simp]: "pred_option (\<lambda>_. True) m"
  by (cases m) auto

interpretation ErrorResponse_codec: codec enc_ErrorResponse dec_ErrorResponse ErrorResponse_ok
proof unfold_locales
  fix e r
  assume "ErrorResponse_ok e"
  then show "dec_ErrorResponse (enc_ErrorResponse e @ r) = Some (e, r)"
    by (simp add: ErrorResponse_ok_def enc_ErrorResponse_def dec_ErrorResponse_def dec_bind_def
        prim_dec opt_ErrorDetails_codec.dec_enc)
next
  fix bs e r
  assume "dec_ErrorResponse bs = Some (e, r)"
  then show "bs = enc_ErrorResponse e @ r \<and> ErrorResponse_ok e"
    by (auto simp: dec_ErrorResponse_def dec_bind_Some prim_iff opt_ErrorDetails_codec.dec_iff
        enc_ErrorResponse_def ErrorResponse_ok_def)
qed

interpretation entries_codec: codec "enc_seq enc_DirEntry" "dec_seq dec_DirEntry" "seq_ok DirEntry_ok"
  by (rule DirEntry_codec.seq_codec)

section \<open>Requests and responses\<close>

definition enc_PutArgs :: "PutArgs \<Rightarrow> bytes" where
  "enc_PutArgs p =
     enc_string (put_path p) @ enc_u64 (put_size p) @ enc_u32 (put_mode p) @ enc_u64 (put_offset p) @
     enc_HashAlgorithm (put_hash_algorithm p) @ enc_option (enc_seq enc_u8) (put_checksum p) @
     enc_bool (put_no_clobber p) @ enc_bool (put_checksum_trailer p) @
     enc_Encoding (put_encoding p) @ enc_u64 (put_plaintext_size p)"

definition dec_PutArgs :: "PutArgs decoder" where
  "dec_PutArgs =
     dec_bind dec_string (\<lambda>path. dec_bind dec_u64 (\<lambda>size. dec_bind dec_u32 (\<lambda>mode.
     dec_bind dec_u64 (\<lambda>offset. dec_bind dec_HashAlgorithm (\<lambda>h.
     dec_bind (dec_option (dec_seq dec_u8)) (\<lambda>ck. dec_bind dec_bool (\<lambda>nc. dec_bind dec_bool (\<lambda>tr.
     dec_bind dec_Encoding (\<lambda>e. dec_bind dec_u64 (\<lambda>ps.
     dec_ret \<lparr>put_path = path, put_size = size, put_mode = mode, put_offset = offset,
       put_hash_algorithm = h, put_checksum = ck, put_no_clobber = nc, put_checksum_trailer = tr,
       put_encoding = e, put_plaintext_size = ps\<rparr>))))))))))"

definition PutArgs_ok :: "PutArgs \<Rightarrow> bool" where
  "PutArgs_ok p \<longleftrightarrow> str_ok (put_path p) \<and> HashAlgorithm_canonical (put_hash_algorithm p) \<and>
     pred_option (seq_ok (\<lambda>_. True)) (put_checksum p) \<and> Encoding_canonical (put_encoding p)"

interpretation PutArgs_codec: codec enc_PutArgs dec_PutArgs PutArgs_ok
proof unfold_locales
  fix e r
  assume "PutArgs_ok e"
  then show "dec_PutArgs (enc_PutArgs e @ r) = Some (e, r)"
    by (simp add: PutArgs_ok_def enc_PutArgs_def dec_PutArgs_def dec_bind_def prim_dec)
next
  fix bs e r
  assume "dec_PutArgs bs = Some (e, r)"
  then show "bs = enc_PutArgs e @ r \<and> PutArgs_ok e"
    by (auto simp: dec_PutArgs_def dec_bind_Some prim_iff enc_PutArgs_def PutArgs_ok_def)
qed

fun enc_Request :: "Request \<Rightarrow> bytes" where
  "enc_Request (Req_Ls path cursor) = enc_u32 0 @ enc_string path @ enc_option enc_string cursor"
| "enc_Request (Req_Cd path) = enc_u32 1 @ enc_string path"
| "enc_Request Req_Pwd = enc_u32 2"
| "enc_Request (Req_Get path offset len acc) =
     enc_u32 3 @ enc_string path @ enc_u64 offset @ enc_option enc_u64 len @ enc_seq enc_Encoding acc"
| "enc_Request (Req_Put p) = enc_u32 4 @ enc_PutArgs p"
| "enc_Request (Req_Mkdir path) = enc_u32 5 @ enc_string path"
| "enc_Request (Req_Rmdir path) = enc_u32 6 @ enc_string path"
| "enc_Request (Req_Rm path) = enc_u32 7 @ enc_string path"
| "enc_Request (Req_Rename from to) = enc_u32 8 @ enc_string from @ enc_string to"
| "enc_Request (Req_Chmod path mode) = enc_u32 9 @ enc_string path @ enc_u32 mode"
| "enc_Request (Req_Stat path) = enc_u32 10 @ enc_string path"
| "enc_Request Req_Quota = enc_u32 11"
| "enc_Request Req_Quit = enc_u32 12"

definition dec_Request :: "Request decoder" where
  "dec_Request = dec_bind dec_u32 (\<lambda>t.
     if t = 0 then dec_bind dec_string (\<lambda>p. dec_bind (dec_option dec_string) (\<lambda>c. dec_ret (Req_Ls p c)))
     else if t = 1 then dec_bind dec_string (\<lambda>p. dec_ret (Req_Cd p))
     else if t = 2 then dec_ret Req_Pwd
     else if t = 3 then dec_bind dec_string (\<lambda>p. dec_bind dec_u64 (\<lambda>off.
            dec_bind (dec_option dec_u64) (\<lambda>len. dec_bind (dec_seq dec_Encoding) (\<lambda>acc.
            dec_ret (Req_Get p off len acc)))))
     else if t = 4 then dec_bind dec_PutArgs (\<lambda>a. dec_ret (Req_Put a))
     else if t = 5 then dec_bind dec_string (\<lambda>p. dec_ret (Req_Mkdir p))
     else if t = 6 then dec_bind dec_string (\<lambda>p. dec_ret (Req_Rmdir p))
     else if t = 7 then dec_bind dec_string (\<lambda>p. dec_ret (Req_Rm p))
     else if t = 8 then dec_bind dec_string (\<lambda>p. dec_bind dec_string (\<lambda>q. dec_ret (Req_Rename p q)))
     else if t = 9 then dec_bind dec_string (\<lambda>p. dec_bind dec_u32 (\<lambda>m. dec_ret (Req_Chmod p m)))
     else if t = 10 then dec_bind dec_string (\<lambda>p. dec_ret (Req_Stat p))
     else if t = 11 then dec_ret Req_Quota
     else if t = 12 then dec_ret Req_Quit
     else dec_fail)"

text \<open>A request a Rust program can hold: its strings are UTF-8, its enums canonical.\<close>

fun Request_ok :: "Request \<Rightarrow> bool" where
  "Request_ok (Req_Put a) = PutArgs_ok a"
| "Request_ok (Req_Get p off len acc) = (str_ok p \<and> seq_ok Encoding_canonical acc)"
| "Request_ok r = list_all str_ok (request_paths r)"

lemma dec_enc_Request: "Request_ok q \<Longrightarrow> dec_Request (enc_Request q @ r) = Some (q, r)"
  by (cases q)
    (auto simp: dec_Request_def dec_bind_def prim_dec PutArgs_codec.dec_enc split: option.splits)

lemma enc_dec_Request: "dec_Request bs = Some (q, r) \<Longrightarrow> bs = enc_Request q @ r \<and> Request_ok q"
  by (auto simp: dec_Request_def dec_bind_Some prim_iff PutArgs_codec.dec_iff
      split: if_splits option.splits)

interpretation Request_codec: codec enc_Request dec_Request Request_ok
  by unfold_locales (rule dec_enc_Request, assumption, rule enc_dec_Request, assumption)

definition enc_FileReady :: "FileReady \<Rightarrow> bytes" where
  "enc_FileReady f =
     enc_u64 (fr_size f) @ enc_u64 (fr_total_size f) @ enc_bool (fr_checksum_follows f) @
     enc_HashAlgorithm (fr_hash_algorithm f) @ enc_Encoding (fr_encoding f) @ enc_u64 (fr_plaintext_size f)"

definition dec_FileReady :: "FileReady decoder" where
  "dec_FileReady =
     dec_bind dec_u64 (\<lambda>s. dec_bind dec_u64 (\<lambda>t. dec_bind dec_bool (\<lambda>c.
     dec_bind dec_HashAlgorithm (\<lambda>h. dec_bind dec_Encoding (\<lambda>e. dec_bind dec_u64 (\<lambda>p.
     dec_ret \<lparr>fr_size = s, fr_total_size = t, fr_checksum_follows = c, fr_hash_algorithm = h,
       fr_encoding = e, fr_plaintext_size = p\<rparr>))))))"

fun enc_Response :: "Response \<Rightarrow> bytes" where
  "enc_Response Resp_Ok = enc_u32 0"
| "enc_Response (Resp_Err e) = enc_u32 1 @ enc_ErrorResponse e"
| "enc_Response (Resp_DirListing es c) = enc_u32 2 @ enc_seq enc_DirEntry es @ enc_option enc_string c"
| "enc_Response (Resp_Path p) = enc_u32 3 @ enc_string p"
| "enc_Response (Resp_FileStat s) = enc_u32 4 @ enc_FileStat s"
| "enc_Response (Resp_FileReady f) = enc_u32 5 @ enc_FileReady f"
| "enc_Response (Resp_QuotaInfo u c l) = enc_u32 6 @ enc_u64 u @ enc_u64 c @ enc_option enc_u64 l"

definition dec_Response :: "Response decoder" where
  "dec_Response = dec_bind dec_u32 (\<lambda>t.
     if t = 0 then dec_ret Resp_Ok
     else if t = 1 then dec_bind dec_ErrorResponse (\<lambda>e. dec_ret (Resp_Err e))
     else if t = 2 then dec_bind (dec_seq dec_DirEntry) (\<lambda>es. dec_bind (dec_option dec_string) (\<lambda>c.
            dec_ret (Resp_DirListing es c)))
     else if t = 3 then dec_bind dec_string (\<lambda>p. dec_ret (Resp_Path p))
     else if t = 4 then dec_bind dec_FileStat (\<lambda>s. dec_ret (Resp_FileStat s))
     else if t = 5 then dec_bind dec_FileReady (\<lambda>f. dec_ret (Resp_FileReady f))
     else if t = 6 then dec_bind dec_u64 (\<lambda>u. dec_bind dec_u64 (\<lambda>c. dec_bind (dec_option dec_u64) (\<lambda>l.
            dec_ret (Resp_QuotaInfo u c l))))
     else dec_fail)"

fun Response_ok :: "Response \<Rightarrow> bool" where
  "Response_ok (Resp_Err e) = ErrorResponse_ok e"
| "Response_ok (Resp_DirListing es c) = (seq_ok DirEntry_ok es \<and> pred_option str_ok c)"
| "Response_ok (Resp_Path p) = str_ok p"
| "Response_ok (Resp_FileStat s) = FileStat_ok s"
| "Response_ok (Resp_FileReady f) =
     (HashAlgorithm_canonical (fr_hash_algorithm f) \<and> Encoding_canonical (fr_encoding f))"
| "Response_ok Resp_Ok = True"
| "Response_ok (Resp_QuotaInfo u c l) = True"

lemma dec_enc_Response: "Response_ok q \<Longrightarrow> dec_Response (enc_Response q @ r) = Some (q, r)"
  by (cases q)
    (auto simp: dec_Response_def dec_bind_def prim_dec ErrorResponse_codec.dec_enc
      entries_codec.dec_enc FileStat_codec.dec_enc dec_FileReady_def enc_FileReady_def)

lemma enc_dec_Response: "dec_Response bs = Some (q, r) \<Longrightarrow> bs = enc_Response q @ r \<and> Response_ok q"
  by (auto simp: dec_Response_def dec_bind_Some prim_iff ErrorResponse_codec.dec_iff
      entries_codec.dec_iff FileStat_codec.dec_iff dec_FileReady_def enc_FileReady_def
      split: if_splits)

interpretation Response_codec: codec enc_Response dec_Response Response_ok
  by unfold_locales (rule dec_enc_Response, assumption, rule enc_dec_Response, assumption)

end
