(* ===== verification/Framing.thy ===== *)
theory Framing
  imports Wire
begin

text \<open>
  The transport layer of \<open>crates/qftp-common/src/transport.rs\<close> and its error type: the 4-byte
  length prefix around every control message, the loops that move a message through a QUIC
  stream, and the loop that coalesces datagrams into GSO bursts.

  bincode is a parameter here, an encoder and a decoder that satisfy the locale \<open>codec\<close>; the
  lemmas about frames are proved in that locale once and are read for requests and responses
  through the interpretations \<open>Request_codec\<close> and \<open>Response_codec\<close>. quiche and the UDP socket
  are parameters too: \<open>stream_send\<close> is a function argument, and the results of \<open>stream_recv\<close>
  and \<open>conn.send\<close> are an arbitrary list of outcomes, one per call (the end of the list stands
  for \<open>Done\<close>).
\<close>

section \<open>Errors\<close>

text \<open>quiche's error enum, with the cases the sources tell apart.\<close>

datatype QuicError =
    Quic_Done
  | Quic_InvalidStreamState u64
  | Quic_StreamLimit
  | Quic_StreamReset u64
  | Quic_StreamStopped u64
  | Quic_Other nat

datatype 'io TransportError =
    TE_Io 'io
  | TE_IoCtx string 'io
  | TE_Quic QuicError
  | TE_QuicCtx string QuicError
  | TE_Bincode
  | TE_FrameTooLarge nat nat \<comment> \<open>actual, max\<close>
  | TE_StreamBlocked
  | TE_TlsConfig string

section \<open>Frames\<close>

definition MAX_DATAGRAM_SIZE :: nat where "MAX_DATAGRAM_SIZE = 1350"
definition STREAM_BUF_SIZE :: nat where "STREAM_BUF_SIZE = 65536"
definition MAX_MESSAGE_SIZE :: nat where "MAX_MESSAGE_SIZE = 16 * 1024 * 1024"

definition encode_framed_message :: "('a \<Rightarrow> bytes) \<Rightarrow> 'a \<Rightarrow> ('io TransportError, bytes) result" where
  "encode_framed_message enc msg =
     (let payload_len = length (enc msg)
      in if payload_len > MAX_MESSAGE_SIZE then Inl (TE_FrameTooLarge payload_len MAX_MESSAGE_SIZE)
         else Inr (be_bytes 4 payload_len @ enc msg))"

text \<open>The result and the buffer that is left: drained on success, untouched otherwise.\<close>

definition decode_framed_message ::
  "'a decoder \<Rightarrow> bytes \<Rightarrow> ('io TransportError, 'a option) result \<times> bytes" where
  "decode_framed_message dec stream_buf =
     (if length stream_buf < 4 then (Inr None, stream_buf)
      else let msg_len = of_be_bytes (take 4 stream_buf)
        in if msg_len > MAX_MESSAGE_SIZE
             then (Inl (TE_FrameTooLarge msg_len MAX_MESSAGE_SIZE), stream_buf)
           else if length stream_buf < 4 + msg_len then (Inr None, stream_buf)
           else (case dec (take msg_len (drop 4 stream_buf)) of
                   None \<Rightarrow> (Inl TE_Bincode, stream_buf)
                 | Some (msg, _) \<Rightarrow> (Inr (Some msg), drop (4 + msg_len) stream_buf)))"

text \<open>\<open>stream_send\<close> takes the connection, the stream, the bytes and \<open>fin\<close>.\<close>

type_synonym 'c stream_send = "'c \<Rightarrow> u64 \<Rightarrow> bytes \<Rightarrow> bool \<Rightarrow> (QuicError, nat) result \<times> 'c"

function send_body ::
  "'c stream_send \<Rightarrow> 'c \<Rightarrow> u64 \<Rightarrow> bytes \<Rightarrow> ('io TransportError, unit) result \<times> 'c" where
  "send_body stream_send conn sid data =
     (if data = [] then (Inr (), conn)
      else case stream_send conn sid data False of
          (Inl e, conn') \<Rightarrow> (Inl (TE_QuicCtx ''stream_send'' e), conn')
        | (Inr written, conn') \<Rightarrow>
            (if written = 0 then (Inl TE_StreamBlocked, conn')
             else send_body stream_send conn' sid (drop written data)))"
  by pat_completeness auto
termination
  by (relation "measure (\<lambda>(s, c, i, data). length data)") (auto simp: neq_Nil_conv)

declare send_body.simps [simp del]

definition stream_send_all ::
  "'c stream_send \<Rightarrow> 'c \<Rightarrow> u64 \<Rightarrow> bytes \<Rightarrow> bool \<Rightarrow> ('io TransportError, unit) result \<times> 'c" where
  "stream_send_all stream_send conn sid data fin =
     (case send_body stream_send conn sid data of
        (Inl e, conn') \<Rightarrow> (Inl e, conn')
      | (Inr _, conn') \<Rightarrow>
          (if fin
           then (case stream_send conn' sid [] True of
                   (Inl e, conn'') \<Rightarrow> (Inl (TE_QuicCtx ''stream_send (fin)'' e), conn'')
                 | (Inr _, conn'') \<Rightarrow> (Inr (), conn''))
           else (Inr (), conn')))"

definition send_message ::
  "('a \<Rightarrow> bytes) \<Rightarrow> 'c stream_send \<Rightarrow> 'c \<Rightarrow> u64 \<Rightarrow> 'a \<Rightarrow> ('io TransportError, unit) result \<times> 'c" where
  "send_message enc stream_send conn sid msg =
     (case encode_framed_message enc msg of
        Inl e \<Rightarrow> (Inl e, conn)
      | Inr data \<Rightarrow> stream_send_all stream_send conn sid data False)"

text \<open>
  The read loop of \<open>recv_message\<close>. The third component is the outcomes left for the next call.
\<close>

type_synonym stream_recvs = "(QuicError, bytes \<times> bool) result list"

fun recv_available ::
  "stream_recvs \<Rightarrow> bytes \<Rightarrow> ('io TransportError, unit) result \<times> bytes \<times> stream_recvs" where
  "recv_available [] buf = (Inr (), buf, [])"
| "recv_available (Inr (data, fin) # rs) buf = recv_available rs (buf @ data)"
| "recv_available (Inl e # rs) buf =
     (case e of
        Quic_Done \<Rightarrow> (Inr (), buf, rs)
      | Quic_InvalidStreamState _ \<Rightarrow> (Inr (), buf, rs)
      | _ \<Rightarrow> (Inl (TE_QuicCtx ''stream_recv'' e), buf, rs))"

definition recv_message ::
  "'a decoder \<Rightarrow> stream_recvs \<Rightarrow> bytes \<Rightarrow> ('io TransportError, 'a option) result \<times> bytes \<times> stream_recvs" where
  "recv_message dec rs stream_buf =
     (case recv_available rs stream_buf of
        (Inl e, buf, rs') \<Rightarrow> (Inl e, buf, rs')
      | (Inr _, buf, rs') \<Rightarrow>
          (let (r, buf') = decode_framed_message dec buf in (r, buf', rs')))"

subsection \<open>Lemmas about frames\<close>

lemma MAX_MESSAGE_SIZE_256: "n \<le> MAX_MESSAGE_SIZE \<Longrightarrow> n < 256 ^ 4"
  by (simp add: MAX_MESSAGE_SIZE_def)

lemma encode_framed_message_Inr:
  "encode_framed_message enc msg = Inr f \<longleftrightarrow>
     length (enc msg) \<le> MAX_MESSAGE_SIZE \<and> f = be_bytes 4 (length (enc msg)) @ enc msg"
  by (auto simp: encode_framed_message_def Let_def)

lemma decode_short_header: "length buf < 4 \<Longrightarrow> decode_framed_message dec buf = (Inr None, buf)"
  by (simp add: decode_framed_message_def)

lemma decode_header:
  "n < 256 ^ 4 \<Longrightarrow> decode_framed_message dec (be_bytes 4 n @ body) =
     (if n > MAX_MESSAGE_SIZE then (Inl (TE_FrameTooLarge n MAX_MESSAGE_SIZE), be_bytes 4 n @ body)
      else if length body < n then (Inr None, be_bytes 4 n @ body)
      else (case dec (take n body) of
              None \<Rightarrow> (Inl TE_Bincode, be_bytes 4 n @ body)
            | Some (msg, _) \<Rightarrow> (Inr (Some msg), drop n body)))"
  by (simp add: decode_framed_message_def Let_def drop_append split: option.split)

context codec
begin

lemma decode_encode:
  "ok x \<Longrightarrow> encode_framed_message enc x = Inr f \<Longrightarrow>
     decode_framed_message dec (f @ rest) = (Inr (Some x), rest)"
  using decode_header [OF MAX_MESSAGE_SIZE_256, of "length (enc x)" dec "enc x @ rest"]
  by (simp add: encode_framed_message_Inr dec_enc_exact not_le)

lemma decode_partial:
  assumes "encode_framed_message enc x = Inr (p @ q)" "q \<noteq> []"
  shows "decode_framed_message dec p = (Inr None, p)"
proof (cases "length p < 4")
  case True
  then show ?thesis by (rule decode_short_header)
next
  case False
  let ?n = "length (enc x)"
  from assms(1) have n: "?n \<le> MAX_MESSAGE_SIZE" and eq: "p @ q = be_bytes 4 ?n @ enc x"
    by (simp_all add: encode_framed_message_Inr)
  have "take 4 p = be_bytes 4 ?n" using False arg_cong [OF eq, of "take 4"] by (simp add: not_less)
  then have p: "p = be_bytes 4 ?n @ drop 4 p" by (metis append_take_drop_id)
  obtain b where p: "p = be_bytes 4 ?n @ b" and b: "enc x = b @ q"
    using p eq by (metis append.assoc same_append_eq)
  have "length b < ?n" using b assms(2) by (metis length_append length_greater_0_conv less_add_same_cancel1)
  then show ?thesis using n by (simp add: p decode_header [OF MAX_MESSAGE_SIZE_256 [OF n]])
qed

text \<open>Whatever is accepted was a frame whose payload starts with the encoding of an admissible value.\<close>

lemma decode_sound:
  assumes "decode_framed_message dec buf = (Inr (Some x), rest)"
  shows "ok x \<and> (\<exists>pad. length (enc x @ pad) \<le> MAX_MESSAGE_SIZE \<and>
           buf = take 4 buf @ enc x @ pad @ rest \<and> of_be_bytes (take 4 buf) = length (enc x @ pad))"
proof -
  let ?n = "of_be_bytes (take 4 buf)"
  from assms have len: "\<not> length buf < 4" "?n \<le> MAX_MESSAGE_SIZE" "\<not> length buf < 4 + ?n"
    and rest: "rest = drop (4 + ?n) buf"
    and d: "\<exists>t. dec (take ?n (drop 4 buf)) = Some (x, t)"
    by (auto simp: decode_framed_message_def Let_def split: if_splits option.splits)
  from d obtain t where t: "dec (take ?n (drop 4 buf)) = Some (x, t)" ..
  then have ok: "ok x" and pay: "take ?n (drop 4 buf) = enc x @ t" using enc_dec by blast+
  have n: "?n = length (enc x @ t)" using len(1,3) pay by (metis length_take length_drop min_absorb2 add_le_imp_le_diff add.commute not_less)
  have "buf = take 4 buf @ take ?n (drop 4 buf) @ drop (4 + ?n) buf"
    by (metis append_take_drop_id drop_drop add.commute)
  then show ?thesis using ok pay n len(2) rest by auto
qed

end

lemma recv_available_app:
  "recv_available (map (\<lambda>d. Inr (d, False)) ds @ rs) buf = recv_available rs (buf @ concat ds)"
  by (induction ds arbitrary: buf) auto

text \<open>
  A connection that delivers what it accepts: the bytes a \<open>stream_send\<close> call reports as written
  are the first ones it was given, and they are appended to what the peer will read.
\<close>

definition send_delivers :: "'c stream_send \<Rightarrow> ('c \<Rightarrow> u64 \<Rightarrow> bytes) \<Rightarrow> bool" where
  "send_delivers stream_send sent \<longleftrightarrow>
     (\<forall>c sid data fin n c'. stream_send c sid data fin = (Inr n, c') \<longrightarrow>
        n \<le> length data \<and> sent c' sid = sent c sid @ take n data) \<and>
     (\<forall>c sid data fin e c'. stream_send c sid data fin = (Inl e, c') \<longrightarrow> sent c' sid = sent c sid)"

lemma send_deliversD:
  assumes "send_delivers stream_send sent"
  shows "stream_send c sid data fin = (Inr n, c') \<Longrightarrow> n \<le> length data \<and> sent c' sid = sent c sid @ take n data"
    and "stream_send c sid data fin = (Inl e, c') \<Longrightarrow> sent c' sid = sent c sid"
  using assms unfolding send_delivers_def by blast+

lemma send_body_sent:
  assumes S: "send_delivers stream_send sent"
  shows "send_body stream_send c sid data = (r, c') \<Longrightarrow>
     (\<exists>k \<le> length data. sent c' sid = sent c sid @ take k data \<and> (r = Inr () \<longrightarrow> k = length data))"
proof (induction "length data" arbitrary: c data rule: less_induct)
  case less
  show ?case
  proof (cases "data = []")
    case True
    then show ?thesis using less.prems by (auto simp: send_body.simps)
  next
    case False
    obtain res c1 where st: "stream_send c sid data False = (res, c1)" by fastforce
    show ?thesis
    proof (cases res)
      case (Inl e)
      then show ?thesis using less.prems st send_deliversD(2) [OF S, of c sid data False e c1] False
        by (auto simp: send_body.simps intro: exI [of _ 0])
    next
      case (Inr n)
      note acc = send_deliversD(1) [OF S st [unfolded Inr]]
      show ?thesis
      proof (cases "n = 0")
        case True
        then show ?thesis using less.prems st Inr acc False
          by (auto simp: send_body.simps intro: exI [of _ 0])
      next
        case nz: False
        have "send_body stream_send c1 sid (drop n data) = (r, c')"
          using less.prems st Inr nz False by (simp add: send_body.simps [of _ c])
        from less.hyps [OF _ this] nz False obtain k where
          k: "k \<le> length data - n" "sent c' sid = sent c1 sid @ take k (drop n data)"
            "r = Inr () \<longrightarrow> k = length data - n"
          by auto
        then have "sent c' sid = sent c sid @ take (n + k) data"
          using acc by (simp add: take_add)
        then show ?thesis using k acc by (intro exI [of _ "n + k"]) auto
      qed
    qed
  qed
qed

lemma send_all_sent:
  assumes S: "send_delivers stream_send sent"
    and ok: "stream_send_all stream_send c sid data fin = (Inr () :: ('io TransportError, unit) result, c')"
  shows "sent c' sid = sent c sid @ data"
proof -
  from ok obtain c1 where b: "send_body stream_send c sid data = (Inr () :: ('io TransportError, unit) result, c1)"
    and f: "if fin then (\<exists>n. stream_send c1 sid [] True = (Inr n, c')) else c' = c1"
    by (auto simp: stream_send_all_def split: prod.splits sum.splits if_splits)
  from send_body_sent [OF S b] have "sent c1 sid = sent c sid @ data" by auto
  moreover have "sent c' sid = sent c1 sid"
    using f send_deliversD(1) [OF S, of c1 sid "[]" True] by (auto split: if_splits)
  ultimately show ?thesis by simp
qed

section \<open>Properties\<close>

text \<open>
  C34: framing of requests round-trips and never guesses. A request that fits a frame is decoded
  from its frame whatever bytes follow, exactly those bytes are left in the buffer, and every
  proper prefix of the frame is reported as incomplete with the buffer untouched.
\<close>

theorem request_frame_roundtrip:
  assumes "Request_ok q" "encode_framed_message enc_Request q = (Inr f :: ('io TransportError, bytes) result)"
  shows "decode_framed_message dec_Request (f @ rest) = (Inr (Some q) :: ('io TransportError, Request option) result, rest) \<and>
    (\<forall>p s. f = p @ s \<and> s \<noteq> [] \<longrightarrow>
       decode_framed_message dec_Request p = (Inr None :: ('io TransportError, Request option) result, p))"
  using Request_codec.decode_encode [OF assms] Request_codec.decode_partial assms(2) by blast

definition demo_ls :: Request where
  "demo_ls = Req_Ls ''docs'' None"

definition demo_ls_frame :: bytes where
  "demo_ls_frame = [0, 0, 0, 0x11, 0, 0, 0, 0, 4, 0, 0, 0, 0, 0, 0, 0, 0x64, 0x6F, 0x63, 0x73, 0]"

lemma demo_ls_encodes: "encode_framed_message enc_Request demo_ls = Inr demo_ls_frame"
  by (simp add: demo_ls_def demo_ls_frame_def encode_framed_message_def Let_def enc_string_def enc_len_def
      enc_u32_def enc_option_def enc_u8_def string_bytes_def be_bytes_def MAX_MESSAGE_SIZE_def le_bytes_numeral)

lemma demo_ls_ok: "Request_ok demo_ls"
  by (simp add: demo_ls_def str_ok_def utf8_ascii)

theorem request_frame_roundtrip_witness:
  "Request_ok demo_ls \<and>
   decode_framed_message dec_Request (demo_ls_frame @ [9]) = (Inr (Some demo_ls) :: (nat TransportError, Request option) result, [9]) \<and>
   decode_framed_message dec_Request (take 20 demo_ls_frame) = (Inr None :: (nat TransportError, Request option) result, take 20 demo_ls_frame)"
proof -
  note rt = request_frame_roundtrip [OF demo_ls_ok demo_ls_encodes, of "[9]"]
  have "demo_ls_frame = take 20 demo_ls_frame @ drop 20 demo_ls_frame" "drop 20 demo_ls_frame \<noteq> []"
    by (simp_all add: demo_ls_frame_def)
  then show ?thesis using rt demo_ls_ok by blast
qed

text \<open>
  What the decoder accepts as a response was a frame within the size cap whose payload begins
  with the canonical encoding of that response; nothing outside the frame is consumed.
\<close>

lemma response_decode_sound:
  assumes "decode_framed_message dec_Response buf = (Inr (Some x) :: ('io TransportError, Response option) result, rest)"
  shows "Response_ok x \<and> (\<exists>pad. length (enc_Response x @ pad) \<le> MAX_MESSAGE_SIZE \<and>
    buf = take 4 buf @ enc_Response x @ pad @ rest \<and> of_be_bytes (take 4 buf) = length (enc_Response x @ pad))"
  using Response_codec.decode_sound [OF assms] .

lemma response_decode_sound_witness:
  "Response_ok Resp_Ok \<and> (\<exists>pad. [0, 0, 0, 5, 0, 0, 0, 0, 7, 1] = take 4 [0, 0, 0, 5, 0, 0, 0, 0, 7, 1 :: byte] @ enc_Response Resp_Ok @ pad @ [1])"
proof -
  have d: "decode_framed_message dec_Response [0, 0, 0, 5, 0, 0, 0, 0, 7, 1] =
      (Inr (Some Resp_Ok) :: (nat TransportError, Response option) result, [1])"
    by (simp add: decode_framed_message_def of_be_bytes_def MAX_MESSAGE_SIZE_def dec_Response_def dec_bind_def
        dec_u32_def dec_take_def)
  show ?thesis using response_decode_sound [OF d] by blast
qed

text \<open>
  C35: a message handed to \<open>send_message\<close> arrives. If the call succeeds on a connection that
  delivers the bytes it reports as written, the stream has received exactly one frame more, and a
  peer that reads that frame, cut into chunks at any places, decodes the message with
  \<open>recv_message\<close> and keeps nothing.
\<close>

theorem send_message_recv_message:
  assumes "send_delivers stream_send sent" "Request_ok q"
    and "send_message enc_Request stream_send c sid q = (Inr () :: ('io TransportError, unit) result, c')"
    and "sent c' sid = sent c sid @ concat chunks"
  shows "recv_message dec_Request (map (\<lambda>d. Inr (d, False)) chunks) [] =
    (Inr (Some q) :: ('io TransportError, Request option) result, [], [])"
proof -
  from assms(3) obtain f where f: "encode_framed_message enc_Request q = (Inr f :: ('io TransportError, bytes) result)"
    "stream_send_all stream_send c sid f False = (Inr () :: ('io TransportError, unit) result, c')"
    by (auto simp: send_message_def split: sum.splits)
  have "concat chunks = f" using send_all_sent [OF assms(1) f(2)] assms(4) by simp
  moreover have "decode_framed_message dec_Request f = (Inr (Some q) :: ('io TransportError, Request option) result, [])"
    using Request_codec.decode_encode [OF assms(2) f(1), of "[]"] by simp
  moreover have "recv_available (map (\<lambda>d. Inr (d, False)) chunks) [] =
      (Inr () :: ('io TransportError, unit) result, concat chunks, [])"
    using recv_available_app [of chunks "[]" "[]"] by simp
  ultimately show ?thesis by (simp add: recv_message_def)
qed

text \<open>A connection that takes at most five bytes at a time.\<close>

definition five_send :: "bytes stream_send" where
  "five_send c sid data fin = (Inr (min 5 (length data)), c @ take 5 data)"

theorem send_message_recv_message_witness:
  "recv_message dec_Request (map (\<lambda>d. Inr (d, False)) [take 3 demo_ls_frame, drop 3 demo_ls_frame]) [] =
    (Inr (Some demo_ls) :: (nat TransportError, Request option) result, [], [])"
proof -
  have del: "send_delivers five_send (\<lambda>c sid. c)"
    by (auto simp: send_delivers_def five_send_def min_def)
  have snd: "send_message enc_Request five_send [] 0 demo_ls = (Inr () :: (nat TransportError, unit) result, demo_ls_frame)"
    by (simp add: send_message_def demo_ls_encodes stream_send_all_def send_body.simps five_send_def demo_ls_frame_def)
  show ?thesis
    by (rule send_message_recv_message [OF del demo_ls_ok snd]) (simp add: demo_ls_frame_def)
qed

end
