(* ===== verification/Gso.thy ===== *)
theory Gso
  imports Framing
begin

text \<open>
  The egress half of \<open>crates/qftp-common/src/transport.rs\<close>: \<open>flush_egress\<close> drains the datagrams
  of a QUIC connection into the UDP socket, one \<open>send_to\<close> each or coalesced into
  \<open>sendmsg(UDP_SEGMENT)\<close> bursts that the kernel cuts back into datagrams. The results of
  \<open>conn.send\<close> are an arbitrary list; the socket records the datagrams it put on the wire and may
  refuse any call. The theorem is that coalescing is invisible: whatever bursts the kernel
  refuses, the wire carries the datagrams quiche produced, in order and with their boundaries.
\<close>

section \<open>The socket and the connection\<close>

datatype 'addr SendResult = Sent bytes 'addr | SendDone | SendErr QuicError

record ('addr, 'io) Sock =
  wire :: "('addr \<times> bytes) list"
  calls :: nat
  send_fault :: "nat \<Rightarrow> 'io option" \<comment> \<open>does the n-th \<open>send_to\<close> or \<open>sendmsg\<close> fail\<close>
  gso_fault :: "nat \<Rightarrow> 'io option"
  GSO_USABLE :: bool

definition send_to :: "string \<Rightarrow> bytes \<Rightarrow> 'addr \<Rightarrow> ('addr, 'io) Sock
    \<Rightarrow> ('io TransportError, unit) result \<times> ('addr, 'io) Sock" where
  "send_to ctx buf dst s =
     (case send_fault s (calls s) of
        Some e \<Rightarrow> (Inl (TE_IoCtx ctx e), s\<lparr>calls := Suc (calls s)\<rparr>)
      | None \<Rightarrow> (Inr (), s\<lparr>calls := Suc (calls s), wire := wire s @ [(dst, buf)]\<rparr>))"

text \<open>The kernel's segmentation: datagrams of \<open>n\<close> bytes, the last possibly shorter.\<close>

function segments :: "nat \<Rightarrow> bytes \<Rightarrow> bytes list" where
  "segments n buf = (if buf = [] \<or> n = 0 then [] else take n buf # segments n (drop n buf))"
  by pat_completeness auto
termination
  by (relation "measure (\<lambda>(n, buf). length buf)") auto

declare segments.simps [simp del]

definition sendmsg_udp_segment :: "bytes \<Rightarrow> 'addr \<Rightarrow> u16 \<Rightarrow> ('addr, 'io) Sock
    \<Rightarrow> ('io, unit) result \<times> ('addr, 'io) Sock" where
  "sendmsg_udp_segment buf dst seg_size s =
     (case gso_fault s (calls s) of
        Some e \<Rightarrow> (Inl e, s\<lparr>calls := Suc (calls s)\<rparr>)
      | None \<Rightarrow> (Inr (), s\<lparr>calls := Suc (calls s),
                  wire := wire s @ map (\<lambda>d. (dst, d)) (segments (unat seg_size) buf)\<rparr>))"

section \<open>Batching\<close>

definition GSO_BURST_PACKETS :: nat where "GSO_BURST_PACKETS = 32"

datatype GsoStep = GsoAppend | GsoAppendThenFlush | GsoFlushThenSendAlone

definition gso_step :: "nat \<Rightarrow> bool \<Rightarrow> nat \<Rightarrow> GsoStep" where
  "gso_step seg_size same_dst write =
     (if seg_size = 0 then GsoAppend
      else if \<not> same_dst \<or> write > seg_size then GsoFlushThenSendAlone
      else if write < seg_size then GsoAppendThenFlush
      else GsoAppend)"

text \<open>
  The iterator from \<open>off\<close> on. With \<open>seg_size = 0\<close> the Rust iterator would not advance, which its
  \<open>debug_assert\<close> excludes; \<open>gso_fill_seg_size\<close> below shows that no batch has that size.
\<close>

function gso_ranges_from :: "nat \<Rightarrow> nat \<Rightarrow> nat \<Rightarrow> (nat \<times> nat) list" where
  "gso_ranges_from tot seg_size off =
     (if off \<ge> tot \<or> seg_size = 0 then []
      else let n = min seg_size (tot - off)
           in (off, n) # gso_ranges_from tot seg_size (off + n))"
  by pat_completeness auto
termination
  by (relation "measure (\<lambda>(tot, seg_size, off). tot - off)") auto

declare gso_ranges_from.simps [simp del]

definition gso_replay_ranges :: "nat \<Rightarrow> nat \<Rightarrow> (nat \<times> nat) list" where
  "gso_replay_ranges tot seg_size = gso_ranges_from tot seg_size 0"

fun send_ranges :: "(nat \<times> nat) list \<Rightarrow> bytes \<Rightarrow> 'addr \<Rightarrow> ('addr, 'io) Sock
    \<Rightarrow> ('io TransportError, unit) result \<times> ('addr, 'io) Sock" where
  "send_ranges [] buf dst s = (Inr (), s)"
| "send_ranges ((off, n) # rs) buf dst s =
     (case send_to ''UDP send_to (fallback)'' (take n (drop off buf)) dst s of
        (Inl e, s') \<Rightarrow> (Inl e, s')
      | (Inr _, s') \<Rightarrow> send_ranges rs buf dst s')"

definition send_batch :: "bytes \<Rightarrow> 'addr \<Rightarrow> nat \<Rightarrow> nat \<Rightarrow> ('addr, 'io) Sock
    \<Rightarrow> ('io TransportError, unit) result \<times> ('addr, 'io) Sock" where
  "send_batch buf dst seg_size packets s =
     (if packets \<le> 1 then send_to ''UDP send_to (single)'' buf dst s
      else (case sendmsg_udp_segment buf dst (of_nat seg_size) s of
              (Inr _, s') \<Rightarrow> (Inr (), s')
            | (Inl _, s') \<Rightarrow>
                send_ranges (gso_replay_ranges (length buf) seg_size) buf dst (s'\<lparr>GSO_USABLE := False\<rparr>)))"

text \<open>
  One burst: the bytes collected in \<open>buf[..total]\<close>, the segment size, the destination and the
  packet count, and how the \<open>for\<close> loop ended.
\<close>

record 'addr Batch =
  b_buf :: bytes
  b_seg_size :: nat
  b_dst :: "'addr option"
  b_packets :: nat

datatype 'addr Fill =
    FillEnd "'addr Batch" "'addr SendResult list"
  | FillAlone "'addr Batch" bool bytes 'addr "'addr SendResult list"
  | FillErr QuicError

definition empty_batch :: "'addr Batch" where
  "empty_batch = \<lparr>b_buf = [], b_seg_size = 0, b_dst = None, b_packets = 0\<rparr>"

fun gso_fill :: "nat \<Rightarrow> 'addr SendResult list \<Rightarrow> 'addr Batch \<Rightarrow> 'addr Fill" where
  "gso_fill 0 rs b = FillEnd b rs"
| "gso_fill (Suc k) rs b =
     (if min MAX_DATAGRAM_SIZE (MAX_DATAGRAM_SIZE * GSO_BURST_PACKETS - length (b_buf b)) = 0
      then FillEnd b rs
      else case rs of
          [] \<Rightarrow> FillEnd b []
        | SendDone # rs' \<Rightarrow> FillEnd b rs'
        | SendErr e # rs' \<Rightarrow> FillErr e
        | Sent pkt to # rs' \<Rightarrow>
            (let same_dst = (case b_dst b of None \<Rightarrow> True | Some prev \<Rightarrow> prev = to)
             in case gso_step (b_seg_size b) same_dst (length pkt) of
                  GsoFlushThenSendAlone \<Rightarrow> FillAlone b same_dst pkt to rs'
                | GsoAppend \<Rightarrow>
                    gso_fill k rs'
                      (if b_seg_size b = 0
                       then \<lparr>b_buf = b_buf b @ pkt, b_seg_size = length pkt, b_dst = Some to,
                             b_packets = Suc (b_packets b)\<rparr>
                       else b\<lparr>b_buf := b_buf b @ pkt, b_packets := Suc (b_packets b)\<rparr>)
                | GsoAppendThenFlush \<Rightarrow>
                    FillEnd (b\<lparr>b_buf := b_buf b @ pkt, b_packets := Suc (b_packets b)\<rparr>) rs'))"

lemma gso_fill_length:
  "gso_fill k rs b = FillEnd b' rs' \<Longrightarrow> length rs' \<le> length rs \<and> (b' = b \<or> length rs' < length rs)"
  "gso_fill k rs b = FillAlone b' sd pkt to rs' \<Longrightarrow> length rs' < length rs"
  by (induction k rs b arbitrary: b' rs' rule: gso_fill.induct)
    (auto simp: Let_def split: if_splits list.splits SendResult.splits GsoStep.splits dest: less_imp_le_nat,
     (fastforce intro: le_SucI less_SucI)+)

text \<open>
  The outer loop. \<open>b_dst\<close> is \<open>Some\<close> whenever a batch is flushed, as \<open>dst.unwrap()\<close> relies on
  (\<open>gso_fill_seg_size\<close>); the arm for \<open>None\<close> stands for the panic of \<open>unwrap\<close>.
\<close>

function flush_egress_gso :: "'addr SendResult list \<Rightarrow> ('addr, 'io) Sock
    \<Rightarrow> ('io TransportError, unit) result option \<times> ('addr, 'io) Sock" where
  "flush_egress_gso rs s =
     (case gso_fill GSO_BURST_PACKETS rs empty_batch of
        FillErr e \<Rightarrow> (Some (Inl (TE_QuicCtx ''conn.send (gso)'' e)), s)
      | FillAlone b same_dst pkt to rs' \<Rightarrow>
          (case (if length (b_buf b) > 0
                 then (case b_dst b of
                         None \<Rightarrow> (None, s)
                       | Some dst \<Rightarrow> apfst Some (send_batch (b_buf b) dst (b_seg_size b) (b_packets b) s))
                 else (Some (Inr ()), s)) of
             (None, s1) \<Rightarrow> (None, s1)
           | (Some (Inl e), s1) \<Rightarrow> (Some (Inl e), s1)
           | (Some (Inr _), s1) \<Rightarrow>
               (case send_to (if same_dst then ''UDP send_to (oversize)'' else ''UDP send_to (path swap)'') pkt to s1 of
                  (Inl e, s2) \<Rightarrow> (Some (Inl e), s2)
                | (Inr _, s2) \<Rightarrow> flush_egress_gso rs' s2))
      | FillEnd b rs' \<Rightarrow>
          (if length (b_buf b) = 0 then (Some (Inr ()), s)
           else (case b_dst b of
                   None \<Rightarrow> (None, s)
                 | Some dst \<Rightarrow>
                     (case send_batch (b_buf b) dst (b_seg_size b) (b_packets b) s of
                        (Inl e, s1) \<Rightarrow> (Some (Inl e), s1)
                      | (Inr _, s1) \<Rightarrow> flush_egress_gso rs' s1))))"
  by pat_completeness auto
termination
  by (relation "measure (\<lambda>(rs, s). length rs)")
    (auto simp: empty_batch_def dest!: gso_fill_length)

declare flush_egress_gso.simps [simp del]

fun flush_egress_per_packet :: "'addr SendResult list \<Rightarrow> ('addr, 'io) Sock
    \<Rightarrow> ('io TransportError, unit) result \<times> ('addr, 'io) Sock" where
  "flush_egress_per_packet [] s = (Inr (), s)"
| "flush_egress_per_packet (SendDone # rs) s = (Inr (), s)"
| "flush_egress_per_packet (SendErr e # rs) s = (Inl (TE_QuicCtx ''conn.send (per-packet fallback)'' e), s)"
| "flush_egress_per_packet (Sent pkt to # rs) s =
     (case send_to ''UDP send_to (per-packet fallback)'' pkt to s of
        (Inl e, s') \<Rightarrow> (Inl e, s')
      | (Inr _, s') \<Rightarrow> flush_egress_per_packet rs s')"

definition flush_egress_linux :: "'addr SendResult list \<Rightarrow> ('addr, 'io) Sock
    \<Rightarrow> ('io TransportError, unit) result option \<times> ('addr, 'io) Sock" where
  "flush_egress_linux rs s =
     (if \<not> GSO_USABLE s then apfst Some (flush_egress_per_packet rs s) else flush_egress_gso rs s)"

section \<open>Segmentation and replay\<close>

lemma segments_Nil [simp]: "segments n [] = []"
  by (simp add: segments.simps)

lemma segments_concat:
  "0 < n \<Longrightarrow> \<forall>p \<in> set ps. length p = n \<Longrightarrow> length l \<le> n \<Longrightarrow>
     segments n (concat ps @ l) = ps @ (if l = [] then [] else [l])"
proof (induction ps)
  case Nil
  then show ?case by (auto simp: segments.simps [of n l])
next
  case (Cons p ps)
  then have "p \<noteq> []" "length p = n" by auto
  then show ?case using Cons by (simp add: segments.simps [of n "p @ _"])
qed

lemma replay_segments:
  "0 < n \<Longrightarrow> map (\<lambda>(off, k). take k (drop off buf)) (gso_ranges_from (length buf) n off) = segments n (drop off buf)"
proof (induction "length buf - off" arbitrary: off rule: less_induct)
  case less
  show ?case
  proof (cases "off < length buf")
    case False
    then show ?thesis by (simp add: gso_ranges_from.simps)
  next
    case True
    let ?k = "min n (length buf - off)"
    have k: "0 < ?k" using True less.prems by simp
    have t: "take ?k (drop off buf) = take n (drop off buf)" by (simp add: min_def)
    have d: "drop (off + ?k) buf = drop n (drop off buf)" using True by (simp add: min_def add.commute)
    have "map (\<lambda>(off, k). take k (drop off buf)) (gso_ranges_from (length buf) n (off + ?k))
        = segments n (drop n (drop off buf))"
      using less.hyps [of "off + ?k"] True k less.prems d by simp
    then show ?thesis using True less.prems t
      by (simp add: gso_ranges_from.simps [of _ _ off] segments.simps [of n "drop off buf"] Let_def)
  qed
qed

text \<open>The ranges tile the batch: each starts where the one before it ended.\<close>

lemma gso_ranges_tile:
  "0 < n \<Longrightarrow> off \<le> tot \<Longrightarrow> off + sum_list (map snd (gso_ranges_from tot n off)) = tot"
proof (induction "tot - off" arbitrary: off rule: less_induct)
  case less
  show ?case
  proof (cases "off < tot")
    case True
    let ?k = "min n (tot - off)"
    have "off + ?k + sum_list (map snd (gso_ranges_from tot n (off + ?k))) = tot"
      using less True by (intro less.hyps) auto
    then show ?thesis using True less.prems by (simp add: gso_ranges_from.simps [of _ _ off] Let_def)
  next
    case False
    then show ?thesis using less.prems by (simp add: gso_ranges_from.simps)
  qed
qed

section \<open>The bursts carry the packets\<close>

definition to_results :: "('addr \<times> bytes) list \<Rightarrow> 'addr SendResult list" where
  "to_results ps = map (\<lambda>(to, pkt). Sent pkt to) ps"

text \<open>Datagrams as quiche writes them into a buffer of \<open>MAX_DATAGRAM_SIZE\<close> bytes.\<close>

definition datagram_ok :: "'addr \<times> bytes \<Rightarrow> bool" where
  "datagram_ok p \<longleftrightarrow> snd p \<noteq> [] \<and> length (snd p) \<le> MAX_DATAGRAM_SIZE"

text \<open>An open batch holds packets of one size for one destination.\<close>

definition open_batch :: "'addr Batch \<Rightarrow> ('addr \<times> bytes) list \<Rightarrow> bool" where
  "open_batch b qs \<longleftrightarrow>
     b_buf b = concat (map snd qs) \<and> b_packets b = length qs \<and>
     (if qs = [] then b_seg_size b = 0 \<and> b_dst b = None
      else 0 < b_seg_size b \<and> b_seg_size b \<le> MAX_DATAGRAM_SIZE \<and>
        (\<exists>d. b_dst b = Some d \<and> (\<forall>q \<in> set qs. fst q = d \<and> length (snd q) = b_seg_size b)))"

text \<open>A finished batch may have one shorter packet at its end.\<close>

definition closed_batch :: "'addr Batch \<Rightarrow> ('addr \<times> bytes) list \<Rightarrow> bool" where
  "closed_batch b qs \<longleftrightarrow>
     b_buf b = concat (map snd qs) \<and> b_packets b = length qs \<and>
     (qs \<noteq> [] \<longrightarrow> 0 < b_seg_size b \<and> b_seg_size b \<le> MAX_DATAGRAM_SIZE \<and>
        (\<exists>d ini l. b_dst b = Some d \<and> qs = ini @ [(d, l)] \<and> l \<noteq> [] \<and> length l \<le> b_seg_size b \<and>
           (\<forall>q \<in> set ini. fst q = d \<and> length (snd q) = b_seg_size b)))"

lemma open_closed:
  assumes "open_batch b qs"
  shows "closed_batch b qs"
proof (cases qs rule: rev_cases)
  case Nil
  then show ?thesis using assms by (simp add: open_batch_def closed_batch_def)
next
  case (snoc ini q)
  then show ?thesis using assms
    by (cases q) (fastforce simp: open_batch_def closed_batch_def)
qed

lemma open_empty [simp]: "open_batch empty_batch []"
  by (simp add: open_batch_def empty_batch_def)

lemma open_first:
  "open_batch (b :: 'addr Batch) [] \<Longrightarrow> datagram_ok (to :: 'addr, pkt) \<Longrightarrow>
     open_batch \<lparr>b_buf = b_buf b @ pkt, b_seg_size = length pkt, b_dst = Some to, b_packets = Suc (b_packets b)\<rparr> [(to, pkt)]"
  by (simp add: open_batch_def datagram_ok_def)

lemma open_next:
  "open_batch b qs \<Longrightarrow> qs \<noteq> [] \<Longrightarrow> b_dst b = Some to \<Longrightarrow> length pkt = b_seg_size b \<Longrightarrow>
     open_batch (b\<lparr>b_buf := b_buf b @ pkt, b_packets := Suc (b_packets b)\<rparr>) (qs @ [(to, pkt)])"
  by (auto simp: open_batch_def)

lemma open_tail:
  "open_batch b qs \<Longrightarrow> qs \<noteq> [] \<Longrightarrow> b_dst b = Some to \<Longrightarrow> pkt \<noteq> [] \<Longrightarrow> length pkt < b_seg_size b \<Longrightarrow>
     closed_batch (b\<lparr>b_buf := b_buf b @ pkt, b_packets := Suc (b_packets b)\<rparr>) (qs @ [(to, pkt)])"
  by (auto simp: open_batch_def closed_batch_def)

text \<open>What a call of the inner loop does to a batch and the packets still queued.\<close>

fun fill_ok :: "('addr \<times> bytes) list \<Rightarrow> ('addr \<times> bytes) list \<Rightarrow> 'addr Fill \<Rightarrow> bool" where
  "fill_ok qs ps (FillErr e) = False"
| "fill_ok qs ps (FillEnd b rs) =
     (\<exists>qs' ps'. rs = to_results ps' \<and> qs @ ps = qs' @ ps' \<and> closed_batch b qs' \<and> length qs \<le> length qs')"
| "fill_ok qs ps (FillAlone b sd pkt to rs) =
     (\<exists>qs' ps'. rs = to_results ps' \<and> qs @ ps = qs' @ (to, pkt) # ps' \<and> closed_batch b qs' \<and> qs' \<noteq> [])"

lemma fill_ok_mono: "fill_ok (qs @ [x]) ps f \<Longrightarrow> fill_ok qs (x # ps) f"
  by (cases f) (auto, metis Suc_leD)

lemma gso_fill_first:
  "open_batch b [] \<Longrightarrow> gso_fill (Suc k) (to_results ((to :: 'addr, pkt) # ps)) b =
     gso_fill k (to_results ps)
       \<lparr>b_buf = b_buf b @ pkt, b_seg_size = length pkt, b_dst = Some to, b_packets = Suc (b_packets b)\<rparr>"
  by (simp add: open_batch_def to_results_def gso_step_def MAX_DATAGRAM_SIZE_def GSO_BURST_PACKETS_def)

lemma gso_fill_ok:
  "open_batch b qs \<Longrightarrow> list_all datagram_ok ps \<Longrightarrow> fill_ok qs ps (gso_fill k (to_results ps) b)"
proof (induction k arbitrary: b qs ps)
  case 0
  then show ?case using open_closed by (auto intro: exI [of _ qs])
next
  case (Suc k)
  show ?case
  proof (cases ps)
    case Nil
    then show ?thesis using Suc.prems open_closed by (auto simp: to_results_def)
  next
    case (Cons x ps')
    obtain to pkt where x: "x = (to, pkt)" by fastforce
    have ok: "datagram_ok (to, pkt)" "list_all datagram_ok ps'" using Suc.prems Cons x by auto
    have rs: "to_results ps = Sent pkt to # to_results ps'" by (simp add: to_results_def Cons x)
    show ?thesis
    proof (cases "qs = []")
      case True
      have "fill_ok [x] ps' (gso_fill k (to_results ps')
          \<lparr>b_buf = b_buf b @ pkt, b_seg_size = length pkt, b_dst = Some to, b_packets = Suc (b_packets b)\<rparr>)"
        using Suc.IH open_first [of b to pkt] Suc.prems(1) True ok x by blast
      then have "fill_ok [] (x # ps') (gso_fill (Suc k) (to_results ps) b)"
        using gso_fill_first [of b k to pkt ps'] Suc.prems(1) True fill_ok_mono [of "[]" x ps']
        by (simp only: Cons x append_Nil)
      then show ?thesis by (simp add: True Cons)
    next
      case False
      from Suc.prems(1) False obtain d where d: "b_dst b = Some d" "0 < b_seg_size b"
        by (auto simp: open_batch_def)
      let ?b = "b\<lparr>b_buf := b_buf b @ pkt, b_packets := Suc (b_packets b)\<rparr>"
      consider (full) "gso_fill (Suc k) (to_results ps) b = FillEnd b (to_results ps)"
        | (alone) "gso_fill (Suc k) (to_results ps) b = FillAlone b (d = to) pkt to (to_results ps')"
        | (tail) "gso_fill (Suc k) (to_results ps) b = FillEnd ?b (to_results ps')" "d = to" "length pkt < b_seg_size b"
        | (app) "gso_fill (Suc k) (to_results ps) b = gso_fill k (to_results ps') ?b" "d = to" "length pkt = b_seg_size b"
        using d by (fastforce simp: rs gso_step_def Let_def split: if_splits)
      then show ?thesis
      proof cases
        case full
        then show ?thesis using open_closed Suc.prems(1) by auto
      next
        case alone
        then show ?thesis using open_closed Suc.prems(1) False by (auto simp: Cons x)
      next
        case tail
        then have "closed_batch ?b (qs @ [(to, pkt)])"
          using open_tail Suc.prems(1) False d ok by (metis datagram_ok_def snd_conv)
        then have "fill_ok (qs @ [x]) ps' (FillEnd ?b (to_results ps'))"
          unfolding fill_ok.simps x by blast
        then show ?thesis using fill_ok_mono tail(1) by (simp only: Cons tail(1))
      next
        case app
        then have "open_batch ?b (qs @ [x])" using open_next Suc.prems(1) False d x by metis
        then have "fill_ok (qs @ [x]) ps' (gso_fill k (to_results ps') ?b)" using Suc.IH ok by blast
        then show ?thesis using fill_ok_mono app(1) by (simp only: Cons app(1))
      qed
    qed
  qed
qed

lemma gso_fill_progress:
  assumes "gso_fill (Suc k) (to_results ps) empty_batch = FillEnd b rs" "list_all datagram_ok ps" "b_buf b = []"
  shows "ps = []"
proof (cases ps)
  case (Cons x ps')
  obtain to pkt where x: "x = (to, pkt)" by fastforce
  have ok: "datagram_ok (to, pkt)" "list_all datagram_ok ps'" using assms(2) by (simp_all add: Cons x)
  have "fill_ok [x] ps' (FillEnd b rs)"
    using gso_fill_ok [OF open_first [OF open_empty ok(1)] ok(2), of k] assms(1)
    by (simp only: Cons x gso_fill_first [OF open_empty])
  then obtain qs where "closed_batch b qs" "qs \<noteq> []" by fastforce
  then show ?thesis using assms(3) by (auto simp: closed_batch_def)
qed simp

lemma gso_fill_seg_size:
  assumes "gso_fill GSO_BURST_PACKETS (to_results ps) empty_batch = FillEnd b rs \<or>
           gso_fill GSO_BURST_PACKETS (to_results ps) empty_batch = FillAlone b sd pkt to rs"
    and "list_all datagram_ok ps" "b_buf b \<noteq> []"
  shows "0 < b_seg_size b \<and> b_dst b \<noteq> None"
  using assms gso_fill_ok [OF open_empty assms(2), of GSO_BURST_PACKETS]
  by (auto simp: closed_batch_def)

section \<open>Delivery\<close>

text \<open>The socket grew by the datagrams \<open>ps\<close> and nothing else about its failures changed.\<close>

definition delivers :: "('addr, 'io) Sock \<Rightarrow> ('addr \<times> bytes) list \<Rightarrow> ('addr, 'io) Sock \<Rightarrow> bool" where
  "delivers s ps s' \<longleftrightarrow> wire s' = wire s @ ps \<and> send_fault s' = send_fault s"

lemma delivers_trans: "delivers s ps s' \<Longrightarrow> delivers s' qs s'' \<Longrightarrow> delivers s (ps @ qs) s''"
  by (simp add: delivers_def)

lemma send_to_delivers:
  "send_fault s = (\<lambda>_. None) \<Longrightarrow> \<exists>s'. send_to ctx buf dst s = (Inr (), s') \<and> delivers s [(dst, buf)] s'"
  by (simp add: send_to_def delivers_def)

lemma send_ranges_delivers:
  "send_fault s = (\<lambda>_. None) \<Longrightarrow>
     \<exists>s'. send_ranges rs buf dst s = (Inr (), s') \<and>
          delivers s (map (\<lambda>d. (dst, d)) (map (\<lambda>(off, k). take k (drop off buf)) rs)) s'"
proof (induction rs arbitrary: s)
  case Nil
  then show ?case by (simp add: delivers_def)
next
  case (Cons r rs)
  obtain off n where r: "r = (off, n)" by fastforce
  from send_to_delivers [OF Cons.prems, of "''UDP send_to (fallback)''" "take n (drop off buf)" dst]
  obtain s1 where s1: "send_to ''UDP send_to (fallback)'' (take n (drop off buf)) dst s = (Inr (), s1)"
    "delivers s [(dst, take n (drop off buf))] s1" by blast
  then have "send_fault s1 = (\<lambda>_. None)" using Cons.prems by (simp add: delivers_def)
  from Cons.IH [OF this] s1 show ?case by (auto simp: r dest: delivers_trans)
qed

lemma map_fst_const: "\<forall>q \<in> set qs. fst q = d \<Longrightarrow> map (\<lambda>p. (d, p)) (map snd qs) = qs"
  by (induction qs) auto

lemma closed_batch_segments:
  assumes "closed_batch b qs" "qs \<noteq> []" "b_dst b = Some d"
  shows "map (\<lambda>p. (d, p)) (segments (b_seg_size b) (b_buf b)) = qs"
proof -
  from assms obtain ini l where q: "qs = ini @ [(d, l)]" "l \<noteq> []" "length l \<le> b_seg_size b"
    "\<forall>q \<in> set ini. fst q = d \<and> length (snd q) = b_seg_size b" "0 < b_seg_size b"
    "b_buf b = concat (map snd qs)"
    by (auto simp: closed_batch_def)
  then have "segments (b_seg_size b) (concat (map snd ini) @ l) = map snd ini @ [l]"
    using segments_concat [of "b_seg_size b" "map snd ini" l] by simp
  then have "map (\<lambda>p. (d, p)) (segments (b_seg_size b) (b_buf b)) = map (\<lambda>p. (d, p)) (map snd ini) @ [(d, l)]"
    using q by simp
  also have "\<dots> = ini @ [(d, l)]" using q map_fst_const by metis
  finally show ?thesis using q by simp
qed

lemma send_batch_delivers:
  assumes c: "closed_batch b qs" "qs \<noteq> []" "b_dst b = Some d" and f: "send_fault s = (\<lambda>_. None)"
  shows "\<exists>s'. send_batch (b_buf b) d (b_seg_size b) (b_packets b) s = (Inr (), s') \<and> delivers s qs s'"
proof (cases "b_packets b \<le> 1")
  case True
  then obtain p where "qs = [(d, p)]" "b_buf b = p"
    using c by (cases qs) (auto simp: closed_batch_def append_eq_Cons_conv)
  then show ?thesis using True send_to_delivers [OF f] by (simp add: send_batch_def)
next
  case False
  have seg: "b_seg_size b < 65536" "0 < b_seg_size b"
    using c by (auto simp: closed_batch_def MAX_DATAGRAM_SIZE_def)
  note sg = closed_batch_segments [OF c]
  show ?thesis
  proof (cases "gso_fault s (calls s)")
    case None
    have "unat (of_nat (b_seg_size b) :: u16) = b_seg_size b" using seg by (simp add: unat_of_nat)
    then show ?thesis using None False sg by (simp add: send_batch_def sendmsg_udp_segment_def delivers_def)
  next
    case (Some e)
    let ?s = "s\<lparr>calls := Suc (calls s), GSO_USABLE := False\<rparr>"
    have "send_fault ?s = (\<lambda>_. None)" using f by simp
    from send_ranges_delivers [OF this, of "gso_replay_ranges (length (b_buf b)) (b_seg_size b)" "b_buf b" d]
    show ?thesis using Some False sg replay_segments [OF seg(2), of "b_buf b" 0]
      by (simp add: send_batch_def sendmsg_udp_segment_def gso_replay_ranges_def delivers_def comp_def)
  qed
qed

lemma closed_empty_buf: "closed_batch b qs \<Longrightarrow> b_buf b = [] \<longleftrightarrow> qs = []"
  by (auto simp: closed_batch_def)

text \<open>One round of the outer loop, given that the rest of the queue is delivered.\<close>

lemma flush_end_step:
  fixes s :: "('addr, 'io) Sock"
  assumes fill: "gso_fill GSO_BURST_PACKETS (to_results ps) empty_batch = FillEnd b (to_results ps')"
    and q: "ps = qs @ ps'" "closed_batch b qs" "qs \<noteq> []" and f: "send_fault s = (\<lambda>_. None)"
    and rest: "\<And>s' :: ('addr, 'io) Sock. send_fault s' = (\<lambda>_. None) \<Longrightarrow>
      \<exists>s''. flush_egress_gso (to_results ps') s' = (Some (Inr ()), s'') \<and> delivers s' ps' s''"
  shows "\<exists>s'. flush_egress_gso (to_results ps) s = (Some (Inr ()), s') \<and> delivers s ps s'"
proof -
  from q obtain d where d: "b_dst b = Some d" by (auto simp: closed_batch_def)
  from send_batch_delivers [OF q(2,3) d f] obtain s1 where
    s1: "send_batch (b_buf b) d (b_seg_size b) (b_packets b) s = (Inr (), s1)" "delivers s qs s1" by blast
  then have "send_fault s1 = (\<lambda>_. None)" using f by (simp add: delivers_def)
  from rest [OF this] obtain s2 where
    s2: "flush_egress_gso (to_results ps') s1 = (Some (Inr ()), s2)" "delivers s1 ps' s2" by blast
  have "b_buf b \<noteq> []" using q closed_empty_buf by blast
  then have "flush_egress_gso (to_results ps) s = (Some (Inr ()), s2)"
    using s1 s2 fill d by (simp add: flush_egress_gso.simps [of "to_results ps"])
  then show ?thesis using delivers_trans [OF s1(2) s2(2)] q(1) by blast
qed

lemma flush_alone_step:
  fixes s :: "('addr, 'io) Sock"
  assumes fill: "gso_fill GSO_BURST_PACKETS (to_results ps) empty_batch = FillAlone b sd pkt to (to_results ps')"
    and q: "ps = qs @ (to, pkt) # ps'" "closed_batch b qs" "qs \<noteq> []" and f: "send_fault s = (\<lambda>_. None)"
    and rest: "\<And>s' :: ('addr, 'io) Sock. send_fault s' = (\<lambda>_. None) \<Longrightarrow>
      \<exists>s''. flush_egress_gso (to_results ps') s' = (Some (Inr ()), s'') \<and> delivers s' ps' s''"
  shows "\<exists>s'. flush_egress_gso (to_results ps) s = (Some (Inr ()), s') \<and> delivers s ps s'"
proof -
  from q obtain d where d: "b_dst b = Some d" by (auto simp: closed_batch_def)
  let ?ctx = "if sd then ''UDP send_to (oversize)'' else ''UDP send_to (path swap)''"
  from send_batch_delivers [OF q(2,3) d f] obtain s1 where
    s1: "send_batch (b_buf b) d (b_seg_size b) (b_packets b) s = (Inr (), s1)" "delivers s qs s1" by blast
  then have f1: "send_fault s1 = (\<lambda>_. None)" using f by (simp add: delivers_def)
  from send_to_delivers [OF this, of ?ctx pkt to] obtain s2 where
    s2: "send_to ?ctx pkt to s1 = (Inr (), s2)" "delivers s1 [(to, pkt)] s2" by blast
  then have "send_fault s2 = (\<lambda>_. None)" using f1 by (simp add: delivers_def)
  from rest [OF this] obtain s3 where
    s3: "flush_egress_gso (to_results ps') s2 = (Some (Inr ()), s3)" "delivers s2 ps' s3" by blast
  have "delivers s ps s3" using delivers_trans [OF s1(2) delivers_trans [OF s2(2) s3(2)]] q(1) by simp
  moreover have "b_buf b \<noteq> []" using q closed_empty_buf by blast
  then have "flush_egress_gso (to_results ps) s = (Some (Inr ()), s3)"
    using s1 s2 s3 fill d by (simp add: flush_egress_gso.simps [of "to_results ps"])
  ultimately show ?thesis by blast
qed

lemma flush_gso_delivers:
  "send_fault s = (\<lambda>_. None) \<Longrightarrow> list_all datagram_ok ps \<Longrightarrow>
     \<exists>s'. flush_egress_gso (to_results ps) s = (Some (Inr ()), s') \<and> delivers s ps s'"
proof (induction "length ps" arbitrary: ps s rule: less_induct)
  case less
  let ?fill = "gso_fill GSO_BURST_PACKETS (to_results ps) empty_batch"
  have ok: "fill_ok [] ps ?fill" using gso_fill_ok [OF open_empty less.prems(2)] .
  show ?case
  proof (cases ?fill)
    case (FillErr e)
    then show ?thesis using ok by simp
  next
    case (FillEnd b rs)
    then obtain qs ps' where q: "rs = to_results ps'" "ps = qs @ ps'" "closed_batch b qs"
      using ok by auto
    show ?thesis
    proof (cases "qs = []")
      case True
      then have b: "b_buf b = []" using q closed_empty_buf by blast
      have "ps = []"
        using gso_fill_progress [of 31 ps b rs] FillEnd less.prems(2) b by (simp add: GSO_BURST_PACKETS_def)
      then show ?thesis using FillEnd b by (simp add: flush_egress_gso.simps delivers_def)
    next
      case False
      then show ?thesis using flush_end_step [of ps b ps' qs s] FillEnd q less by simp
    qed
  next
    case (FillAlone b sd pkt to rs)
    then obtain qs ps' where "rs = to_results ps'" "ps = qs @ (to, pkt) # ps'" "closed_batch b qs" "qs \<noteq> []"
      using ok by auto
    then show ?thesis using flush_alone_step [of ps b sd pkt to ps' qs s] FillAlone less by simp
  qed
qed

lemma flush_per_packet_delivers:
  "send_fault s = (\<lambda>_. None) \<Longrightarrow>
     \<exists>s'. flush_egress_per_packet (to_results ps) s = (Inr (), s') \<and> delivers s ps s'"
proof (induction ps arbitrary: s)
  case Nil
  then show ?case by (simp add: to_results_def delivers_def)
next
  case (Cons x ps)
  obtain to pkt where x: "x = (to, pkt)" by fastforce
  from send_to_delivers [OF Cons.prems, of "''UDP send_to (per-packet fallback)''" pkt to]
  obtain s1 where s1: "send_to ''UDP send_to (per-packet fallback)'' pkt to s = (Inr (), s1)"
    "delivers s [(to, pkt)] s1" by blast
  then have "send_fault s1 = (\<lambda>_. None)" using Cons.prems by (simp add: delivers_def)
  from Cons.IH [OF this] show ?case using s1 by (auto simp: x to_results_def dest: delivers_trans)
qed

section \<open>Property\<close>

definition demo_sock :: "(nat, nat) Sock" where
  "demo_sock = \<lparr>wire = [], calls = 0, send_fault = (\<lambda>_. None),
     gso_fault = (\<lambda>n. if n = 0 then Some 5 else None), GSO_USABLE = True\<rparr>"

definition demo_packets :: "(nat \<times> bytes) list" where
  "demo_packets = [(1, [1, 2, 3]), (1, [4, 5, 6]), (1, [7]), (2, [8, 9])]"

text \<open>
  C36: coalescing is invisible. Whatever GSO bursts the kernel refuses, \<open>flush_egress\<close> on Linux
  puts on the wire exactly the datagrams the connection produced, with their destinations, in
  order and with their boundaries, as the per-packet loop does, provided the socket accepts
  every plain \<open>send_to\<close> and quiche's datagrams are non-empty and fit its buffer.
\<close>

theorem flush_egress_carries_packets:
  assumes "send_fault s = (\<lambda>_. None)" "list_all datagram_ok ps"
  shows "\<exists>s1 s2. flush_egress_linux (to_results ps) s = (Some (Inr ()), s1) \<and>
    flush_egress_per_packet (to_results ps) s = (Inr (), s2) \<and>
    wire s1 = wire s @ ps \<and> wire s2 = wire s @ ps"
  using flush_gso_delivers [OF assms] flush_per_packet_delivers [OF assms(1), of ps]
  by (auto simp: flush_egress_linux_def delivers_def)

theorem flush_egress_carries_packets_witness:
  "list_all datagram_ok demo_packets \<and>
   (\<exists>s1. flush_egress_linux (to_results demo_packets) demo_sock = (Some (Inr ()), s1) \<and> wire s1 = demo_packets)"
proof -
  have ok: "list_all datagram_ok demo_packets" "send_fault demo_sock = (\<lambda>_. None)" "wire demo_sock = []"
    by (simp_all add: demo_packets_def demo_sock_def datagram_ok_def MAX_DATAGRAM_SIZE_def)
  show ?thesis using flush_egress_carries_packets [OF ok(2,1)] ok by auto
qed

end
