(* ===== verification/Filesystem.thy ===== *)
theory Filesystem
  imports Prelude
begin

text \<open>
  The part of \<open>std::fs\<close> and \<open>std::path\<close> that the servers call, on a Linux file system. An
  absolute path is the list of its components, so \<open>Path::starts_with\<close> is \<open>prefix\<close>,
  \<open>Path::parent\<close> is \<open>butlast\<close> and \<open>PathBuf::push\<close> appends one name. The file system is an
  association list from paths to nodes; every system call resolves its path the way the kernel
  does, following symbolic links in every component but (for the no-follow calls) the last, with
  the kernel's limit of 40 links. A call can also fail for reasons outside this model
  (permissions, full disk, I/O errors): the field \<open>env_fault\<close> says which calls fail and how, and
  every theorem holds for every choice of it. The size and time stamps that the kernel keeps for
  directories are attributes of the node that the calls leave as they are.
\<close>

section \<open>Errors\<close>

datatype io_error =
    ENOENT | EPERM | EACCES | EEXIST | ENOTDIR | EISDIR | ENOTEMPTY | EINVAL | ELOOP | EBUSY
  | EIO | ENOSPC | EDQUOT | EROFS | EMFILE | ENXIO | ETXTBSY | ENAMETOOLONG
  | InteriorNul \<comment> \<open>the path holds a NUL byte and never reaches the kernel\<close>
  | InvalidInput string \<comment> \<open>\<open>io::Error::new(InvalidInput, _)\<close>\<close>
  | UnexpectedEof string
  | OtherError string \<comment> \<open>an error that is not the kernel's, with its text\<close>

datatype ErrorKind =
    Kind_NotFound | Kind_PermissionDenied | Kind_AlreadyExists | Kind_NotADirectory | Kind_IsADirectory
  | Kind_DirectoryNotEmpty | Kind_InvalidInput | Kind_UnexpectedEof | Kind_Other

fun error_kind :: "io_error \<Rightarrow> ErrorKind" where
  "error_kind ENOENT = Kind_NotFound"
| "error_kind EPERM = Kind_PermissionDenied"
| "error_kind EACCES = Kind_PermissionDenied"
| "error_kind EEXIST = Kind_AlreadyExists"
| "error_kind ENOTDIR = Kind_NotADirectory"
| "error_kind EISDIR = Kind_IsADirectory"
| "error_kind ENOTEMPTY = Kind_DirectoryNotEmpty"
| "error_kind EINVAL = Kind_InvalidInput"
| "error_kind InteriorNul = Kind_InvalidInput"
| "error_kind (InvalidInput m) = Kind_InvalidInput"
| "error_kind (UnexpectedEof m) = Kind_UnexpectedEof"
| "error_kind _ = Kind_Other"

fun io_text :: "io_error \<Rightarrow> string" where
  "io_text ENOENT = ''No such file or directory (os error 2)''"
| "io_text EPERM = ''Operation not permitted (os error 1)''"
| "io_text EACCES = ''Permission denied (os error 13)''"
| "io_text EEXIST = ''File exists (os error 17)''"
| "io_text ENOTDIR = ''Not a directory (os error 20)''"
| "io_text EISDIR = ''Is a directory (os error 21)''"
| "io_text ENOTEMPTY = ''Directory not empty (os error 39)''"
| "io_text EINVAL = ''Invalid argument (os error 22)''"
| "io_text ELOOP = ''Too many levels of symbolic links (os error 40)''"
| "io_text EBUSY = ''Device or resource busy (os error 16)''"
| "io_text EIO = ''Input/output error (os error 5)''"
| "io_text ENOSPC = ''No space left on device (os error 28)''"
| "io_text EDQUOT = ''Disk quota exceeded (os error 122)''"
| "io_text EROFS = ''Read-only file system (os error 30)''"
| "io_text EMFILE = ''Too many open files (os error 24)''"
| "io_text ENXIO = ''No such device or address (os error 6)''"
| "io_text ETXTBSY = ''Text file busy (os error 26)''"
| "io_text ENAMETOOLONG = ''File name too long (os error 36)''"
| "io_text InteriorNul = ''file name contained an unexpected NUL byte''"
| "io_text (InvalidInput m) = m"
| "io_text (UnexpectedEof m) = m"
| "io_text (OtherError m) = m"

section \<open>Paths\<close>

type_synonym path = "string list"

datatype Component = RootDir | CurDir | ParentDir | Normal string

text \<open>The pieces between slashes.\<close>

fun split_slash :: "string \<Rightarrow> string list" where
  "split_slash [] = [[]]"
| "split_slash (c # s) =
     (if c = CHR ''/'' then [] # split_slash s
      else (case split_slash s of [] \<Rightarrow> [[c]] | p # ps \<Rightarrow> (c # p) # ps))"

definition is_absolute :: "string \<Rightarrow> bool" where
  "is_absolute s = (case s of [] \<Rightarrow> False | c # _ \<Rightarrow> c = CHR ''/'')"

definition piece_component :: "string \<Rightarrow> Component option" where
  "piece_component p =
     (if p = [] \<or> p = ''.'' then None else if p = ''..'' then Some ParentDir else Some (Normal p))"

text \<open>\<open>Path::components\<close>: a leading \<open>.\<close> of a relative path is kept, every other one is dropped.\<close>

definition components :: "string \<Rightarrow> Component list" where
  "components s =
     (if is_absolute s then [RootDir]
      else (if hd (split_slash s) = ''.'' then [CurDir] else [])) @
     List.map_filter piece_component (split_slash s)"

definition component_name :: "Component \<Rightarrow> string option" where
  "component_name c = (case c of Normal n \<Rightarrow> Some n | _ \<Rightarrow> None)"

text \<open>\<open>Path::file_name\<close>: the last component, when it is a normal one.\<close>

definition file_name :: "string \<Rightarrow> string option" where
  "file_name s = (case components s of [] \<Rightarrow> None | cs \<Rightarrow> component_name (last cs))"

text \<open>A directory-entry name, which is what a normal component is.\<close>

definition normal_name :: "string \<Rightarrow> bool" where
  "normal_name n \<longleftrightarrow> n \<noteq> [] \<and> n \<noteq> ''.'' \<and> n \<noteq> ''..'' \<and> CHR ''/'' \<notin> set n"

definition path_parent :: "path \<Rightarrow> path option" where
  "path_parent p = (if p = [] then None else Some (butlast p))"

text \<open>
  \<open>String::from_utf8_lossy\<close>: every maximal ill-formed piece becomes U+FFFD. \<open>utf8_step\<close> tells
  whether a well-formed sequence starts the input, and how many bytes it or the ill-formed
  piece has.
\<close>

definition utf8_second :: "byte \<Rightarrow> byte \<Rightarrow> bool" where
  "utf8_second a b \<longleftrightarrow>
     (if unat a = 0xE0 then 0xA0 \<le> unat b \<and> unat b \<le> 0xBF
      else if unat a = 0xED then 0x80 \<le> unat b \<and> unat b \<le> 0x9F
      else if unat a = 0xF0 then 0x90 \<le> unat b \<and> unat b \<le> 0xBF
      else if unat a = 0xF4 then 0x80 \<le> unat b \<and> unat b \<le> 0x8F
      else utf8_cont b)"

definition utf8_width :: "byte \<Rightarrow> nat" where
  "utf8_width a =
     (if unat a \<le> 0x7F then 1 else if 0xC2 \<le> unat a \<and> unat a \<le> 0xDF then 2
      else if 0xE0 \<le> unat a \<and> unat a \<le> 0xEF then 3
      else if 0xF0 \<le> unat a \<and> unat a \<le> 0xF4 then 4 else 0)"

fun cont_prefix :: "nat \<Rightarrow> bytes \<Rightarrow> nat" where
  "cont_prefix 0 bs = 0"
| "cont_prefix (Suc n) [] = 0"
| "cont_prefix (Suc n) (b # bs) = (if utf8_cont b then Suc (cont_prefix n bs) else 0)"

fun utf8_step :: "bytes \<Rightarrow> bool \<times> nat" where
  "utf8_step [] = (False, 0)"
| "utf8_step [a] = (utf8_width a = 1, 1)"
| "utf8_step (a # b # bs) =
     (if utf8_width a = 1 then (True, 1)
      else if utf8_width a = 0 \<or> \<not> utf8_second a b then (False, 1)
      else let k = cont_prefix (utf8_width a - 2) bs
           in (k = utf8_width a - 2, 2 + k))"

lemma utf8_step_pos: "bs \<noteq> [] \<Longrightarrow> 0 < snd (utf8_step bs)"
  by (cases bs rule: utf8_step.cases) (auto simp: Let_def)

function utf8_lossy :: "bytes \<Rightarrow> bytes" where
  "utf8_lossy bs =
     (if bs = [] then []
      else let (ok, k) = utf8_step bs
           in (if ok then take k bs else [0xEF, 0xBF, 0xBD]) @ utf8_lossy (drop k bs))"
  by pat_completeness auto
termination
proof (relation "measure length")
  fix bs :: bytes and x ok k
  assume "bs \<noteq> []" "x = utf8_step bs" "(ok, k) = x"
  then have "0 < k" using utf8_step_pos [of bs] by (metis snd_conv)
  then show "(drop k bs, bs) \<in> measure length" using \<open>bs \<noteq> []\<close> by simp
qed simp

declare utf8_lossy.simps [simp del]

definition to_string_lossy :: "string \<Rightarrow> string" where
  "to_string_lossy s = bytes_string (utf8_lossy (string_bytes s))"

text \<open>\<open>Path::display\<close> of an absolute path.\<close>

definition display_path :: "path \<Rightarrow> string" where
  "display_path p = to_string_lossy (if p = [] then ''/'' else concat (map (\<lambda>n. CHR ''/'' # n) p))"

section \<open>The file system\<close>

datatype Kind = KFile bytes | KDir | KSymlink string | KOther

record Node =
  n_kind :: Kind
  n_perm :: u32 \<comment> \<open>the low 12 bits of \<open>st_mode\<close>\<close>
  n_uid :: u32
  n_gid :: u32
  n_mtime :: "(u64 \<times> u32) option" \<comment> \<open>seconds and nanoseconds after the epoch, if not before it\<close>
  n_len :: u64 \<comment> \<open>\<open>st_size\<close> of a directory or special file\<close>

datatype Syscall =
    Sys_Lstat | Sys_Stat | Sys_ReadDir | Sys_ReadDirEntry | Sys_Mkdir | Sys_Rmdir | Sys_Unlink
  | Sys_Rename | Sys_Chmod | Sys_Open | Sys_Read | Sys_Write | Sys_Truncate | Sys_Sync
  | Sys_Canonicalize | Sys_Link | Sys_Seek

record FS =
  nodes :: "(path \<times> Node) list"
  fs_root :: Node
  env_fault :: "Syscall \<Rightarrow> path \<Rightarrow> io_error option"
  fs_umask :: u32
  fs_uid :: u32
  fs_gid :: u32
  fs_now :: "u64 \<times> u32"

text \<open>The root directory has its attributes in \<open>fs_root\<close> and is always there.\<close>

definition lookup_node :: "FS \<Rightarrow> path \<Rightarrow> Node option" where
  "lookup_node fs p = (if p = [] then Some ((fs_root fs)\<lparr>n_kind := KDir\<rparr>) else map_of (nodes fs) p)"

definition is_dir_at :: "FS \<Rightarrow> path \<Rightarrow> bool" where
  "is_dir_at fs p = (case lookup_node fs p of None \<Rightarrow> False | Some n \<Rightarrow> n_kind n = KDir)"

fun is_symlink_kind :: "Kind \<Rightarrow> bool" where
  "is_symlink_kind (KSymlink t) = True"
| "is_symlink_kind k = False"

fun is_file_kind :: "Kind \<Rightarrow> bool" where
  "is_file_kind (KFile b) = True"
| "is_file_kind k = False"

definition node_size :: "Node \<Rightarrow> u64" where
  "node_size n = (case n_kind n of
     KFile b \<Rightarrow> of_nat (length b) | KSymlink t \<Rightarrow> of_nat (length t) | _ \<Rightarrow> n_len n)"

fun kind_bits :: "Kind \<Rightarrow> u32" where
  "kind_bits (KFile b) = 0x8000"
| "kind_bits KDir = 0x4000"
| "kind_bits (KSymlink t) = 0xA000"
| "kind_bits KOther = 0x1000"

definition node_mode :: "Node \<Rightarrow> u32" where
  "node_mode n = kind_bits (n_kind n) OR n_perm n"

section \<open>Path resolution by the kernel\<close>

definition MAXSYMLINKS :: nat where "MAXSYMLINKS = 40"

text \<open>The components of a symbolic link's target; a trailing slash demands a directory.\<close>

definition link_components :: "string \<Rightarrow> string list" where
  "link_components t =
     filter (\<lambda>p. p \<noteq> []) (split_slash t) @ (if t \<noteq> [] \<and> last t = CHR ''/'' then [''.''] else [])"

text \<open>
  \<open>namei links fs cur rest follow\<close> resolves \<open>rest\<close> from the directory \<open>cur\<close>. The result is the
  place the path names, which need not exist when only its last component is missing.
\<close>

function namei :: "nat \<Rightarrow> FS \<Rightarrow> path \<Rightarrow> string list \<Rightarrow> bool \<Rightarrow> (io_error, path) result" where
  "namei links fs cur [] follow = Inr cur"
| "namei links fs cur (c # rest) follow =
     (if \<not> is_dir_at fs cur then Inl ENOTDIR
      else if c = ''.'' then namei links fs cur rest follow
      else if c = ''..'' then namei links fs (butlast cur) rest follow
      else (case lookup_node fs (cur @ [c]) of
          None \<Rightarrow> (if rest = [] then Inr (cur @ [c]) else Inl ENOENT)
        | Some n \<Rightarrow>
            (case n_kind n of
               KSymlink t \<Rightarrow>
                 (if rest = [] \<and> \<not> follow then Inr (cur @ [c])
                  else (case links of
                      0 \<Rightarrow> Inl ELOOP
                    | Suc links' \<Rightarrow>
                        namei links' fs (if is_absolute t then [] else cur) (link_components t @ rest) follow))
             | _ \<Rightarrow> namei links fs (cur @ [c]) rest follow)))"
  by pat_completeness auto
termination
  by (relation "measures [\<lambda>(links, fs, cur, rest, follow). links, \<lambda>(links, fs, cur, rest, follow). length rest]")
    auto

text \<open>A path on its way into a system call.\<close>

definition has_nul :: "path \<Rightarrow> bool" where
  "has_nul p \<longleftrightarrow> (\<exists>n \<in> set p. CHR 0x00 \<in> set n)"

definition syscall_path :: "FS \<Rightarrow> Syscall \<Rightarrow> bool \<Rightarrow> path \<Rightarrow> (io_error, path) result" where
  "syscall_path fs sys follow p =
     (if has_nul p then Inl InteriorNul
      else (case env_fault fs sys p of
              Some e \<Rightarrow> Inl e
            | None \<Rightarrow> namei MAXSYMLINKS fs [] p follow))"

definition existing :: "FS \<Rightarrow> path \<Rightarrow> (io_error, Node) result" where
  "existing fs p = (case lookup_node fs p of None \<Rightarrow> Inl ENOENT | Some n \<Rightarrow> Inr n)"

section \<open>Calls that read\<close>

definition symlink_metadata :: "FS \<Rightarrow> path \<Rightarrow> (io_error, Node) result" where
  "symlink_metadata fs p = bindR (syscall_path fs Sys_Lstat False p) (existing fs)"

definition fs_metadata :: "FS \<Rightarrow> path \<Rightarrow> (io_error, Node) result" where
  "fs_metadata fs p = bindR (syscall_path fs Sys_Stat True p) (existing fs)"

definition path_exists :: "FS \<Rightarrow> path \<Rightarrow> bool" where
  "path_exists fs p = is_ok (fs_metadata fs p)"

definition path_is_dir :: "FS \<Rightarrow> path \<Rightarrow> bool" where
  "path_is_dir fs p = (case fs_metadata fs p of Inl _ \<Rightarrow> False | Inr n \<Rightarrow> n_kind n = KDir)"

text \<open>The names in a directory, in the order the directory has them.\<close>

definition children :: "FS \<Rightarrow> path \<Rightarrow> string list" where
  "children fs d = map (\<lambda>(p, n). last p) (filter (\<lambda>(p, n). p \<noteq> [] \<and> butlast p = d) (nodes fs))"

text \<open>\<open>read_dir\<close>: the place that is listed and, for each entry, its name or the error of reading it.\<close>

definition read_dir :: "FS \<Rightarrow> path \<Rightarrow> (io_error, path \<times> (io_error, string) result list) result" where
  "read_dir fs p =
     bindR (syscall_path fs Sys_ReadDir True p) (\<lambda>q. bindR (existing fs q) (\<lambda>n.
       if n_kind n \<noteq> KDir then Inl ENOTDIR
       else Inr (q, map (\<lambda>c. case env_fault fs Sys_ReadDirEntry (p @ [c]) of
                               Some e \<Rightarrow> Inl e | None \<Rightarrow> Inr c) (children fs q))))"

text \<open>\<open>DirEntry::metadata\<close>: an \<open>lstat\<close> of the entry through the open directory \<open>q\<close>, listed as \<open>p\<close>.\<close>

definition entry_metadata :: "FS \<Rightarrow> path \<Rightarrow> path \<Rightarrow> string \<Rightarrow> (io_error, Node) result" where
  "entry_metadata fs q p c =
     (case env_fault fs Sys_Lstat (p @ [c]) of Some e \<Rightarrow> Inl e | None \<Rightarrow> existing fs (q @ [c]))"

text \<open>\<open>canonicalize\<close>: the real place of an existing path.\<close>

definition canonicalize :: "FS \<Rightarrow> path \<Rightarrow> (io_error, path) result" where
  "canonicalize fs p =
     bindR (syscall_path fs Sys_Canonicalize True p) (\<lambda>q. bindR (existing fs q) (\<lambda>_. Inr q))"

section \<open>Calls that change the file system\<close>

definition set_node :: "FS \<Rightarrow> path \<Rightarrow> Node \<Rightarrow> FS" where
  "set_node fs p n = (if p = [] then fs\<lparr>fs_root := n\<rparr> else fs\<lparr>nodes := AList.update p n (nodes fs)\<rparr>)"

definition del_node :: "FS \<Rightarrow> path \<Rightarrow> FS" where
  "del_node fs p = fs\<lparr>nodes := AList.delete p (nodes fs)\<rparr>"

definition new_node :: "FS \<Rightarrow> Kind \<Rightarrow> u32 \<Rightarrow> Node" where
  "new_node fs k perm =
     \<lparr>n_kind = k, n_perm = perm AND NOT (fs_umask fs), n_uid = fs_uid fs, n_gid = fs_gid fs,
      n_mtime = Some (fs_now fs), n_len = 4096\<rparr>"

definition create_dir :: "FS \<Rightarrow> path \<Rightarrow> (io_error, FS) result" where
  "create_dir fs p = bindR (syscall_path fs Sys_Mkdir False p) (\<lambda>q.
     if lookup_node fs q \<noteq> None then Inl EEXIST
     else Inr (set_node fs q (new_node fs KDir 0x1FF)))"

definition remove_dir :: "FS \<Rightarrow> path \<Rightarrow> (io_error, FS) result" where
  "remove_dir fs p = bindR (syscall_path fs Sys_Rmdir False p) (\<lambda>q. bindR (existing fs q) (\<lambda>n.
     if q = [] then Inl EBUSY
     else if n_kind n \<noteq> KDir then Inl ENOTDIR
     else if children fs q \<noteq> [] then Inl ENOTEMPTY
     else Inr (del_node fs q)))"

definition remove_file :: "FS \<Rightarrow> path \<Rightarrow> (io_error, FS) result" where
  "remove_file fs p = bindR (syscall_path fs Sys_Unlink False p) (\<lambda>q. bindR (existing fs q) (\<lambda>n.
     if n_kind n = KDir then Inl EISDIR else Inr (del_node fs q)))"

text \<open>Moving the subtree at \<open>src\<close> to \<open>dst\<close>, replacing what is there.\<close>

definition moved_path :: "path \<Rightarrow> path \<Rightarrow> path \<Rightarrow> path" where
  "moved_path src dst p = (if prefix src p then dst @ drop (length src) p else p)"

definition move_tree :: "FS \<Rightarrow> path \<Rightarrow> path \<Rightarrow> FS" where
  "move_tree fs src dst =
     fs\<lparr>nodes := map (\<lambda>(p, n). (moved_path src dst p, n)) (AList.delete dst (nodes fs))\<rparr>"

definition fs_rename :: "FS \<Rightarrow> path \<Rightarrow> path \<Rightarrow> (io_error, FS) result" where
  "fs_rename fs from to =
     bindR (syscall_path fs Sys_Rename False from) (\<lambda>src.
     bindR (syscall_path fs Sys_Rename False to) (\<lambda>dst.
     bindR (existing fs src) (\<lambda>n.
       if src = [] \<or> dst = [] then Inl EBUSY
       else if src = dst then Inr fs
       else if prefix src dst then Inl EINVAL
       else if prefix dst src then Inl ENOTEMPTY
       else (case lookup_node fs dst of
           None \<Rightarrow> Inr (move_tree fs src dst)
         | Some m \<Rightarrow>
             (if n_kind n = KDir
              then (if n_kind m \<noteq> KDir then Inl ENOTDIR
                    else if children fs dst \<noteq> [] then Inl ENOTEMPTY
                    else Inr (move_tree fs src dst))
              else (if n_kind m = KDir then Inl EISDIR else Inr (move_tree fs src dst)))))))"

text \<open>\<open>chmod\<close> follows a final symbolic link.\<close>

definition set_permissions :: "FS \<Rightarrow> path \<Rightarrow> u32 \<Rightarrow> (io_error, FS) result" where
  "set_permissions fs p mode = bindR (syscall_path fs Sys_Chmod True p) (\<lambda>q. bindR (existing fs q) (\<lambda>n.
     Inr (set_node fs q (n\<lparr>n_perm := mode AND 0xFFF\<rparr>))))"

section \<open>Lemmas\<close>

subsection \<open>Nodes\<close>

definition no_link :: "FS \<Rightarrow> path \<Rightarrow> bool" where
  "no_link fs p \<longleftrightarrow> (case lookup_node fs p of None \<Rightarrow> True | Some n \<Rightarrow> \<not> is_symlink_kind (n_kind n))"

lemma lookup_node_root [simp]: "lookup_node fs [] = Some ((fs_root fs)\<lparr>n_kind := KDir\<rparr>)"
  by (simp add: lookup_node_def)

lemma is_dir_root [simp]: "is_dir_at fs []"
  by (simp add: is_dir_at_def)

lemma no_link_root [simp]: "no_link fs []"
  by (simp add: no_link_def)

lemma is_dir_no_link: "is_dir_at fs p \<Longrightarrow> no_link fs p"
  by (auto simp: is_dir_at_def no_link_def split: option.splits)

lemma existing_Inr [simp]: "existing fs p = Inr n \<longleftrightarrow> lookup_node fs p = Some n"
  by (auto simp: existing_def split: option.splits)

lemma lookup_set_node [fs_simps]:
  "lookup_node (set_node fs q n) p =
     (if p = q then Some (if p = [] then n\<lparr>n_kind := KDir\<rparr> else n) else lookup_node fs p)"
  by (simp add: lookup_node_def set_node_def)

lemma lookup_del_node [fs_simps]:
  "lookup_node (del_node fs q) p = (if p = q \<and> p \<noteq> [] then None else lookup_node fs p)"
  by (simp add: lookup_node_def del_node_def)

lemma map_of_map_keys:
  "(\<And>q n. (q, n) \<in> set al \<Longrightarrow> f q = y \<longleftrightarrow> q = x) \<Longrightarrow>
     map_of (map (\<lambda>(q, n). (f q, n)) al) y = map_of al x"
proof (induction al)
  case (Cons a al)
  obtain q n where a: "a = (q, n)" by fastforce
  have fq: "f q = y \<longleftrightarrow> q = x" using Cons.prems [of q n] a by simp
  have ih: "map_of (map (\<lambda>(q, n). (f q, n)) al) y = map_of al x"
    using Cons.prems by (intro Cons.IH) (metis list.set_intros(2))
  show ?case using fq ih by (cases "q = x") (auto simp: a)
qed simp

lemma lookup_move_tree [fs_simps]:
  assumes "\<not> prefix src p" "\<not> prefix dst p"
  shows "lookup_node (move_tree fs src dst) p = lookup_node fs p"
proof -
  have "map_of (map (\<lambda>(q, n). (moved_path src dst q, n)) (AList.delete dst (nodes fs))) p
      = map_of (AList.delete dst (nodes fs)) p"
    using assms by (intro map_of_map_keys) (auto simp: moved_path_def)
  then show ?thesis using assms by (auto simp: lookup_node_def move_tree_def)
qed

subsection \<open>Resolution without symbolic links\<close>

definition names_ok :: "path \<Rightarrow> bool" where
  "names_ok p \<longleftrightarrow> list_all normal_name p"

definition plain :: "FS \<Rightarrow> path \<Rightarrow> bool" where
  "plain fs p \<longleftrightarrow> (\<forall>q. strict_prefix q p \<longrightarrow> no_link fs q)"

lemma names_ok_append [simp]: "names_ok (p @ q) \<longleftrightarrow> names_ok p \<and> names_ok q"
  by (simp add: names_ok_def)

lemma names_ok_simps [simp]: "names_ok []" "names_ok (n # p) \<longleftrightarrow> normal_name n \<and> names_ok p"
  by (simp_all add: names_ok_def)

lemma names_ok_butlast: "names_ok p \<Longrightarrow> names_ok (butlast p)"
  by (auto simp: names_ok_def list_all_iff dest: in_set_butlastD)

lemma names_ok_prefix: "names_ok p \<Longrightarrow> prefix q p \<Longrightarrow> names_ok q"
  by (auto simp: prefix_def)

lemma plain_prefix: "plain fs p \<Longrightarrow> prefix q p \<Longrightarrow> plain fs q"
  unfolding plain_def by (meson prefix_order.less_le_trans)

lemma plain_Nil [simp]: "plain fs []"
  by (simp add: plain_def)

lemma strict_prefix_snoc_iff: "strict_prefix q (p @ [c]) \<longleftrightarrow> q = p \<or> strict_prefix q p"
proof -
  have "prefix q (p @ [c]) \<and> q \<noteq> p @ [c] \<longleftrightarrow> prefix q p" by (auto simp: prefix_snoc dest: prefix_length_le)
  then show ?thesis unfolding strict_prefix_def by blast
qed

lemma plain_snoc: "plain fs (p @ [c]) \<longleftrightarrow> plain fs p \<and> no_link fs p"
  by (metis plain_def strict_prefix_snoc_iff)

lemma namei_plain:
  "names_ok rest \<Longrightarrow> plain fs (cur @ rest) \<Longrightarrow> (follow \<longrightarrow> no_link fs (cur @ rest)) \<Longrightarrow>
     namei links fs cur rest follow = Inr q \<Longrightarrow> q = cur @ rest"
proof (induction rest arbitrary: cur)
  case Nil
  then show ?case by simp
next
  case (Cons c rest)
  have nl: "no_link fs (cur @ [c])" if "rest \<noteq> [] \<or> follow"
  proof (cases "rest = []")
    case True
    then show ?thesis using that Cons.prems(3) by simp
  next
    case False
    then have "strict_prefix (cur @ [c]) (cur @ c # rest)" by (auto simp: strict_prefix_def)
    then show ?thesis using Cons.prems(2) by (simp add: plain_def)
  qed
  show ?case
    using Cons.prems Cons.IH [of "cur @ [c]"] nl
    by (auto simp: normal_name_def no_link_def split: if_splits option.splits Kind.splits)
qed

lemma syscall_plain:
  "syscall_path fs sys follow p = Inr q \<Longrightarrow> names_ok p \<Longrightarrow> plain fs p \<Longrightarrow> (follow \<longrightarrow> no_link fs p) \<Longrightarrow> q = p"
  using namei_plain [of p fs "[]"] by (auto simp: syscall_path_def split: if_splits option.splits)

text \<open>A place below a node is only named through directories.\<close>

definition tree_fs :: "FS \<Rightarrow> bool" where
  "tree_fs fs \<longleftrightarrow> (\<forall>p n. lookup_node fs p = Some n \<longrightarrow> p = [] \<or> is_dir_at fs (butlast p))"

lemma tree_fsD: "tree_fs fs \<Longrightarrow> is_dir_at fs p \<Longrightarrow> p = [] \<or> is_dir_at fs (butlast p)"
  unfolding tree_fs_def is_dir_at_def [of fs p] by (cases "lookup_node fs p") auto

lemma namei_dir:
  "namei links fs cur rest follow = Inr q \<Longrightarrow> tree_fs fs \<Longrightarrow> (cur = [] \<or> is_dir_at fs (butlast cur)) \<Longrightarrow>
     q = [] \<or> is_dir_at fs (butlast q)"
proof (induction links fs cur rest follow arbitrary: q rule: namei.induct)
  case (1 links fs cur follow)
  then show ?case by simp
next
  case (2 links fs cur c rest follow)
  from "2.prems"(1) have cur: "is_dir_at fs cur" by (auto split: if_splits)
  have up: "butlast cur = [] \<or> is_dir_at fs (butlast (butlast cur))"
    using tree_fsD [OF "2.prems"(2)] "2.prems"(3) by (cases "cur = []") auto
  consider "c = ''.''" | "c \<noteq> ''.''" "c = ''..''" | "c \<noteq> ''.''" "c \<noteq> ''..''" by blast
  then show ?case
  proof cases
    case 1
    then show ?thesis using "2.IH"(1) "2.prems" cur by auto
  next
    case 2
    then show ?thesis using "2.IH"(2) "2.prems" cur up by auto
  next
    case 3
    then show ?thesis using "2.prems" cur "2.IH"(3,4,5,6)
      by (auto split: if_splits option.splits Kind.splits nat.splits)
  qed
qed

lemma tree_prefix_dir:
  "tree_fs fs \<Longrightarrow> lookup_node fs p = Some n \<Longrightarrow> strict_prefix q p \<Longrightarrow> is_dir_at fs q"
proof (induction p arbitrary: n rule: rev_induct)
  case Nil
  then show ?case by simp
next
  case (snoc c p)
  have d: "is_dir_at fs p" using snoc.prems(1,2) unfolding tree_fs_def by fastforce
  then obtain m where "lookup_node fs p = Some m" by (auto simp: is_dir_at_def split: option.splits)
  with snoc d show ?case by (metis strict_prefix_snoc_iff)
qed

lemma namei_descend:
  "tree_fs fs \<Longrightarrow> lookup_node fs (a @ b) = Some n \<Longrightarrow> \<not> is_symlink_kind (n_kind n) \<Longrightarrow> names_ok b \<Longrightarrow>
     namei links fs a (b @ rest) follow = namei links fs (a @ b) rest follow"
proof (induction b arbitrary: a)
  case Nil
  then show ?case by simp
next
  case (Cons c b)
  have "strict_prefix a (a @ c # b)" by (simp add: strict_prefix_def)
  then have da: "is_dir_at fs a" using tree_prefix_dir Cons.prems(1,2) by blast
  have ex: "\<exists>m. lookup_node fs (a @ [c]) = Some m \<and> \<not> is_symlink_kind (n_kind m)"
  proof (cases b)
    case Nil
    then show ?thesis using Cons.prems(2,3) by simp
  next
    case (Cons c' b')
    then have "strict_prefix (a @ [c]) (a @ c # b)" by (simp add: strict_prefix_def)
    then have "is_dir_at fs (a @ [c])" using tree_prefix_dir Cons.prems(1,2) by blast
    then show ?thesis by (auto simp: is_dir_at_def split: option.splits)
  qed
  then show ?case using Cons.IH [of "a @ [c]"] Cons.prems da
    by (auto simp: normal_name_def split: Kind.splits)
qed

text \<open>Below a node that is not a directory there is nothing, and the kernel says so.\<close>

lemma namei_existing:
  assumes "tree_fs fs" "lookup_node fs p = Some n" "names_ok p"
  shows "namei links fs [] p False = Inr p"
proof (cases p rule: rev_cases)
  case (snoc q c)
  have d: "is_dir_at fs q" using assms(1,2) unfolding tree_fs_def snoc by fastforce
  then obtain m where "lookup_node fs ([] @ q) = Some m" "\<not> is_symlink_kind (n_kind m)"
    by (auto simp: is_dir_at_def split: option.splits)
  from namei_descend [OF assms(1) this] show ?thesis
    using assms(2,3) d by (auto simp: snoc normal_name_def split: Kind.splits)
qed simp

lemma namei_below_file:
  assumes "tree_fs fs" "lookup_node fs p = Some n" "is_file_kind (n_kind n)" "names_ok p"
  shows "namei links fs [] (p @ [c]) follow = Inl ENOTDIR"
proof -
  have "\<not> is_symlink_kind (n_kind n)" "\<not> is_dir_at fs p"
    using assms(2,3) by (cases "n_kind n"; simp add: is_dir_at_def)+
  then show ?thesis using namei_descend [of fs "[]" p n links "[c]" follow] assms by simp
qed

text \<open>The environment does not report a missing file where there is one.\<close>

definition honest :: "FS \<Rightarrow> bool" where
  "honest fs \<longleftrightarrow> (\<forall>sys p. env_fault fs sys p \<noteq> Some ENOENT)"

lemma kind_not_found: "error_kind e = Kind_NotFound \<longleftrightarrow> e = ENOENT"
  by (cases e) auto

lemma lstat_not_found:
  assumes "symlink_metadata fs p = Inl e" "error_kind e = Kind_NotFound" "tree_fs fs" "honest fs" "names_ok p"
  shows "lookup_node fs p = None"
proof (rule ccontr)
  assume "lookup_node fs p \<noteq> None"
  then obtain n where n: "lookup_node fs p = Some n" by blast
  have "symlink_metadata fs p = Inr n \<or> symlink_metadata fs p = Inl InteriorNul \<or>
      (\<exists>e. env_fault fs Sys_Lstat p = Some e \<and> symlink_metadata fs p = Inl e)"
    using namei_existing [OF assms(3) n assms(5)] n
    by (auto simp: symlink_metadata_def syscall_path_def existing_def split: option.splits)
  then show False using assms(1,2,4) by (auto simp: kind_not_found honest_def)
qed

lemma lstat_not_below_file:
  assumes "(\<exists>n. symlink_metadata fs (p @ [c]) = Inr n) \<or> symlink_metadata fs (p @ [c]) = Inl ENOENT"
    "tree_fs fs" "honest fs" "names_ok p" "lookup_node fs p = Some n"
  shows "\<not> is_file_kind (n_kind n)"
proof
  assume "is_file_kind (n_kind n)"
  from namei_below_file [OF assms(2,5) this assms(4)] show False
    using assms(1,3) by (auto simp: symlink_metadata_def syscall_path_def honest_def split: option.splits if_splits)
qed

subsection \<open>Effects of the calls on a path without symbolic links\<close>

lemma create_dir_effect:
  "create_dir fs p = Inr fs' \<Longrightarrow> names_ok p \<Longrightarrow> plain fs p \<Longrightarrow>
     lookup_node fs p = None \<and> fs' = set_node fs p (new_node fs KDir 0x1FF)"
  by (auto simp: create_dir_def bindR_Inr_conv dest!: syscall_plain split: if_splits)

lemma remove_dir_effect:
  "remove_dir fs p = Inr fs' \<Longrightarrow> names_ok p \<Longrightarrow> plain fs p \<Longrightarrow>
     p \<noteq> [] \<and> is_dir_at fs p \<and> children fs p = [] \<and> fs' = del_node fs p"
  by (auto simp: remove_dir_def bindR_Inr_conv is_dir_at_def dest!: syscall_plain split: if_splits)

lemma remove_file_effect:
  "remove_file fs p = Inr fs' \<Longrightarrow> names_ok p \<Longrightarrow> plain fs p \<Longrightarrow>
     p \<noteq> [] \<and> (\<exists>n. lookup_node fs p = Some n \<and> n_kind n \<noteq> KDir) \<and> fs' = del_node fs p"
  by (auto simp: remove_file_def bindR_Inr_conv dest!: syscall_plain split: if_splits)

lemma set_permissions_effect:
  "set_permissions fs p mode = Inr fs' \<Longrightarrow> names_ok p \<Longrightarrow> plain fs p \<Longrightarrow> no_link fs p \<Longrightarrow>
     (\<exists>n. lookup_node fs p = Some n \<and> fs' = set_node fs p (n\<lparr>n_perm := mode AND 0xFFF\<rparr>))"
  by (auto simp: set_permissions_def bindR_Inr_conv dest!: syscall_plain split: if_splits)

lemma fs_rename_effect:
  "fs_rename fs src dst = Inr fs' \<Longrightarrow> names_ok src \<Longrightarrow> plain fs src \<Longrightarrow> names_ok dst \<Longrightarrow> plain fs dst \<Longrightarrow>
     src \<noteq> [] \<and> dst \<noteq> [] \<and> (\<exists>n. lookup_node fs src = Some n \<and>
       (src = dst \<and> fs' = fs \<or>
        \<not> prefix src dst \<and> \<not> prefix dst src \<and> fs' = move_tree fs src dst \<and>
        (\<forall>m. lookup_node fs dst = Some m \<longrightarrow> (n_kind m = KDir \<longleftrightarrow> n_kind n = KDir) \<and>
           (n_kind m = KDir \<longrightarrow> children fs dst = []))))"
  by (auto simp: fs_rename_def bindR_Inr_conv dest!: syscall_plain split: if_splits option.splits)

lemma metadata_Inr: "symlink_metadata fs p = Inr n \<Longrightarrow> names_ok p \<Longrightarrow> plain fs p \<Longrightarrow> lookup_node fs p = Some n"
  by (auto simp: symlink_metadata_def bindR_Inr_conv dest!: syscall_plain)

lemma fs_metadata_Inr:
  "fs_metadata fs p = Inr n \<Longrightarrow> names_ok p \<Longrightarrow> plain fs p \<Longrightarrow> no_link fs p \<Longrightarrow> lookup_node fs p = Some n"
  by (auto simp: fs_metadata_def bindR_Inr_conv dest!: syscall_plain)

subsection \<open>The calls keep the tree a tree\<close>

definition empty_below :: "FS \<Rightarrow> path \<Rightarrow> bool" where
  "empty_below fs d \<longleftrightarrow> (\<forall>q. strict_prefix d q \<longrightarrow> lookup_node fs q = None)"

lemma in_children: "lookup_node fs (d @ [c]) = Some n \<Longrightarrow> c \<in> set (children fs d)"
  using map_of_SomeD [of "nodes fs" "d @ [c]" n]
  by (force simp: lookup_node_def children_def)

lemma empty_below_children:
  assumes "tree_fs fs" "children fs d = []"
  shows "empty_below fs d"
  unfolding empty_below_def
proof (intro allI impI)
  fix q assume q: "strict_prefix d q"
  then obtain z where z: "q = d @ z" "z \<noteq> []" by (auto simp: strict_prefix_def prefix_def)
  then obtain c r where r: "q = d @ c # r" by (cases z) auto
  show "lookup_node fs q = None"
  proof (cases r)
    case Nil
    then show ?thesis using r assms(2) in_children [of fs d c] by (cases "lookup_node fs q") auto
  next
    case (Cons c' r')
    then have sp: "strict_prefix (d @ [c]) q" using r by (auto simp: strict_prefix_def)
    have "\<not> is_dir_at fs (d @ [c])" using in_children [of fs d c] assms(2)
      by (auto simp: is_dir_at_def split: option.splits)
    then show ?thesis using tree_prefix_dir [OF assms(1) _ sp] by (cases "lookup_node fs q") auto
  qed
qed

lemma empty_below_not_dir:
  assumes "tree_fs fs" "\<not> is_dir_at fs d"
  shows "empty_below fs d"
  unfolding empty_below_def
proof (intro allI impI)
  fix q assume "strict_prefix d q"
  then show "lookup_node fs q = None" using tree_prefix_dir [OF assms(1), of q] assms(2)
    by (cases "lookup_node fs q") auto
qed

lemma syscall_parent_dir: "syscall_path fs sys follow p = Inr q \<Longrightarrow> tree_fs fs \<Longrightarrow> q = [] \<or> is_dir_at fs (butlast q)"
  using namei_dir [of MAXSYMLINKS fs "[]"] by (auto simp: syscall_path_def split: if_splits option.splits)

lemma is_dir_set_node [fs_simps]:
  "is_dir_at (set_node fs p n) q = (if q = p then p = [] \<or> n_kind n = KDir else is_dir_at fs q)"
  by (simp add: is_dir_at_def fs_simps)

lemma is_dir_del_node [fs_simps]: "is_dir_at (del_node fs p) q \<longleftrightarrow> (q = p \<longrightarrow> p = []) \<and> is_dir_at fs q"
  by (auto simp: is_dir_at_def fs_simps)

lemma tree_fsI: "(\<And>p n. lookup_node fs p = Some n \<Longrightarrow> p \<noteq> [] \<Longrightarrow> is_dir_at fs (butlast p)) \<Longrightarrow> tree_fs fs"
  by (auto simp: tree_fs_def)

lemma tree_fs_parent: "tree_fs fs \<Longrightarrow> lookup_node fs p = Some n \<Longrightarrow> p \<noteq> [] \<Longrightarrow> is_dir_at fs (butlast p)"
  by (auto simp: tree_fs_def)

lemma tree_set_new:
  assumes "tree_fs fs" "lookup_node fs p = None" "is_dir_at fs (butlast p)"
  shows "tree_fs (set_node fs p n)"
proof (rule tree_fsI)
  fix q m assume q: "lookup_node (set_node fs p n) q = Some m" "q \<noteq> []"
  have "is_dir_at fs (butlast q)" using q assms tree_fs_parent by (cases "q = p") (auto simp: fs_simps)
  moreover have "\<not> is_dir_at fs p" using assms(2) by (simp add: is_dir_at_def)
  ultimately show "is_dir_at (set_node fs p n) (butlast q)" by (auto simp: fs_simps)
qed

lemma tree_set_same_kind:
  assumes "tree_fs fs" "lookup_node fs p = Some m" "n_kind n = n_kind m"
  shows "tree_fs (set_node fs p n)"
proof (rule tree_fsI)
  fix q k assume q: "lookup_node (set_node fs p n) q = Some k" "q \<noteq> []"
  have "is_dir_at fs (butlast q)" using q assms tree_fs_parent by (cases "q = p") (auto simp: fs_simps)
  then show "is_dir_at (set_node fs p n) (butlast q)" using assms(2,3) by (auto simp: fs_simps is_dir_at_def)
qed

lemma strict_prefix_butlast: "q \<noteq> [] \<Longrightarrow> strict_prefix (butlast q) q"
  by (metis append_butlast_last_id strict_prefix_snoc_iff)

lemma tree_del:
  assumes "tree_fs fs" "empty_below fs p"
  shows "tree_fs (del_node fs p)"
proof (rule tree_fsI)
  fix q k assume q: "lookup_node (del_node fs p) q = Some k" "q \<noteq> []"
  then have l: "lookup_node fs q = Some k" by (simp add: fs_simps split: if_splits)
  then have "butlast q \<noteq> p" using assms(2) strict_prefix_butlast [OF q(2)] by (auto simp: empty_below_def)
  then show "is_dir_at (del_node fs p) (butlast q)" using tree_fs_parent [OF assms(1) l q(2)] by (simp add: fs_simps)
qed

text \<open>Where a node goes when a subtree moves.\<close>

lemma lookup_moved:
  assumes "empty_below fs dst" "\<not> prefix dst src" "src \<noteq> []" "dst \<noteq> []" "\<not> prefix dst p"
  shows "lookup_node (move_tree fs src dst) (moved_path src dst p) = lookup_node fs p"
proof (cases "p = []")
  case True
  then show ?thesis using assms(3) by (simp add: moved_path_def move_tree_def)
next
  case False
  have nd: "\<not> prefix dst q" if "(q, n) \<in> set (AList.delete dst (nodes fs))" for q n
  proof (cases "q = []")
    case True
    then show ?thesis using assms(4) by simp
  next
    case ne: False
    have k: "q \<noteq> dst" "q \<in> fst ` set (nodes fs)"
      using that by (force simp: AList.delete_eq)+
    then have "map_of (nodes fs) q \<noteq> None" by (simp add: map_of_eq_None_iff)
    then show ?thesis using assms(1) ne k(1) by (auto simp: empty_below_def lookup_node_def strict_prefix_def)
  qed
  have "map_of (map (\<lambda>(q, n). (moved_path src dst q, n)) (AList.delete dst (nodes fs))) (moved_path src dst p)
      = map_of (AList.delete dst (nodes fs)) p"
  proof (rule map_of_map_keys)
    fix q n assume "(q, n) \<in> set (AList.delete dst (nodes fs))"
    from nd [OF this] show "moved_path src dst q = moved_path src dst p \<longleftrightarrow> q = p"
      using assms(5) by (auto simp: moved_path_def prefix_def)
  qed
  then show ?thesis using assms False by (auto simp: lookup_node_def move_tree_def moved_path_def)
qed

lemma prefix_incomparable: "\<not> prefix a b \<Longrightarrow> \<not> prefix b a \<Longrightarrow> \<not> prefix b (a @ r)"
  by (metis prefix_same_cases prefixI)

lemma lookup_move_iff:
  assumes e: "empty_below fs dst" and i: "\<not> prefix src dst" "\<not> prefix dst src" and ne: "src \<noteq> []" "dst \<noteq> []"
  shows "lookup_node (move_tree fs src dst) q =
    (if prefix dst q then lookup_node fs (src @ drop (length dst) q)
     else if prefix src q then None else lookup_node fs q)"
proof -
  consider "prefix dst q" | "\<not> prefix dst q" "prefix src q" | "\<not> prefix dst q" "\<not> prefix src q" by blast
  then show ?thesis
  proof cases
    case 1
    then obtain r where r: "q = dst @ r" by (auto simp: prefix_def)
    have "moved_path src dst (src @ r) = q" by (simp add: moved_path_def r)
    then show ?thesis using lookup_moved [OF e i(2) ne prefix_incomparable [OF i], of r] r by simp
  next
    case 2
    have "map_of (map (\<lambda>(q, n). (moved_path src dst q, n)) (AList.delete dst (nodes fs))) q = None"
      using 2 by (auto simp: map_of_eq_None_iff moved_path_def split: if_splits)
    then show ?thesis using 2 ne(1) by (auto simp: lookup_node_def move_tree_def)
  next
    case 3
    then show ?thesis using lookup_move_tree by simp
  qed
qed

lemma tree_move:
  assumes t: "tree_fs fs" and d: "is_dir_at fs (butlast dst)"
    and e: "empty_below fs dst" and i: "\<not> prefix src dst" "\<not> prefix dst src" and ne: "src \<noteq> []" "dst \<noteq> []"
  shows "tree_fs (move_tree fs src dst)"
proof (rule tree_fsI)
  fix q n assume q: "lookup_node (move_tree fs src dst) q = Some n" "q \<noteq> []"
  note lk = lookup_move_iff [OF e i ne]
  have dir: "is_dir_at (move_tree fs src dst) p = is_dir_at fs p" if "\<not> prefix dst p" "\<not> prefix src p" for p
    using that by (simp add: is_dir_at_def lk)
  show "is_dir_at (move_tree fs src dst) (butlast q)"
  proof (cases "prefix dst q")
    case True
    then obtain r where r: "q = dst @ r" by (auto simp: prefix_def)
    show ?thesis
    proof (cases "r = []")
      case True
      have "\<not> prefix dst (butlast dst)" using strict_prefix_butlast [OF ne(2)] by auto
      moreover have "\<not> prefix src (butlast dst)" using i(1) strict_prefix_butlast [OF ne(2)]
        by (meson prefix_order.le_less_trans prefix_order.less_imp_le)
      ultimately show ?thesis using dir d r True by simp
    next
      case False
      then have "is_dir_at fs (src @ butlast r)"
        using tree_fs_parent [OF t, of "src @ r" n] q r lk [of q] by (simp add: butlast_append)
      then show ?thesis using False r by (simp add: is_dir_at_def lk butlast_append)
    qed
  next
    case False
    then have p: "\<not> prefix src q" "lookup_node fs q = Some n" using q lk [of q] by (auto split: if_splits)
    have "\<not> prefix dst (butlast q)" "\<not> prefix src (butlast q)"
      using False p(1) strict_prefix_butlast [OF q(2)] by (meson prefix_order.trans prefix_order.less_imp_le)+
    then show ?thesis using dir tree_fs_parent [OF t p(2) q(2)] by blast
  qed
qed

text \<open>Every call that succeeds leaves a tree.\<close>

lemma create_dir_tree: "create_dir fs p = Inr fs' \<Longrightarrow> tree_fs fs \<Longrightarrow> tree_fs fs'"
  by (auto simp: create_dir_def bindR_Inr_conv split: if_splits dest: syscall_parent_dir intro: tree_set_new)

lemma remove_dir_tree: "remove_dir fs p = Inr fs' \<Longrightarrow> tree_fs fs \<Longrightarrow> tree_fs fs'"
  by (auto simp: remove_dir_def bindR_Inr_conv split: if_splits intro: tree_del empty_below_children)

lemma remove_file_tree: "remove_file fs p = Inr fs' \<Longrightarrow> tree_fs fs \<Longrightarrow> tree_fs fs'"
  by (auto simp: remove_file_def bindR_Inr_conv is_dir_at_def split: if_splits intro!: tree_del empty_below_not_dir)

lemma set_permissions_tree: "set_permissions fs p m = Inr fs' \<Longrightarrow> tree_fs fs \<Longrightarrow> tree_fs fs'"
  by (auto simp: set_permissions_def bindR_Inr_conv intro: tree_set_same_kind)

lemma rename_target_empty:
  assumes "tree_fs fs" "\<And>m. lookup_node fs dst = Some m \<Longrightarrow> n_kind m = KDir \<Longrightarrow> children fs dst = []"
  shows "empty_below fs dst"
  using assms empty_below_children empty_below_not_dir
  by (cases "is_dir_at fs dst") (auto simp: is_dir_at_def split: option.splits)

lemma fs_rename_tree:
  assumes "fs_rename fs from to = Inr fs'" "tree_fs fs"
  shows "tree_fs fs'"
proof (cases "fs' = fs")
  case False
  with assms(1) obtain src dst n where sd: "syscall_path fs Sys_Rename False to = Inr dst" "src \<noteq> []" "dst \<noteq> []"
    "\<not> prefix src dst" "\<not> prefix dst src" "fs' = move_tree fs src dst"
    and ch: "case lookup_node fs dst of None \<Rightarrow> True | Some m \<Rightarrow> n_kind m = KDir \<longrightarrow> children fs dst = []"
    by (fastforce simp: fs_rename_def bindR_Inr_conv split: if_splits option.splits)
  have sd7: "children fs dst = []" if "lookup_node fs dst = Some m" "n_kind m = KDir" for m
    using ch that by simp
  have "is_dir_at fs (butlast dst)" using syscall_parent_dir [OF sd(1) assms(2)] sd(3) by blast
  moreover have "empty_below fs dst" using rename_target_empty [OF assms(2)] sd7 by blast
  ultimately show ?thesis using tree_move [OF assms(2) _ _ sd(4,5,2,3)] sd(6) by blast
qed (simp add: assms)

lemmas op_tree = create_dir_tree remove_dir_tree remove_file_tree set_permissions_tree fs_rename_tree

subsection \<open>Changes below a directory\<close>

text \<open>
  Nothing but the places strictly below \<open>root\<close> differs (when \<open>root\<close> is \<open>/\<close>, its own attributes
  may).
\<close>

definition same_outside :: "path \<Rightarrow> FS \<Rightarrow> FS \<Rightarrow> bool" where
  "same_outside root fs fs' \<longleftrightarrow>
     (\<forall>p. \<not> strict_prefix root p \<longrightarrow> p \<noteq> [] \<or> root \<noteq> [] \<longrightarrow> lookup_node fs' p = lookup_node fs p)"

definition inside :: "path \<Rightarrow> path \<Rightarrow> bool" where
  "inside root p \<longleftrightarrow> strict_prefix root p \<or> root = [] \<and> p = []"

lemma same_outside_refl [simp]: "same_outside root fs fs"
  by (simp add: same_outside_def)

lemma same_outside_set_node: "inside root p \<Longrightarrow> same_outside root fs (set_node fs p n)"
  by (auto simp: same_outside_def inside_def fs_simps)

lemma same_outside_del_node: "inside root p \<Longrightarrow> same_outside root fs (del_node fs p)"
  by (auto simp: same_outside_def inside_def fs_simps)

lemma same_outside_move_tree:
  assumes "inside root src" "inside root dst" "src \<noteq> []" "dst \<noteq> []"
  shows "same_outside root fs (move_tree fs src dst)"
  unfolding same_outside_def
proof (intro allI impI)
  fix p assume "\<not> strict_prefix root p"
  then have "\<not> prefix src p" "\<not> prefix dst p"
    using assms prefix_order.less_le_trans unfolding inside_def by blast+
  then show "lookup_node (move_tree fs src dst) p = lookup_node fs p" by (rule lookup_move_tree)
qed

lemmas same_outside_intros = same_outside_set_node same_outside_del_node same_outside_move_tree

end
