(* ===== verification/Users.thy ===== *)
theory Users
  imports Filesystem
begin

text \<open>
  Users of \<open>crates/qftp-protocol/src/user.rs\<close>: permissions, the record with its quota counters,
  the in-flight reservation guard, the start-up walk that primes the counters, the compilation of
  the user configuration into a directory of users, and the resolution of a certificate's
  identities to one user. The counters are \<open>AtomicU64\<close>s: \<open>fetch_add\<close> and \<open>fetch_sub\<close> wrap.
\<close>

section \<open>Operations and permissions\<close>

datatype Op = Op_Read | Op_Write | Op_Delete | Op_Mkdir | Op_Rmdir | Op_Rename | Op_Chmod

fun show_Op :: "Op \<Rightarrow> string" where
  "show_Op Op_Read = ''Read''"
| "show_Op Op_Write = ''Write''"
| "show_Op Op_Delete = ''Delete''"
| "show_Op Op_Mkdir = ''Mkdir''"
| "show_Op Op_Rmdir = ''Rmdir''"
| "show_Op Op_Rename = ''Rename''"
| "show_Op Op_Chmod = ''Chmod''"

record Permissions =
  perm_read :: bool
  perm_write :: bool
  perm_delete :: bool
  perm_mkdir :: bool
  perm_rmdir :: bool
  perm_rename :: bool
  perm_chmod :: bool

definition Permissions_full :: Permissions where
  "Permissions_full = \<lparr>perm_read = True, perm_write = True, perm_delete = True, perm_mkdir = True,
     perm_rmdir = True, perm_rename = True, perm_chmod = True\<rparr>"

definition Permissions_read_only :: Permissions where
  "Permissions_read_only = \<lparr>perm_read = True, perm_write = False, perm_delete = False, perm_mkdir = False,
     perm_rmdir = False, perm_rename = False, perm_chmod = False\<rparr>"

fun allows :: "Permissions \<Rightarrow> Op \<Rightarrow> bool" where
  "allows p Op_Read = perm_read p"
| "allows p Op_Write = perm_write p"
| "allows p Op_Delete = perm_delete p"
| "allows p Op_Mkdir = perm_mkdir p"
| "allows p Op_Rmdir = perm_rmdir p"
| "allows p Op_Rename = perm_rename p"
| "allows p Op_Chmod = perm_chmod p"

section \<open>The user record\<close>

record User =
  u_name :: string
  u_home :: path
  u_permissions :: Permissions
  u_quota_bytes :: "u64 option"
  u_used_bytes :: u64
  u_in_flight_bytes :: u64
  u_active_uploads :: "path set"

definition current_usage :: "User \<Rightarrow> u64" where
  "current_usage u = sat_add (u_used_bytes u) (u_in_flight_bytes u)"

text \<open>The guard of a reservation; the user it is held against is the one the caller passes.\<close>

record InFlightReservation =
  ifr_bytes :: u64
  ifr_armed :: bool

definition ifr_reserve :: "User \<Rightarrow> u64 \<Rightarrow> InFlightReservation \<times> User" where
  "ifr_reserve u bytes =
     (\<lparr>ifr_bytes = bytes, ifr_armed = True\<rparr>, u\<lparr>u_in_flight_bytes := u_in_flight_bytes u + bytes\<rparr>)"

definition ifr_disarm :: "InFlightReservation \<Rightarrow> InFlightReservation" where
  "ifr_disarm g = g\<lparr>ifr_armed := False\<rparr>"

definition ifr_drop :: "InFlightReservation \<Rightarrow> User \<Rightarrow> User" where
  "ifr_drop g u =
     (if ifr_armed g then u\<lparr>u_in_flight_bytes := u_in_flight_bytes u - ifr_bytes g\<rparr> else u)"

lemma reserve_drop: "case ifr_reserve u n of (g, u') \<Rightarrow> ifr_drop g u' = u"
  by (simp add: ifr_reserve_def ifr_drop_def)

section \<open>Walking a home directory\<close>

text \<open>
  The depth-first walk over the regular files below a directory. \<open>visit\<close> gets the entry's path,
  its name and its metadata and may change the file system and its own accumulator. Fuel counts
  the directories popped off the stack; \<open>None\<close> means it ran out.
\<close>

type_synonym 'a visitor = "path \<Rightarrow> string \<Rightarrow> Node \<Rightarrow> FS \<times> 'a \<Rightarrow> FS \<times> 'a"

fun visit_entries :: "'a visitor \<Rightarrow> path \<Rightarrow> path \<Rightarrow> (io_error, string) result list \<Rightarrow> path list \<times> FS \<times> 'a
    \<Rightarrow> path list \<times> FS \<times> 'a" where
  "visit_entries visit q dir [] st = st"
| "visit_entries visit q dir (Inl e # es) st = visit_entries visit q dir es st"
| "visit_entries visit q dir (Inr c # es) (stack, fs, acc) =
     (case entry_metadata fs q dir c of
        Inl e \<Rightarrow> visit_entries visit q dir es (stack, fs, acc)
      | Inr meta \<Rightarrow>
          (if n_kind meta = KDir then visit_entries visit q dir es ((dir @ [c]) # stack, fs, acc)
           else if is_file_kind (n_kind meta)
             then visit_entries visit q dir es (stack, visit (dir @ [c]) c meta (fs, acc))
           else visit_entries visit q dir es (stack, fs, acc)))"

fun walk_directory :: "nat \<Rightarrow> 'a visitor \<Rightarrow> path list \<Rightarrow> FS \<times> 'a \<Rightarrow> (FS \<times> 'a) option" where
  "walk_directory fuel visit [] st = Some st"
| "walk_directory 0 visit (dir # stack) st = None"
| "walk_directory (Suc fuel) visit (dir # stack) (fs, acc) =
     (case read_dir fs dir of
        Inl e \<Rightarrow> walk_directory fuel visit stack (fs, acc)
      | Inr (q, entries) \<Rightarrow>
          (let (stack', st') = visit_entries visit q dir entries (stack, fs, acc)
           in walk_directory fuel visit stack' st'))"

definition STALE_PARTIAL_AGE_NS :: int where
  "STALE_PARTIAL_AGE_NS = 24 * 60 * 60 * 1000000000"

definition nanos :: "u64 \<times> u32 \<Rightarrow> int" where
  "nanos t = uint (fst t) * 1000000000 + uint (snd t)"

text \<open>
  A time before the epoch has no representation in \<open>n_mtime\<close>; it is older than the limit on any
  clock past the first day of 1970.
\<close>

definition is_abandoned :: "u64 \<times> u32 \<Rightarrow> Node \<Rightarrow> bool" where
  "is_abandoned now meta = (case n_mtime meta of
     None \<Rightarrow> True
   | Some m \<Rightarrow> nanos m \<le> nanos now \<and> nanos now - nanos m > STALE_PARTIAL_AGE_NS)"

definition is_partial_entry :: "string \<Rightarrow> bool" where
  "is_partial_entry n \<longleftrightarrow> utf8_string n \<and> ends_with n ''.qftp.partial'' \<and> length n > length ''.qftp.partial''"

definition sweep_visit :: "u64 \<times> u32 \<Rightarrow> unit visitor" where
  "sweep_visit now p name meta st =
     (if \<not> is_partial_entry name then st
      else if is_abandoned now meta
        then (case remove_file (fst st) p of Inr fs' \<Rightarrow> (fs', snd st) | Inl e \<Rightarrow> st)
      else st)"

definition sweep_stale_partials :: "nat \<Rightarrow> FS \<Rightarrow> path \<Rightarrow> FS option" where
  "sweep_stale_partials fuel fs root = map_option fst (walk_directory fuel (sweep_visit (fs_now fs)) [root] (fs, ()))"

definition size_visit :: "(u64 \<times> u64) visitor" where
  "size_visit p name meta st =
     (fst st, sat_add (fst (snd st)) (node_size meta), sat_add (snd (snd st)) 1)"

definition walk_size :: "nat \<Rightarrow> FS \<Rightarrow> path \<Rightarrow> (u64 \<times> u64) option" where
  "walk_size fuel fs root = map_option snd (walk_directory fuel size_visit [root] (fs, 0, 0))"

section \<open>The user configuration\<close>

record UserSpec =
  sp_name :: string
  sp_home :: "string option"
  sp_permissions :: Permissions
  sp_quota_bytes :: "u64 option"

record UserConfig =
  cf_anonymous :: "UserSpec option"
  cf_users :: "UserSpec list"

record UserDirectory =
  by_name :: "(string \<times> User) list"
  ud_anonymous :: User

datatype UserDirectoryError = UDE_Io string io_error | UDE_Config string

fun validate_specs_list :: "UserSpec list \<Rightarrow> (UserDirectoryError, unit) result" where
  "validate_specs_list [] = Inr ()"
| "validate_specs_list (spec # specs) =
     (if sp_quota_bytes spec = Some 0
      then Inl (UDE_Config (''user '' @ sp_name spec @
             '': quota_bytes = 0 is ambiguous (#126); omit the field for unlimited, or set `permissions.write = false` to forbid writes''))
      else validate_specs_list specs)"

definition validate_specs :: "UserConfig \<Rightarrow> (UserDirectoryError, unit) result" where
  "validate_specs cfg =
     validate_specs_list (cf_users cfg @ (case cf_anonymous cfg of None \<Rightarrow> [] | Some s \<Rightarrow> [s]))"

text \<open>The components the kernel sees of a configured path.\<close>

definition kernel_path :: "string \<Rightarrow> string list" where
  "kernel_path s = filter (\<lambda>c. c \<noteq> [] \<and> c \<noteq> ''.'') (split_slash s)"

text \<open>\<open>fs::create_dir_all\<close>.\<close>

function create_dir_all :: "FS \<Rightarrow> path \<Rightarrow> (io_error, unit) result \<times> FS" where
  "create_dir_all fs p =
     (case create_dir fs p of
        Inr fs' \<Rightarrow> (Inr (), fs')
      | Inl e \<Rightarrow>
          (if e = ENOENT \<and> p \<noteq> []
           then (case create_dir_all fs (butlast p) of
               (Inl e', fs1) \<Rightarrow> (Inl e', fs1)
             | (Inr _, fs1) \<Rightarrow>
                 (case create_dir fs1 p of
                    Inr fs2 \<Rightarrow> (Inr (), fs2)
                  | Inl e2 \<Rightarrow> (if path_is_dir fs1 p then Inr () else Inl e2, fs1)))
           else (if path_is_dir fs p then Inr () else Inl e, fs)))"
  by pat_completeness auto
termination
  by (relation "measure (\<lambda>(fs, p). length p)") auto

declare create_dir_all.simps [simp del]

definition has_parent_dir :: "string \<Rightarrow> bool" where
  "has_parent_dir s = list_ex (\<lambda>c. c = ParentDir) (components s)"

definition home_raw :: "path \<Rightarrow> UserSpec \<Rightarrow> (UserDirectoryError, string list) result" where
  "home_raw global_root spec =
     (case sp_home spec of
        Some h \<Rightarrow>
          (if is_absolute h then Inr (kernel_path h)
           else if has_parent_dir h
             then Inl (UDE_Config (''user '' @ sp_name spec @ '': relative home '' @ h @ '' contains `..` (#112)''))
           else Inr (global_root @ kernel_path h))
      | None \<Rightarrow>
          Inr (if is_absolute (sp_name spec) then kernel_path (sp_name spec)
               else global_root @ kernel_path (sp_name spec)))"

definition resolve_home :: "FS \<Rightarrow> path \<Rightarrow> path \<Rightarrow> UserSpec \<Rightarrow> (UserDirectoryError, path) result \<times> FS" where
  "resolve_home fs global_root canonical_root spec =
     (case home_raw global_root spec of
        Inl e \<Rightarrow> (Inl e, fs)
      | Inr raw \<Rightarrow>
          (let pre_existed = path_exists fs raw
           in case create_dir_all fs raw of
                (Inl e, fs1) \<Rightarrow> (Inl (UDE_Io (''failed to create home directory '' @ display_path raw @ '' for user '' @ sp_name spec) e), fs1)
              | (Inr _, fs1) \<Rightarrow>
                  (case canonicalize fs1 raw of
                     Inl e \<Rightarrow> (Inl (UDE_Io (''failed to canonicalize home '' @ display_path raw @ '' for user '' @ sp_name spec) e), fs1)
                   | Inr canonical \<Rightarrow>
                       (if \<not> prefix canonical_root canonical
                        then (Inl (UDE_Config (''user '' @ sp_name spec @ '' home '' @ display_path canonical @
                                '' escapes global root '' @ display_path canonical_root @ '' (#112)'')),
                              if pre_existed then fs1
                              else (case remove_dir fs1 raw of Inr fs2 \<Rightarrow> fs2 | Inl _ \<Rightarrow> fs1))
                        else (Inr canonical, fs1)))))"

definition check_home_overlap :: "path \<Rightarrow> (string \<times> path) list \<Rightarrow> (string \<times> path) option" where
  "check_home_overlap home resolved = List.find (\<lambda>(n, other). prefix other home \<or> prefix home other) resolved"

text \<open>Building a user walks the home twice; \<open>None\<close> means the walk ran out of fuel.\<close>

definition build_user :: "nat \<Rightarrow> FS \<Rightarrow> UserSpec \<Rightarrow> path \<Rightarrow> (User \<times> FS) option" where
  "build_user fuel fs spec home =
     (case sweep_stale_partials fuel fs home of
        None \<Rightarrow> None
      | Some fs1 \<Rightarrow>
          (case walk_size fuel fs1 home of
             None \<Rightarrow> None
           | Some (used, _) \<Rightarrow>
               Some (\<lparr>u_name = sp_name spec, u_home = home, u_permissions = sp_permissions spec,
                      u_quota_bytes = sp_quota_bytes spec, u_used_bytes = used, u_in_flight_bytes = 0,
                      u_active_uploads = {}\<rparr>, fs1)))"

definition anonymous_at :: "path \<Rightarrow> u64 \<Rightarrow> User" where
  "anonymous_at home used =
     \<lparr>u_name = ''anonymous'', u_home = home, u_permissions = Permissions_read_only, u_quota_bytes = None,
      u_used_bytes = used, u_in_flight_bytes = 0, u_active_uploads = {}\<rparr>"

definition default_anonymous :: "nat \<Rightarrow> FS \<Rightarrow> path \<Rightarrow> (UserDirectory \<times> FS) option" where
  "default_anonymous fuel fs global_root =
     map_option (\<lambda>fs1. (\<lparr>by_name = [], ud_anonymous = anonymous_at global_root 0\<rparr>, fs1))
       (sweep_stale_partials fuel fs global_root)"

fun resolve_homes :: "path \<Rightarrow> path \<Rightarrow> UserSpec list \<Rightarrow> (string \<times> path) list \<Rightarrow> FS
    \<Rightarrow> (UserDirectoryError, (string \<times> path) list) result \<times> FS" where
  "resolve_homes global_root canonical_root [] resolved fs = (Inr resolved, fs)"
| "resolve_homes global_root canonical_root (spec # specs) resolved fs =
     (case resolve_home fs global_root canonical_root spec of
        (Inl e, fs1) \<Rightarrow> (Inl e, fs1)
      | (Inr home, fs1) \<Rightarrow>
          (case check_home_overlap home resolved of
             Some (other_name, other_home) \<Rightarrow>
               (Inl (UDE_Config (''user '' @ sp_name spec @ '' home '' @ display_path home @ '' overlaps with user '' @
                  other_name @ '' home '' @ display_path other_home @
                  '' (homes must not be equal or nested -- they would share storage but maintain independent quota counters)'')), fs1)
           | None \<Rightarrow> resolve_homes global_root canonical_root specs (resolved @ [(sp_name spec, home)]) fs1))"

fun build_users :: "nat \<Rightarrow> (UserSpec \<times> string \<times> path) list \<Rightarrow> (string \<times> User) list \<Rightarrow> FS
    \<Rightarrow> ((UserDirectoryError, (string \<times> User) list) result \<times> FS) option" where
  "build_users fuel [] acc fs = Some (Inr acc, fs)"
| "build_users fuel ((spec, _, home) # rest) acc fs =
     (case build_user fuel fs spec home of
        None \<Rightarrow> None
      | Some (user, fs1) \<Rightarrow>
          (if map_of acc (sp_name spec) \<noteq> None
           then Some (Inl (UDE_Config (''duplicate user name in config: '' @ sp_name spec)), fs1)
           else build_users fuel rest (AList.update (sp_name spec) user acc) fs1))"

definition from_config_anonymous :: "nat \<Rightarrow> path \<Rightarrow> path \<Rightarrow> UserConfig \<Rightarrow> (string \<times> path) list \<Rightarrow> FS
    \<Rightarrow> ((UserDirectoryError, User) result \<times> FS) option" where
  "from_config_anonymous fuel global_root canonical_root cfg resolved fs =
     (case cf_anonymous cfg of
        Some spec \<Rightarrow>
          (case resolve_home fs global_root canonical_root spec of
             (Inl e, fs1) \<Rightarrow> Some (Inl e, fs1)
           | (Inr home, fs1) \<Rightarrow>
               (case check_home_overlap home resolved of
                  Some (other_name, other_home) \<Rightarrow>
                    Some (Inl (UDE_Config (''anonymous user home '' @ display_path home @ '' overlaps with user '' @
                      other_name @ '' home '' @ display_path other_home)), fs1)
                | None \<Rightarrow> map_option (\<lambda>(u, fs2). (Inr u, fs2)) (build_user fuel fs1 spec home)))
      | None \<Rightarrow>
          (case sweep_stale_partials fuel fs canonical_root of
             None \<Rightarrow> None
           | Some fs1 \<Rightarrow>
               map_option (\<lambda>(used, _). (Inr (anonymous_at canonical_root used), fs1))
                 (walk_size fuel fs1 canonical_root)))"

definition from_config :: "nat \<Rightarrow> FS \<Rightarrow> path \<Rightarrow> UserConfig
    \<Rightarrow> ((UserDirectoryError, UserDirectory) result \<times> FS) option" where
  "from_config fuel fs global_root cfg =
     (case canonicalize fs global_root of
        Inl e \<Rightarrow> Some (Inl (UDE_Io (''failed to canonicalize global root '' @ display_path global_root) e), fs)
      | Inr canonical_root \<Rightarrow>
          (case validate_specs cfg of
             Inl e \<Rightarrow> Some (Inl e, fs)
           | Inr _ \<Rightarrow>
               (case resolve_homes global_root canonical_root (cf_users cfg) [] fs of
                  (Inl e, fs1) \<Rightarrow> Some (Inl e, fs1)
                | (Inr resolved, fs1) \<Rightarrow>
                    (case build_users fuel (zip (cf_users cfg) resolved) [] fs1 of
                       None \<Rightarrow> None
                     | Some (Inl e, fs2) \<Rightarrow> Some (Inl e, fs2)
                     | Some (Inr users, fs2) \<Rightarrow>
                         (case from_config_anonymous fuel global_root canonical_root cfg resolved fs2 of
                            None \<Rightarrow> None
                          | Some (Inl e, fs3) \<Rightarrow> Some (Inl e, fs3)
                          | Some (Inr anon, fs3) \<Rightarrow>
                              Some (Inr \<lparr>by_name = users, ud_anonymous = anon\<rparr>, fs3))))))"

section \<open>Looking users up\<close>

text \<open>\<open>str::trim\<close>: the UTF-8 forms of the code points with the White_Space property.\<close>

definition white_space :: "string list" where
  "white_space =
     map (\<lambda>b. [char_of b]) [9, 10, 11, 12, 13, 32 :: nat] @
     map (map char_of) ([[0xC2, 0x85], [0xC2, 0xA0], [0xE1, 0x9A, 0x80]] :: nat list list) @
     map (\<lambda>b. map char_of [0xE2, 0x80, b]) ([0x80 ..< 0x8B] @ [0xA8, 0xA9, 0xAF] :: nat list) @
     map (map char_of) ([[0xE2, 0x81, 0x9F], [0xE3, 0x80, 0x80]] :: nat list list)"

function trim_start_with :: "string list \<Rightarrow> string \<Rightarrow> string" where
  "trim_start_with ws s =
     (case List.find (\<lambda>w. w \<noteq> [] \<and> prefix w s) ws of
        None \<Rightarrow> s
      | Some w \<Rightarrow> trim_start_with ws (drop (length w) s))"
  by pat_completeness auto
termination
  by (relation "measure (\<lambda>(ws, s). length s)")
    (auto simp: find_Some_iff prefix_def dest: nth_mem)

declare trim_start_with.simps [simp del]

definition trim :: "string \<Rightarrow> string" where
  "trim s = rev (trim_start_with (map rev white_space) (rev (trim_start_with white_space s)))"

definition lookup_strict :: "UserDirectory \<Rightarrow> string \<Rightarrow> User option" where
  "lookup_strict d cn = map_of (by_name d) (trim cn)"

definition lookup_user :: "UserDirectory \<Rightarrow> string option \<Rightarrow> User" where
  "lookup_user d cn =
     (case Option.bind cn (\<lambda>n. map_of (by_name d) (trim n)) of Some u \<Rightarrow> u | None \<Rightarrow> ud_anonymous d)"

definition has_named_users :: "UserDirectory \<Rightarrow> bool" where
  "has_named_users d \<longleftrightarrow> by_name d \<noteq> []"

section \<open>Certificate identities\<close>

datatype GeneralName = DNSName string | RFC822Name string | URIName string | OtherName

text \<open>
  What the X.509 parser reports of a certificate: the names of its SubjectAlternativeName
  extension, if it has a well-formed one, and its common names, \<open>None\<close> where one is not a string.
\<close>

record Certificate =
  cert_san :: "GeneralName list option"
  cert_cns :: "string option list"

definition is_safe_identity :: "string \<Rightarrow> bool" where
  "is_safe_identity s \<longleftrightarrow> \<not> list_ex (\<lambda>c. (of_char c :: nat) < 0x20 \<or> (of_char c :: nat) = 0x7F) s"

definition accept_identity :: "string \<Rightarrow> string option" where
  "accept_identity s =
     (let trimmed = trim s
      in if trimmed \<noteq> [] \<and> is_safe_identity trimmed then Some trimmed else None)"

text \<open>The parser is the parameter \<open>from_der\<close>; \<open>None\<close> is a certificate that does not parse.\<close>

definition extract_identity_candidates :: "(bytes \<Rightarrow> Certificate option) \<Rightarrow> bytes \<Rightarrow> string list" where
  "extract_identity_candidates from_der der =
     (case from_der der of
        None \<Rightarrow> []
      | Some cert \<Rightarrow>
          (case cert_san cert of
             None \<Rightarrow> []
           | Some gns \<Rightarrow>
               List.map_filter (\<lambda>g. case g of DNSName s \<Rightarrow> accept_identity s | _ \<Rightarrow> None) gns @
               List.map_filter (\<lambda>g. case g of RFC822Name s \<Rightarrow> accept_identity s | _ \<Rightarrow> None) gns @
               List.map_filter (\<lambda>g. case g of URIName s \<Rightarrow> accept_identity s | _ \<Rightarrow> None) gns) @
          List.map_filter (\<lambda>a. Option.bind a accept_identity) (cert_cns cert))"

definition extract_cn :: "(bytes \<Rightarrow> Certificate option) \<Rightarrow> bytes \<Rightarrow> string option" where
  "extract_cn from_der der =
     (case extract_identity_candidates from_der der of [] \<Rightarrow> None | c # _ \<Rightarrow> Some c)"

datatype IdentityResolution = Matched string User | NoMatch | Ambiguous "string list"

fun match_identities :: "UserDirectory \<Rightarrow> string list \<Rightarrow> (string \<times> User) list \<Rightarrow> (string \<times> User) list" where
  "match_identities d [] matched = matched"
| "match_identities d (c # cs) matched =
     (case lookup_strict d c of
        None \<Rightarrow> match_identities d cs matched
      | Some user \<Rightarrow>
          (if list_ex (\<lambda>(i, u). u_name u = u_name user) matched then match_identities d cs matched
           else match_identities d cs (matched @ [(c, user)])))"

definition resolve_identity :: "string list \<Rightarrow> UserDirectory \<Rightarrow> IdentityResolution" where
  "resolve_identity candidates d =
     (case match_identities d candidates [] of
        [] \<Rightarrow> NoMatch
      | [(i, u)] \<Rightarrow> Matched i u
      | ms \<Rightarrow> Ambiguous (map (\<lambda>(i, u). u_name u) ms))"

end
