(* ===== verification/Handler.thy ===== *)
theory Handler
  imports Users Protocol
begin

text \<open>
  The request handler of \<open>crates/qftp-protocol/src/handler.rs\<close>: path resolution that never leaves
  the user's root and never follows a symbolic link, the re-checks before each operation, the
  access control list, and the operations that answer without a data transfer.

  The handler talks to the file system in two phases: it resolves the request's paths and then,
  after a window in which another process may have changed the tree, re-checks them and acts.
  \<open>handle_request_at fs0 fs\<close> resolves in \<open>fs0\<close> and re-checks and acts in \<open>fs\<close>, so a theorem for
  all \<open>fs0\<close> is a theorem about every change made in that window; \<open>handle_request\<close> is the case
  where nothing interferes.
\<close>

section \<open>Metadata and responses\<close>

fun file_type_of :: "Kind \<Rightarrow> FileType" where
  "file_type_of KDir = FileType_Directory"
| "file_type_of (KSymlink t) = FileType_Symlink"
| "file_type_of (KFile b) = FileType_Regular"
| "file_type_of KOther = FileType_Other"

definition mode_of :: "Node \<Rightarrow> u32" where
  "mode_of meta = node_mode meta"

definition owner_of :: "Node \<Rightarrow> u32 \<times> u32" where
  "owner_of meta = (n_uid meta, n_gid meta)"

definition mtime_of :: "Node \<Rightarrow> u64 \<times> u32" where
  "mtime_of meta = (case n_mtime meta of None \<Rightarrow> (0, 0) | Some d \<Rightarrow> d)"

definition err :: "ErrorCode \<Rightarrow> string \<Rightarrow> Response" where
  "err code msg = Resp_Err (ErrorResponse_new code msg)"

definition io_code :: "io_error \<Rightarrow> ErrorCode" where
  "io_code e = (case error_kind e of
     Kind_NotFound \<Rightarrow> NotFound
   | Kind_PermissionDenied \<Rightarrow> PermissionDenied
   | Kind_AlreadyExists \<Rightarrow> AlreadyExists
   | _ \<Rightarrow> Internal)"

definition set_mode :: "FS \<Rightarrow> path \<Rightarrow> u32 \<Rightarrow> Response \<times> FS" where
  "set_mode fs target mode =
     (case symlink_metadata fs target of
        Inl e \<Rightarrow> (err (io_code e) (''re-stat failed: '' @ io_text e), fs)
      | Inr m \<Rightarrow>
          (if is_symlink_kind (n_kind m)
           then (err PermissionDenied ''target became a symlink between resolve and chmod (#106)'', fs)
           else (let masked = mode AND 0x1FF \<comment> \<open>\<open>0o0777\<close>\<close>
                 in case set_permissions fs target masked of
                      Inr fs' \<Rightarrow> (Resp_Ok, fs')
                    | Inl e \<Rightarrow> (err Internal (''chmod failed: '' @ io_text e), fs))))"

section \<open>Path resolution\<close>

definition outside_root :: ErrorResponse where
  "outside_root = ErrorResponse_new PermissionDenied ''path outside root''"

fun walk_components :: "FS \<Rightarrow> path \<Rightarrow> Component list \<Rightarrow> path \<Rightarrow> (ErrorResponse, path) result" where
  "walk_components fs root [] current =
     (if \<not> prefix root current then Inl outside_root else Inr current)"
| "walk_components fs root (RootDir # cs) current = walk_components fs root cs root"
| "walk_components fs root (CurDir # cs) current = walk_components fs root cs current"
| "walk_components fs root (ParentDir # cs) current =
     (if current = root \<or> current = [] \<or> \<not> prefix root (butlast current) then Inl outside_root
      else walk_components fs root cs (butlast current))"
| "walk_components fs root (Normal name # cs) current =
     (case symlink_metadata fs (current @ [name]) of
        Inr meta \<Rightarrow>
          (if is_symlink_kind (n_kind meta)
           then Inl (ErrorResponse_new PermissionDenied
                  (''symlink not allowed in path ('' @ display_path (current @ [name]) @ '')''))
           else walk_components fs root cs (current @ [name]))
      | Inl e \<Rightarrow>
          (if error_kind e = Kind_NotFound then walk_components fs root cs (current @ [name])
           else Inl (ErrorResponse_new Internal (''Failed to stat path component: '' @ io_text e))))"

definition walk_safe :: "FS \<Rightarrow> path \<Rightarrow> path \<Rightarrow> string \<Rightarrow> (ErrorResponse, path) result" where
  "walk_safe fs cwd root user_path =
     walk_components fs root (components user_path) (if is_absolute user_path then root else cwd)"

definition resolve :: "FS \<Rightarrow> path \<Rightarrow> path \<Rightarrow> string \<Rightarrow> (ErrorResponse, path) result" where
  "resolve fs cwd root user_path = bindR (walk_safe fs cwd root user_path) (\<lambda>p.
     if \<not> path_exists fs p
     then Inl (ErrorResponse_new NotFound (''No such file or directory: '' @ display_path p))
     else Inr p)"

definition resolve_parent :: "FS \<Rightarrow> path \<Rightarrow> path \<Rightarrow> string \<Rightarrow> (ErrorResponse, path) result" where
  "resolve_parent fs cwd root user_path = bindR (walk_safe fs cwd root user_path) (\<lambda>p.
     case path_parent p of
       None \<Rightarrow> Inl (ErrorResponse_new Malformed ''invalid path: no parent'')
     | Some parent \<Rightarrow>
         (let parent_is_dir = (case symlink_metadata fs parent of
                                 Inl _ \<Rightarrow> False | Inr m \<Rightarrow> n_kind m = KDir)
          in if \<not> parent_is_dir
             then Inl (ErrorResponse_new NotFound (''Parent directory not found: '' @ display_path parent))
             else Inr p))"

text \<open>The ancestors from \<open>p\<close> up to \<open>root\<close>, innermost first.\<close>

function ancestors_up :: "path \<Rightarrow> path option \<Rightarrow> (ErrorResponse, path list) result" where
  "ancestors_up root None = Inr []"
| "ancestors_up root (Some p) =
     (if p = root then Inr [p]
      else if \<not> prefix root p then Inl outside_root
      else bindR (ancestors_up root (path_parent p)) (\<lambda>as. Inr (p # as)))"
  by pat_completeness auto
termination
  by (relation "measure (\<lambda>(root, c). case c of None \<Rightarrow> 0 | Some p \<Rightarrow> Suc (length p))")
    (auto simp: path_parent_def)

declare ancestors_up.simps [simp del]

fun check_ancestors :: "FS \<Rightarrow> path \<Rightarrow> path list \<Rightarrow> (ErrorResponse, unit) result" where
  "check_ancestors fs root [] = Inr ()"
| "check_ancestors fs root (a # as) =
     (case symlink_metadata fs a of
        Inr meta \<Rightarrow>
          (if is_symlink_kind (n_kind meta) \<and> a \<noteq> root
           then Inl (ErrorResponse_new PermissionDenied
                  (''parent became a symlink between resolve and op ('' @ display_path a @ '', #137)''))
           else check_ancestors fs root as)
      | Inl e \<Rightarrow>
          (if error_kind e = Kind_NotFound
           then Inl (ErrorResponse_new NotFound
                  (''parent disappeared between resolve and op: '' @ display_path a))
           else Inl (ErrorResponse_new Internal
                  (''failed to re-stat parent '' @ display_path a @ '': '' @ io_text e))))"

definition recheck_ancestors_no_symlinks :: "FS \<Rightarrow> path \<Rightarrow> path \<Rightarrow> (ErrorResponse, unit) result" where
  "recheck_ancestors_no_symlinks fs target root =
     bindR (ancestors_up root (path_parent target)) (\<lambda>ancestors. check_ancestors fs root (rev ancestors))"

definition recheck_path_no_symlinks :: "FS \<Rightarrow> path \<Rightarrow> path \<Rightarrow> (ErrorResponse, unit) result" where
  "recheck_path_no_symlinks fs target root =
     (if target = root then Inr ()
      else bindR (recheck_ancestors_no_symlinks fs target root) (\<lambda>_.
        case symlink_metadata fs target of
          Inr meta \<Rightarrow>
            (if is_symlink_kind (n_kind meta)
             then Inl (ErrorResponse_new PermissionDenied
                    (''path became a symlink between resolve and op ('' @ display_path target @ '', #137)''))
             else Inr ())
        | Inl e \<Rightarrow>
            (if error_kind e = Kind_NotFound
             then Inl (ErrorResponse_new NotFound
                    (''path disappeared between resolve and op: '' @ display_path target))
             else Inl (ErrorResponse_new Internal
                    (''failed to re-stat '' @ display_path target @ '': '' @ io_text e)))))"

definition check_path_safe :: "FS \<Rightarrow> path \<Rightarrow> path \<Rightarrow> Response option" where
  "check_path_safe fs target root =
     (case recheck_ancestors_no_symlinks fs target root of Inl e \<Rightarrow> Some (Resp_Err e) | Inr _ \<Rightarrow> None)"

section \<open>Access control\<close>

text \<open>Every variant of \<open>Request\<close> is known here, so the arm for unknown future variants is empty.\<close>

fun required_op :: "Request \<Rightarrow> Op option" where
  "required_op Req_Pwd = None"
| "required_op (Req_Cd p) = None"
| "required_op Req_Quit = None"
| "required_op Req_Quota = None"
| "required_op (Req_Ls p c) = Some Op_Read"
| "required_op (Req_Stat p) = Some Op_Read"
| "required_op (Req_Get p a b c) = Some Op_Read"
| "required_op (Req_Put a) = Some Op_Write"
| "required_op (Req_Mkdir p) = Some Op_Mkdir"
| "required_op (Req_Rmdir p) = Some Op_Rmdir"
| "required_op (Req_Rm p) = Some Op_Delete"
| "required_op (Req_Rename p q) = Some Op_Rename"
| "required_op (Req_Chmod p m) = Some Op_Chmod"

definition acl_reject :: "User \<Rightarrow> Request \<Rightarrow> Response option" where
  "acl_reject user req =
     (case required_op req of
        None \<Rightarrow> None
      | Some op \<Rightarrow>
          (if allows (u_permissions user) op then None
           else Some (err PermissionDenied
             (''user '' @ [CHR 0x27] @ u_name user @ [CHR 0x27] @ '' is not allowed to '' @ show_Op op))))"

definition partial_suffix :: string where
  "partial_suffix = ''.qftp.partial''"

definition is_upload_temp :: "string \<Rightarrow> bool" where
  "is_upload_temp p = (case file_name p of None \<Rightarrow> False | Some n \<Rightarrow> ends_with n partial_suffix)"

section \<open>The operations\<close>

definition MAX_DIR_SCAN :: nat where "MAX_DIR_SCAN = MAX_DIR_ENTRIES * 4"

definition dir_entry :: "string \<Rightarrow> Node \<Rightarrow> DirEntry" where
  "dir_entry name meta =
     (let (modified, mtime_nanos) = mtime_of meta; (uid, gid) = owner_of meta
      in \<lparr>de_name = name, de_file_type = file_type_of (n_kind meta), de_size = node_size meta,
          de_modified = modified, de_mtime_nanos = mtime_nanos, de_uid = uid, de_gid = gid,
          de_mode = mode_of meta\<rparr>)"

text \<open>\<open>into_string\<close>, lossy for a name that is not UTF-8.\<close>

definition entry_name :: "string \<Rightarrow> string" where
  "entry_name c = (if utf8_string c then c else to_string_lossy c)"

text \<open>The loop of \<open>Ls\<close> over the entries of the directory \<open>q\<close>, opened through the path \<open>p\<close>.\<close>

fun ls_entries :: "FS \<Rightarrow> path \<Rightarrow> path \<Rightarrow> nat \<Rightarrow> DirEntry list \<Rightarrow> (io_error, string) result list
    \<Rightarrow> (Response, DirEntry list) result" where
  "ls_entries fs q p scanned listing [] = Inr listing"
| "ls_entries fs q p scanned listing (entry # entries) =
     (if Suc scanned > MAX_DIR_SCAN
      then Inl (err Internal (''directory scan exceeded '' @ show_nat MAX_DIR_SCAN @
                              '' entries (too many hidden / temp files)''))
      else if length listing \<ge> MAX_DIR_ENTRIES
      then Inl (err Internal (''directory listing exceeds '' @ show_nat MAX_DIR_ENTRIES @ '' entries''))
      else (case entry of
          Inl e \<Rightarrow> Inl (err (io_code e) (''Read dir error: '' @ io_text e))
        | Inr c \<Rightarrow>
            (let name = entry_name c
             in if is_upload_temp name then ls_entries fs q p (Suc scanned) listing entries
                else (case entry_metadata fs q p c of
                    Inl e \<Rightarrow> Inl (err (io_code e) (''Metadata error: '' @ io_text e))
                  | Inr meta \<Rightarrow>
                      ls_entries fs q p (Suc scanned) (listing @ [dir_entry name meta]) entries))))"

definition ls_dir :: "FS \<Rightarrow> path \<Rightarrow> Response" where
  "ls_dir fs dir =
     (case read_dir fs dir of
        Inl e \<Rightarrow> err (io_code e) (''Cannot list directory: '' @ io_text e)
      | Inr (q, entries) \<Rightarrow>
          (case ls_entries fs q dir 0 [] entries of
             Inl resp \<Rightarrow> resp
           | Inr listing \<Rightarrow> Resp_DirListing (sort_key de_name listing) None))"

definition file_stat :: "Node \<Rightarrow> FileStat" where
  "file_stat meta =
     (let (modified, mtime_nanos) = mtime_of meta; (uid, gid) = owner_of meta
      in \<lparr>st_file_type = file_type_of (n_kind meta), st_size = node_size meta, st_modified = modified,
          st_mtime_nanos = mtime_nanos, st_uid = uid, st_gid = gid, st_mode = mode_of meta\<rparr>)"

text \<open>\<open>cwd.strip_prefix(root)\<close>, printed after a slash.\<close>

definition pwd_text :: "path \<Rightarrow> path \<Rightarrow> string" where
  "pwd_text cwd root =
     (let rel = (if prefix root cwd then drop (length root) cwd else [])
      in ''/'' @ to_string_lossy (concat (case rel of [] \<Rightarrow> [] | n # ns \<Rightarrow> n # map (\<lambda>m. CHR ''/'' # m) ns)))"

text \<open>Run the operation \<open>f\<close> of the file system after the re-check of \<open>target\<close>'s ancestors.\<close>

definition checked_op :: "FS \<Rightarrow> path \<Rightarrow> path \<Rightarrow> string \<Rightarrow> (FS \<Rightarrow> path \<Rightarrow> (io_error, FS) result) \<Rightarrow> Response \<times> FS" where
  "checked_op fs root target label f =
     (case check_path_safe fs target root of
        Some resp \<Rightarrow> (resp, fs)
      | None \<Rightarrow>
          (case f fs target of
             Inr fs' \<Rightarrow> (Resp_Ok, fs')
           | Inl e \<Rightarrow> (err (io_code e) (label @ '' failed: '' @ io_text e), fs)))"

definition handle_cd :: "FS \<Rightarrow> FS \<Rightarrow> string \<Rightarrow> path \<Rightarrow> path \<Rightarrow> Response \<times> path \<times> FS" where
  "handle_cd fs0 fs path cwd root =
     (case resolve fs0 cwd root path of
        Inl e \<Rightarrow> (Resp_Err e, cwd, fs)
      | Inr target \<Rightarrow>
          (case recheck_path_no_symlinks fs target root of
             Inl e \<Rightarrow> (Resp_Err e, cwd, fs)
           | Inr _ \<Rightarrow>
               (if \<not> path_is_dir fs target
                then (err NotADirectory (''Not a directory: '' @ path), cwd, fs)
                else (Resp_Ok, target, fs))))"

definition handle_ls :: "FS \<Rightarrow> FS \<Rightarrow> string \<Rightarrow> path \<Rightarrow> path \<Rightarrow> Response \<times> path \<times> FS" where
  "handle_ls fs0 fs path cwd root =
     (case bindR (if path = [] then Inr cwd else resolve fs0 cwd root path) (\<lambda>d.
             bindR (recheck_path_no_symlinks fs d root) (\<lambda>_. Inr d)) of
        Inl e \<Rightarrow> (Resp_Err e, cwd, fs)
      | Inr dir \<Rightarrow> (ls_dir fs dir, cwd, fs))"

definition handle_mkdir :: "FS \<Rightarrow> FS \<Rightarrow> string \<Rightarrow> path \<Rightarrow> path \<Rightarrow> Response \<times> path \<times> FS" where
  "handle_mkdir fs0 fs path cwd root =
     (case resolve_parent fs0 cwd root path of
        Inl e \<Rightarrow> (Resp_Err e, cwd, fs)
      | Inr target \<Rightarrow> (let (r, fs') = checked_op fs root target ''mkdir'' create_dir in (r, cwd, fs')))"

definition handle_rmdir :: "FS \<Rightarrow> FS \<Rightarrow> string \<Rightarrow> path \<Rightarrow> path \<Rightarrow> Response \<times> path \<times> FS" where
  "handle_rmdir fs0 fs path cwd root =
     (case resolve fs0 cwd root path of
        Inl e \<Rightarrow> (Resp_Err e, cwd, fs)
      | Inr target \<Rightarrow> (let (r, fs') = checked_op fs root target ''rmdir'' remove_dir in (r, cwd, fs')))"

definition handle_rm :: "FS \<Rightarrow> FS \<Rightarrow> string \<Rightarrow> path \<Rightarrow> path \<Rightarrow> Response \<times> path \<times> FS" where
  "handle_rm fs0 fs path cwd root =
     (if is_upload_temp path
      then (err PermissionDenied ''cannot remove a server-internal upload temp file'', cwd, fs)
      else (case resolve fs0 cwd root path of
          Inl e \<Rightarrow> (Resp_Err e, cwd, fs)
        | Inr target \<Rightarrow> (let (r, fs') = checked_op fs root target ''rm'' remove_file in (r, cwd, fs'))))"

definition handle_rename :: "FS \<Rightarrow> FS \<Rightarrow> string \<Rightarrow> string \<Rightarrow> path \<Rightarrow> path \<Rightarrow> Response \<times> path \<times> FS" where
  "handle_rename fs0 fs from to cwd root =
     (if is_upload_temp from \<or> is_upload_temp to
      then (err PermissionDenied ''cannot rename a server-internal upload temp file'', cwd, fs)
      else (case resolve fs0 cwd root from of
          Inl e \<Rightarrow> (Resp_Err e, cwd, fs)
        | Inr src \<Rightarrow>
            (case resolve_parent fs0 cwd root to of
               Inl e \<Rightarrow> (Resp_Err e, cwd, fs)
             | Inr dst \<Rightarrow>
                 (case check_path_safe fs src root of
                    Some resp \<Rightarrow> (resp, cwd, fs)
                  | None \<Rightarrow>
                      (let (r, fs') = checked_op fs root dst ''rename'' (\<lambda>fs. fs_rename fs src)
                       in (r, cwd, fs'))))))"

definition handle_chmod :: "FS \<Rightarrow> FS \<Rightarrow> string \<Rightarrow> u32 \<Rightarrow> path \<Rightarrow> path \<Rightarrow> Response \<times> path \<times> FS" where
  "handle_chmod fs0 fs path mode cwd root =
     (case resolve fs0 cwd root path of
        Inl e \<Rightarrow> (Resp_Err e, cwd, fs)
      | Inr target \<Rightarrow>
          (case check_path_safe fs target root of
             Some resp \<Rightarrow> (resp, cwd, fs)
           | None \<Rightarrow> (let (r, fs') = set_mode fs target mode in (r, cwd, fs'))))"

definition handle_stat :: "FS \<Rightarrow> FS \<Rightarrow> string \<Rightarrow> path \<Rightarrow> path \<Rightarrow> Response \<times> path \<times> FS" where
  "handle_stat fs0 fs path cwd root =
     (case resolve fs0 cwd root path of
        Inl e \<Rightarrow> (Resp_Err e, cwd, fs)
      | Inr target \<Rightarrow>
          (case (if target \<noteq> root then check_path_safe fs target root else None) of
             Some resp \<Rightarrow> (resp, cwd, fs)
           | None \<Rightarrow>
               (case symlink_metadata fs target of
                  Inl e \<Rightarrow> (err (io_code e) (''stat failed: '' @ io_text e), cwd, fs)
                | Inr meta \<Rightarrow>
                    (if is_symlink_kind (n_kind meta)
                     then (err PermissionDenied ''target became a symlink between resolve and stat (#106)'', cwd, fs)
                     else (Resp_FileStat (file_stat meta), cwd, fs)))))"

fun handle_request_at :: "FS \<Rightarrow> FS \<Rightarrow> Request \<Rightarrow> path \<Rightarrow> path \<Rightarrow> Response \<times> path \<times> FS" where
  "handle_request_at fs0 fs Req_Pwd cwd root =
     (Resp_Path (pwd_text cwd root), cwd, fs)"
| "handle_request_at fs0 fs (Req_Cd path) cwd root = handle_cd fs0 fs path cwd root"
| "handle_request_at fs0 fs (Req_Ls path cursor) cwd root = handle_ls fs0 fs path cwd root"
| "handle_request_at fs0 fs (Req_Mkdir path) cwd root = handle_mkdir fs0 fs path cwd root"
| "handle_request_at fs0 fs (Req_Rmdir path) cwd root = handle_rmdir fs0 fs path cwd root"
| "handle_request_at fs0 fs (Req_Rm path) cwd root = handle_rm fs0 fs path cwd root"
| "handle_request_at fs0 fs (Req_Rename from to) cwd root = handle_rename fs0 fs from to cwd root"
| "handle_request_at fs0 fs (Req_Chmod path mode) cwd root = handle_chmod fs0 fs path mode cwd root"
| "handle_request_at fs0 fs (Req_Stat path) cwd root = handle_stat fs0 fs path cwd root"
| "handle_request_at fs0 fs (Req_Get p off len acc) cwd root =
     (err Malformed ''unexpected command on simple-handler path'', cwd, fs)"
| "handle_request_at fs0 fs (Req_Put args) cwd root =
     (err Malformed ''unexpected command on simple-handler path'', cwd, fs)"
| "handle_request_at fs0 fs Req_Quit cwd root =
     (err Malformed ''unexpected command on simple-handler path'', cwd, fs)"
| "handle_request_at fs0 fs Req_Quota cwd root =
     (err Unsupported ''request variant not understood'', cwd, fs)"

lemmas handle_op_defs [simp] =
  handle_cd_def handle_ls_def handle_mkdir_def handle_rmdir_def handle_rm_def handle_rename_def handle_chmod_def handle_stat_def

definition handle_request :: "FS \<Rightarrow> Request \<Rightarrow> path \<Rightarrow> path \<Rightarrow> Response \<times> path \<times> FS" where
  "handle_request fs req cwd root = handle_request_at fs fs req cwd root"

section \<open>Operations that keep the quota counter\<close>

definition regular_len :: "FS \<Rightarrow> path \<Rightarrow> u64" where
  "regular_len fs p = (case symlink_metadata fs p of
     Inl _ \<Rightarrow> 0 | Inr m \<Rightarrow> (if is_file_kind (n_kind m) then node_size m else 0))"

definition quota_aware_remove :: "FS \<Rightarrow> FS \<Rightarrow> string \<Rightarrow> path \<Rightarrow> User \<Rightarrow> Response \<times> FS \<times> User" where
  "quota_aware_remove fs0 fs path cwd user =
     (if is_upload_temp path
      then (err PermissionDenied ''cannot remove a server-internal upload temp file'', fs, user)
      else (case resolve fs0 cwd (u_home user) path of
          Inl e \<Rightarrow> (Resp_Err e, fs, user)
        | Inr target \<Rightarrow>
            (case recheck_ancestors_no_symlinks fs target (u_home user) of
               Inl e \<Rightarrow> (Resp_Err e, fs, user)
             | Inr _ \<Rightarrow>
                 (let pre_size = regular_len fs target
                  in case remove_file fs target of
                       Inl e \<Rightarrow> (err (io_code e) (''rm failed: '' @ io_text e), fs, user)
                     | Inr fs' \<Rightarrow>
                         (Resp_Ok, fs',
                          if pre_size > 0
                          then user\<lparr>u_used_bytes := sat_sub (u_used_bytes user) pre_size\<rparr> else user)))))"

definition quota_aware_rename :: "FS \<Rightarrow> Request \<Rightarrow> path \<Rightarrow> User \<Rightarrow> Response \<times> path \<times> FS \<times> User" where
  "quota_aware_rename fs req cwd user =
     (case req of
        Req_Rename from to \<Rightarrow>
          (let from_path = resolve fs cwd (u_home user) from;
               to_path = resolve_parent fs cwd (u_home user) to;
               clobbered = (case (from_path, to_path) of
                   (Inr f, Inr t) \<Rightarrow> (if f \<noteq> t then regular_len fs t else 0)
                 | _ \<Rightarrow> 0);
               (resp, cwd', fs') = handle_request fs req cwd (u_home user)
           in (resp, cwd', fs',
               if resp = Resp_Ok \<and> clobbered > 0
               then user\<lparr>u_used_bytes := sat_sub (u_used_bytes user) clobbered\<rparr> else user))
      | _ \<Rightarrow> (let (resp, cwd', fs') = handle_request fs req cwd (u_home user) in (resp, cwd', fs', user)))"

section \<open>Lemmas\<close>

subsection \<open>Names\<close>

lemma split_slash_no_slash: "p \<in> set (split_slash s) \<Longrightarrow> CHR ''/'' \<notin> set p"
proof (induction s arbitrary: p)
  case Nil
  then show ?case by simp
next
  case (Cons c s)
  then show ?case by (cases "split_slash s") (auto split: if_splits)
qed

lemma components_normal: "Normal n \<in> set (components s) \<Longrightarrow> normal_name n"
  by (auto simp: components_def map_filter_def piece_component_def normal_name_def
      split: if_splits dest: split_slash_no_slash)

lemma walk_components_result:
  "walk_components fs root cs current = Inr p \<Longrightarrow> names_ok root \<Longrightarrow> names_ok current \<Longrightarrow>
     (\<forall>n. Normal n \<in> set cs \<longrightarrow> normal_name n) \<Longrightarrow> prefix root p \<and> names_ok p"
  by (induction fs root cs current rule: walk_components.induct)
    (auto split: if_splits sum.splits intro: names_ok_butlast)

lemma walk_safe_result:
  "walk_safe fs cwd root s = Inr p \<Longrightarrow> names_ok root \<Longrightarrow> names_ok cwd \<Longrightarrow> prefix root p \<and> names_ok p"
  using walk_components_result components_normal by (auto simp: walk_safe_def split: if_splits)

lemma resolve_result:
  "resolve fs cwd root s = Inr p \<Longrightarrow> names_ok root \<Longrightarrow> names_ok cwd \<Longrightarrow> prefix root p \<and> names_ok p"
  using walk_safe_result by (auto simp: resolve_def bindR_Inr_conv split: if_splits)

lemma resolve_parent_result:
  "resolve_parent fs cwd root s = Inr p \<Longrightarrow> names_ok root \<Longrightarrow> names_ok cwd \<Longrightarrow> prefix root p \<and> names_ok p"
  using walk_safe_result by (auto simp: resolve_parent_def bindR_Inr_conv split: if_splits option.splits)

lemmas resolve_results = resolve_result resolve_parent_result

subsection \<open>What a re-check establishes\<close>

text \<open>The served root is a real directory: no component of it is a symbolic link.\<close>

definition real_root :: "FS \<Rightarrow> path \<Rightarrow> bool" where
  "real_root fs root \<longleftrightarrow> names_ok root \<and> (\<forall>k \<le> length root. is_dir_at fs (take k root))"

lemma real_rootD:
  assumes "real_root fs root"
  shows "names_ok root" "plain fs root" "no_link fs root" "is_dir_at fs root"
proof -
  have all: "is_dir_at fs q" if "prefix q root" for q
    using assms that unfolding real_root_def by (metis append_eq_conv_conj prefix_def prefix_length_le)
  show "names_ok root" using assms by (simp add: real_root_def)
  show "is_dir_at fs root" using all by blast
  then show "no_link fs root" by (rule is_dir_no_link)
  show "plain fs root" using all is_dir_no_link unfolding plain_def by (meson prefix_order.less_imp_le)
qed

lemma check_ancestors_append:
  "check_ancestors fs root (as @ bs) = Inr () \<longleftrightarrow>
     check_ancestors fs root as = Inr () \<and> check_ancestors fs root bs = Inr ()"
  by (induction as) (auto split: sum.splits)

lemma plain_child: "p \<noteq> [] \<Longrightarrow> plain fs p \<longleftrightarrow> plain fs (butlast p) \<and> no_link fs (butlast p)"
  by (metis append_butlast_last_id plain_snoc)

lemma ancestors_checked:
  "ancestors_up root (Some p) = Inr as \<Longrightarrow> check_ancestors fs root (rev as) = Inr () \<Longrightarrow>
     real_root fs root \<Longrightarrow> names_ok p \<Longrightarrow> prefix root p \<and> plain fs p \<and> no_link fs p"
proof (induction "length p" arbitrary: p as rule: less_induct)
  case less
  show ?case
  proof (cases "p = root")
    case True
    then show ?thesis using real_rootD [OF less.prems(3)] by simp
  next
    case False
    then have pre: "prefix root p" using less.prems(1) by (auto simp: ancestors_up.simps split: if_splits)
    with False have ne: "p \<noteq> []" by auto
    from less.prems(1) False pre ne obtain as' where as': "ancestors_up root (Some (butlast p)) = Inr as'" "as = p # as'"
      by (auto simp: bindR_Inr_conv path_parent_def ancestors_up.simps(2) [of root p])
    with less.prems(2) have ck: "check_ancestors fs root (rev as') = Inr ()" "check_ancestors fs root [p] = Inr ()"
      by (auto simp: check_ancestors_append)
    have "plain fs (butlast p) \<and> no_link fs (butlast p)"
      using less.hyps [OF _ as'(1) ck(1) less.prems(3)] names_ok_butlast [OF less.prems(4)] ne by simp
    then have pl: "plain fs p" using plain_child ne by blast
    moreover have "no_link fs p"
      using ck(2) False metadata_Inr [OF _ less.prems(4) pl]
      by (auto simp: no_link_def split: sum.splits if_splits)
    ultimately show ?thesis using pre by blast
  qed
qed

lemma recheck_ancestors_plain:
  assumes "recheck_ancestors_no_symlinks fs target root = Inr ()" "real_root fs root" "names_ok target"
    "prefix root target"
  shows "plain fs target \<and> inside root target"
proof (cases "target = []")
  case True
  then show ?thesis using assms(4) by (simp add: inside_def)
next
  case False
  from assms(1) False obtain as where
    as: "ancestors_up root (Some (butlast target)) = Inr as" "check_ancestors fs root (rev as) = Inr ()"
    by (auto simp: recheck_ancestors_no_symlinks_def bindR_Inr_conv path_parent_def)
  from ancestors_checked [OF as assms(2) names_ok_butlast [OF assms(3)]]
  have pre: "prefix root (butlast target)" and pl: "plain fs target" using False plain_child by blast+
  have "strict_prefix (butlast target) target"
    using False by (metis append_butlast_last_id strict_prefix_snoc_iff)
  with pre pl show ?thesis using prefix_order.le_less_trans by (auto simp: inside_def)
qed

lemma recheck_path_plain:
  assumes "recheck_path_no_symlinks fs target root = Inr ()" "real_root fs root" "names_ok target"
    "prefix root target"
  shows "plain fs target \<and> no_link fs target"
proof (cases "target = root")
  case True
  then show ?thesis using real_rootD [OF assms(2)] by simp
next
  case False
  then have "recheck_ancestors_no_symlinks fs target root = Inr ()"
    and m: "\<exists>m. symlink_metadata fs target = Inr m \<and> \<not> is_symlink_kind (n_kind m)"
    using assms(1) by (auto simp: recheck_path_no_symlinks_def bindR_Inr_conv split: sum.splits if_splits)
  then have pl: "plain fs target" using recheck_ancestors_plain assms by blast
  then show ?thesis using m metadata_Inr [OF _ assms(3) pl] by (auto simp: no_link_def)
qed

lemma check_path_safe_None: "check_path_safe fs target root = None \<longleftrightarrow> recheck_ancestors_no_symlinks fs target root = Inr ()"
  by (auto simp: check_path_safe_def split: sum.splits)

subsection \<open>Confinement of the operations\<close>

lemma checked_op_cases:
  "checked_op fs root target label f = (r, fs') \<Longrightarrow>
     fs' = fs \<or> recheck_ancestors_no_symlinks fs target root = Inr () \<and> f fs target = Inr fs' \<and> r = Resp_Ok"
  by (auto simp: checked_op_def check_path_safe_None split: option.splits sum.splits)

lemma create_dir_confined:
  "create_dir fs p = Inr fs' \<Longrightarrow> names_ok p \<Longrightarrow> plain fs p \<and> inside root p \<Longrightarrow> same_outside root fs fs'"
  using create_dir_effect same_outside_set_node by blast

lemma remove_dir_confined:
  "remove_dir fs p = Inr fs' \<Longrightarrow> names_ok p \<Longrightarrow> plain fs p \<and> inside root p \<Longrightarrow> same_outside root fs fs'"
  using remove_dir_effect same_outside_del_node by blast

lemma remove_file_confined:
  "remove_file fs p = Inr fs' \<Longrightarrow> names_ok p \<Longrightarrow> plain fs p \<and> inside root p \<Longrightarrow> same_outside root fs fs'"
  using remove_file_effect same_outside_del_node by blast

lemma fs_rename_confined:
  "fs_rename fs p q = Inr fs' \<Longrightarrow> names_ok p \<Longrightarrow> plain fs p \<and> inside root p \<Longrightarrow>
     names_ok q \<Longrightarrow> plain fs q \<and> inside root q \<Longrightarrow> same_outside root fs fs'"
  using fs_rename_effect [of fs p q fs'] same_outside_move_tree by auto

lemma set_mode_confined:
  assumes "set_mode fs p mode = (r, fs')" "names_ok p" "plain fs p \<and> inside root p"
  shows "same_outside root fs fs'"
proof (cases "fs' = fs")
  case False
  with assms(1) obtain m where m: "symlink_metadata fs p = Inr m" "\<not> is_symlink_kind (n_kind m)"
    and s: "set_permissions fs p (mode AND 0x1FF) = Inr fs'"
    by (auto simp: set_mode_def Let_def split: sum.splits if_splits)
  from metadata_Inr [OF m(1)] assms have "no_link fs p" using m(2) by (simp add: no_link_def)
  with set_permissions_effect [OF s] assms show ?thesis using same_outside_set_node by blast
qed simp

lemmas op_confined = create_dir_confined remove_dir_confined remove_file_confined

lemma checked_op_confined:
  assumes "checked_op fs root target label f = (r, fs')" "real_root fs root" "prefix root target \<and> names_ok target"
    and "\<And>fs'. f fs target = Inr fs' \<Longrightarrow> plain fs target \<and> inside root target \<Longrightarrow> same_outside root fs fs'"
  shows "same_outside root fs fs'"
  using checked_op_cases [OF assms(1)] recheck_ancestors_plain [OF _ assms(2)] assms(3,4) by auto

lemma chmod_confined:
  assumes "handle_request_at fs0 fs (Req_Chmod p m) cwd root = (r, cwd', fs')" "real_root fs root" "names_ok cwd"
  shows "same_outside root fs fs'"
proof (cases "fs' = fs")
  case False
  with assms(1) obtain t where t: "resolve fs0 cwd root p = Inr t" "check_path_safe fs t root = None"
    "set_mode fs t m = (r, fs')"
    by (auto split: sum.splits option.splits prod.splits)
  with resolve_result [OF t(1) real_rootD(1) [OF assms(2)] assms(3)] show ?thesis
    using set_mode_confined recheck_ancestors_plain [OF _ assms(2)] check_path_safe_None by blast
qed simp

lemma rename_confined:
  assumes "handle_request_at fs0 fs (Req_Rename p q) cwd root = (r, cwd', fs')" "real_root fs root" "names_ok cwd"
  shows "same_outside root fs fs'"
proof (cases "fs' = fs")
  case False
  with assms(1) obtain s t where t: "resolve fs0 cwd root p = Inr s" "check_path_safe fs s root = None"
    "resolve_parent fs0 cwd root q = Inr t" "checked_op fs root t ''rename'' (\<lambda>fs. fs_rename fs s) = (r, fs')"
    by (auto split: sum.splits option.splits prod.splits if_splits)
  have s: "prefix root s \<and> names_ok s" and tt: "prefix root t \<and> names_ok t"
    using resolve_results t assms real_rootD(1) by blast+
  then have "plain fs s \<and> inside root s"
    using t(2) recheck_ancestors_plain [OF _ assms(2)] check_path_safe_None by blast
  then show ?thesis using checked_op_confined [OF t(4) assms(2) tt] fs_rename_confined s tt by blast
qed simp

lemma handle_request_at_confined:
  assumes "handle_request_at fs0 fs req cwd root = (r, cwd', fs')" "real_root fs root" "names_ok cwd"
  shows "same_outside root fs fs'"
proof -
  have nr: "names_ok root" using assms(2) by (rule real_rootD)
  note res = resolve_results [OF _ nr assms(3)]
  have op: "same_outside root fs fs'"
    if "checked_op fs root t l f = (r, fs')" "prefix root t \<and> names_ok t" "f \<in> {create_dir, remove_dir, remove_file}" for t l f
    using checked_op_confined [OF that(1) assms(2) that(2)] op_confined that(2,3) by blast
  show ?thesis
  proof (cases req)
    case (Req_Mkdir p)
    then show ?thesis using assms(1) res op by (auto split: sum.splits prod.splits)
  next
    case (Req_Rmdir p)
    then show ?thesis using assms(1) res op by (auto split: sum.splits prod.splits)
  next
    case (Req_Rm p)
    then show ?thesis using assms(1) res op by (auto split: sum.splits prod.splits if_splits)
  next
    case (Req_Rename p q)
    then show ?thesis using rename_confined assms by blast
  next
    case (Req_Chmod p m)
    then show ?thesis using chmod_confined assms by blast
  qed (use assms(1) in \<open>auto split: sum.splits prod.splits option.splits if_splits\<close>)
qed

text \<open>The working directory stays inside the root and only names real directories.\<close>

lemma handle_request_at_cwd:
  assumes "handle_request_at fs0 fs req cwd root = (r, cwd', fs')" "real_root fs root"
    "names_ok cwd" "prefix root cwd"
  shows "names_ok cwd' \<and> prefix root cwd' \<and>
    (cwd' \<noteq> cwd \<longrightarrow> fs' = fs \<and> is_dir_at fs cwd' \<and> plain fs cwd')"
proof (cases "cwd' = cwd")
  case True
  then show ?thesis using assms by simp
next
  case False
  from assms(1) False obtain p where "req = Req_Cd p"
    by (cases req) (auto split: sum.splits prod.splits option.splits if_splits)
  with assms(1) False have t: "resolve fs0 cwd root p = Inr cwd'" "recheck_path_no_symlinks fs cwd' root = Inr ()"
    "path_is_dir fs cwd'" "fs' = fs"
    by (auto split: sum.splits if_splits)
  have r: "prefix root cwd' \<and> names_ok cwd'" using resolve_result [OF t(1) real_rootD(1) [OF assms(2)] assms(3)] .
  then have pl: "plain fs cwd' \<and> no_link fs cwd'" using recheck_path_plain [OF t(2) assms(2)] by blast
  then have "is_dir_at fs cwd'" using t(3) r fs_metadata_Inr [of fs cwd']
    by (auto simp: path_is_dir_def is_dir_at_def split: sum.splits)
  then show ?thesis using r pl t by blast
qed

subsection \<open>What a resolved path names\<close>

text \<open>Without interference, a resolved path has no symbolic link anywhere.\<close>

lemma walk_components_plain:
  "walk_components fs root cs current = Inr p \<Longrightarrow> real_root fs root \<Longrightarrow> tree_fs fs \<Longrightarrow> honest fs \<Longrightarrow>
     names_ok current \<Longrightarrow> plain fs current \<and> no_link fs current \<Longrightarrow>
     (\<forall>n. Normal n \<in> set cs \<longrightarrow> normal_name n) \<Longrightarrow> plain fs p \<and> no_link fs p"
proof (induction fs root cs current rule: walk_components.induct)
  case (1 fs root current)
  then show ?case by (simp split: if_splits)
next
  case (2 fs root cs current)
  then show ?case using real_rootD [of fs root] by simp
next
  case (3 fs root cs current)
  then show ?case by simp
next
  case (4 fs root cs current)
  then show ?case using plain_child [of current] by (auto split: if_splits intro: names_ok_butlast)
next
  case (5 fs root name cs current)
  let ?q = "current @ [name]"
  have q: "names_ok ?q" "plain fs ?q" using "5.prems" by (auto simp: plain_snoc)
  have "no_link fs ?q" "walk_components fs root cs ?q = Inr p"
    using "5.prems"(1) metadata_Inr [OF _ q] lstat_not_found [OF _ _ "5.prems"(3,4) q(1)]
    by (auto simp: no_link_def split: sum.splits if_splits)
  then show ?case using 5 q by (auto split: sum.splits if_splits)
qed

definition file_at :: "FS \<Rightarrow> path \<Rightarrow> bool" where
  "file_at fs p \<longleftrightarrow> (\<exists>n. lookup_node fs p = Some n \<and> is_file_kind (n_kind n))"

lemma dir_not_file: "is_dir_at fs p \<Longrightarrow> \<not> file_at fs p"
  by (auto simp: is_dir_at_def file_at_def split: option.splits)

text \<open>Popping never lands on a regular file, so a resolved file is named by the last component.\<close>

lemma walk_components_file:
  "walk_components fs root cs current = Inr p \<Longrightarrow> tree_fs fs \<Longrightarrow> honest fs \<Longrightarrow> names_ok current \<Longrightarrow>
     (\<forall>q. strict_prefix q current \<longrightarrow> \<not> file_at fs q) \<Longrightarrow> set cs \<subseteq> {ParentDir} \<union> Normal ` {n. normal_name n} \<Longrightarrow>
     cs \<noteq> [] \<Longrightarrow> file_at fs p \<Longrightarrow> p \<noteq> [] \<and> last cs = Normal (last p)"
proof (induction fs root cs current rule: walk_components.induct)
  case (4 fs root cs current)
  have sp: "strict_prefix (butlast current) current" if "current \<noteq> []"
    using that by (metis append_butlast_last_id strict_prefix_snoc_iff)
  then have np: "\<forall>q. strict_prefix q (butlast current) \<longrightarrow> \<not> file_at fs q" if "current \<noteq> []"
    using that "4.prems"(5) prefix_order.less_trans by blast
  show ?case
  proof (cases "cs = []")
    case True
    then show ?thesis using "4.prems" sp by (auto split: if_splits)
  next
    case False
    then show ?thesis using "4.prems" "4.IH" np by (auto split: if_splits intro: names_ok_butlast)
  qed
next
  case (5 fs root name cs current)
  let ?q = "current @ [name]"
  have w: "walk_components fs root cs ?q = Inr p"
    and l: "(\<exists>n. symlink_metadata fs ?q = Inr n) \<or> symlink_metadata fs ?q = Inl ENOENT"
    using "5.prems"(1) by (auto simp: kind_not_found split: sum.splits if_splits)
  have "\<not> file_at fs current"
    using lstat_not_below_file [OF l "5.prems"(2,3,4)] by (auto simp: file_at_def)
  then have np: "\<forall>q. strict_prefix q ?q \<longrightarrow> \<not> file_at fs q"
    using "5.prems"(5) by (auto simp: strict_prefix_snoc_iff)
  have nq: "names_ok ?q" using "5.prems"(4,6) by auto
  show ?case
  proof (cases "cs = []")
    case True
    then show ?thesis using w by (auto split: if_splits)
  next
    case False
    then show ?thesis using "5.prems" "5.IH" np nq w by (auto split: sum.splits if_splits)
  qed
qed auto

lemma components_shape:
  "\<exists>ini cs. components s = ini @ cs \<and> ini \<in> {[], [RootDir], [CurDir]} \<and>
     set cs \<subseteq> {ParentDir} \<union> Normal ` {n. normal_name n}"
proof -
  let ?cs = "List.map_filter piece_component (split_slash s)"
  have "set ?cs \<subseteq> {ParentDir} \<union> Normal ` {n. normal_name n}"
    by (auto simp: map_filter_def piece_component_def normal_name_def split: if_splits dest: split_slash_no_slash)
  then show ?thesis unfolding components_def
    by (intro exI [of _ "if is_absolute s then [RootDir] else if hd (split_slash s) = ''.'' then [CurDir] else []"]
        exI [of _ ?cs]) auto
qed

lemma walk_safe_file:
  assumes "walk_safe fs cwd root s = Inr p" "real_root fs root" "tree_fs fs" "honest fs"
    "names_ok cwd" "is_dir_at fs cwd" "file_at fs p"
  shows "p \<noteq> [] \<and> file_name s = Some (last p)"
proof -
  obtain ini cs where c: "components s = ini @ cs" "ini \<in> {[], [RootDir], [CurDir]}"
    "set cs \<subseteq> {ParentDir} \<union> Normal ` {n. normal_name n}" using components_shape by blast
  have nf: "\<forall>q. strict_prefix q d \<longrightarrow> \<not> file_at fs q" if d: "is_dir_at fs d" for d
    using tree_prefix_dir [OF assms(3)] dir_not_file d by (auto simp: is_dir_at_def split: option.splits)
  obtain d where d: "walk_components fs root cs d = Inr p" "names_ok d" "is_dir_at fs d"
    using assms(1,5,6) c(1,2) real_rootD(1,4) [OF assms(2)] by (auto simp: walk_safe_def split: if_splits)
  have ne: "cs \<noteq> []"
  proof
    assume "cs = []"
    then have "p = d" using d(1) by (auto split: if_splits)
    then show False using assms(7) d(3) dir_not_file by blast
  qed
  note last = walk_components_file [OF d(1) assms(3,4) d(2) nf [OF d(3)] c(3) ne assms(7)]
  then have lc: "p \<noteq> [] \<and> last (components s) = Normal (last p)" using c(1) ne by simp
  have "components s \<noteq> []" using c(1) ne by simp
  then have "file_name s = component_name (last (components s))"
    by (cases "components s") (simp_all add: file_name_def)
  then show ?thesis using lc by (simp add: component_name_def)
qed

end
