(* ===== verification/Handler_Props.thy ===== *)
theory Handler_Props
  imports Handler "HOL-Library.Multiset"
begin

text \<open>
  What the request handler guarantees beyond confinement: the file system stays a tree, a request
  that the access control list lets through changes nothing its permission does not cover, upload
  temp files survive every request, a listing is sorted, complete and bounded, and the quota
  counter follows the bytes on disk through removals and renames.
\<close>

section \<open>The tree invariant\<close>

lemma checked_op_tree:
  "checked_op fs root t l f = (r, fs') \<Longrightarrow> tree_fs fs \<Longrightarrow>
     (\<And>fs'. f fs t = Inr fs' \<Longrightarrow> tree_fs fs') \<Longrightarrow> tree_fs fs'"
  using checked_op_cases by fastforce

lemma set_mode_tree: "set_mode fs t m = (r, fs') \<Longrightarrow> tree_fs fs \<Longrightarrow> tree_fs fs'"
  by (auto simp: set_mode_def Let_def split: sum.splits if_splits dest: set_permissions_tree)

lemma handle_request_at_tree:
  assumes "handle_request_at fs0 fs req cwd root = (r, cwd', fs')" "tree_fs fs"
  shows "tree_fs fs'"
proof -
  have op: "tree_fs fs'" if "checked_op fs root t l f = (r, fs')"
    "f \<in> {create_dir, remove_dir, remove_file} \<union> {\<lambda>fs. fs_rename fs s}" for t l f s
    using checked_op_tree [OF that(1) assms(2)] op_tree assms(2) that(2) by blast
  show ?thesis using assms op set_mode_tree
    by (cases req) (auto split: sum.splits prod.splits option.splits if_splits)
qed

section \<open>Access control\<close>

text \<open>The operation that a change of the file system by a request needs.\<close>

lemma handle_request_at_changes:
  assumes "handle_request_at fs0 fs req cwd root = (r, cwd', fs')" "fs' \<noteq> fs"
  shows "\<exists>op. required_op req = Some op \<and> op \<in> {Op_Mkdir, Op_Rmdir, Op_Delete, Op_Rename, Op_Chmod}"
  using assms by (cases req) (auto split: sum.splits prod.splits option.splits if_splits)

lemma acl_reject_None: "acl_reject u req = None \<longleftrightarrow> (\<forall>op. required_op req = Some op \<longrightarrow> allows (u_permissions u) op)"
  by (auto simp: acl_reject_def split: option.splits)

section \<open>Listings\<close>

definition entry_names :: "('e, string) result list \<Rightarrow> string list" where
  "entry_names es = map entry_name (List.map_filter (\<lambda>e. case e of Inr c \<Rightarrow> Some c | Inl _ \<Rightarrow> None) es)"

lemma entry_names_simps [simp]:
  "entry_names [] = []" "entry_names (Inr c # es) = entry_name c # entry_names es"
  by (simp_all add: entry_names_def map_filter_simps)

lemma de_name_dir_entry [simp]: "de_name (dir_entry n m) = n"
  by (simp add: dir_entry_def split: prod.splits)

text \<open>
  A listing that is returned has exactly the names that are not upload temps, in directory order
  before the sort, each with the metadata of its entry.
\<close>

definition listing_ok :: "FS \<Rightarrow> path \<Rightarrow> path \<Rightarrow> (io_error, string) result list \<Rightarrow> DirEntry list \<Rightarrow> bool" where
  "listing_ok fs q p es new \<longleftrightarrow>
     map de_name new = filter (\<lambda>n. \<not> is_upload_temp n) (entry_names es) \<and>
     (\<forall>d \<in> set new. \<exists>c m. Inr c \<in> set es \<and> entry_metadata fs q p c = Inr m \<and> d = dir_entry (entry_name c) m)"

lemma listing_ok_skip: "listing_ok fs q p es new \<Longrightarrow> is_upload_temp (entry_name c) \<Longrightarrow> listing_ok fs q p (Inr c # es) new"
  by (auto simp: listing_ok_def) blast

lemma listing_ok_push:
  "listing_ok fs q p es new \<Longrightarrow> \<not> is_upload_temp (entry_name c) \<Longrightarrow> entry_metadata fs q p c = Inr m \<Longrightarrow>
     listing_ok fs q p (Inr c # es) (dir_entry (entry_name c) m # new)"
  by (auto simp: listing_ok_def) blast+

lemma ls_entries_Inr:
  "ls_entries fs q p k acc es = Inr out \<Longrightarrow>
     \<exists>new. out = acc @ new \<and> (length acc \<le> MAX_DIR_ENTRIES \<longrightarrow> length out \<le> MAX_DIR_ENTRIES) \<and>
       k + length es \<le> max k MAX_DIR_SCAN \<and> listing_ok fs q p es new"
proof (induction fs q p k acc es rule: ls_entries.induct)
  case (1 fs q p scanned listing)
  then show ?case by (simp add: listing_ok_def)
next
  case (2 fs q p scanned listing entry entries)
  from "2.prems" obtain c where c: "entry = Inr c" "length listing < MAX_DIR_ENTRIES" "\<not> Suc scanned > MAX_DIR_SCAN"
    by (auto split: if_splits sum.splits)
  show ?case
  proof (cases "is_upload_temp (entry_name c)")
    case True
    then have "ls_entries fs q p (Suc scanned) listing entries = Inr out"
      using "2.prems" c by (simp add: Let_def split: if_splits)
    then show ?thesis using "2.IH"(1) c True listing_ok_skip by (fastforce simp: not_le)
  next
    case False
    then obtain m where m: "entry_metadata fs q p c = Inr m"
      "ls_entries fs q p (Suc scanned) (listing @ [dir_entry (entry_name c) m]) entries = Inr out"
      using "2.prems" c by (auto simp: Let_def split: if_splits sum.splits)
    with "2.IH"(2) [OF _ _ c(1) refl False m] c obtain new where new:
      "out = listing @ dir_entry (entry_name c) m # new" "length out \<le> MAX_DIR_ENTRIES"
      "Suc scanned + length entries \<le> max (Suc scanned) MAX_DIR_SCAN" "listing_ok fs q p entries new"
      by auto
    then show ?thesis using listing_ok_push [OF new(4) False m(1)] c by (auto simp: not_less)
  qed
qed

lemma is_err_err [simp]: "is_err (err c m)"
  by (simp add: err_def)

lemma ls_entries_Inl: "ls_entries fs q p k acc es = Inl r \<Longrightarrow> is_err r"
  by (induction fs q p k acc es rule: ls_entries.induct) (auto simp: Let_def split: if_splits sum.splits)

lemma ls_dir_listing:
  assumes "ls_dir fs dir = Resp_DirListing es nc"
  shows "\<exists>q entries new. read_dir fs dir = Inr (q, entries) \<and> es = sort_key de_name new \<and> nc = None \<and>
    listing_ok fs q dir entries new \<and> length es \<le> MAX_DIR_ENTRIES"
proof -
  from assms obtain q entries where rd: "read_dir fs dir = Inr (q, entries)"
    by (auto simp: ls_dir_def err_def split: sum.splits prod.splits)
  obtain new where new: "ls_entries fs q dir 0 [] entries = Inr new" "es = sort_key de_name new" "nc = None"
    using assms rd ls_entries_Inl [of fs q dir 0 "[]" entries]
    by (fastforce simp: ls_dir_def split: sum.splits)
  then show ?thesis using rd ls_entries_Inr [OF new(1)] by auto
qed

section \<open>Bytes on disk\<close>

definition file_len :: "Node \<Rightarrow> nat" where
  "file_len n = (case n_kind n of KFile b \<Rightarrow> length b | _ \<Rightarrow> 0)"

text \<open>The bytes of the regular files at or below a directory.\<close>

definition usage :: "FS \<Rightarrow> path \<Rightarrow> nat" where
  "usage fs root = sum_list (map (\<lambda>(p, n). if prefix root p then file_len n else 0) (nodes fs))"

definition distinct_fs :: "FS \<Rightarrow> bool" where
  "distinct_fs fs \<longleftrightarrow> distinct (map fst (nodes fs))"

lemma sum_list_delete:
  "distinct (map fst al) \<Longrightarrow> sum_list (map (\<lambda>(p, n). f p n) al) =
     (case map_of al k of None \<Rightarrow> 0 | Some n \<Rightarrow> f k n) + sum_list (map (\<lambda>(p, n). f p n) (AList.delete k al))"
  for f :: "'k \<Rightarrow> 'v \<Rightarrow> nat"
proof (induction al)
  case (Cons a al)
  obtain q n where a: "a = (q, n)" by fastforce
  have q: "q \<notin> fst ` set al" using Cons.prems a by simp
  show ?case
  proof (cases "q = k")
    case True
    then show ?thesis using q by (simp add: a)
  next
    case False
    then show ?thesis using Cons by (simp add: a)
  qed
qed simp

lemma usage_del:
  assumes "distinct_fs fs" "lookup_node fs p = Some n" "prefix root p" "p \<noteq> []"
  shows "usage fs root = file_len n + usage (del_node fs p) root"
  using sum_list_delete [of "nodes fs" "\<lambda>p n. if prefix root p then file_len n else 0" p] assms
  by (simp add: usage_def distinct_fs_def del_node_def lookup_node_def)

lemma usage_move:
  assumes "distinct_fs fs" "prefix root src" "prefix root dst" "dst \<noteq> []"
  shows "usage fs root = (case lookup_node fs dst of None \<Rightarrow> 0 | Some m \<Rightarrow> file_len m) + usage (move_tree fs src dst) root"
proof -
  have pr: "prefix root (moved_path src dst p) = prefix root p" for p
    using assms(2,3) by (auto simp: moved_path_def intro: prefix_order.trans)
  have "usage (move_tree fs src dst) root
      = sum_list (map (\<lambda>(p, n). if prefix root p then file_len n else 0) (AList.delete dst (nodes fs)))"
    by (simp add: usage_def move_tree_def comp_def case_prod_unfold pr cong: if_cong)
  then show ?thesis
    using sum_list_delete [of "nodes fs" "\<lambda>p n. if prefix root p then file_len n else 0" dst] assms
    by (simp add: usage_def distinct_fs_def lookup_node_def split: option.splits)
qed

lemma file_len_usage: "lookup_node fs p = Some n \<Longrightarrow> p \<noteq> [] \<Longrightarrow> prefix root p \<Longrightarrow> distinct_fs fs \<Longrightarrow> file_len n \<le> usage fs root"
  using usage_del by fastforce

lemma unat_regular_len:
  assumes "symlink_metadata fs p = Inr n" "file_len n < 2 ^ 64"
  shows "unat (regular_len fs p) = file_len n"
  using assms by (cases "n_kind n") (auto simp: regular_len_def file_len_def node_size_def u64_simps)

section \<open>The quota counter\<close>

text \<open>The counter of a user is the number of bytes in the user's home.\<close>

definition counter_ok :: "User \<Rightarrow> FS \<Rightarrow> bool" where
  "counter_ok u fs \<longleftrightarrow> unat (u_used_bytes u) = usage fs (u_home u)"

definition lstat_works :: "FS \<Rightarrow> bool" where
  "lstat_works fs \<longleftrightarrow> (\<forall>p. env_fault fs Sys_Lstat p = None)"

lemma lstat_after:
  "lstat_works fs \<Longrightarrow> syscall_path fs sys False p = Inr q \<Longrightarrow> symlink_metadata fs p = existing fs q"
  by (auto simp: lstat_works_def symlink_metadata_def syscall_path_def split: if_splits option.splits)

lemma counter_sub:
  assumes "counter_ok u fs" "usage fs (u_home u) = k + usage fs' (u_home u)" "unat s = k"
  shows "counter_ok (if s > 0 then u\<lparr>u_used_bytes := sat_sub (u_used_bytes u) s\<rparr> else u) fs'"
  using assms by (cases "s = 0") (auto simp: counter_ok_def u64_simps word_neq_0_conv [symmetric])

lemma counter_bound: "counter_ok u fs \<Longrightarrow> usage fs (u_home u) < 2 ^ 64"
  unfolding counter_ok_def using unat_less_u64 [of "u_used_bytes u"] by simp

lemma remove_file_usage:
  assumes rm: "remove_file fs t = Inr fs'" and t: "names_ok t" "plain fs t" "prefix (u_home u) t"
    and d: "distinct_fs fs" "lstat_works fs" and c: "counter_ok u fs"
  shows "usage fs (u_home u) = unat (regular_len fs t) + usage fs' (u_home u)"
proof -
  from remove_file_effect [OF rm t(1,2)] obtain n where n: "t \<noteq> []" "lookup_node fs t = Some n" "fs' = del_node fs t" by blast
  obtain q where q: "syscall_path fs Sys_Unlink False t = Inr q" using rm by (auto simp: remove_file_def bindR_Inr_conv)
  then have "q = t" using syscall_plain t by blast
  with lstat_after [OF d(2) q] n have "symlink_metadata fs t = Inr n" by simp
  moreover have "file_len n < 2 ^ 64"
    using file_len_usage [OF n(2,1) t(3) d(1)] counter_bound [OF c] by simp
  ultimately show ?thesis using usage_del [OF d(1) n(2) t(3) n(1)] n(3) unat_regular_len by simp
qed

lemma rename_usage:
  assumes rn: "fs_rename fs f t = Inr fs'" and f: "names_ok f" "plain fs f" "prefix (u_home u) f"
    and t: "names_ok t" "plain fs t" "prefix (u_home u) t"
    and d: "distinct_fs fs" "lstat_works fs" and c: "counter_ok u fs"
  shows "usage fs (u_home u) = (if f = t then 0 else unat (regular_len fs t)) + usage fs' (u_home u)"
proof (cases "f = t")
  case True
  then show ?thesis using fs_rename_effect [OF rn f(1,2) t(1,2)] by auto
next
  case False
  then have m: "fs' = move_tree fs f t" "t \<noteq> []" using fs_rename_effect [OF rn f(1,2) t(1,2)] by auto
  obtain q where q: "syscall_path fs Sys_Rename False t = Inr q" using rn by (auto simp: fs_rename_def bindR_Inr_conv)
  then have "q = t" using syscall_plain t by blast
  with lstat_after [OF d(2) q] have l: "symlink_metadata fs t = existing fs t" by simp
  have "unat (regular_len fs t) = (case lookup_node fs t of None \<Rightarrow> 0 | Some m \<Rightarrow> file_len m)"
  proof (cases "lookup_node fs t")
    case None
    then show ?thesis using l by (simp add: regular_len_def existing_def)
  next
    case (Some n)
    then have "file_len n < 2 ^ 64" using file_len_usage [OF Some m(2) t(3) d(1)] counter_bound [OF c] by simp
    then show ?thesis using Some l unat_regular_len [of fs t n] by simp
  qed
  then show ?thesis using usage_move [OF d(1) f(3) t(3) m(2)] m(1) False by simp
qed

lemma quota_aware_remove_counter:
  assumes "quota_aware_remove fs0 fs p cwd u = (r, fs', u')" "counter_ok u fs" "distinct_fs fs" "lstat_works fs"
    "real_root fs (u_home u)" "names_ok cwd"
  shows "counter_ok u' fs' \<and> (r \<noteq> Resp_Ok \<longrightarrow> fs' = fs \<and> u' = u)"
proof (cases "r = Resp_Ok")
  case False
  then show ?thesis using assms(1,2)
    by (auto simp: quota_aware_remove_def Let_def split: if_splits sum.splits)
next
  case True
  with assms(1) obtain t where t: "resolve fs0 cwd (u_home u) p = Inr t"
    "recheck_ancestors_no_symlinks fs t (u_home u) = Inr ()" "remove_file fs t = Inr fs'"
    "u' = (if regular_len fs t > 0 then u\<lparr>u_used_bytes := sat_sub (u_used_bytes u) (regular_len fs t)\<rparr> else u)"
    by (auto simp: quota_aware_remove_def Let_def err_def split: if_splits sum.splits)
  have n: "prefix (u_home u) t" "names_ok t" using resolve_result [OF t(1) real_rootD(1) [OF assms(5)] assms(6)] by auto
  have "plain fs t" using recheck_ancestors_plain [OF t(2) assms(5) n(2,1)] by blast
  from remove_file_usage [OF t(3) n(2) this n(1) assms(3,4,2)] counter_sub [OF assms(2)]
  show ?thesis using t(4) True by blast
qed

lemma rename_Ok:
  assumes "handle_request fs (Req_Rename a b) cwd root = (Resp_Ok, cwd', fs')" "real_root fs root" "names_ok cwd"
  shows "\<exists>f t. resolve fs cwd root a = Inr f \<and> resolve_parent fs cwd root b = Inr t \<and> fs_rename fs f t = Inr fs' \<and>
    names_ok f \<and> plain fs f \<and> prefix root f \<and> names_ok t \<and> plain fs t \<and> prefix root t"
proof -
  from assms(1) obtain f t where ft: "resolve fs cwd root a = Inr f" "resolve_parent fs cwd root b = Inr t"
    "check_path_safe fs f root = None" "check_path_safe fs t root = None" "fs_rename fs f t = Inr fs'"
    by (auto simp: handle_request_def checked_op_def check_path_safe_def err_def
        split: if_splits sum.splits option.splits)
  then show ?thesis
    using resolve_results real_rootD(1) [OF assms(2)] assms(3) recheck_ancestors_plain [OF _ assms(2)]
    unfolding check_path_safe_None by blast
qed

lemma quota_aware_rename_counter:
  assumes "quota_aware_rename fs (Req_Rename a b) cwd u = (r, cwd', fs', u')" "counter_ok u fs" "distinct_fs fs"
    "lstat_works fs" "real_root fs (u_home u)" "names_ok cwd"
  shows "counter_ok u' fs' \<and> (r \<noteq> Resp_Ok \<longrightarrow> fs' = fs \<and> u' = u)"
proof -
  have h: "handle_request fs (Req_Rename a b) cwd (u_home u) = (r, cwd', fs')"
    using assms(1) by (auto simp: quota_aware_rename_def Let_def split: prod.splits)
  show ?thesis
  proof (cases "r = Resp_Ok")
    case False
    then have "fs' = fs" using h
      by (auto simp: handle_request_def checked_op_def check_path_safe_def split: if_splits sum.splits option.splits)
    then show ?thesis using assms(1,2) False by (auto simp: quota_aware_rename_def Let_def split: prod.splits)
  next
    case True
    from rename_Ok [OF h [unfolded True] assms(5,6)] obtain f t where
      ft: "resolve fs cwd (u_home u) a = Inr f" "resolve_parent fs cwd (u_home u) b = Inr t" "fs_rename fs f t = Inr fs'"
        "names_ok f" "plain fs f" "prefix (u_home u) f" "names_ok t" "plain fs t" "prefix (u_home u) t" by blast
    let ?c = "if f = t then 0 else regular_len fs t"
    have "u' = (if ?c > 0 then u\<lparr>u_used_bytes := sat_sub (u_used_bytes u) ?c\<rparr> else u)"
      using assms(1) h True ft(1,2) by (auto simp: quota_aware_rename_def Let_def split: prod.splits)
    moreover have "usage fs (u_home u) = unat ?c + usage fs' (u_home u)"
      using rename_usage [OF ft(3-9) assms(3,4,2)] by (simp split: if_splits)
    ultimately show ?thesis using counter_sub [OF assms(2)] True by blast
  qed
qed

section \<open>Upload temp files\<close>

definition temp_name :: "path \<Rightarrow> bool" where
  "temp_name p \<longleftrightarrow> p \<noteq> [] \<and> ends_with (last p) partial_suffix"

text \<open>The file with content \<open>b\<close> is still there, under the same name, perhaps in a renamed directory.\<close>

definition survives :: "FS \<Rightarrow> path \<Rightarrow> bytes \<Rightarrow> bool" where
  "survives fs' p b \<longleftrightarrow> (\<exists>p' n'. lookup_node fs' p' = Some n' \<and> n_kind n' = KFile b \<and> p' \<noteq> [] \<and> last p' = last p)"

lemma survives_same: "lookup_node fs' p = Some n \<Longrightarrow> n_kind n = KFile b \<Longrightarrow> p \<noteq> [] \<Longrightarrow> survives fs' p b"
  by (auto simp: survives_def)

text \<open>The state a connection resolves paths in.\<close>

definition session_ok :: "FS \<Rightarrow> path \<Rightarrow> path \<Rightarrow> bool" where
  "session_ok fs cwd root \<longleftrightarrow> real_root fs root \<and> tree_fs fs \<and> honest fs \<and> names_ok cwd \<and> prefix root cwd \<and> is_dir_at fs cwd"

lemma walk_temp:
  assumes "walk_safe fs cwd root s = Inr p" "session_ok fs cwd root" "file_at fs p" "temp_name p"
  shows "is_upload_temp s"
  using walk_safe_file [OF assms(1)] assms(2-4) by (auto simp: session_ok_def is_upload_temp_def temp_name_def)

lemma resolve_walk: "resolve fs cwd root s = Inr p \<Longrightarrow> walk_safe fs cwd root s = Inr p"
  by (auto simp: resolve_def bindR_Inr_conv split: if_splits)

lemma resolve_parent_walk: "resolve_parent fs cwd root s = Inr p \<Longrightarrow> walk_safe fs cwd root s = Inr p"
  by (auto simp: resolve_parent_def bindR_Inr_conv split: if_splits option.splits)

lemma rename_survives:
  assumes h: "handle_request fs (Req_Rename a c) cwd root = (r, cwd', fs')" and ok: "session_ok fs cwd root"
    and p: "lookup_node fs p = Some n" "n_kind n = KFile b" "temp_name p"
  shows "survives fs' p b"
proof (cases "fs' = fs")
  case True
  then show ?thesis using p by (auto simp: temp_name_def intro: survives_same)
next
  case False
  with h have r: "r = Resp_Ok" "\<not> is_upload_temp a" "\<not> is_upload_temp c"
    by (auto simp: handle_request_def checked_op_def check_path_safe_def split: if_splits sum.splits option.splits)
  have sess: "real_root fs root" "names_ok cwd" "tree_fs fs" using ok by (simp_all add: session_ok_def)
  from rename_Ok [OF h [unfolded r(1)] sess(1,2)] obtain f t where
    ft: "resolve fs cwd root a = Inr f" "resolve_parent fs cwd root c = Inr t" "fs_rename fs f t = Inr fs'"
      "names_ok f" "plain fs f" "names_ok t" "plain fs t" by blast
  from fs_rename_effect [OF ft(3-7)] False have e: "f \<noteq> []" "t \<noteq> []" "\<not> prefix f t" "\<not> prefix t f" "fs' = move_tree fs f t"
    "\<And>m. lookup_node fs t = Some m \<Longrightarrow> n_kind m = KDir \<Longrightarrow> children fs t = []" by auto
  have emp: "empty_below fs t" using rename_target_empty [OF sess(3)] e(6) by blast
  have fp: "file_at fs p" using p by (auto simp: file_at_def)
  have "p \<noteq> f" using walk_temp [OF resolve_walk [OF ft(1)] ok] fp p(3) r(2) by blast
  have "p \<noteq> t" using walk_temp [OF resolve_parent_walk [OF ft(2)] ok] fp p(3) r(3) by blast
  then have "\<not> prefix t p" using emp p(1) by (auto simp: empty_below_def strict_prefix_def)
  from lookup_moved [OF emp e(4,1,2) this] have "lookup_node fs' (moved_path f t p) = Some n" using p(1) e(5) by simp
  moreover have "moved_path f t p \<noteq> [] \<and> last (moved_path f t p) = last p"
    using p(3) \<open>p \<noteq> f\<close> by (auto simp: moved_path_def temp_name_def prefix_def)
  ultimately show ?thesis using p(2) by (auto simp: survives_def)
qed

lemma checked_op_survives:
  assumes "checked_op fs root t l f = (r, fs')" "p \<noteq> []" "lookup_node fs p = Some n" "n_kind n = KFile b"
    and "\<And>fs'. recheck_ancestors_no_symlinks fs t root = Inr () \<Longrightarrow> f fs t = Inr fs' \<Longrightarrow> lookup_node fs' p = Some n"
  shows "survives fs' p b"
  using checked_op_cases [OF assms(1)] assms(2-5) survives_same by metis

lemma set_mode_survives:
  assumes "set_mode fs t m = (r, fs')" "names_ok t" "plain fs t" "lookup_node fs p = Some n" "n_kind n = KFile b" "p \<noteq> []"
  shows "survives fs' p b"
proof (cases "fs' = fs")
  case True
  then show ?thesis using assms survives_same by blast
next
  case False
  with assms(1) obtain k where k: "symlink_metadata fs t = Inr k" "\<not> is_symlink_kind (n_kind k)"
    and s: "set_permissions fs t (m AND 0x1FF) = Inr fs'"
    by (auto simp: set_mode_def Let_def split: sum.splits if_splits)
  have "no_link fs t" using metadata_Inr [OF k(1) assms(2,3)] k(2) by (simp add: no_link_def)
  from set_permissions_effect [OF s assms(2,3) this] obtain j where
    "lookup_node fs t = Some j" "fs' = set_node fs t (j\<lparr>n_perm := (m AND 0x1FF) AND 0xFFF\<rparr>)" by blast
  then have "\<exists>n'. lookup_node fs' p = Some n' \<and> n_kind n' = n_kind n"
    using assms(4,6) by (cases "p = t") (auto simp: fs_simps)
  then show ?thesis using assms(5,6) by (auto simp: survives_def)
qed

lemma temps_survive_request:
  assumes h: "handle_request fs req cwd root = (r, cwd', fs')" and ok: "session_ok fs cwd root"
    and p: "lookup_node fs p = Some n" "n_kind n = KFile b" "temp_name p"
  shows "survives fs' p b"
proof -
  have sess: "real_root fs root" "names_ok cwd" using ok by (simp_all add: session_ok_def)
  have ne: "p \<noteq> []" using p(3) by (simp add: temp_name_def)
  have fp: "file_at fs p" using p by (auto simp: file_at_def)
  have pl: "plain fs t \<and> names_ok t" if "recheck_ancestors_no_symlinks fs t root = Inr ()" "prefix root t \<and> names_ok t" for t
    using that recheck_ancestors_plain sess by blast
  have res: "prefix root t \<and> names_ok t" if "resolve fs cwd root s = Inr t \<or> resolve_parent fs cwd root s = Inr t" for s t
    using resolve_results that sess real_rootD(1) by blast
  note surv = checked_op_survives [OF _ ne p(1,2)]
  show ?thesis
  proof (cases req)
    case (Req_Mkdir s)
    have "lookup_node fs2 p = Some n" if "create_dir fs t = Inr fs2" "plain fs t \<and> names_ok t" for t fs2
      using create_dir_effect [of fs t fs2] that p(1) by (auto simp: fs_simps)
    then show ?thesis using h Req_Mkdir survives_same [OF p(1,2) ne] surv pl res
      by (fastforce simp: handle_request_def split: sum.splits prod.splits)
  next
    case (Req_Rmdir s)
    have "lookup_node fs2 p = Some n" if "remove_dir fs t = Inr fs2" "plain fs t \<and> names_ok t" for t fs2
      using remove_dir_effect [of fs t fs2] that p(1) fp dir_not_file by (auto simp: fs_simps)
    then show ?thesis using h Req_Rmdir survives_same [OF p(1,2) ne] surv pl res
      by (fastforce simp: handle_request_def split: sum.splits prod.splits)
  next
    case (Req_Rm s)
    have "lookup_node fs2 p = Some n" if "remove_file fs t = Inr fs2" "plain fs t \<and> names_ok t" "p \<noteq> t" for t fs2
      using remove_file_effect [of fs t fs2] that p(1) by (auto simp: fs_simps)
    moreover have "p \<noteq> t" if "resolve fs cwd root s = Inr t" "\<not> is_upload_temp s" for t
      using walk_temp [OF resolve_walk [OF that(1)] ok] fp p(3) that(2) by blast
    ultimately show ?thesis using h Req_Rm survives_same [OF p(1,2) ne] surv pl res
      by (fastforce simp: handle_request_def split: sum.splits prod.splits if_splits)
  next
    case (Req_Rename a c)
    then show ?thesis using rename_survives h ok p by blast
  next
    case (Req_Chmod s m)
    then show ?thesis using h survives_same [OF p(1,2) ne] set_mode_survives [OF _ _ _ p(1,2) ne] pl res
      by (fastforce simp: handle_request_def check_path_safe_None split: sum.splits prod.splits option.splits)
  qed (use h p survives_same ne in \<open>auto simp: handle_request_def split: sum.splits prod.splits option.splits if_splits\<close>)
qed

section \<open>Properties\<close>

text \<open>A small tree: the served root \<open>/srv\<close>, a directory, two files, an upload temp and a link out of it.\<close>

definition demo_node :: "Kind \<Rightarrow> Node" where
  "demo_node k = \<lparr>n_kind = k, n_perm = 0x1A4, n_uid = 7, n_gid = 8, n_mtime = Some (9, 10), n_len = 4096\<rparr>"

definition demo_fs :: FS where
  "demo_fs = \<lparr>nodes =
     [([''etc''], demo_node KDir), ([''etc'', ''passwd''], demo_node (KFile [1])),
      ([''srv''], demo_node KDir), ([''srv'', ''d''], demo_node KDir),
      ([''srv'', ''d'', ''f''], demo_node (KFile [1, 2, 3])), ([''srv'', ''b''], demo_node (KFile [4, 5])),
      ([''srv'', ''b.qftp.partial''], demo_node (KFile [6])), ([''srv'', ''out''], demo_node (KSymlink ''/etc''))],
     fs_root = demo_node KDir, env_fault = (\<lambda>_ _. None), fs_umask = 0, fs_uid = 0, fs_gid = 0, fs_now = (11, 12)\<rparr>"

definition demo_root :: path where
  "demo_root = [''srv'']"

lemma demo_real_root: "real_root demo_fs demo_root"
  unfolding real_root_def by (auto simp: demo_fs_def demo_root_def is_dir_at_def lookup_node_def demo_node_def
      normal_name_def le_Suc_eq)

lemma demo_session: "session_ok demo_fs demo_root demo_root"
proof -
  have "tree_fs demo_fs"
    unfolding tree_fs_def by (auto simp: demo_fs_def is_dir_at_def lookup_node_def demo_node_def split: if_splits)
  then show ?thesis using demo_real_root real_rootD [OF demo_real_root]
    by (simp add: session_ok_def honest_def) (simp add: demo_fs_def)
qed


text \<open>The directory \<open>/srv/d\<close> swapped for a link to \<open>/etc\<close> after resolution.\<close>

definition demo_swapped :: FS where
  "demo_swapped = demo_fs\<lparr>nodes :=
     [([''etc''], demo_node KDir), ([''etc'', ''f''], demo_node (KFile [1])),
      ([''srv''], demo_node KDir), ([''srv'', ''d''], demo_node (KSymlink ''/etc''))]\<rparr>"

lemma demo_swapped_root: "real_root demo_swapped demo_root"
  unfolding real_root_def by (auto simp: demo_fs_def demo_swapped_def demo_root_def is_dir_at_def lookup_node_def
      demo_node_def normal_name_def le_Suc_eq)


text \<open>
  The working directory of a connection always stays inside the root, and when a request moves
  it, the new one is a real directory, reached without any symbolic link, even when the tree was
  changed between resolution and the re-check.
\<close>

lemma handler_cwd_confined:
  assumes "handle_request_at fs0 fs req cwd root = (r, cwd', fs')" "real_root fs root" "names_ok cwd" "prefix root cwd"
  shows "names_ok cwd' \<and> prefix root cwd' \<and> (cwd' \<noteq> cwd \<longrightarrow> is_dir_at fs' cwd' \<and> plain fs' cwd')"
  using handle_request_at_cwd [OF assms] by auto

lemma handler_cwd_confined_witness:
  "\<exists>fs'. handle_request_at demo_fs demo_fs (Req_Cd ''d'') demo_root demo_root = (Resp_Ok, [''srv'', ''d''], fs') \<and>
     plain fs' [''srv'', ''d'']"
proof -
  have "fst (handle_request_at demo_fs demo_fs (Req_Cd ''d'') demo_root demo_root) = Resp_Ok"
    "fst (snd (handle_request_at demo_fs demo_fs (Req_Cd ''d'') demo_root demo_root)) = [''srv'', ''d'']"
    by code_simp+
  then obtain fs' where h: "handle_request_at demo_fs demo_fs (Req_Cd ''d'') demo_root demo_root = (Resp_Ok, [''srv'', ''d''], fs')"
    by (metis prod.collapse)
  have "names_ok demo_root" "prefix demo_root demo_root" "[''srv'', ''d''] \<noteq> demo_root"
    by (simp_all add: demo_root_def normal_name_def)
  then show ?thesis using handler_cwd_confined [OF h demo_real_root] h by blast
qed

text \<open>
  Without interference a resolved path lies inside the root and neither it nor any directory
  above it is a symbolic link.
\<close>

lemma walk_safe_no_symlinks:
  assumes "walk_safe fs cwd root s = Inr p" "session_ok fs cwd root"
  shows "prefix root p \<and> (\<forall>q n. prefix q p \<longrightarrow> lookup_node fs q = Some n \<longrightarrow> \<not> is_symlink_kind (n_kind n))"
proof -
  have ok: "real_root fs root" "tree_fs fs" "honest fs" "names_ok cwd" "is_dir_at fs cwd"
    using assms(2) by (simp_all add: session_ok_def)
  have cwd: "plain fs cwd \<and> no_link fs cwd"
    using ok(2,5) tree_prefix_dir [OF ok(2)] is_dir_no_link
    by (auto simp: plain_def is_dir_at_def split: option.splits)
  have start: "plain fs c \<and> no_link fs c" "names_ok c" if "c = (if is_absolute s then root else cwd)" for c
    using that cwd ok(4) real_rootD [OF ok(1)] by auto
  have "plain fs p \<and> no_link fs p"
    using walk_components_plain [OF assms(1) [unfolded walk_safe_def] ok(1-3)] start components_normal by blast
  then have "no_link fs q" if "prefix q p" for q
    using that by (cases "q = p") (auto simp: plain_def strict_prefix_def)
  then show ?thesis using walk_safe_result [OF assms(1) real_rootD(1) [OF ok(1)] ok(4)]
    by (metis no_link_def option.simps(5))
qed

lemma walk_safe_no_symlinks_witness:
  "walk_safe demo_fs demo_root demo_root ''./d/../d//f'' = Inr [''srv'', ''d'', ''f''] \<and>
   walk_safe demo_fs demo_root demo_root ''out/passwd'' \<noteq> Inr [''srv'', ''out'', ''passwd''] \<and>
   prefix demo_root [''srv'', ''d'', ''f'']"
proof -
  have w: "walk_safe demo_fs demo_root demo_root ''./d/../d//f'' = Inr [''srv'', ''d'', ''f'']" by code_simp
  moreover have "\<not> is_ok (walk_safe demo_fs demo_root demo_root ''out/passwd'')" by code_simp
  then have "walk_safe demo_fs demo_root demo_root ''out/passwd'' \<noteq> Inr [''srv'', ''out'', ''passwd'']" by auto
  ultimately show ?thesis using walk_safe_no_symlinks [OF w demo_session] by blast
qed



text \<open>
  C37: a directory listing is exact. When \<open>Ls\<close> of the directory \<open>dir\<close> answers with a page, it is the
  only page, it lists exactly the names of the directory that are not upload temps (up to order),
  each with the metadata of its entry, the names are in ascending byte order, and the page is one
  that the receiving side's size caps on the number of entries accept.
\<close>

theorem ls_listing_exact:
  assumes "ls_dir fs dir = Resp_DirListing es nc"
  shows "nc = None \<and> sorted (map de_name es) \<and> length es \<le> MAX_DIR_ENTRIES \<and>
    (\<exists>q entries. read_dir fs dir = Inr (q, entries) \<and>
       mset (map de_name es) = mset (filter (\<lambda>n. \<not> is_upload_temp n) (entry_names entries)) \<and>
       (\<forall>d \<in> set es. \<exists>c m. Inr c \<in> set entries \<and> entry_metadata fs q dir c = Inr m \<and> d = dir_entry (entry_name c) m))"
proof -
  from ls_dir_listing [OF assms] obtain q entries new where n: "read_dir fs dir = Inr (q, entries)"
    "es = sort_key de_name new" "nc = None" "listing_ok fs q dir entries new" "length es \<le> MAX_DIR_ENTRIES" by blast
  have "mset (map de_name es) = mset (map de_name new)" by (simp add: n(2))
  then have "mset (map de_name es) = mset (filter (\<lambda>n. \<not> is_upload_temp n) (entry_names entries))"
    using n(4) unfolding listing_ok_def by (simp only:)
  moreover have "sorted (map de_name es)" "set es = set new" by (simp_all add: n(2))
  ultimately show ?thesis using n unfolding listing_ok_def by blast
qed

lemma demo_ls_names: "entry_name ''f'' = ''f''" "is_upload_temp ''f'' = False"
  by code_simp+

theorem ls_listing_exact_witness:
  "\<exists>es. ls_dir demo_fs [''srv'', ''d''] = Resp_DirListing es None \<and> map de_name es = [''f''] \<and> sorted (map de_name es)"
proof -
  let ?es = "[dir_entry ''f'' (demo_node (KFile [1, 2, 3]))]"
  have rd: "read_dir demo_fs [''srv'', ''d''] = Inr ([''srv'', ''d''], [Inr ''f''])" by code_simp
  have md: "entry_metadata demo_fs [''srv'', ''d''] [''srv'', ''d''] ''f'' = Inr (demo_node (KFile [1, 2, 3]))"
    by code_simp
  have l: "ls_dir demo_fs [''srv'', ''d''] = Resp_DirListing ?es None"
    using rd md by (simp add: ls_dir_def MAX_DIR_SCAN_def MAX_DIR_ENTRIES_def demo_ls_names)
  show ?thesis using ls_listing_exact [OF l] l by auto
qed

text \<open>
  \<open>Rm\<close> keeps the quota counter exact. If the user's counter is the number of bytes in the
  user's home, it is so after \<open>quota_aware_remove\<close>, whatever was removed and even if the path was
  resolved in an older state of the tree; a refused removal changes neither.
\<close>

lemma quota_remove_exact:
  assumes "quota_aware_remove fs0 fs p cwd u = (r, fs', u')"
    and "unat (u_used_bytes u) = usage fs (u_home u)" "distinct_fs fs" "lstat_works fs"
    and "real_root fs (u_home u)" "names_ok cwd"
  shows "unat (u_used_bytes u') = usage fs' (u_home u') \<and> (r \<noteq> Resp_Ok \<longrightarrow> fs' = fs \<and> u' = u)"
proof -
  have "u_home u' = u_home u"
    using assms(1) by (auto simp: quota_aware_remove_def Let_def split: if_splits sum.splits)
  then show ?thesis using quota_aware_remove_counter [OF assms(1) _ assms(3-6)] assms(2) by (simp add: counter_ok_def)
qed

definition demo_user :: User where
  "demo_user = \<lparr>u_name = ''alice'', u_home = demo_root, u_permissions = Permissions_full, u_quota_bytes = Some 100,
     u_used_bytes = 6, u_in_flight_bytes = 0, u_active_uploads = {}\<rparr>"

lemma demo_user_ok:
  "unat (u_used_bytes demo_user) = usage demo_fs (u_home demo_user)" "distinct_fs demo_fs" "lstat_works demo_fs"
  "real_root demo_fs (u_home demo_user)" "names_ok demo_root"
proof -
  show "unat (u_used_bytes demo_user) = usage demo_fs (u_home demo_user)"
    by (simp add: demo_user_def usage_def demo_fs_def demo_node_def file_len_def demo_root_def)
  show "distinct_fs demo_fs" "lstat_works demo_fs" by (simp_all add: distinct_fs_def lstat_works_def demo_fs_def)
  show "real_root demo_fs (u_home demo_user)" using demo_real_root by (simp add: demo_user_def)
  then show "names_ok demo_root" using real_rootD by (simp add: demo_user_def)
qed

lemma quota_remove_exact_witness:
  "\<exists>fs' u'. quota_aware_remove demo_fs demo_fs ''d/f'' demo_root demo_user = (Resp_Ok, fs', u') \<and>
     u_used_bytes u' = 3 \<and> usage fs' (u_home u') = 3"
proof -
  have e: "fst (quota_aware_remove demo_fs demo_fs ''d/f'' demo_root demo_user) = Resp_Ok"
    "u_used_bytes (snd (snd (quota_aware_remove demo_fs demo_fs ''d/f'' demo_root demo_user))) = 3"
    by code_simp+
  obtain fs' u' where q: "quota_aware_remove demo_fs demo_fs ''d/f'' demo_root demo_user = (Resp_Ok, fs', u')"
    using e(1) by (metis prod.collapse)
  with e(2) have "u_used_bytes u' = 3" by simp
  then show ?thesis using quota_remove_exact [OF q demo_user_ok] q by auto
qed

text \<open>
  \<open>Rename\<close> keeps the quota counter exact too: the bytes of a regular file it replaces are
  refunded, and a rename onto itself or one that fails refunds nothing.
\<close>

lemma quota_rename_exact:
  assumes "quota_aware_rename fs (Req_Rename a b) cwd u = (r, cwd', fs', u')"
    and "unat (u_used_bytes u) = usage fs (u_home u)" "distinct_fs fs" "lstat_works fs"
    and "real_root fs (u_home u)" "names_ok cwd"
  shows "unat (u_used_bytes u') = usage fs' (u_home u') \<and> (r \<noteq> Resp_Ok \<longrightarrow> fs' = fs \<and> u' = u)"
proof -
  have "u_home u' = u_home u"
    using assms(1) by (auto simp: quota_aware_rename_def Let_def split: if_splits prod.splits)
  then show ?thesis using quota_aware_rename_counter [OF assms(1) _ assms(3-6)] assms(2) by (simp add: counter_ok_def)
qed

lemma quota_rename_exact_witness:
  "\<exists>cwd' fs' u'. quota_aware_rename demo_fs (Req_Rename ''d/f'' ''b'') demo_root demo_user = (Resp_Ok, cwd', fs', u') \<and>
     u_used_bytes u' = 4 \<and> usage fs' (u_home u') = 4"
proof -
  let ?q = "quota_aware_rename demo_fs (Req_Rename ''d/f'' ''b'') demo_root demo_user"
  have e: "fst ?q = Resp_Ok" "u_used_bytes (snd (snd (snd ?q))) = 4" by code_simp+
  obtain cwd' fs' u' where q: "?q = (Resp_Ok, cwd', fs', u')" using e(1) by (metis prod.collapse)
  with e(2) have "u_used_bytes u' = 4" by simp
  then show ?thesis using quota_rename_exact [OF q demo_user_ok] q by auto
qed





section \<open>A limit of the temp-file guard\<close>

text \<open>
  The guard looks at the text of the request, not at what it resolves to. A working directory can
  be made with a name in \<open>.qftp.partial\<close>, removed, and its place taken by the temp file of an
  upload; \<open>Rm\<close> of \<open>.\<close> then removes that temp file. The claim on upload temps therefore asks that the working
  directory still exists.
\<close>

definition stale_cwd_fs :: FS where
  "stale_cwd_fs = demo_fs\<lparr>nodes := [([''srv''], demo_node KDir), ([''srv'', ''x.qftp.partial''], demo_node (KFile [1, 2]))]\<rparr>"

lemma rm_dot_bypasses_temp_guard:
  "is_upload_temp ''.'' = False"
  "fst (handle_request stale_cwd_fs (Req_Rm ''.'') [''srv'', ''x.qftp.partial''] [''srv'']) = Resp_Ok"
  "lookup_node (snd (snd (handle_request stale_cwd_fs (Req_Rm ''.'') [''srv'', ''x.qftp.partial''] [''srv'']))) [''srv'', ''x.qftp.partial''] = None"
  by code_simp+

end
