(* ===== verification/Users_Props.thy ===== *)
theory Users_Props
  imports Users
begin

text \<open>
  What \<open>user.rs\<close> guarantees: a certificate authenticates as a user only when all its recognised
  identities agree, the start-up walk counts exactly the bytes of the regular files below a home
  and terminates, the sweep removes nothing but abandoned upload temps, and a configuration that
  is accepted has disjoint homes inside the root.
\<close>

section \<open>Identities\<close>

lemma match_identities_inv:
  "\<forall>(i, u) \<in> set ms. lookup_strict d i = Some u \<and> i \<in> A \<Longrightarrow> distinct (map (\<lambda>(i, u). u_name u) ms) \<Longrightarrow>
   (let ms' = match_identities d cs ms in
      (\<forall>(i, u) \<in> set ms'. lookup_strict d i = Some u \<and> i \<in> A \<union> set cs) \<and>
      distinct (map (\<lambda>(i, u). u_name u) ms') \<and> set ms \<subseteq> set ms' \<and>
      (\<forall>c \<in> set cs. \<forall>u. lookup_strict d c = Some u \<longrightarrow> u_name u \<in> (\<lambda>(i, u). u_name u) ` set ms'))"
proof (induction cs arbitrary: ms A)
  case Nil
  then show ?case by auto
next
  case (Cons c cs)
  show ?case
  proof (cases "lookup_strict d c")
    case None
    then show ?thesis using Cons.IH [of ms "insert c A"] Cons.prems by (fastforce simp: Let_def)
  next
    case (Some user)
    show ?thesis
    proof (cases "list_ex (\<lambda>(i, u). u_name u = u_name user) ms")
      case True
      then have "u_name user \<in> (\<lambda>(i, u). u_name u) ` set ms" by (force simp: list_ex_iff)
      then show ?thesis using Cons.IH [of ms "insert c A"] Cons.prems Some True by (fastforce simp: Let_def)
    next
      case False
      then have "u_name user \<notin> (\<lambda>(i, u). u_name u) ` set ms" by (force simp: list_ex_iff)
      then show ?thesis using Cons.IH [of "ms @ [(c, user)]" "insert c A"] Cons.prems Some False
        by (fastforce simp: Let_def)
    qed
  qed
qed

lemma match_identities_spec:
  assumes "match_identities d cs [] = ms"
  shows "\<forall>(i, u) \<in> set ms. lookup_strict d i = Some u \<and> i \<in> set cs" "distinct (map (\<lambda>(i, u). u_name u) ms)"
    "\<And>c u. c \<in> set cs \<Longrightarrow> lookup_strict d c = Some u \<Longrightarrow> u_name u \<in> (\<lambda>(i, u). u_name u) ` set ms"
  using match_identities_inv [of "[]" d "{}" cs] assms by (auto simp: Let_def)

section \<open>Sums over a subtree\<close>

definition wf_fs :: "FS \<Rightarrow> bool" where
  "wf_fs fs \<longleftrightarrow> distinct (map fst (nodes fs)) \<and> tree_fs fs \<and>
     (\<forall>p \<in> fst ` set (nodes fs). p \<noteq> [] \<and> names_ok p \<and> \<not> has_nul p)"

definition tree_sum :: "(Node \<Rightarrow> nat) \<Rightarrow> FS \<Rightarrow> path \<Rightarrow> nat" where
  "tree_sum f fs d = sum_list (map (\<lambda>(p, n). if prefix d p then f n else 0) (nodes fs))"

lemma sum_list_swap:
  "sum_list (map (\<lambda>x. sum_list (map (f x) ys)) xs) = sum_list (map (\<lambda>y. sum_list (map (\<lambda>x. f x y) xs)) ys)"
  for f :: "'a \<Rightarrow> 'b \<Rightarrow> nat"
  by (induction xs) (simp_all add: sum_list_addf)

lemma sum_list_single:
  "distinct xs \<Longrightarrow> sum_list (map (\<lambda>x. if x = a then k else 0) xs) = (if a \<in> set xs then k else (0 :: nat))"
  by (induction xs) auto

lemma distinct_children: "wf_fs fs \<Longrightarrow> distinct (children fs d)"
proof -
  assume wf: "wf_fs fs"
  let ?ps = "filter (\<lambda>p. p \<noteq> [] \<and> butlast p = d) (map fst (nodes fs))"
  have "children fs d = map last ?ps"
    by (simp add: children_def filter_map comp_def case_prod_unfold)
  moreover have "inj_on last (set ?ps)"
    by (auto simp: inj_on_def) (metis append_butlast_last_id)
  moreover have "distinct ?ps" using wf by (simp add: wf_fs_def)
  ultimately show ?thesis by (simp add: distinct_map)
qed

lemma child_on_path:
  assumes "wf_fs fs" "(p, n) \<in> set (nodes fs)" "strict_prefix d p"
  shows "p ! length d \<in> set (children fs d) \<and> (\<forall>c. prefix (d @ [c]) p \<longleftrightarrow> c = p ! length d)"
proof -
  from assms(3) obtain c r where p: "p = d @ c # r"
    by (metis append_Nil2 list.exhaust prefixE strict_prefix_def)
  have l: "lookup_node fs p = Some n"
    using assms(1,2) by (auto simp: wf_fs_def lookup_node_def)
  have "c \<in> set (children fs d)"
  proof (cases r)
    case Nil
    then show ?thesis using l p by (auto intro: in_children)
  next
    case (Cons c' r')
    then have "strict_prefix (d @ [c]) p" by (simp add: p strict_prefix_def)
    then have "is_dir_at fs (d @ [c])" using tree_prefix_dir l assms(1) by (auto simp: wf_fs_def)
    then show ?thesis by (auto simp: is_dir_at_def split: option.splits intro: in_children)
  qed
  then show ?thesis by (auto simp: p)
qed

lemma sum_list_key:
  "distinct (map fst al) \<Longrightarrow> map_of al d = Some m \<Longrightarrow>
     sum_list (map (\<lambda>(p, n). if p = d then f n else 0) al) = (f m :: nat)"
proof (induction al)
  case (Cons a al)
  obtain q n where a: "a = (q, n)" by fastforce
  have z: "sum_list (map (\<lambda>(p, n). if p = q then f n else 0) al) = 0"
    using Cons.prems(1) by (auto simp: a sum_list_eq_0_iff image_iff)
  show ?case
  proof (cases "q = d")
    case True
    then show ?thesis using Cons.prems(2) z by (simp add: a)
  next
    case False
    then show ?thesis using Cons by (simp add: a)
  qed
qed simp

lemma prefix_snoc_strict: "prefix (d @ [c]) p \<Longrightarrow> strict_prefix d p"
  by (metis prefix_order.less_le_trans strict_prefix_snoc_iff)

lemma tree_sum_children:
  assumes wf: "wf_fs fs" and d: "lookup_node fs d = Some m" "d \<noteq> []"
  shows "tree_sum f fs d = f m + sum_list (map (\<lambda>c. tree_sum f fs (d @ [c])) (children fs d))"
proof -
  have swap: "sum_list (map (\<lambda>c. tree_sum f fs (d @ [c])) (children fs d)) =
      sum_list (map (\<lambda>x. sum_list (map (\<lambda>c. if prefix (d @ [c]) (fst x) then f (snd x) else 0) (children fs d))) (nodes fs))"
    using sum_list_swap [of "\<lambda>c x. if prefix (d @ [c]) (fst x) then f (snd x) else 0" "nodes fs" "children fs d"]
    by (simp add: tree_sum_def case_prod_unfold)
  have inner: "sum_list (map (\<lambda>c. if prefix (d @ [c]) (fst x) then f (snd x) else 0) (children fs d)) =
      (if strict_prefix d (fst x) then f (snd x) else 0)" if x: "x \<in> set (nodes fs)" for x
  proof (cases "strict_prefix d (fst x)")
    case True
    have "(fst x, snd x) \<in> set (nodes fs)" using x by simp
    from child_on_path [OF wf this True] True show ?thesis
      by (simp add: sum_list_single [OF distinct_children [OF wf]])
  next
    case False
    then have "\<not> prefix (d @ [c]) (fst x)" for c using prefix_snoc_strict [of d c "fst x"] by blast
    then show ?thesis using False by simp
  qed
  have "f m = sum_list (map (\<lambda>x. if fst x = d then f (snd x) else 0) (nodes fs))"
    using sum_list_key [of "nodes fs" d m f] wf d by (simp add: wf_fs_def lookup_node_def case_prod_unfold)
  moreover have "sum_list (map (\<lambda>c. tree_sum f fs (d @ [c])) (children fs d)) =
      sum_list (map (\<lambda>x. if strict_prefix d (fst x) then f (snd x) else 0) (nodes fs))"
    unfolding swap by (rule arg_cong [of _ _ sum_list], rule map_cong [OF refl inner])
  moreover have "tree_sum f fs d = sum_list (map (\<lambda>x. (if fst x = d then f (snd x) else 0) +
      (if strict_prefix d (fst x) then f (snd x) else 0)) (nodes fs))"
    unfolding tree_sum_def
    by (rule arg_cong [of _ _ sum_list], rule map_cong [OF refl]) (auto simp: strict_prefix_def)
  ultimately show ?thesis by (simp add: sum_list_addf)
qed

text \<open>Below anything but a directory there is nothing.\<close>

lemma tree_sum_leaf:
  assumes wf: "wf_fs fs" and d: "lookup_node fs d = Some m" "d \<noteq> []" "n_kind m \<noteq> KDir"
  shows "tree_sum f fs d = f m"
proof -
  have "empty_below fs d" using wf d by (intro empty_below_not_dir) (auto simp: wf_fs_def is_dir_at_def)
  then have "\<not> (p \<noteq> [] \<and> butlast p = d)" if "(p, n) \<in> set (nodes fs)" for p n
    using that strict_prefix_butlast [of p] by (force simp: empty_below_def lookup_node_def map_of_eq_None_iff)
  then have "children fs d = []" by (auto simp: children_def filter_empty_conv)
  then show ?thesis using tree_sum_children [OF wf d(1,2)] by simp
qed

section \<open>The walk\<close>

text \<open>No call the walk makes fails.\<close>

definition walk_works :: "FS \<Rightarrow> bool" where
  "walk_works fs \<longleftrightarrow> (\<forall>p. env_fault fs Sys_ReadDir p = None \<and> env_fault fs Sys_ReadDirEntry p = None \<and>
     env_fault fs Sys_Lstat p = None)"

lemma wf_lookup: "wf_fs fs \<Longrightarrow> lookup_node fs p = Some n \<Longrightarrow> names_ok p \<and> \<not> has_nul p"
  by (auto simp: wf_fs_def lookup_node_def has_nul_def split: if_splits dest!: map_of_SomeD)

lemma read_dir_wf:
  assumes "wf_fs fs" "walk_works fs" "is_dir_at fs d"
  shows "read_dir fs d = Inr (d, map Inr (children fs d))"
proof -
  from assms(3) obtain n where n: "lookup_node fs d = Some n" "n_kind n = KDir"
    by (auto simp: is_dir_at_def split: option.splits)
  have nm: "names_ok d" "\<not> has_nul d" using wf_lookup [OF assms(1) n(1)] by auto
  have "namei MAXSYMLINKS fs [] (d @ []) True = namei MAXSYMLINKS fs ([] @ d) [] True"
    using namei_descend [of fs "[]" d n MAXSYMLINKS "[]" True] assms(1) n nm by (simp add: wf_fs_def)
  then show ?thesis using n nm assms(2)
    by (simp add: read_dir_def syscall_path_def walk_works_def existing_def)
qed

lemma entry_metadata_wf:
  assumes "wf_fs fs" "walk_works fs" "c \<in> set (children fs d)"
  shows "\<exists>m. entry_metadata fs d d c = Inr m \<and> lookup_node fs (d @ [c]) = Some m"
proof -
  from assms(3) obtain p n where p: "(p, n) \<in> set (nodes fs)" "p \<noteq> []" "butlast p = d" "last p = c"
    by (auto simp: children_def)
  then have "p = d @ [c]" by (metis append_butlast_last_id)
  then have "lookup_node fs (d @ [c]) = Some n"
    using p(1) assms(1) by (auto simp: wf_fs_def lookup_node_def)
  then show ?thesis using assms(2) by (simp add: entry_metadata_def walk_works_def existing_def)
qed

definition file_bytes :: "Node \<Rightarrow> nat" where
  "file_bytes n = (case n_kind n of KFile b \<Rightarrow> length b | _ \<Rightarrow> 0)"

definition file_count :: "Node \<Rightarrow> nat" where
  "file_count n = (if is_file_kind (n_kind n) then 1 else 0)"

definition dir_count :: "Node \<Rightarrow> nat" where
  "dir_count n = (if n_kind n = KDir then 1 else 0)"

definition stack_sum :: "(Node \<Rightarrow> nat) \<Rightarrow> FS \<Rightarrow> path list \<Rightarrow> nat" where
  "stack_sum f fs stack = sum_list (map (tree_sum f fs) stack)"

lemma stack_sum_simps [simp]: "stack_sum f fs [] = 0" "stack_sum f fs (d # s) = tree_sum f fs d + stack_sum f fs s"
  by (simp_all add: stack_sum_def)

text \<open>
  The walk's invariant: what is counted, plus what the unread entries \<open>cs\<close> of \<open>d\<close> and the
  directories on the stack hold, is \<open>B\<close> bytes in \<open>K\<close> files, and \<open>D\<close> directories are left.
\<close>

definition pending :: "FS \<Rightarrow> path \<Rightarrow> string list \<Rightarrow> nat \<Rightarrow> nat \<Rightarrow> nat \<Rightarrow> path list \<Rightarrow> u64 \<Rightarrow> u64 \<Rightarrow> bool" where
  "pending fs d cs B K D stack b k \<longleftrightarrow>
     (let T = \<lambda>f. sum_list (map (\<lambda>c. tree_sum f fs (d @ [c])) cs) + stack_sum f fs stack in
      list_all (\<lambda>x. is_dir_at fs x \<and> x \<noteq> []) stack \<and>
      unat b + T file_bytes = B \<and> unat k + T file_count = K \<and> T dir_count = D)"

lemma pending_dir:
  "pending fs d (c # cs) B K D stack b k \<Longrightarrow> is_dir_at fs (d @ [c]) \<Longrightarrow> pending fs d cs B K D ((d @ [c]) # stack) b k"
  by (simp add: pending_def Let_def add.assoc add.left_commute)

lemma pending_skip:
  "pending fs d (c # cs) B K D stack b k \<Longrightarrow> wf_fs fs \<Longrightarrow> lookup_node fs (d @ [c]) = Some m \<Longrightarrow>
     n_kind m \<noteq> KDir \<Longrightarrow> \<not> is_file_kind (n_kind m) \<Longrightarrow> pending fs d cs B K D stack b k"
  using tree_sum_leaf [of fs "d @ [c]" m]
  by (cases "n_kind m") (simp_all add: pending_def Let_def file_bytes_def file_count_def dir_count_def)

lemma pending_file:
  assumes "pending fs d (c # cs) B K D stack b k" "wf_fs fs" "lookup_node fs (d @ [c]) = Some m" "n_kind m = KFile bs"
    "B < 2 ^ 64" "K < 2 ^ 64"
  shows "pending fs d cs B K D stack (sat_add b (node_size m)) (sat_add k 1)"
proof -
  have s: "tree_sum file_bytes fs (d @ [c]) = length bs" "tree_sum file_count fs (d @ [c]) = 1" "tree_sum dir_count fs (d @ [c]) = 0"
    using tree_sum_leaf [OF assms(2,3)] assms(4) by (simp_all add: file_bytes_def file_count_def dir_count_def)
  have b0: "unat b + length bs \<le> B" and k0: "unat k + 1 \<le> K"
    using assms(1) s by (auto simp: pending_def Let_def)
  have ns: "unat (node_size m) = length bs"
    using b0 assms(5) by (simp add: node_size_def assms(4) u64_simps)
  have "unat (sat_add b (node_size m)) = unat b + length bs" using b0 assms(5) ns by (simp add: u64_simps)
  moreover have "unat (sat_add k 1) = unat k + 1" using k0 assms(6) by (simp add: u64_simps)
  ultimately show ?thesis using assms(1) s by (simp add: pending_def Let_def)
qed

lemma visit_size:
  assumes "wf_fs fs" "walk_works fs" "B < 2 ^ 64" "K < 2 ^ 64"
  shows "set cs \<subseteq> set (children fs d) \<Longrightarrow> pending fs d cs B K D stack b k \<Longrightarrow>
    \<exists>stack' b' k'. visit_entries size_visit d d (map Inr cs) (stack, fs, b, k) = (stack', fs, b', k') \<and>
      pending fs d [] B K D stack' b' k'"
proof (induction cs arbitrary: stack b k)
  case Nil
  then show ?case by simp
next
  case (Cons c cs)
  have "c \<in> set (children fs d)" using Cons.prems(1) by simp
  from entry_metadata_wf [OF assms(1,2) this] obtain m where
    m: "entry_metadata fs d d c = Inr m" "lookup_node fs (d @ [c]) = Some m" by blast
  show ?case
  proof (cases "n_kind m")
    case (KFile bs)
    from pending_file [OF Cons.prems(2) assms(1) m(2) KFile assms(3,4)] Cons.IH Cons.prems(1)
    show ?thesis using m(1) KFile by (simp add: size_visit_def)
  next
    case KDir
    then have "is_dir_at fs (d @ [c])" using m(2) by (simp add: is_dir_at_def)
    from pending_dir [OF Cons.prems(2) this] Cons.IH Cons.prems(1) show ?thesis using m(1) KDir by simp
  next
    case (KSymlink t)
    from pending_skip [OF Cons.prems(2) assms(1) m(2)] Cons.IH Cons.prems(1) show ?thesis using m(1) KSymlink by simp
  next
    case KOther
    from pending_skip [OF Cons.prems(2) assms(1) m(2)] Cons.IH Cons.prems(1) show ?thesis using m(1) KOther by simp
  qed
qed

lemma pending_open:
  assumes "pending fs e [] B K D (d # stack) b k" "wf_fs fs"
  shows "pending fs d (children fs d) B K (D - 1) stack b k \<and> 0 < D"
proof -
  from assms(1) obtain n where n: "lookup_node fs d = Some n" "n_kind n = KDir" "d \<noteq> []"
    by (auto simp: pending_def Let_def is_dir_at_def split: option.splits)
  have "file_bytes n = 0" "file_count n = 0" "dir_count n = 1"
    using n(2) by (simp_all add: file_bytes_def file_count_def dir_count_def)
  then show ?thesis using assms(1) tree_sum_children [OF assms(2) n(1,3)] by (auto simp: pending_def Let_def)
qed

lemma walk_directory_size:
  assumes "wf_fs fs" "walk_works fs" "B < 2 ^ 64" "K < 2 ^ 64"
  shows "pending fs e [] B K D stack b k \<Longrightarrow> D \<le> fuel \<Longrightarrow>
    \<exists>b' k'. walk_directory fuel size_visit stack (fs, b, k) = Some (fs, b', k') \<and> unat b' = B \<and> unat k' = K"
proof (induction fuel arbitrary: e stack b k D)
  case 0
  show ?case
  proof (cases stack)
    case Nil
    then show ?thesis using 0 by (simp add: pending_def Let_def)
  next
    case (Cons d s)
    then show ?thesis using 0 pending_open [of fs e B K D d s b k] assms(1) by simp
  qed
next
  case (Suc fuel)
  show ?case
  proof (cases stack)
    case Nil
    then show ?thesis using Suc.prems by (simp add: pending_def Let_def)
  next
    case (Cons d s)
    from Suc.prems(1) have dir: "is_dir_at fs d" by (simp add: Cons pending_def Let_def)
    have p: "pending fs d (children fs d) B K (D - 1) s b k" "0 < D"
      using pending_open [of fs e B K D d s b k] Suc.prems(1) Cons assms(1) by auto
    from visit_size [OF assms subset_refl p(1)] obtain stack' b' k' where
      v: "visit_entries size_visit d d (map Inr (children fs d)) (s, fs, b, k) = (stack', fs, b', k')"
        "pending fs d [] B K (D - 1) stack' b' k'" by blast
    have "D - 1 \<le> fuel" using Suc.prems(2) by simp
    from Suc.IH [OF v(2) this] obtain b2 k2 where
      "walk_directory fuel size_visit stack' (fs, b', k') = Some (fs, b2, k2)" "unat b2 = B" "unat k2 = K" by blast
    then show ?thesis using Cons read_dir_wf [OF assms(1,2) dir] v(1) by simp
  qed
qed

lemma tree_sum_dirs_le: "tree_sum dir_count fs d \<le> length (nodes fs)"
proof -
  have "sum_list (map (\<lambda>(p, n). if prefix d p then dir_count n else 0) al) \<le> length al" for al
    by (induction al) (auto simp: dir_count_def)
  then show ?thesis by (simp add: tree_sum_def)
qed

lemma walk_size_exact:
  assumes "wf_fs fs" "walk_works fs" "is_dir_at fs d" "d \<noteq> []"
    "tree_sum file_bytes fs d < 2 ^ 64" "tree_sum file_count fs d < 2 ^ 64" "length (nodes fs) \<le> fuel"
  shows "\<exists>b k. walk_size fuel fs d = Some (b, k) \<and> unat b = tree_sum file_bytes fs d \<and> unat k = tree_sum file_count fs d"
proof -
  have "pending fs [] [] (tree_sum file_bytes fs d) (tree_sum file_count fs d) (tree_sum dir_count fs d) [d] 0 0"
    using assms(3,4) by (simp add: pending_def)
  from walk_directory_size [OF assms(1,2,5,6) this order.trans [OF tree_sum_dirs_le assms(7)]]
  show ?thesis by (auto simp: walk_size_def)
qed

section \<open>The sweep\<close>

definition removable :: "u64 \<times> u32 \<Rightarrow> path \<Rightarrow> path \<Rightarrow> Node \<Rightarrow> bool" where
  "removable now root p n \<longleftrightarrow> strict_prefix root p \<and> is_partial_entry (last p) \<and> is_file_kind (n_kind n) \<and> is_abandoned now n"

text \<open>\<open>fs\<close> is \<open>fs0\<close> less some abandoned partials.\<close>

definition swept :: "u64 \<times> u32 \<Rightarrow> path \<Rightarrow> FS \<Rightarrow> FS \<Rightarrow> bool" where
  "swept now root fs0 fs \<longleftrightarrow> tree_fs fs \<and>
     (\<forall>p. lookup_node fs p = lookup_node fs0 p \<or>
        lookup_node fs p = None \<and> (\<exists>n. lookup_node fs0 p = Some n \<and> removable now root p n))"

lemma swept_dir: "swept now root fs0 fs \<Longrightarrow> is_dir_at fs d \<longleftrightarrow> is_dir_at fs0 d"
proof -
  assume s: "swept now root fs0 fs"
  then consider "lookup_node fs d = lookup_node fs0 d"
    | n where "lookup_node fs d = None" "lookup_node fs0 d = Some n" "is_file_kind (n_kind n)"
    unfolding swept_def removable_def by blast
  then show ?thesis by cases (auto simp: is_dir_at_def)
qed

lemma swept_Some: "swept now root fs0 fs \<Longrightarrow> lookup_node fs p = Some n \<Longrightarrow> lookup_node fs0 p = Some n"
  unfolding swept_def by (metis option.distinct(1))

lemma swept_plain: "swept now root fs0 fs \<Longrightarrow> lookup_node fs p = Some n \<Longrightarrow> plain fs p"
  using tree_prefix_dir is_dir_no_link by (fastforce simp: plain_def swept_def)

definition sweep_dir :: "FS \<Rightarrow> path \<Rightarrow> path \<Rightarrow> bool" where
  "sweep_dir fs0 root d \<longleftrightarrow> is_dir_at fs0 d \<and> prefix root d"

lemma sweep_visit_swept:
  assumes s: "swept now root fs0 fs" and wf: "wf_fs fs0" and d: "prefix root d"
    and m: "lookup_node fs (d @ [c]) = Some m" "is_file_kind (n_kind m)"
  shows "swept now root fs0 (fst (sweep_visit now (d @ [c]) c m (fs, ())))"
proof (cases "sweep_visit now (d @ [c]) c m (fs, ()) = (fs, ())")
  case True
  then show ?thesis using s by simp
next
  case False
  then obtain fs' where r: "is_partial_entry c" "is_abandoned now m" "remove_file fs (d @ [c]) = Inr fs'"
    "sweep_visit now (d @ [c]) c m (fs, ()) = (fs', ())"
    by (auto simp: sweep_visit_def split: if_splits sum.splits)
  have m0: "lookup_node fs0 (d @ [c]) = Some m" using swept_Some [OF s m(1)] .
  have "names_ok (d @ [c])" using wf_lookup [OF wf m0] by simp
  from remove_file_effect [OF r(3) this swept_plain [OF s m(1)]] have e: "fs' = del_node fs (d @ [c])" by blast
  have "removable now root (d @ [c]) m"
    using r d m(2) by (simp add: removable_def prefix_order.le_less_trans strict_prefix_snoc_iff)
      (metis prefix_order.le_less_trans strict_prefix_snoc_iff)
  moreover have "tree_fs fs'" using remove_file_tree [OF r(3)] s by (simp add: swept_def)
  ultimately show ?thesis using s m0 e r(4) by (auto simp: swept_def fs_simps)
qed

lemma visit_entries_swept:
  assumes wf: "wf_fs fs0" and d: "sweep_dir fs0 root d"
  shows "swept now root fs0 fs \<Longrightarrow> list_all (sweep_dir fs0 root) stack \<Longrightarrow>
    visit_entries (sweep_visit now) d d es (stack, fs, ()) = (stack', fs', u) \<Longrightarrow>
    swept now root fs0 fs' \<and> list_all (sweep_dir fs0 root) stack'"
proof (induction es arbitrary: stack fs)
  case Nil
  then show ?case by simp
next
  case (Cons e es)
  show ?case
  proof (cases e)
    case (Inl x)
    then show ?thesis using Cons by simp
  next
    case (Inr c)
    show ?thesis
    proof (cases "entry_metadata fs d d c")
      case (Inl x)
      then show ?thesis using Cons Inr by simp
    next
      case m: (Inr m)
      then have l: "lookup_node fs (d @ [c]) = Some m" by (auto simp: entry_metadata_def split: option.splits)
      have dir: "sweep_dir fs0 root (d @ [c])" if "n_kind m = KDir"
        using swept_Some [OF Cons.prems(1) l] that d
        by (auto simp: sweep_dir_def is_dir_at_def intro: prefix_order.trans)
      obtain fs1 where v: "sweep_visit now (d @ [c]) c m (fs, ()) = (fs1, ())"
        by (cases "sweep_visit now (d @ [c]) c m (fs, ())") auto
      have sw: "swept now root fs0 fs1" if "is_file_kind (n_kind m)"
        using sweep_visit_swept [OF Cons.prems(1) wf _ l that] d v by (simp add: sweep_dir_def)
      consider "n_kind m = KDir" | "n_kind m \<noteq> KDir" "is_file_kind (n_kind m)" | "n_kind m \<noteq> KDir" "\<not> is_file_kind (n_kind m)" by blast
      then show ?thesis
      proof cases
        case 1
        then show ?thesis using Cons.IH [of fs "(d @ [c]) # stack"] Cons.prems m Inr dir by simp
      next
        case 2
        then show ?thesis using Cons.IH [OF sw Cons.prems(2)] Cons.prems(3) m Inr v by simp
      next
        case 3
        then show ?thesis using Cons.IH [OF Cons.prems(1,2)] Cons.prems(3) m Inr by simp
      qed
    qed
  qed
qed

lemma walk_directory_swept:
  assumes wf: "wf_fs fs0"
  shows "swept now root fs0 fs \<Longrightarrow> list_all (sweep_dir fs0 root) stack \<Longrightarrow>
    walk_directory fuel (sweep_visit now) stack (fs, ()) = Some (fs', u) \<Longrightarrow> swept now root fs0 fs'"
proof (induction fuel arbitrary: stack fs)
  case 0
  then show ?case by (cases stack) auto
next
  case (Suc fuel)
  show ?case
  proof (cases stack)
    case Nil
    then show ?thesis using Suc.prems by simp
  next
    case (Cons d st)
    have d: "sweep_dir fs0 root d" "list_all (sweep_dir fs0 root) st" using Suc.prems(2) by (simp_all add: Cons)
    show ?thesis
    proof (cases "read_dir fs d")
      case (Inl e)
      then show ?thesis using Suc.IH [OF Suc.prems(1) d(2)] Suc.prems(3) by (simp add: Cons)
    next
      case (Inr r)
      obtain q es where r: "r = (q, es)" by fastforce
      have "is_dir_at fs d" using d(1) swept_dir [OF Suc.prems(1)] by (simp add: sweep_dir_def)
      then obtain n where n: "lookup_node fs d = Some n" "no_link fs d"
        using is_dir_no_link by (auto simp: is_dir_at_def split: option.splits)
      have "q = d" using Inr r syscall_plain [of fs Sys_ReadDir True d q] swept_plain [OF Suc.prems(1) n(1)] n
          wf_lookup [OF wf swept_Some [OF Suc.prems(1) n(1)]]
        by (auto simp: read_dir_def bindR_Inr_conv split: if_splits)
      obtain stack' fs1 where v: "visit_entries (sweep_visit now) d d es (st, fs, ()) = (stack', fs1, ())"
        by (metis (full_types) old.unit.exhaust prod_cases3)
      from visit_entries_swept [OF wf d(1) Suc.prems(1) d(2) v] Suc.IH Suc.prems(3) v
      show ?thesis using Inr r \<open>q = d\<close> by (auto simp: Cons)
    qed
  qed
qed

lemma sweep_swept:
  assumes "sweep_stale_partials fuel fs root = Some fs'" "wf_fs fs" "is_dir_at fs root"
  shows "swept (fs_now fs) root fs fs'"
proof -
  from assms(1) obtain u where w: "walk_directory fuel (sweep_visit (fs_now fs)) [root] (fs, ()) = Some (fs', u)"
    by (auto simp: sweep_stale_partials_def)
  have "swept (fs_now fs) root fs fs" using assms(2) by (simp add: swept_def wf_fs_def)
  from walk_directory_swept [OF assms(2) this _ w] assms(3) show ?thesis by (simp add: sweep_dir_def)
qed

section \<open>Accepted configurations\<close>

definition disjoint_homes :: "(string \<times> path) list \<Rightarrow> bool" where
  "disjoint_homes l = sorted_wrt (\<lambda>a b. \<not> prefix (snd a) (snd b) \<and> \<not> prefix (snd b) (snd a)) l"

lemma resolve_home_inside: "resolve_home fs g c spec = (Inr home, fs') \<Longrightarrow> prefix c home"
  by (auto simp: resolve_home_def Let_def split: sum.splits prod.splits if_splits)

lemma check_home_overlap_None:
  "check_home_overlap home l = None \<longleftrightarrow> (\<forall>x \<in> set l. \<not> prefix (snd x) home \<and> \<not> prefix home (snd x))"
  by (auto simp: check_home_overlap_def find_None_iff)

lemma resolve_homes_ok:
  "resolve_homes g c specs acc fs = (Inr out, fs') \<Longrightarrow> disjoint_homes acc \<Longrightarrow> (\<forall>x \<in> set acc. prefix c (snd x)) \<Longrightarrow>
     disjoint_homes out \<and> (\<forall>x \<in> set out. prefix c (snd x)) \<and> length out = length acc + length specs"
proof (induction specs arbitrary: acc fs)
  case Nil
  then show ?case by simp
next
  case (Cons spec specs)
  from Cons.prems(1) obtain home fs1 where h: "resolve_home fs g c spec = (Inr home, fs1)" "check_home_overlap home acc = None"
    "resolve_homes g c specs (acc @ [(sp_name spec, home)]) fs1 = (Inr out, fs')"
    by (auto split: prod.splits sum.splits option.splits)
  have "disjoint_homes (acc @ [(sp_name spec, home)])"
    using Cons.prems(2) h(2) by (auto simp: disjoint_homes_def sorted_wrt_append check_home_overlap_None)
  then show ?case using Cons.IH [OF h(3)] Cons.prems(3) resolve_home_inside [OF h(1)] by auto
qed

lemma update_absent: "map_of al k = None \<Longrightarrow> AList.update k v al = al @ [(k, v)]"
  by (induction al) auto

lemma build_user_fields:
  "build_user fuel fs spec home = Some (u, fs') \<Longrightarrow>
     u_name u = sp_name spec \<and> u_home u = home \<and> u_quota_bytes u = sp_quota_bytes spec \<and>
     u_permissions u = sp_permissions spec \<and> u_in_flight_bytes u = 0 \<and> u_active_uploads u = {}"
  by (auto simp: build_user_def split: option.splits)

lemma build_users_ok:
  "build_users fuel xs acc fs = Some (Inr out, fs') \<Longrightarrow> distinct (map fst acc) \<Longrightarrow>
     \<exists>us. out = acc @ us \<and> distinct (map fst out) \<and>
       map (\<lambda>(n, u). (n, u_home u)) us = map (\<lambda>(spec, _, home). (sp_name spec, home)) xs \<and>
       (\<forall>(n, u) \<in> set us. u_name u = n \<and> u_in_flight_bytes u = 0 \<and> u_quota_bytes u \<in> (\<lambda>x. sp_quota_bytes (fst x)) ` set xs)"
proof (induction xs arbitrary: acc fs)
  case Nil
  then show ?case by simp
next
  case (Cons x xs)
  obtain spec nm home where x: "x = (spec, nm, home)" by (cases x)
  from Cons.prems(1) obtain u fs1 where u: "build_user fuel fs spec home = Some (u, fs1)" "map_of acc (sp_name spec) = None"
    "build_users fuel xs (acc @ [(sp_name spec, u)]) fs1 = Some (Inr out, fs')"
    by (auto simp: x update_absent split: option.splits if_splits)
  have "distinct (map fst (acc @ [(sp_name spec, u)]))"
    using Cons.prems(2) u(2) by (auto simp: map_of_eq_None_iff)
  from Cons.IH [OF u(3) this] obtain us where us: "out = acc @ (sp_name spec, u) # us" "distinct (map fst out)"
    "map (\<lambda>(n, u). (n, u_home u)) us = map (\<lambda>(spec, _, home). (sp_name spec, home)) xs"
    "\<forall>(n, u) \<in> set us. u_name u = n \<and> u_in_flight_bytes u = 0 \<and> u_quota_bytes u \<in> (\<lambda>x. sp_quota_bytes (fst x)) ` set xs"
    by auto
  show ?case
    by (rule exI [of _ "(sp_name spec, u) # us"]) (use us build_user_fields [OF u(1)] x in auto)
qed

lemma validate_specs_quota:
  "validate_specs_list l = Inr () \<Longrightarrow> \<forall>s \<in> set l. sp_quota_bytes s \<noteq> Some 0"
  by (induction l) (auto split: if_splits)

lemma from_config_parts:
  assumes "from_config fuel fs g cfg = Some (Inr d, fs')"
  shows "\<exists>c resolved fs1 fs2. canonicalize fs g = Inr c \<and> validate_specs cfg = Inr () \<and>
    resolve_homes g c (cf_users cfg) [] fs = (Inr resolved, fs1) \<and>
    build_users fuel (zip (cf_users cfg) resolved) [] fs1 = Some (Inr (by_name d), fs2) \<and>
    from_config_anonymous fuel g c cfg resolved fs2 = Some (Inr (ud_anonymous d), fs')"
  using assms by (auto simp: from_config_def split: sum.splits option.splits prod.splits)

lemma homes_of_zip:
  "length specs = length resolved \<Longrightarrow>
     map (\<lambda>(n, u). (n, u_home u)) us = map (\<lambda>(spec, _, home). (sp_name spec, home)) (zip specs resolved) \<Longrightarrow>
     map (\<lambda>(n, u). u_home u) us = map snd resolved"
proof -
  assume l: "length specs = length resolved"
    and m: "map (\<lambda>(n, u). (n, u_home u)) us = map (\<lambda>(spec, _, home). (sp_name spec, home)) (zip specs resolved)"
  have "map snd (map (\<lambda>(n, u). (n, u_home u)) us) = map (\<lambda>(n, u). u_home u) us" by (simp add: case_prod_unfold comp_def)
  moreover have "map snd (map (\<lambda>(spec, _, home). (sp_name spec, home)) (zip specs resolved)) = map snd (map snd (zip specs resolved))"
    by (simp add: case_prod_unfold comp_def)
  ultimately show ?thesis using l m by (simp add: map_snd_zip)
qed

section \<open>Properties\<close>

text \<open>
  C14: a certificate authenticates as a user only when its identities agree. \<open>resolve_identity\<close>
  answers \<open>Matched\<close> exactly when some candidate names a configured user and no candidate names a
  user of another name; a certificate that names two users is \<open>Ambiguous\<close>, one that names none is
  \<open>NoMatch\<close>.
\<close>

theorem identity_needs_agreement:
  "case resolve_identity cs d of
     Matched i u \<Rightarrow> i \<in> set cs \<and> lookup_strict d i = Some u \<and>
       (\<forall>c \<in> set cs. \<forall>u'. lookup_strict d c = Some u' \<longrightarrow> u_name u' = u_name u)
   | NoMatch \<Rightarrow> \<forall>c \<in> set cs. lookup_strict d c = None
   | Ambiguous ns \<Rightarrow> \<exists>c \<in> set cs. \<exists>c' \<in> set cs. \<exists>u u'. lookup_strict d c = Some u \<and> lookup_strict d c' = Some u' \<and>
       u_name u \<noteq> u_name u'"
proof -
  obtain ms where ms: "match_identities d cs [] = ms" by blast
  note sp = match_identities_spec [OF ms]
  consider (none) "ms = []" | (one) i u where "ms = [(i, u)]" | (more) i u j v ms' where "ms = (i, u) # (j, v) # ms'"
  proof (cases ms)
    case (Cons a as)
    obtain i u where a: "a = (i, u)" by fastforce
    show ?thesis
    proof (cases as)
      case Nil
      then show ?thesis using that(2) Cons a by blast
    next
      case b: (Cons b bs)
      obtain j v where "b = (j, v)" by fastforce
      then show ?thesis using that(3) Cons a b by blast
    qed
  qed (rule that(1))
  then show ?thesis
  proof cases
    case none
    then have "lookup_strict d c = None" if "c \<in> set cs" for c using sp(3) [OF that] by (cases "lookup_strict d c") auto
    then show ?thesis using ms none by (simp add: resolve_identity_def)
  next
    case one
    have "i \<in> set cs \<and> lookup_strict d i = Some u" using sp(1) one by simp
    moreover have "u_name u' = u_name u" if "c \<in> set cs" "lookup_strict d c = Some u'" for c u'
      using sp(3) [OF that] one by simp
    moreover have "resolve_identity cs d = Matched i u" using ms one by (simp add: resolve_identity_def)
    ultimately show ?thesis by (simp only: IdentityResolution.case) blast
  next
    case more
    have "lookup_strict d i = Some u \<and> i \<in> set cs" "lookup_strict d j = Some v \<and> j \<in> set cs" "u_name u \<noteq> u_name v"
      using sp(1,2) more by auto
    moreover have "resolve_identity cs d = Ambiguous (map (\<lambda>(i, u). u_name u) ms)"
      using ms more by (simp add: resolve_identity_def)
    ultimately show ?thesis by auto
  qed
qed

text \<open>Two users and a tree with a home, an old partial and a recent one.\<close>

definition alice :: User where
  "alice = (anonymous_at [''srv'', ''alice''] 0)\<lparr>u_name := ''alice''\<rparr>"

definition bob :: User where
  "bob = (anonymous_at [''srv'', ''bob''] 0)\<lparr>u_name := ''bob''\<rparr>"

definition two_users :: UserDirectory where
  "two_users = \<lparr>by_name = [(''alice'', alice), (''bob'', bob)], ud_anonymous = anonymous_at [''srv''] 0\<rparr>"

theorem identity_needs_agreement_witness:
  "resolve_identity [''x'', '' alice ''] two_users = Matched '' alice '' alice \<and>
   lookup_strict two_users '' alice '' = Some alice \<and>
   resolve_identity [''alice'', ''bob''] two_users = Ambiguous [''alice'', ''bob'']"
proof -
  have l: "lookup_strict two_users ''x'' = None" "lookup_strict two_users '' alice '' = Some alice"
    "lookup_strict two_users ''alice'' = Some alice" "lookup_strict two_users ''bob'' = Some bob"
  proof -
    have "trim ''x'' = ''x''" "trim '' alice '' = ''alice''" "trim ''alice'' = ''alice''" "trim ''bob'' = ''bob''"
      by code_simp+
    then show "lookup_strict two_users ''x'' = None" "lookup_strict two_users '' alice '' = Some alice"
      "lookup_strict two_users ''alice'' = Some alice" "lookup_strict two_users ''bob'' = Some bob"
      by (simp_all add: lookup_strict_def two_users_def)
  qed
  have m: "resolve_identity [''x'', '' alice ''] two_users = Matched '' alice '' alice"
    by (simp add: resolve_identity_def l)
  moreover have "resolve_identity [''alice'', ''bob''] two_users = Ambiguous [''alice'', ''bob'']"
    by (simp add: resolve_identity_def l alice_def bob_def)
  ultimately show ?thesis using identity_needs_agreement [of "[''x'', '' alice '']" two_users] by simp
qed

text \<open>
  C39: the walk that primes the quota counter is exact and ends. On a well-formed tree in which the
  calls of the walk succeed, \<open>walk_size\<close> returns the total length and the number of the regular
  files below the home, following no symbolic link, after popping at most as many directories as
  the file system has nodes.
\<close>

theorem walk_size_counts_home:
  assumes "wf_fs fs" "walk_works fs" "is_dir_at fs home" "home \<noteq> []"
    and "tree_sum file_bytes fs home < 2 ^ 64" "tree_sum file_count fs home < 2 ^ 64"
  shows "\<exists>bytes count. walk_size (length (nodes fs)) fs home = Some (bytes, count) \<and>
    unat bytes = tree_sum file_bytes fs home \<and> unat count = tree_sum file_count fs home"
  using walk_size_exact [OF assms order_refl] .

definition home_node :: "Kind \<Rightarrow> u64 \<Rightarrow> Node" where
  "home_node k t = \<lparr>n_kind = k, n_perm = 0x1A4, n_uid = 0, n_gid = 0, n_mtime = Some (t, 0), n_len = 4096\<rparr>"

definition home_fs :: FS where
  "home_fs = \<lparr>nodes =
     [([''srv''], home_node KDir 0), ([''srv'', ''alice''], home_node KDir 0),
      ([''srv'', ''alice'', ''f''], home_node (KFile [1, 2, 3]) 5),
      ([''srv'', ''alice'', ''old.qftp.partial''], home_node (KFile [4]) 5),
      ([''srv'', ''alice'', ''new.qftp.partial''], home_node (KFile [5]) 199000),
      ([''srv'', ''alice'', ''loop''], home_node (KSymlink ''/srv'') 5)],
     fs_root = home_node KDir 0, env_fault = (\<lambda>_ _. None), fs_umask = 0, fs_uid = 0, fs_gid = 0, fs_now = (200000, 0)\<rparr>"

lemma home_fs_wf: "wf_fs home_fs" "walk_works home_fs" "is_dir_at home_fs [''srv'', ''alice'']"
proof -
  have "tree_fs home_fs"
    unfolding tree_fs_def by (auto simp: home_fs_def is_dir_at_def lookup_node_def home_node_def split: if_splits)
  then show "wf_fs home_fs" by (auto simp: wf_fs_def home_fs_def normal_name_def has_nul_def)
  show "walk_works home_fs" by (simp add: walk_works_def home_fs_def)
  show "is_dir_at home_fs [''srv'', ''alice'']" by (simp add: is_dir_at_def home_fs_def lookup_node_def home_node_def)
qed

theorem walk_size_counts_home_witness:
  "tree_sum file_bytes home_fs [''srv'', ''alice''] = 5 \<and>
   (\<exists>bytes count. walk_size (length (nodes home_fs)) home_fs [''srv'', ''alice''] = Some (bytes, count) \<and> unat bytes = 5 \<and> unat count = 3)"
proof -
  have t: "tree_sum file_bytes home_fs [''srv'', ''alice''] = 5" "tree_sum file_count home_fs [''srv'', ''alice''] = 3"
    by (simp_all add: tree_sum_def home_fs_def home_node_def file_bytes_def file_count_def)
  show ?thesis using walk_size_counts_home [OF home_fs_wf] t by simp
qed

text \<open>
  The start-up sweep removes nothing but abandoned upload temps. After \<open>sweep_stale_partials\<close>
  every place is as before, except that a regular file strictly below the root whose name is a
  proper \<open>*.qftp.partial\<close> and whose modification time is more than a day old may be gone, even
  when some of the sweep's calls fail.
\<close>

lemma sweep_removes_only_stale_partials:
  assumes "sweep_stale_partials fuel fs root = Some fs'" "wf_fs fs" "is_dir_at fs root"
  shows "lookup_node fs' p = lookup_node fs p \<or>
    lookup_node fs' p = None \<and> (\<exists>n. lookup_node fs p = Some n \<and> strict_prefix root p \<and> is_partial_entry (last p) \<and>
      is_file_kind (n_kind n) \<and> is_abandoned (fs_now fs) n)"
  using sweep_swept [OF assms] unfolding swept_def removable_def by blast

lemma sweep_removes_only_stale_partials_witness:
  "\<exists>fs'. sweep_stale_partials 5 home_fs [''srv'', ''alice''] = Some fs' \<and>
     lookup_node fs' [''srv'', ''alice'', ''old.qftp.partial''] = None \<and>
     lookup_node fs' [''srv'', ''alice'', ''new.qftp.partial''] \<noteq> None \<and>
     lookup_node fs' [''srv'', ''alice'', ''f''] = lookup_node home_fs [''srv'', ''alice'', ''f'']"
proof -
  have e: "map_option (\<lambda>fs'. map (\<lambda>n. lookup_node fs' [''srv'', ''alice'', n] = None) [''old.qftp.partial'', ''new.qftp.partial'', ''f''])
      (sweep_stale_partials 5 home_fs [''srv'', ''alice'']) = Some [True, False, False]" by code_simp
  then obtain fs' where s: "sweep_stale_partials 5 home_fs [''srv'', ''alice''] = Some fs'" by blast
  show ?thesis
    using sweep_removes_only_stale_partials [OF s home_fs_wf(1,3), of "[''srv'', ''alice'', ''f'']"] e s by auto
qed

text \<open>
  C40: an accepted configuration is safe to serve. The named users have distinct names, a home
  inside the canonical root, no quota of zero, nothing in flight, and no home is equal to or
  inside another one, so every byte on disk is counted against at most one of them.
\<close>

theorem from_config_homes_disjoint:
  assumes "from_config fuel fs global_root cfg = Some (Inr d, fs')"
  shows "distinct (map fst (by_name d)) \<and>
    (\<forall>(n, u) \<in> set (by_name d). u_name u = n \<and> u_in_flight_bytes u = 0 \<and> u_quota_bytes u \<noteq> Some 0 \<and>
       (\<exists>c. canonicalize fs global_root = Inr c \<and> prefix c (u_home u))) \<and>
    sorted_wrt (\<lambda>h h'. \<not> prefix h h' \<and> \<not> prefix h' h) (map (\<lambda>(n, u). u_home u) (by_name d))"
proof -
  from from_config_parts [OF assms] obtain c resolved fs1 fs2 where
    p: "canonicalize fs global_root = Inr c" "validate_specs cfg = Inr ()"
      "resolve_homes global_root c (cf_users cfg) [] fs = (Inr resolved, fs1)"
      "build_users fuel (zip (cf_users cfg) resolved) [] fs1 = Some (Inr (by_name d), fs2)" by blast
  have r: "disjoint_homes resolved" "\<forall>x \<in> set resolved. prefix c (snd x)" "length resolved = length (cf_users cfg)"
    using resolve_homes_ok [OF p(3)] by (simp_all add: disjoint_homes_def)
  from build_users_ok [OF p(4)] have b: "distinct (map fst (by_name d))"
    "map (\<lambda>(n, u). (n, u_home u)) (by_name d) = map (\<lambda>(spec, _, home). (sp_name spec, home)) (zip (cf_users cfg) resolved)"
    "\<forall>(n, u) \<in> set (by_name d). u_name u = n \<and> u_in_flight_bytes u = 0 \<and>
       u_quota_bytes u \<in> (\<lambda>x. sp_quota_bytes (fst x)) ` set (zip (cf_users cfg) resolved)" by auto
  have h: "map (\<lambda>(n, u). u_home u) (by_name d) = map snd resolved" using homes_of_zip [OF r(3) [symmetric] b(2)] .
  have q: "sp_quota_bytes s \<noteq> Some 0" if "s \<in> set (cf_users cfg)" for s
    using validate_specs_quota p(2) that by (auto simp: validate_specs_def)
  have home: "prefix c (u_home u)" if "(n, u) \<in> set (by_name d)" for n u
  proof -
    have "u_home u \<in> set (map (\<lambda>(n, u). u_home u) (by_name d))" using that by force
    then show ?thesis using h r(2) by auto
  qed
  have quota: "u_quota_bytes u \<noteq> Some 0" if "(n, u) \<in> set (by_name d)" for n u
    using b(3) that q by (fastforce dest: set_zip_leftD)
  have "sorted_wrt (\<lambda>h h'. \<not> prefix h h' \<and> \<not> prefix h' h) (map snd resolved)"
    using r(1) by (simp add: disjoint_homes_def sorted_wrt_map)
  then show ?thesis using b(1,3) h home quota p(1) by auto
qed

definition demo_spec :: "string \<Rightarrow> string option \<Rightarrow> UserSpec" where
  "demo_spec n h = \<lparr>sp_name = n, sp_home = h, sp_permissions = Permissions_full, sp_quota_bytes = Some 10\<rparr>"

definition demo_config :: UserConfig where
  "demo_config = \<lparr>cf_anonymous = None, cf_users = [demo_spec ''alice'' None, demo_spec ''bob'' (Some ''b'')]\<rparr>"

theorem from_config_homes_disjoint_witness:
  "\<exists>d fs'. from_config 9 home_fs [''srv''] demo_config = Some (Inr d, fs') \<and>
     map (\<lambda>(n, u). u_home u) (by_name d) = [[''srv'', ''alice''], [''srv'', ''b'']] \<and> distinct (map fst (by_name d))"
proof -
  have "map_option (\<lambda>(r, fs'). case r of Inl _ \<Rightarrow> None | Inr d \<Rightarrow> Some (map (\<lambda>(n, u). u_home u) (by_name d)))
      (from_config 9 home_fs [''srv''] demo_config) = Some (Some [[''srv'', ''alice''], [''srv'', ''b'']])" by code_simp
  moreover from this obtain r fs' where r: "from_config 9 home_fs [''srv''] demo_config = Some (r, fs')" by fastforce
  ultimately obtain d where c: "from_config 9 home_fs [''srv''] demo_config = Some (Inr d, fs')"
    "map (\<lambda>(n, u). u_home u) (by_name d) = [[''srv'', ''alice''], [''srv'', ''b'']]"
    by (cases r) auto
  then show ?thesis using from_config_homes_disjoint [OF c(1)] by auto
qed

end
