(* ===== verification/Retry.thy ===== *)
theory Retry
  imports Prelude
begin

text \<open>
  Stateless retry tokens of \<open>crates/qftp-server/src/retry.rs\<close> and the constant-time comparison of
  \<open>crates/qftp-common/src/util.rs\<close>. The truncated HMAC-SHA-256 under the process key is the
  parameter \<open>sign\<close>; all that is used of it is that its tags have 16 bytes. The clock is an argument,
  as in \<open>mint_at\<close> and \<open>verify_at\<close>.
\<close>

section \<open>Addresses\<close>

datatype IpAddr = V4 u32 | V6 "128 word"

record SocketAddr =
  sa_ip :: IpAddr
  sa_port :: u16

fun ip_octets :: "IpAddr \<Rightarrow> bytes" where
  "ip_octets (V4 a) = be_bytes 4 (unat a)"
| "ip_octets (V6 a) = be_bytes 16 (unat a)"

fun ip_len :: "IpAddr \<Rightarrow> nat" where
  "ip_len (V4 a) = 4"
| "ip_len (V6 a) = 16"

section \<open>Comparison\<close>

definition constant_time_eq :: "bytes \<Rightarrow> bytes \<Rightarrow> bool" where
  "constant_time_eq a b =
     (if length a \<noteq> length b then False
      else foldl (\<lambda>diff (x, y). diff OR (x XOR y)) (0 :: byte) (zip a b) = 0)"

section \<open>Tokens\<close>

definition MAGIC :: bytes where "MAGIC = [0x71, 0x66, 0x74, 0x70, 0x31]" \<comment> \<open>\<open>qftp1\<close>\<close>
definition HMAC_LEN :: nat where "HMAC_LEN = 16"
definition TS_LEN :: nat where "TS_LEN = 8"
definition TOKEN_LIFETIME_SECS :: u64 where "TOKEN_LIFETIME_SECS = 60"

definition token_payload :: "SocketAddr \<Rightarrow> bytes \<Rightarrow> u64 \<Rightarrow> bytes" where
  "token_payload peer odcid now =
     MAGIC @ be_bytes 8 (unat now) @ ip_octets (sa_ip peer) @ be_bytes 2 (unat (sa_port peer)) @
     [of_nat (length odcid)] @ odcid"

definition mint_at :: "(bytes \<Rightarrow> bytes) \<Rightarrow> SocketAddr \<Rightarrow> bytes \<Rightarrow> u64 \<Rightarrow> bytes option" where
  "mint_at sign peer odcid now =
     (if \<not> (8 \<le> length odcid \<and> length odcid \<le> 20) then None
      else (let payload = token_payload peer odcid now in Some (payload @ sign payload)))"

definition verify_at :: "(bytes \<Rightarrow> bytes) \<Rightarrow> SocketAddr \<Rightarrow> bytes \<Rightarrow> u64 \<Rightarrow> bytes option" where
  "verify_at sign peer token now =
     (if length token < length MAGIC + TS_LEN + HMAC_LEN + 3 then None
      else if \<not> prefix MAGIC token then None
      else (let payload = take (length token - HMAC_LEN) token;
                tag = drop (length token - HMAC_LEN) token;
                expected = sign payload
            in if \<not> constant_time_eq tag expected then None
               else (let minted = of_nat (of_be_bytes (take TS_LEN (drop (length MAGIC) payload))) :: u64;
                         age = sat_sub now minted;
                         skew = sat_sub minted now
                     in if age > TOKEN_LIFETIME_SECS \<or> skew > TOKEN_LIFETIME_SECS then None
                        else (let cursor = drop (length MAGIC + TS_LEN) payload;
                                  n = ip_len (sa_ip peer)
                              in if length cursor < n + 3 then None
                                 else if take n cursor \<noteq> ip_octets (sa_ip peer) then None
                                 else (let cursor = drop n cursor;
                                           port = of_nat (of_be_bytes (take 2 cursor)) :: u16
                                       in if port \<noteq> sa_port peer then None
                                          else (let cursor = drop 2 cursor;
                                                    dcid_len = unat (hd cursor);
                                                    cursor = drop 1 cursor
                                                in if length cursor \<noteq> dcid_len then None
                                                   else if \<not> (8 \<le> dcid_len \<and> dcid_len \<le> 20) then None
                                                   else Some cursor))))))"

section \<open>Lemmas\<close>

lemma foldl_or_zero:
  "foldl (\<lambda>diff (x, y). diff OR (x XOR y)) d (zip a b) = (0 :: byte) \<longleftrightarrow>
     d = 0 \<and> (\<forall>(x, y) \<in> set (zip a b). x = y)"
proof (induction a arbitrary: b d)
  case (Cons x a)
  have "d OR (x XOR y) = 0 \<longleftrightarrow> d = 0 \<and> x = y" for y :: byte
    by (metis or_eq_0_iff xor.assoc xor.left_neutral xor.right_neutral xor_self_eq)
  then show ?case using Cons by (cases b) auto
qed simp

lemma constant_time_eq_iff [simp]: "constant_time_eq a b \<longleftrightarrow> a = b"
proof -
  have "a = b" if "length a = length b" "\<forall>(x, y) \<in> set (zip a b). x = y"
    using that by (induction a b rule: list_induct2) auto
  moreover have "\<forall>(x, y) \<in> set (zip b b). x = y" by (induction b) auto
  ultimately show ?thesis by (auto simp: constant_time_eq_def foldl_or_zero)
qed

lemma length_ip_octets [simp]: "length (ip_octets ip) = ip_len ip"
  by (cases ip) auto

lemma sat_window:
  "(sat_sub a b > TOKEN_LIFETIME_SECS \<or> sat_sub b a > TOKEN_LIFETIME_SECS) \<longleftrightarrow>
     unat a > unat b + 60 \<or> unat b > unat a + 60"
  by (auto simp: word_less_nat_alt u64_simps TOKEN_LIFETIME_SECS_def)

lemma unat_odcid_len: "length odcid \<le> 20 \<Longrightarrow> unat (of_nat (length odcid) :: byte) = length odcid"
  by (simp add: unat_of_nat)

text \<open>Reading back the fields of a payload.\<close>

lemma be8_inverse: "of_nat (of_be_bytes (be_bytes 8 (unat (w :: u64)))) = w"
  by simp

lemma be2_inverse: "of_nat (of_be_bytes (be_bytes 2 (unat (w :: u16)))) = w"
  by simp

lemma verify_mint:
  assumes "\<And>x. length (sign x) = 16" "mint_at sign peer odcid minted = Some token"
    "unat now \<le> unat minted + 60" "unat minted \<le> unat now + 60"
  shows "verify_at sign peer token now = Some odcid"
proof -
  let ?p = "token_payload peer odcid minted"
  from assms(2) have l: "8 \<le> length odcid" "length odcid \<le> 20" and t: "token = ?p @ sign ?p"
    by (auto simp: mint_at_def Let_def split: if_splits)
  have len: "length ?p = 16 + ip_len (sa_ip peer) + length odcid"
    by (simp add: token_payload_def MAGIC_def)
  have pay: "take (length token - HMAC_LEN) token = ?p" "drop (length token - HMAC_LEN) token = sign ?p"
    using assms(1) by (simp_all add: t HMAC_LEN_def)
  have ts: "take TS_LEN (drop (length MAGIC) ?p) = be_bytes 8 (unat minted)"
    by (simp add: token_payload_def TS_LEN_def)
  have cur: "drop (length MAGIC + TS_LEN) ?p =
      ip_octets (sa_ip peer) @ be_bytes 2 (unat (sa_port peer)) @ of_nat (length odcid) # odcid"
    by (simp add: token_payload_def TS_LEN_def drop_append)
  have pre: "prefix MAGIC token" by (simp add: t token_payload_def)
  have big: "\<not> length token < length MAGIC + TS_LEN + HMAC_LEN + 3"
    using len assms(1) l by (simp add: t MAGIC_def TS_LEN_def HMAC_LEN_def)
  have win: "\<not> (sat_sub now minted > TOKEN_LIFETIME_SECS \<or> sat_sub minted now > TOKEN_LIFETIME_SECS)"
    unfolding sat_window using assms(3,4) by linarith
  show ?thesis unfolding verify_at_def Let_def pay ts cur be8_inverse
    using big pre win l by (simp add: unat_odcid_len)
qed

lemma be_word64: "length bs = 8 \<Longrightarrow> be_bytes 8 (unat (of_nat (of_be_bytes bs) :: u64)) = bs"
  using of_be_bytes_bound [of bs] be_bytes_of_be_bytes [of bs 8] by (simp add: u64_simps)

lemma be_word16: "length bs = 2 \<Longrightarrow> be_bytes 2 (unat (of_nat (of_be_bytes bs) :: u16)) = bs"
  using of_be_bytes_bound [of bs] be_bytes_of_be_bytes [of bs 2] by (simp add: unat_of_nat)

lemma split_at_2: "3 \<le> length xs \<Longrightarrow> xs = take 2 xs @ hd (drop 2 xs) # drop 3 xs"
  by (auto simp: Suc_le_length_iff numeral_3_eq_3 numeral_2_eq_2)

lemma verify_sound:
  assumes "verify_at sign peer token now = Some odcid"
  shows "\<exists>minted. mint_at sign peer odcid minted = Some token \<and>
    unat now \<le> unat minted + 60 \<and> unat minted \<le> unat now + 60"
proof -
  define payload where "payload = take (length token - HMAC_LEN) token"
  define minted where "minted = (of_nat (of_be_bytes (take 8 (drop 5 payload))) :: u64)"
  define c1 where "c1 = drop 13 payload"
  define c2 where "c2 = drop (ip_len (sa_ip peer)) c1"
  have m5: "length MAGIC = 5" by (simp add: MAGIC_def)
  note d = assms [unfolded verify_at_def Let_def m5 TS_LEN_def, folded payload_def]
  have v: "32 \<le> length token" "prefix MAGIC token" "drop (length token - HMAC_LEN) token = sign payload"
    "\<not> (sat_sub now minted > TOKEN_LIFETIME_SECS \<or> sat_sub minted now > TOKEN_LIFETIME_SECS)"
    "ip_len (sa_ip peer) + 3 \<le> length c1" "take (ip_len (sa_ip peer)) c1 = ip_octets (sa_ip peer)"
    "of_nat (of_be_bytes (take 2 c2)) = sa_port peer" "length (drop 3 c2) = unat (hd (drop 2 c2))"
    "8 \<le> length odcid" "length odcid \<le> 20" "odcid = drop 3 c2"
    using d by (auto simp: minted_def c1_def c2_def HMAC_LEN_def split: if_splits)
  have tok: "token = payload @ sign payload" using v(3) by (metis append_take_drop_id payload_def)
  have lp: "16 \<le> length payload" using v(1) by (simp add: payload_def HMAC_LEN_def)
  have "take 5 token = MAGIC" using v(2) by (auto simp: prefix_def MAGIC_def)
  moreover have "take 5 payload = take 5 token" using lp by (simp add: tok)
  ultimately have magic: "take 5 payload = MAGIC" by simp
  have ts: "be_bytes 8 (unat minted) = take 8 (drop 5 payload)"
    using be_word64 [of "take 8 (drop 5 payload)"] lp by (simp add: minted_def)
  have port: "be_bytes 2 (unat (sa_port peer)) = take 2 c2"
    using be_word16 [of "take 2 c2"] v(5,7) by (simp add: c2_def)
  have "length c2 \<ge> 3" using v(5) by (simp add: c2_def)
  from split_at_2 [OF this] have c2: "c2 = take 2 c2 @ hd (drop 2 c2) # drop 3 c2" .
  have "hd (drop 2 c2) = of_nat (length odcid)" using v(8,11) by simp
  then have c2': "c2 = be_bytes 2 (unat (sa_port peer)) @ of_nat (length odcid) # odcid" using c2 port v(11) by metis
  have c1: "c1 = ip_octets (sa_ip peer) @ c2" using v(6) by (metis append_take_drop_id c2_def)
  have "payload = take 5 payload @ take 8 (drop 5 payload) @ c1"
    using append_take_drop_id [of 5 payload] append_take_drop_id [of 8 "drop 5 payload"] by (simp add: c1_def)
  then have "payload = token_payload peer odcid minted"
    unfolding magic ts [symmetric] c1 c2' token_payload_def by simp
  then show ?thesis using tok v(4,9,10) unfolding sat_window by (auto simp: mint_at_def Let_def)
qed

section \<open>Properties\<close>


definition demo_sign :: "bytes \<Rightarrow> bytes" where
  "demo_sign x = replicate 16 (of_nat (length x))"

definition demo_peer :: SocketAddr where
  "demo_peer = \<lparr>sa_ip = V4 0x0A000001, sa_port = 4242\<rparr>"


text \<open>
  The token does not carry the address family. The token that a client at the IPv4 address
  1.2.3.4, port 1286, obtains for a DCID of its choice is, byte for byte, the token of a client at
  the IPv6 address 102:304:506:1400:102:304:506:708, port 4386, for the last eight bytes of that
  DCID, so it validates that spoofable address too.
\<close>

lemma retry_token_family_confusion:
  "mint_at sign \<lparr>sa_ip = V4 0x01020304, sa_port = 0x0506\<rparr>
     [0x00, 1, 2, 3, 4, 5, 6, 7, 8, 0x11, 0x22, 8, 31, 32, 33, 34, 35, 36, 37, 38] now =
   mint_at sign \<lparr>sa_ip = V6 0x01020304050614000102030405060708, sa_port = 0x1122\<rparr>
     [31, 32, 33, 34, 35, 36, 37, 38] now"
  by (simp add: mint_at_def token_payload_def be_bytes_def le_bytes_numeral)

end
