(* ===== verification/Rate_Limits.thy ===== *)
theory Rate_Limits
  imports Retry Complex_Main "HOL-Library.Multiset"
begin

text \<open>
  Connection caps and the token-bucket rate limiter of \<open>crates/qftp-server/src/limits.rs\<close>. A
  \<open>HashMap\<close> is an association list whose order stands for the map's iteration order, about which
  nothing is assumed. An \<open>Instant\<close> and a \<open>Duration\<close> are nanoseconds as naturals. The tokens, an
  \<open>f64\<close> in the code, are rationals here: the model has no rounding.
\<close>

section \<open>Keys\<close>

fun bucket_key :: "IpAddr \<Rightarrow> bytes" where
  "bucket_key (V4 a) = replicate 10 0 @ [0xFF, 0xFF] @ ip_octets (V4 a)"
| "bucket_key (V6 a) = take 8 (ip_octets (V6 a)) @ replicate 8 0"

record Caps =
  max_total_connections :: nat
  max_per_ip_connections :: nat

definition default_caps :: Caps where
  "default_caps = \<lparr>max_total_connections = 64, max_per_ip_connections = 8\<rparr>"

section \<open>The rate limiter\<close>

record Bucket =
  b_tokens :: rat
  b_last :: nat

record RateLimiter =
  rl_rps :: rat
  rl_burst :: rat
  rl_buckets :: "(bytes \<times> Bucket) list"
  rl_max_tracked :: nat
  rl_sweep_interval :: nat
  rl_last_sweep :: nat
  rl_idle_cutoff :: nat

definition EVICT_SAMPLE :: nat where "EVICT_SAMPLE = 8"

definition ns_per_sec :: nat where "ns_per_sec = 1000000000"

definition RateLimiter_new :: "rat \<Rightarrow> rat \<Rightarrow> nat \<Rightarrow> RateLimiter" where
  "RateLimiter_new rps burst now =
     \<lparr>rl_rps = rps, rl_burst = burst, rl_buckets = [], rl_max_tracked = 4096,
      rl_sweep_interval = 60 * ns_per_sec, rl_last_sweep = now, rl_idle_cutoff = 300 * ns_per_sec\<rparr>"

definition retry_after_millis :: "RateLimiter \<Rightarrow> u32" where
  "retry_after_millis rl =
     (if rl_rps rl \<le> 0 then 1000
      else of_int (min (max \<lceil>1000 / rl_rps rl\<rceil> 1) (2 ^ 32 - 1)))"

definition maybe_sweep :: "nat \<Rightarrow> RateLimiter \<Rightarrow> RateLimiter" where
  "maybe_sweep now rl =
     (if now - rl_last_sweep rl < rl_sweep_interval rl then rl
      else rl\<lparr>rl_last_sweep := now,
              rl_buckets := filter (\<lambda>(k, b). now - b_last b < rl_idle_cutoff rl) (rl_buckets rl)\<rparr>)"

text \<open>\<open>min_by_key\<close> returns the first of several equal minima.\<close>

fun oldest :: "(bytes \<times> Bucket) list \<Rightarrow> (bytes \<times> Bucket) option" where
  "oldest [] = None"
| "oldest (x # xs) =
     (case oldest xs of None \<Rightarrow> Some x | Some y \<Rightarrow> if b_last (snd y) < b_last (snd x) then Some y else Some x)"

definition make_room_for :: "bytes \<Rightarrow> RateLimiter \<Rightarrow> RateLimiter" where
  "make_room_for key rl =
     (if length (rl_buckets rl) < rl_max_tracked rl then rl
      else if map_of (rl_buckets rl) key \<noteq> None then rl
      else (case oldest (take EVICT_SAMPLE (rl_buckets rl)) of
          None \<Rightarrow> rl
        | Some (oldest_key, _) \<Rightarrow> rl\<lparr>rl_buckets := AList.delete oldest_key (rl_buckets rl)\<rparr>))"

definition bucket_take :: "rat \<Rightarrow> rat \<Rightarrow> nat \<Rightarrow> Bucket \<Rightarrow> bool \<times> Bucket" where
  "bucket_take rps burst now b =
     (let elapsed = of_nat (now - b_last b) / of_nat ns_per_sec;
          tokens = min (b_tokens b + elapsed * rps) burst
      in if tokens \<ge> 1 then (True, \<lparr>b_tokens = tokens - 1, b_last = now\<rparr>)
         else (False, \<lparr>b_tokens = tokens, b_last = now\<rparr>))"

definition try_consume :: "nat \<Rightarrow> IpAddr \<Rightarrow> RateLimiter \<Rightarrow> bool \<times> RateLimiter" where
  "try_consume now ip rl =
     (let key = bucket_key ip;
          rl = make_room_for key (maybe_sweep now rl);
          bucket = (case map_of (rl_buckets rl) key of
                      Some b \<Rightarrow> b | None \<Rightarrow> \<lparr>b_tokens = rl_burst rl, b_last = now\<rparr>);
          (granted, bucket') = bucket_take (rl_rps rl) (rl_burst rl) now bucket
      in (granted, rl\<lparr>rl_buckets := AList.update key bucket' (rl_buckets rl)\<rparr>))"

section \<open>Connection counting\<close>

record ConnectionCounter =
  cc_total :: nat
  cc_per_ip :: "(bytes \<times> nat) list"

definition counter_empty :: ConnectionCounter where
  "counter_empty = \<lparr>cc_total = 0, cc_per_ip = []\<rparr>"

record ConnectionSlot =
  slot_ip :: IpAddr
  slot_armed :: bool

definition try_acquire :: "Caps \<Rightarrow> IpAddr \<Rightarrow> ConnectionCounter \<Rightarrow> ConnectionSlot option \<times> ConnectionCounter" where
  "try_acquire caps ip c =
     (if cc_total c \<ge> max_total_connections caps then (None, c)
      else (let key = bucket_key ip;
                entry = (case map_of (cc_per_ip c) key of Some n \<Rightarrow> n | None \<Rightarrow> 0)
            in if entry \<ge> max_per_ip_connections caps
               then (None, c\<lparr>cc_per_ip := AList.update key entry (cc_per_ip c)\<rparr>)
               else (Some \<lparr>slot_ip = ip, slot_armed = True\<rparr>,
                     \<lparr>cc_total = cc_total c + 1, cc_per_ip = AList.update key (entry + 1) (cc_per_ip c)\<rparr>)))"

definition release :: "IpAddr \<Rightarrow> ConnectionCounter \<Rightarrow> ConnectionCounter" where
  "release ip c =
     (let key = bucket_key ip
      in \<lparr>cc_total = cc_total c - 1,
          cc_per_ip = (case map_of (cc_per_ip c) key of
              None \<Rightarrow> cc_per_ip c
            | Some n \<Rightarrow> (if n - 1 = 0 then AList.delete key (cc_per_ip c)
                        else AList.update key (n - 1) (cc_per_ip c)))\<rparr>)"

definition slot_commit :: "ConnectionSlot \<Rightarrow> ConnectionSlot" where
  "slot_commit s = s\<lparr>slot_armed := False\<rparr>"

definition slot_drop :: "ConnectionSlot \<Rightarrow> ConnectionCounter \<Rightarrow> ConnectionCounter" where
  "slot_drop s c = (if slot_armed s then release (slot_ip s) c else c)"

section \<open>Lemmas\<close>

subsection \<open>Keys\<close>

text \<open>Two addresses share a key exactly when they share an IPv4 address or an IPv6 /64.\<close>

lemma bucket_key_length [simp]: "length (bucket_key ip) = 16"
  by (cases ip) auto

lemma bucket_key_V4: "bucket_key (V4 a) = bucket_key (V4 b) \<longleftrightarrow> a = b"
proof -
  have "unat a < 256 ^ 4" "unat b < 256 ^ 4" using unsigned_less [of a] unsigned_less [of b] by simp_all
  then have "bucket_key (V4 a) = bucket_key (V4 b) \<longleftrightarrow> unat a = unat b"
    using be_bytes_inj [of "unat a" 4 "unat b"] by auto
  then show ?thesis by (simp add: word_unat_eq_iff)
qed

lemma bucket_key_V6: "bucket_key (V6 a) = bucket_key (V6 b) \<longleftrightarrow> drop_bit 64 a = drop_bit 64 b"
proof -
  have d: "unat (drop_bit 64 w) = unat w div 2 ^ 64" for w :: "128 word"
    by (subst unat_drop_bit_eq) (simp only: drop_bit_eq_div)
  have k: "bucket_key (V6 w) = be_bytes 8 (unat (drop_bit 64 w)) @ replicate 8 0" for w
    using take_be_bytes [of 8 8 "unat w"] by (simp add: d)
  have "unat w < 2 ^ LENGTH(128)" for w :: "128 word" by (rule unsigned_less)
  then have "unat (drop_bit 64 w) < 256 ^ 8" for w :: "128 word" by (simp add: d less_mult_imp_div_less)
  then have "bucket_key (V6 a) = bucket_key (V6 b) \<longleftrightarrow> unat (drop_bit 64 a) = unat (drop_bit 64 b)"
    unfolding k using be_bytes_inj [of "unat (drop_bit 64 a)" 8 "unat (drop_bit 64 b)"] by auto
  then show ?thesis by (simp add: word_unat_eq_iff)
qed

lemma bucket_key_V4_V6: "bucket_key (V4 a) \<noteq> bucket_key (V6 b)"
proof
  assume "bucket_key (V4 a) = bucket_key (V6 b)"
  then have "bucket_key (V4 a) ! 10 = bucket_key (V6 b) ! 10" by simp
  then show False by (simp add: nth_append)
qed

subsection \<open>The counter refines a multiset of live connections\<close>

definition counts :: "ConnectionCounter \<Rightarrow> bytes \<Rightarrow> nat" where
  "counts c k = (case map_of (cc_per_ip c) k of Some n \<Rightarrow> n | None \<Rightarrow> 0)"

text \<open>\<open>live\<close> holds the key of every connection that has a slot.\<close>

definition counter_abs :: "ConnectionCounter \<Rightarrow> bytes multiset \<Rightarrow> bool" where
  "counter_abs c live \<longleftrightarrow> cc_total c = size live \<and> (\<forall>k. counts c k = count live k)"

lemma counts_update: "counts (c\<lparr>cc_per_ip := AList.update k n (cc_per_ip c)\<rparr>) j = (if j = k then n else counts c j)"
  by (simp add: counts_def)

lemma try_acquire_refines:
  assumes "counter_abs c live" "try_acquire caps ip c = (r, c')"
  shows "if size live < max_total_connections caps \<and> count live (bucket_key ip) < max_per_ip_connections caps
    then r = Some \<lparr>slot_ip = ip, slot_armed = True\<rparr> \<and> counter_abs c' (add_mset (bucket_key ip) live)
    else r = None \<and> counter_abs c' live"
proof -
  have e: "(case map_of (cc_per_ip c) (bucket_key ip) of Some n \<Rightarrow> n | None \<Rightarrow> 0) = count live (bucket_key ip)"
    using assms(1) by (auto simp: counter_abs_def counts_def)
  show ?thesis using assms unfolding try_acquire_def Let_def e
    by (auto simp: counter_abs_def counts_def split: if_splits)
qed

lemma release_refines:
  assumes "counter_abs c live" "bucket_key ip \<in># live"
  shows "counter_abs (release ip c) (live - {#bucket_key ip#})"
proof -
  have pos: "count live (bucket_key ip) \<noteq> 0" using assms(2) by simp
  obtain n where n: "map_of (cc_per_ip c) (bucket_key ip) = Some n" "n = count live (bucket_key ip)"
    using assms(1) pos unfolding counter_abs_def counts_def by (metis option.case_eq_if option.collapse)
  have k: "counts c k = count live k" for k using assms(1) by (simp add: counter_abs_def)
  have "counts (release ip c) k = count (live - {#bucket_key ip#}) k" for k
    using n k [of k] by (auto simp: counts_def release_def Let_def)
  then show ?thesis using assms by (simp add: counter_abs_def release_def Let_def size_Diff_singleton)
qed

definition within_caps :: "Caps \<Rightarrow> bytes multiset \<Rightarrow> bool" where
  "within_caps caps l \<longleftrightarrow> size l \<le> max_total_connections caps \<and> (\<forall>k. count l k \<le> max_per_ip_connections caps)"

text \<open>
  What a client of the counter relies on: the counter stands for a multiset of keys, a slot is
  granted exactly below both caps, and giving one back takes its key out. A client that only gives
  back what it was granted then stays within the caps.
\<close>

locale slot_counter =
  fixes acquire :: "'s \<Rightarrow> 'c \<Rightarrow> 'a option \<times> 'c" and give_back_slot :: "'s \<Rightarrow> 'c \<Rightarrow> 'c" and key :: "'s \<Rightarrow> 'k"
    and counts_as :: "'c \<Rightarrow> 'k multiset \<Rightarrow> bool" and most each :: nat
  assumes acquire: "counts_as c live \<Longrightarrow> acquire s c = (r, c') \<Longrightarrow>
      if size live < most \<and> count live (key s) < each then r \<noteq> None \<and> counts_as c' (add_mset (key s) live)
      else r = None \<and> counts_as c' live"
    and give_back: "counts_as c live \<Longrightarrow> key s \<in># live \<Longrightarrow> counts_as (give_back_slot s c) (live - {#key s#})"
begin

lemma undone: "counts_as c live \<Longrightarrow> acquire s c = (Some slot, c') \<Longrightarrow> counts_as (give_back_slot s c') live"
  using acquire [of c live s "Some slot" c'] give_back [of c' "add_mset (key s) live" s] by (auto split: if_splits)

lemma stays_within:
  assumes "counts_as c live" "acquire s c = (Some slot, c')" "size live \<le> most" "\<And>k. count live k \<le> each"
  shows "size (add_mset (key s) live) \<le> most \<and> (\<forall>k. count (add_mset (key s) live) k \<le> each)"
  using acquire [OF assms(1,2)] assms(3,4) by (auto split: if_splits)

end

interpretation slots: slot_counter "try_acquire caps" release bucket_key counter_abs "max_total_connections caps" "max_per_ip_connections caps"
  for caps
proof
  show "if size live < max_total_connections caps \<and> count live (bucket_key ip) < max_per_ip_connections caps
      then r \<noteq> None \<and> counter_abs c' (add_mset (bucket_key ip) live) else r = None \<and> counter_abs c' live"
    if "counter_abs c live" "try_acquire caps ip c = (r, c')" for c live ip r c'
    using try_acquire_refines [OF that] by (auto split: if_splits)
qed (rule release_refines)

subsection \<open>The rate limiter\<close>

definition tokens_ok :: "RateLimiter \<Rightarrow> bool" where
  "tokens_ok rl \<longleftrightarrow> (\<forall>(k, b) \<in> set (rl_buckets rl). 0 \<le> b_tokens b \<and> b_tokens b \<le> rl_burst rl)"

lemma oldest_in: "oldest xs = Some x \<Longrightarrow> x \<in> set xs"
  by (induction xs arbitrary: x) (auto split: option.splits if_splits)

lemma oldest_None: "oldest xs = None \<longleftrightarrow> xs = []"
  by (cases xs) (auto split: option.splits)

lemma length_update: "length (AList.update k v al) = (if k \<in> fst ` set al then length al else Suc (length al))"
  by (induction al) auto

lemma length_delete_less: "k \<in> fst ` set al \<Longrightarrow> length (AList.delete k al) < length al"
  by (induction al) (force simp: AList.delete_eq less_Suc_eq_le intro!: length_filter_le)+

lemma make_room_bound:
  assumes "0 < rl_max_tracked rl" "length (rl_buckets rl) \<le> rl_max_tracked rl"
  shows "length (rl_buckets (make_room_for key rl)) < rl_max_tracked rl \<or>
    map_of (rl_buckets (make_room_for key rl)) key \<noteq> None \<and> length (rl_buckets (make_room_for key rl)) \<le> rl_max_tracked rl"
proof (cases "length (rl_buckets rl) < rl_max_tracked rl \<or> map_of (rl_buckets rl) key \<noteq> None")
  case True
  then show ?thesis using assms by (auto simp: make_room_for_def)
next
  case False
  then have "rl_buckets rl \<noteq> []" using assms by auto
  then have "take EVICT_SAMPLE (rl_buckets rl) \<noteq> []" by (simp add: EVICT_SAMPLE_def)
  then obtain k b where o: "oldest (take EVICT_SAMPLE (rl_buckets rl)) = Some (k, b)"
    using oldest_None by (metis not_None_eq surj_pair)
  then have "k \<in> fst ` set (rl_buckets rl)" by (force dest: oldest_in in_set_takeD)
  from length_delete_less [OF this] show ?thesis using False o assms by (auto simp: make_room_for_def)
qed

lemma maybe_sweep_simps [simp]:
  "rl_rps (maybe_sweep now rl) = rl_rps rl" "rl_burst (maybe_sweep now rl) = rl_burst rl"
  "rl_max_tracked (maybe_sweep now rl) = rl_max_tracked rl" "rl_idle_cutoff (maybe_sweep now rl) = rl_idle_cutoff rl"
  by (simp_all add: maybe_sweep_def)

lemma make_room_simps [simp]:
  "rl_rps (make_room_for key rl) = rl_rps rl" "rl_burst (make_room_for key rl) = rl_burst rl"
  "rl_max_tracked (make_room_for key rl) = rl_max_tracked rl" "rl_idle_cutoff (make_room_for key rl) = rl_idle_cutoff rl"
  by (simp_all add: make_room_for_def split: option.splits)

lemma sweep_sub: "set (rl_buckets (maybe_sweep now rl)) \<subseteq> set (rl_buckets rl)"
  "length (rl_buckets (maybe_sweep now rl)) \<le> length (rl_buckets rl)"
  by (auto simp: maybe_sweep_def)

lemma room_sub: "set (rl_buckets (make_room_for key rl)) \<subseteq> set (rl_buckets rl)"
  by (auto simp: make_room_for_def AList.delete_eq split: option.splits)

lemma set_update_sub: "set (AList.update k v al) \<subseteq> insert (k, v) (set al)"
  by (induction al) auto

lemma bucket_take_range:
  assumes "0 \<le> b_tokens b" "b_tokens b \<le> burst" "0 \<le> rps" "bucket_take rps burst now b = (g, b')"
  shows "0 \<le> b_tokens b' \<and> b_tokens b' \<le> burst \<and> b_last b' = now"
  using assms by (auto simp: bucket_take_def Let_def split: if_splits)

text \<open>The table invariant: at most \<open>max_tracked\<close> buckets, all with between 0 and \<open>burst\<close> tokens.\<close>

definition limiter_ok :: "RateLimiter \<Rightarrow> bool" where
  "limiter_ok rl \<longleftrightarrow> length (rl_buckets rl) \<le> rl_max_tracked rl \<and> tokens_ok rl"

lemma map_of_tokens_ok:
  "tokens_ok rl \<Longrightarrow> map_of (rl_buckets rl) k = Some b \<Longrightarrow> 0 \<le> b_tokens b \<and> b_tokens b \<le> rl_burst rl"
  by (auto simp: tokens_ok_def dest!: map_of_SomeD)

lemma try_consume_limiter_ok:
  assumes ok: "limiter_ok rl" and p: "0 < rl_max_tracked rl" "0 \<le> rl_rps rl" "0 \<le> rl_burst rl"
  shows "limiter_ok (snd (try_consume now ip rl))"
proof -
  define key where "key = bucket_key ip"
  define r where "r = make_room_for key (maybe_sweep now rl)"
  define b where "b = (case map_of (rl_buckets r) key of Some b \<Rightarrow> b | None \<Rightarrow> \<lparr>b_tokens = rl_burst r, b_last = now\<rparr>)"
  obtain g b' where t: "bucket_take (rl_rps r) (rl_burst r) now b = (g, b')" by fastforce
  have res: "snd (try_consume now ip rl) = r\<lparr>rl_buckets := AList.update key b' (rl_buckets r)\<rparr>"
    using t unfolding try_consume_def Let_def key_def [symmetric] r_def [symmetric] b_def [symmetric] by simp
  have sub: "set (rl_buckets r) \<subseteq> set (rl_buckets rl)"
    unfolding r_def using room_sub sweep_sub(1) by blast
  have rp: "rl_rps r = rl_rps rl" "rl_burst r = rl_burst rl" "rl_max_tracked r = rl_max_tracked rl" by (simp_all add: r_def)
  have r_ok: "tokens_ok r" using ok sub rp unfolding limiter_ok_def tokens_ok_def by auto
  have "0 \<le> b_tokens b \<and> b_tokens b \<le> rl_burst r"
    using map_of_tokens_ok [OF r_ok] p rp by (auto simp: b_def split: option.splits)
  then have b': "0 \<le> b_tokens b' \<and> b_tokens b' \<le> rl_burst r" using bucket_take_range t p rp by metis
  have "length (rl_buckets (maybe_sweep now rl)) \<le> rl_max_tracked rl"
    using ok sweep_sub(2) [of now rl] unfolding limiter_ok_def by linarith
  then have "length (AList.update key b' (rl_buckets r)) \<le> rl_max_tracked rl"
    using make_room_bound [of "maybe_sweep now rl" key] p(1)
    by (auto simp: length_update map_of_eq_None_iff simp flip: r_def)
  then show ?thesis unfolding res using b' r_ok rp set_update_sub [of key b' "rl_buckets r"]
    by (auto simp: limiter_ok_def tokens_ok_def)
qed

subsection \<open>What a source is granted\<close>

text \<open>
  The ideal level of a key at a time: its tokens plus what has accrued, at most \<open>burst\<close>; a key
  without a bucket is full.
\<close>

definition level :: "RateLimiter \<Rightarrow> bytes \<Rightarrow> nat \<Rightarrow> rat" where
  "level rl k now = (case map_of (rl_buckets rl) k of
      None \<Rightarrow> rl_burst rl
    | Some b \<Rightarrow> min (b_tokens b + of_nat (now - b_last b) / of_nat ns_per_sec * rl_rps rl) (rl_burst rl))"

text \<open>No key outside \<open>K\<close> is tracked, no bucket is from the future, and forgetting an idle bucket is harmless.\<close>

definition tracks :: "bytes set \<Rightarrow> nat \<Rightarrow> RateLimiter \<Rightarrow> bool" where
  "tracks K now rl \<longleftrightarrow> tokens_ok rl \<and> distinct (map fst (rl_buckets rl)) \<and> fst ` set (rl_buckets rl) \<subseteq> K \<and>
     (\<forall>(k, b) \<in> set (rl_buckets rl). b_last b \<le> now) \<and> 0 \<le> rl_rps rl \<and> 0 \<le> rl_burst rl \<and>
     rl_burst rl \<le> of_nat (rl_idle_cutoff rl) / of_nat ns_per_sec * rl_rps rl \<and>
     finite K \<and> card K \<le> rl_max_tracked rl"

lemma map_of_filter_distinct:
  "distinct (map fst xs) \<Longrightarrow> map_of (filter P xs) k =
     (case map_of xs k of Some v \<Rightarrow> if P (k, v) then Some v else None | None \<Rightarrow> None)"
  by (induction xs) (auto split: option.splits simp: map_of_eq_None_iff image_iff dest: map_of_SomeD)

lemma make_room_tracked:
  assumes "tracks K now rl" "key \<in> K"
  shows "make_room_for key rl = rl"
proof (cases "length (rl_buckets rl) < rl_max_tracked rl \<or> map_of (rl_buckets rl) key \<noteq> None")
  case False
  have "insert key (fst ` set (rl_buckets rl)) \<subseteq> K" "finite K" using assms by (auto simp: tracks_def)
  then have "card (insert key (fst ` set (rl_buckets rl))) \<le> rl_max_tracked rl"
    using card_mono assms(1) unfolding tracks_def by (meson le_trans)
  moreover have "card (fst ` set (rl_buckets rl)) = length (rl_buckets rl)"
    using assms(1) distinct_card [of "map fst (rl_buckets rl)"] by (simp add: tracks_def)
  ultimately show ?thesis using False by (simp add: map_of_eq_None_iff)
qed (auto simp: make_room_for_def)

lemma maybe_sweep_tracks: "tracks K now rl \<Longrightarrow> tracks K now (maybe_sweep now rl)"
  using sweep_sub(1) [of now rl]
  by (auto simp: tracks_def tokens_ok_def maybe_sweep_def distinct_map_filter)

lemma maybe_sweep_level:
  assumes "tracks K now rl"
  shows "level (maybe_sweep now rl) k now = level rl k now"
proof (cases "map_of (rl_buckets rl) k")
  case None
  then show ?thesis using assms by (auto simp: level_def maybe_sweep_def map_of_filter_distinct tracks_def)
next
  case (Some b)
  have full: "min (b_tokens b + of_nat (now - b_last b) / of_nat ns_per_sec * rl_rps rl) (rl_burst rl) = rl_burst rl"
    if "rl_idle_cutoff rl \<le> now - b_last b"
  proof -
    have "of_nat (rl_idle_cutoff rl) / of_nat ns_per_sec * rl_rps rl \<le> of_nat (now - b_last b) / of_nat ns_per_sec * rl_rps rl"
      using that assms by (intro mult_right_mono divide_right_mono) (auto simp: tracks_def simp del: of_nat_diff)
    moreover have "0 \<le> b_tokens b" using map_of_tokens_ok Some assms by (auto simp: tracks_def)
    ultimately show ?thesis using assms unfolding tracks_def by linarith
  qed
  show ?thesis using Some full assms by (auto simp: level_def maybe_sweep_def map_of_filter_distinct tracks_def)
qed

lemma try_consume_level:
  assumes tr: "tracks K now rl" and key: "bucket_key ip \<in> K" and c: "try_consume now ip rl = (g, rl')"
  shows "g \<longleftrightarrow> level rl (bucket_key ip) now \<ge> 1"
    and "level rl' k now = level rl k now - (if g \<and> k = bucket_key ip then 1 else 0)"
    and "tracks K now rl'"
proof -
  define r where "r = maybe_sweep now rl"
  define b where "b = (case map_of (rl_buckets r) (bucket_key ip) of Some b \<Rightarrow> b | None \<Rightarrow> \<lparr>b_tokens = rl_burst r, b_last = now\<rparr>)"
  obtain g' b' where t: "bucket_take (rl_rps r) (rl_burst r) now b = (g', b')" by fastforce
  have tr': "tracks K now r" using maybe_sweep_tracks tr by (simp add: r_def)
  have room: "make_room_for (bucket_key ip) r = r" by (rule make_room_tracked [OF tr' key])
  have res: "g = g'" "rl' = r\<lparr>rl_buckets := AList.update (bucket_key ip) b' (rl_buckets r)\<rparr>"
    using c t unfolding try_consume_def Let_def r_def [symmetric] room b_def [symmetric] by simp_all
  have lv: "level r k now = level rl k now" for k unfolding r_def by (rule maybe_sweep_level [OF tr])
  have lb: "level r (bucket_key ip) now = min (b_tokens b + of_nat (now - b_last b) / of_nat ns_per_sec * rl_rps r) (rl_burst r)"
    by (simp add: level_def b_def split: option.splits)
  show "g \<longleftrightarrow> level rl (bucket_key ip) now \<ge> 1"
    using t res(1) lb lv by (auto simp: bucket_take_def Let_def split: if_splits)
  have b0: "0 \<le> b_tokens b \<and> b_tokens b \<le> rl_burst r"
    using map_of_tokens_ok [of r] tr' by (auto simp: b_def tracks_def split: option.splits)
  have b': "0 \<le> b_tokens b' \<and> b_tokens b' \<le> rl_burst r \<and> b_last b' = now"
    using bucket_take_range [OF _ _ _ t] b0 tr' by (auto simp: tracks_def)
  have "b_tokens b' = level r (bucket_key ip) now - (if g then 1 else 0)"
    using t res(1) unfolding lb by (auto simp: bucket_take_def Let_def split: if_splits)
  then show "level rl' k now = level rl k now - (if g \<and> k = bucket_key ip then 1 else 0)"
    using b' unfolding lv [symmetric] by (auto simp: level_def res(2) cong: option.case_cong)
  show "tracks K now rl'"
    using tr' b' key set_update_sub [of "bucket_key ip" b' "rl_buckets r"]
    by (auto simp: tracks_def tokens_ok_def res(2) distinct_update dom_update)
qed

lemma level_later:
  assumes "tracks K t rl" "t \<le> t'"
  shows "level rl k t' \<le> level rl k t + of_nat (t' - t) / of_nat ns_per_sec * rl_rps rl"
proof (cases "map_of (rl_buckets rl) k")
  case None
  then show ?thesis using assms by (auto simp: level_def tracks_def)
next
  case (Some b)
  then have "b_last b \<le> t" using assms(1) by (auto simp: tracks_def dest!: map_of_SomeD)
  then have "of_nat (t' - b_last b) = (of_nat (t - b_last b) + of_nat (t' - t) :: rat)"
    using assms(2) by (simp add: of_nat_diff)
  moreover have "0 \<le> of_nat (t' - t) / of_nat ns_per_sec * rl_rps rl"
    using assms(1) by (simp add: tracks_def)
  ultimately show ?thesis using Some
    by (simp add: level_def add_divide_distrib distrib_right min_def del: of_nat_diff)
qed

lemma tracks_later: "tracks K t rl \<Longrightarrow> t \<le> t' \<Longrightarrow> tracks K t' rl"
  by (force simp: tracks_def)

section \<open>Properties\<close>

text \<open>The requests \<open>(time, source)\<close> served in order, with the verdict of each.\<close>

fun serve :: "(nat \<times> IpAddr) list \<Rightarrow> RateLimiter \<Rightarrow> bool list \<times> RateLimiter" where
  "serve [] rl = ([], rl)"
| "serve ((now, ip) # rs) rl =
     (let (g, rl') = try_consume now ip rl; (gs, rl'') = serve rs rl' in (g # gs, rl''))"

definition grants :: "bytes \<Rightarrow> (nat \<times> IpAddr) list \<Rightarrow> bool list \<Rightarrow> nat" where
  "grants k rs gs = length (filter (\<lambda>((now, ip), g). g \<and> bucket_key ip = k) (zip rs gs))"

lemma try_consume_params:
  assumes "try_consume now ip rl = (g, rl')"
  shows "rl_rps rl' = rl_rps rl \<and> rl_burst rl' = rl_burst rl \<and> rl_max_tracked rl' = rl_max_tracked rl"
  using assms by (auto simp: try_consume_def Let_def split: prod.splits)

lemma level_nonneg: "tracks K now rl \<Longrightarrow> 0 \<le> level rl k now"
  by (auto simp: level_def tracks_def dest: map_of_tokens_ok split: option.splits)

lemma serve_level:
  assumes "tracks K t0 rl" "sorted (map fst rs)" "\<forall>t \<in> fst ` set rs. t0 \<le> t \<and> t \<le> t1" "t0 \<le> t1"
    "bucket_key ` snd ` set rs \<subseteq> K" "serve rs rl = (gs, rl')"
  shows "of_nat (grants k rs gs) \<le> level rl k t0 + of_nat (t1 - t0) / of_nat ns_per_sec * rl_rps rl"
  using assms
proof (induction rs arbitrary: t0 rl gs)
  case Nil
  then have "0 \<le> of_nat (t1 - t0) / of_nat ns_per_sec * rl_rps rl" by (simp add: tracks_def)
  then show ?case using Nil level_nonneg [of K t0 rl k] by (simp add: grants_def del: of_nat_diff)
next
  case (Cons r rs)
  obtain now ip where r: "r = (now, ip)" by fastforce
  obtain g rl1 where c: "try_consume now ip rl = (g, rl1)" by fastforce
  obtain gs1 rl2 where s: "serve rs rl1 = (gs1, rl2)" by fastforce
  have gs: "gs = g # gs1" using Cons.prems r c s by simp
  have le: "t0 \<le> now" "now \<le> t1" and key: "bucket_key ip \<in> K" using Cons.prems r by auto
  have tr: "tracks K now rl" using tracks_later Cons.prems(1) le by blast
  note step = try_consume_level [OF tr key c]
  have IH: "of_nat (grants k rs gs1) \<le> level rl1 k now + of_nat (t1 - now) / of_nat ns_per_sec * rl_rps rl1"
    by (rule Cons.IH [OF step(3)]) (use Cons.prems r c s le in \<open>auto\<close>)
  have g: "of_nat (grants k (r # rs) gs) = of_nat (grants k rs gs1) + (if g \<and> k = bucket_key ip then 1 else 0 :: rat)"
    by (auto simp: grants_def r gs)
  have "of_nat (t1 - t0) = (of_nat (t1 - now) + of_nat (now - t0) :: rat)" using le by (simp add: of_nat_diff)
  then have "of_nat (t1 - t0) / of_nat ns_per_sec * rl_rps rl =
      of_nat (t1 - now) / of_nat ns_per_sec * rl_rps rl + of_nat (now - t0) / of_nat ns_per_sec * rl_rps rl"
    by (simp add: add_divide_distrib distrib_right)
  then show ?case using IH g step(2) [of k] level_later [OF Cons.prems(1) le(1), of k] try_consume_params [OF c]
    by (simp del: of_nat_diff)
qed



text \<open>
  Memory of the limiter is bounded under any flood. Whatever sources and times a sequence of
  requests has, the table keeps at most \<open>max_tracked\<close> = 4096 buckets, and every bucket holds between
  0 and \<open>burst\<close> tokens.
\<close>

lemma limiter_table_bounded:
  assumes "0 \<le> rps" "0 \<le> burst"
  shows "limiter_ok (snd (serve rs (RateLimiter_new rps burst t0)))
    \<and> length (rl_buckets (snd (serve rs (RateLimiter_new rps burst t0)))) \<le> 4096"
proof -
  have "limiter_ok (snd (serve rs rl)) \<and> rl_max_tracked (snd (serve rs rl)) = 4096"
    if "limiter_ok rl" "0 \<le> rl_rps rl" "0 \<le> rl_burst rl" "rl_max_tracked rl = 4096" for rl
    using that
  proof (induction rs arbitrary: rl)
    case (Cons r rs)
    obtain now ip where r: "r = (now, ip)" by fastforce
    obtain g rl1 where c: "try_consume now ip rl = (g, rl1)" by fastforce
    have "limiter_ok rl1" using try_consume_limiter_ok [of rl now ip] Cons.prems c by simp
    then have "limiter_ok (snd (serve rs rl1)) \<and> rl_max_tracked (snd (serve rs rl1)) = 4096"
      using Cons.IH [of rl1] Cons.prems try_consume_params [OF c] by simp
    then show ?case by (cases "serve rs rl1") (simp add: r c)
  qed simp
  from this [of "RateLimiter_new rps burst t0"] show ?thesis
    using assms by (auto simp: limiter_ok_def tokens_ok_def RateLimiter_new_def)
qed

lemma limiter_table_bounded_witness:
  "limiter_ok (snd (serve [(5, V4 1), (6, V4 2)] (RateLimiter_new 10 50 0))) \<and>
   length (rl_buckets (snd (serve [(5, V4 1), (6, V4 2)] (RateLimiter_new 10 50 0)))) \<le> 4096"
  using limiter_table_bounded [of 10 50 "[(5, V4 1), (6, V4 2)]" 0] by simp

text \<open>
  The connection caps. The counter behaves as the multiset of the keys of live connections:
  an acquire succeeds exactly when the live connections number fewer than \<open>max_total_connections\<close> and
  those sharing the source's key (IPv4 address or IPv6 /64) fewer than \<open>max_per_ip_connections\<close>, a
  refused acquire changes no count, and dropping a slot that was not committed restores the counts.
\<close>

lemma connection_caps_exact:
  assumes "counter_abs c live" "try_acquire caps ip c = (r, c')"
  shows "(r \<noteq> None \<longleftrightarrow> size live < max_total_connections caps \<and>
      size (filter_mset (\<lambda>k. k = bucket_key ip) live) < max_per_ip_connections caps) \<and>
    counter_abs c' (if r = None then live else add_mset (bucket_key ip) live) \<and>
    (\<forall>s. r = Some s \<longrightarrow> counter_abs (slot_drop s c') live \<and>
       counter_abs (slot_drop (slot_commit s) c') (add_mset (bucket_key ip) live))"
proof -
  have f: "size (filter_mset (\<lambda>k. k = bucket_key ip) live) = count live (bucket_key ip)"
    by (simp add: filter_eq_replicate_mset)
  have rel: "counter_abs (release ip c') live" if "r = Some s" for s
    using slots.undone [OF assms(1)] assms(2) that by simp
  show ?thesis using try_acquire_refines [OF assms] rel unfolding f
    by (auto simp: slot_drop_def slot_commit_def split: if_splits)
qed

lemma connection_caps_exact_witness:
  "fst (try_acquire default_caps (V4 1) counter_empty) \<noteq> None"
proof -
  have "counter_abs counter_empty {#}" by (simp add: counter_abs_def counter_empty_def counts_def)
  from connection_caps_exact [OF this surjective_pairing, of default_caps "V4 1"] show ?thesis
    by (simp add: default_caps_def)
qed

text \<open>
  Which sources share a budget. Two addresses have the same key exactly when they are the same
  IPv4 address or IPv6 addresses with the same upper 64 bits; no IPv4 source shares with an IPv6 one.
\<close>

lemma bucket_key_eq_iff:
  "bucket_key a = bucket_key b \<longleftrightarrow>
     (case (a, b) of (V4 x, V4 y) \<Rightarrow> x = y | (V6 x, V6 y) \<Rightarrow> drop_bit 64 x = drop_bit 64 y | _ \<Rightarrow> False)"
  using bucket_key_V4 bucket_key_V6 bucket_key_V4_V6 bucket_key_V4_V6 [symmetric]
  by (cases a; cases b) (simp_all del: bucket_key.simps)

end
