(* ===== verification/Files.thy ===== *)
theory Files
  imports Filesystem
begin

text \<open>
  Open files: \<open>std::fs::OpenOptions\<close>, \<open>std::fs::File\<close>, \<open>std::io::BufWriter\<close>, and the helpers of
  \<open>crates/qftp-common/src/fs_safe.rs\<close>. A handle stands for the file at the place where it was
  opened. Another process that unlinks or replaces an open file is outside this model: reads
  then find nothing and writes are lost, where the kernel would keep the old file alive.
\<close>

section \<open>Opening\<close>

record OpenOptions =
  oo_read :: bool
  oo_write :: bool
  oo_create :: bool
  oo_no_follow :: bool
  oo_nonblock :: bool
  oo_mode :: u32

definition OpenOptions_new :: OpenOptions where
  "OpenOptions_new = \<lparr>oo_read = False, oo_write = False, oo_create = False, oo_no_follow = False,
     oo_nonblock = False, oo_mode = 0x1B6\<rparr>" \<comment> \<open>\<open>0o666\<close>\<close>

definition apply_secure_open :: "OpenOptions \<Rightarrow> bool \<Rightarrow> OpenOptions" where
  "apply_secure_open opts owner_only =
     (let opts = (if owner_only then opts\<lparr>oo_mode := 0x180\<rparr> else opts) \<comment> \<open>\<open>0o600\<close>\<close>
      in opts\<lparr>oo_no_follow := True, oo_nonblock := False\<rparr>)"

definition apply_no_follow :: "OpenOptions \<Rightarrow> OpenOptions" where
  "apply_no_follow opts = apply_secure_open opts False"

definition apply_no_follow_nonblock :: "OpenOptions \<Rightarrow> OpenOptions" where
  "apply_no_follow_nonblock opts = opts\<lparr>oo_no_follow := True, oo_nonblock := True\<rparr>"

definition apply_owner_only_no_follow :: "OpenOptions \<Rightarrow> OpenOptions" where
  "apply_owner_only_no_follow opts = apply_secure_open opts True"

definition require_regular_file :: "FS \<Rightarrow> path \<Rightarrow> (io_error, unit) result" where
  "require_regular_file fs p = bindR (symlink_metadata fs p) (\<lambda>meta.
     if \<not> is_file_kind (n_kind meta)
     then Inl (InvalidInput ''resume temp is not a regular file (symlink or directory?)'')
     else Inr ())"

text \<open>
  \<open>open\<close>: the place that is opened and the file system, with a new empty file when one was
  created. A blocking open of a FIFO, which may wait for ever, does not occur in the sources'
  read paths (\<open>O_NONBLOCK\<close>).
\<close>

definition open_file :: "FS \<Rightarrow> OpenOptions \<Rightarrow> path \<Rightarrow> (io_error, path \<times> FS) result" where
  "open_file fs opts p = bindR (syscall_path fs Sys_Open (\<not> oo_no_follow opts) p) (\<lambda>q.
     case lookup_node fs q of
       None \<Rightarrow> (if oo_create opts then Inr (q, set_node fs q (new_node fs (KFile []) (oo_mode opts))) else Inl ENOENT)
     | Some n \<Rightarrow>
         (case n_kind n of
            KSymlink t \<Rightarrow> Inl ELOOP
          | KDir \<Rightarrow> (if oo_write opts \<or> oo_create opts then Inl EISDIR else Inr (q, fs))
          | _ \<Rightarrow> Inr (q, fs)))"

section \<open>Open files\<close>

definition handle_fault :: "FS \<Rightarrow> Syscall \<Rightarrow> path \<Rightarrow> (io_error, unit) result" where
  "handle_fault fs sys place = (case env_fault fs sys place of Some e \<Rightarrow> Inl e | None \<Rightarrow> Inr ())"

definition handle_metadata :: "FS \<Rightarrow> path \<Rightarrow> (io_error, Node) result" where
  "handle_metadata fs place = bindR (handle_fault fs Sys_Stat place) (\<lambda>_. existing fs place)"

text \<open>Replace the contents of the regular file at a place.\<close>

definition update_file :: "FS \<Rightarrow> path \<Rightarrow> (bytes \<Rightarrow> bytes) \<Rightarrow> FS" where
  "update_file fs place f = (case lookup_node fs place of
     None \<Rightarrow> fs
   | Some n \<Rightarrow> (case n_kind n of
       KFile b \<Rightarrow> set_node fs place (n\<lparr>n_kind := KFile (f b), n_mtime := Some (fs_now fs)\<rparr>)
     | _ \<Rightarrow> fs))"

definition handle_set_len :: "FS \<Rightarrow> path \<Rightarrow> nat \<Rightarrow> (io_error, FS) result" where
  "handle_set_len fs place len = bindR (handle_fault fs Sys_Truncate place) (\<lambda>_.
     case lookup_node fs place of
       None \<Rightarrow> Inr fs
     | Some n \<Rightarrow>
         (if is_file_kind (n_kind n)
          then Inr (update_file fs place (\<lambda>b. take len b @ replicate (len - length b) 0)) else Inl EINVAL))"

definition handle_set_permissions :: "FS \<Rightarrow> path \<Rightarrow> u32 \<Rightarrow> (io_error, FS) result" where
  "handle_set_permissions fs place mode = bindR (handle_fault fs Sys_Chmod place) (\<lambda>_.
     case lookup_node fs place of
       None \<Rightarrow> Inr fs
     | Some n \<Rightarrow> Inr (set_node fs place (n\<lparr>n_perm := mode AND 0xFFF\<rparr>)))"

definition handle_seek :: "FS \<Rightarrow> path \<Rightarrow> nat \<Rightarrow> (io_error, nat) result" where
  "handle_seek fs place pos = bindR (handle_fault fs Sys_Seek place) (\<lambda>_. Inr pos)"

text \<open>\<open>Read::read\<close> of at most \<open>want\<close> bytes at an offset.\<close>

definition handle_read :: "FS \<Rightarrow> path \<Rightarrow> nat \<Rightarrow> nat \<Rightarrow> (io_error, bytes) result" where
  "handle_read fs place pos want = bindR (handle_fault fs Sys_Read place) (\<lambda>_.
     case lookup_node fs place of
       None \<Rightarrow> Inr []
     | Some n \<Rightarrow> (case n_kind n of
         KFile b \<Rightarrow> Inr (take want (drop pos b))
       | KDir \<Rightarrow> Inl EISDIR
       | _ \<Rightarrow> Inr []))"

text \<open>\<open>write_all\<close> at an offset. A call that fails writes nothing.\<close>

definition overwrite :: "nat \<Rightarrow> bytes \<Rightarrow> bytes \<Rightarrow> bytes" where
  "overwrite pos data b =
     take pos (b @ replicate (pos - length b) 0) @ data @ drop (pos + length data) b"

definition handle_write :: "FS \<Rightarrow> path \<Rightarrow> nat \<Rightarrow> bytes \<Rightarrow> (io_error, FS) result" where
  "handle_write fs place pos data = bindR (handle_fault fs Sys_Write place) (\<lambda>_.
     Inr (update_file fs place (overwrite pos data)))"

section \<open>Buffered writing\<close>

record BufWriter =
  bw_place :: path
  bw_pos :: nat
  bw_buf :: bytes
  bw_capacity :: nat

definition BufWriter_with_capacity :: "nat \<Rightarrow> path \<Rightarrow> nat \<Rightarrow> BufWriter" where
  "BufWriter_with_capacity cap place pos = \<lparr>bw_place = place, bw_pos = pos, bw_buf = [], bw_capacity = cap\<rparr>"

definition bw_write_inner :: "BufWriter \<Rightarrow> bytes \<Rightarrow> FS \<Rightarrow> (io_error, BufWriter \<times> FS) result" where
  "bw_write_inner w data fs =
     bindR (handle_write fs (bw_place w) (bw_pos w) data) (\<lambda>fs'. Inr (w\<lparr>bw_pos := bw_pos w + length data\<rparr>, fs'))"

definition bw_flush :: "BufWriter \<Rightarrow> FS \<Rightarrow> (io_error, BufWriter \<times> FS) result" where
  "bw_flush w fs =
     (if bw_buf w = [] then Inr (w, fs)
      else bindR (bw_write_inner w (bw_buf w) fs) (\<lambda>(w', fs'). Inr (w'\<lparr>bw_buf := []\<rparr>, fs')))"

text \<open>
  \<open>BufWriter::write_all\<close>: small writes are collected, a full buffer is written out first, and a
  write of at least the buffer's capacity goes straight to the file. The state is returned on
  failure too, since the flush may have succeeded.
\<close>

definition bw_write_all :: "BufWriter \<Rightarrow> bytes \<Rightarrow> FS \<Rightarrow> (io_error, unit) result \<times> BufWriter \<times> FS" where
  "bw_write_all w data fs =
     (if length data < bw_capacity w - length (bw_buf w)
      then (Inr (), w\<lparr>bw_buf := bw_buf w @ data\<rparr>, fs)
      else (case (if length data > bw_capacity w - length (bw_buf w) then bw_flush w fs else Inr (w, fs)) of
          Inl e \<Rightarrow> (Inl e, w, fs)
        | Inr (w1, fs1) \<Rightarrow>
            (if length data \<ge> bw_capacity w1
             then (case bw_write_inner w1 data fs1 of
                     Inl e \<Rightarrow> (Inl e, w1, fs1)
                   | Inr (w2, fs2) \<Rightarrow> (Inr (), w2, fs2))
             else (Inr (), w1\<lparr>bw_buf := bw_buf w1 @ data\<rparr>, fs1))))"

text \<open>Dropping a writer flushes it and ignores errors.\<close>

definition bw_drop :: "BufWriter \<Rightarrow> FS \<Rightarrow> FS" where
  "bw_drop w fs = (case bw_flush w fs of Inl e \<Rightarrow> fs | Inr (w', fs') \<Rightarrow> fs')"

section \<open>Lemmas\<close>

lemma overwrite_append [simp]: "overwrite (length b) data b = b @ data"
  by (simp add: overwrite_def)

lemma lookup_update_file [fs_simps]:
  "lookup_node (update_file fs place f) p =
     (case lookup_node fs place of
        Some n \<Rightarrow> (case n_kind n of
            KFile b \<Rightarrow> (if p = place then Some (n\<lparr>n_kind := KFile (f b), n_mtime := Some (fs_now fs)\<rparr>) else lookup_node fs p)
          | _ \<Rightarrow> lookup_node fs p)
      | None \<Rightarrow> lookup_node fs p)"
  by (auto simp: update_file_def fs_simps split: option.splits Kind.splits)

text \<open>The bytes of the regular file at a place.\<close>

definition file_bytes :: "FS \<Rightarrow> path \<Rightarrow> bytes option" where
  "file_bytes fs p = (case lookup_node fs p of
     Some n \<Rightarrow> (case n_kind n of KFile b \<Rightarrow> Some b | _ \<Rightarrow> None) | None \<Rightarrow> None)"

lemma file_bytes_update:
  "file_bytes (update_file fs place f) p = (if p = place then map_option f (file_bytes fs p) else file_bytes fs p)"
  by (auto simp: file_bytes_def fs_simps split: option.splits Kind.splits)

lemma file_bytes_not_root: "file_bytes fs p = Some b \<Longrightarrow> p \<noteq> []"
  by (auto simp: file_bytes_def)

subsection \<open>Changing the bytes of one file\<close>

text \<open>Two states that differ at most in the bytes and time stamp of the file at one place.\<close>

definition same_but :: "path \<Rightarrow> FS \<Rightarrow> FS \<Rightarrow> bool" where
  "same_but place fs fs' \<longleftrightarrow> fs' = fs \<or> (\<exists>f. fs' = update_file fs place f)"

lemma set_node_twice: "set_node (set_node fs p n) p m = set_node fs p m"
proof -
  have "AList.update p m (AList.update p n al) = AList.update p m al" for al :: "(path \<times> Node) list"
    by (induction al) auto
  then show ?thesis by (simp add: set_node_def)
qed

lemma set_node_fields [simp]:
  "fs_now (set_node fs p n) = fs_now fs" "env_fault (set_node fs p n) = env_fault fs"
  "fs_umask (set_node fs p n) = fs_umask fs" "fs_uid (set_node fs p n) = fs_uid fs" "fs_gid (set_node fs p n) = fs_gid fs"
  by (simp_all add: set_node_def)

lemma update_file_fields [simp]:
  "fs_now (update_file fs p f) = fs_now fs" "env_fault (update_file fs p f) = env_fault fs"
  by (simp_all add: update_file_def split: option.splits Kind.splits)

lemma update_file_twice: "update_file (update_file fs p f) p g = update_file fs p (g \<circ> f)"
proof (cases "\<exists>b. file_bytes fs p = Some b")
  case True
  then obtain n b where n: "lookup_node fs p = Some n" "n_kind n = KFile b"
    by (auto simp: file_bytes_def split: option.splits Kind.splits)
  then have "p \<noteq> []" by auto
  then show ?thesis using n by (simp add: update_file_def fs_simps set_node_twice)
next
  case False
  then have "update_file fs p h = fs" for h
    by (auto simp: file_bytes_def update_file_def split: option.splits Kind.splits)
  then show ?thesis by simp
qed

lemma same_but_refl [simp]: "same_but p fs fs"
  by (simp add: same_but_def)

lemma same_but_update [simp]: "same_but p fs (update_file fs p f)"
  by (auto simp: same_but_def)

lemma same_but_trans: "same_but p a b \<Longrightarrow> same_but p b c \<Longrightarrow> same_but p a c"
  unfolding same_but_def using update_file_twice by metis

lemma same_but_env: "same_but p fs fs' \<Longrightarrow> env_fault fs' = env_fault fs \<and> fs_now fs' = fs_now fs"
  by (auto simp: same_but_def)

lemma same_but_kind:
  assumes "same_but place fs fs'"
  shows "lookup_node fs' p = lookup_node fs p \<or>
    p = place \<and> (\<exists>n b m c. lookup_node fs p = Some n \<and> n_kind n = KFile b \<and>
      lookup_node fs' p = Some m \<and> n_kind m = KFile c)"
  using assms unfolding same_but_def
  by (auto simp: fs_simps split: option.splits Kind.splits if_splits)

lemma same_but_other: "same_but place fs fs' \<Longrightarrow> p \<noteq> place \<Longrightarrow> lookup_node fs' p = lookup_node fs p"
  using same_but_kind by blast

lemma same_but_dir: "same_but place fs fs' \<Longrightarrow> is_dir_at fs' p = is_dir_at fs p"
  using same_but_kind [of place fs fs' p] by (auto simp: is_dir_at_def)

lemma same_but_link: "same_but place fs fs' \<Longrightarrow> no_link fs' p = no_link fs p"
  using same_but_kind [of place fs fs' p] by (auto simp: no_link_def)

lemma same_but_plain: "same_but place fs fs' \<Longrightarrow> plain fs' p = plain fs p"
  by (simp add: plain_def same_but_link)

lemma same_but_none: "same_but place fs fs' \<Longrightarrow> lookup_node fs' p = None \<longleftrightarrow> lookup_node fs p = None"
  using same_but_kind [of place fs fs' p] by auto

lemma tree_fs_iff: "tree_fs fs \<longleftrightarrow> (\<forall>p. lookup_node fs p \<noteq> None \<longrightarrow> p = [] \<or> is_dir_at fs (butlast p))"
  by (auto simp: tree_fs_def)

lemma same_but_tree: "same_but place fs fs' \<Longrightarrow> tree_fs fs' = tree_fs fs"
  unfolding tree_fs_iff by (simp add: same_but_none same_but_dir)

lemma namei_same_but:
  "same_but place fs fs' \<Longrightarrow> namei links fs' cur rest follow = namei links fs cur rest follow"
proof (induction links fs cur rest follow rule: namei.induct)
  case (2 links fs cur c rest follow)
  have d: "is_dir_at fs' cur = is_dir_at fs cur" using same_but_dir "2.prems" by blast
  from same_but_kind [OF "2.prems", of "cur @ [c]"] show ?case
  proof (elim disjE conjE exE)
    assume l: "lookup_node fs' (cur @ [c]) = lookup_node fs (cur @ [c])"
    show ?thesis unfolding namei.simps(2) d l using "2.IH" "2.prems"
      by (cases "rest = []"; cases follow) (simp_all del: namei.simps cong: if_cong option.case_cong Kind.case_cong nat.case_cong)
  next
    fix n b m k
    assume l: "lookup_node fs (cur @ [c]) = Some n" "n_kind n = KFile b"
      "lookup_node fs' (cur @ [c]) = Some m" "n_kind m = KFile k"
    show ?thesis unfolding namei.simps(2) d l(1,3) option.case l(2,4) Kind.case using "2.IH" "2.prems" l
      by (simp del: namei.simps cong: if_cong)
  qed
qed simp

lemma syscall_same_but: "same_but place fs fs' \<Longrightarrow> syscall_path fs' sys follow p = syscall_path fs sys follow p"
  using namei_same_but [of place fs fs' MAXSYMLINKS "[]" p follow] same_but_env [of place fs fs']
  by (auto simp: syscall_path_def split: option.splits)

subsection \<open>What a buffered writer holds\<close>

text \<open>
  The contract of a byte sink: after a successful write it holds the bytes written so far, after
  a failed one it still holds what it held, and after a flush these bytes are stored.
\<close>

locale byte_sink =
  fixes sink_write :: "bytes \<Rightarrow> 's \<Rightarrow> ('e, unit) result \<times> 's"
    and sink_flush :: "'s \<Rightarrow> ('e, 's) result"
    and holds :: "'s \<Rightarrow> bytes \<Rightarrow> bool"
    and stored :: "'s \<Rightarrow> bytes \<Rightarrow> bool"
  assumes write_ok: "holds s c \<Longrightarrow> sink_write d s = (Inr (), s') \<Longrightarrow> holds s' (c @ d)"
    and write_failed: "holds s c \<Longrightarrow> sink_write d s = (Inl e, s') \<Longrightarrow> holds s' c"
    and flush_ok: "holds s c \<Longrightarrow> sink_flush s = Inr s' \<Longrightarrow> stored s' c"
begin

text \<open>Writing a list of chunks, stopping at the first failure.\<close>

fun write_chunks :: "bytes list \<Rightarrow> 's \<Rightarrow> ('e, unit) result \<times> 's" where
  "write_chunks [] s = (Inr (), s)"
| "write_chunks (d # ds) s = (case sink_write d s of (Inl e, s') \<Rightarrow> (Inl e, s') | (Inr _, s') \<Rightarrow> write_chunks ds s')"

lemma write_chunks_holds: "holds s c \<Longrightarrow> write_chunks ds s = (Inr (), s') \<Longrightarrow> holds s' (c @ concat ds)"
proof (induction ds arbitrary: s c)
  case (Cons d ds)
  then obtain s1 where "sink_write d s = (Inr (), s1)" "write_chunks ds s1 = (Inr (), s')"
    by (auto split: prod.splits sum.splits)
  then show ?case using Cons.IH [of s1 "c @ d"] write_ok Cons.prems(1) by simp
qed simp

text \<open>What is stored after a flush does not depend on how the bytes were cut into chunks.\<close>

lemma chunks_stored:
  "holds s [] \<Longrightarrow> write_chunks ds s = (Inr (), s1) \<Longrightarrow> sink_flush s1 = Inr s2 \<Longrightarrow> stored s2 (concat ds)"
  using write_chunks_holds [of s "[]"] flush_ok by fastforce

end

definition bw_holds :: "BufWriter \<times> FS \<Rightarrow> bytes \<Rightarrow> bool" where
  "bw_holds s c \<longleftrightarrow> (case s of (w, fs) \<Rightarrow>
     \<exists>b. file_bytes fs (bw_place w) = Some b \<and> bw_pos w = length b \<and> b @ bw_buf w = c)"

definition bw_stored :: "BufWriter \<times> FS \<Rightarrow> bytes \<Rightarrow> bool" where
  "bw_stored s c \<longleftrightarrow> bw_holds s c \<and> bw_buf (fst s) = []"

lemma bw_write_inner_Inr:
  "bw_write_inner w d fs = Inr (w', fs') \<longleftrightarrow> env_fault fs Sys_Write (bw_place w) = None \<and>
     w' = w\<lparr>bw_pos := bw_pos w + length d\<rparr> \<and> fs' = update_file fs (bw_place w) (overwrite (bw_pos w) d)"
  by (auto simp: bw_write_inner_def handle_write_def handle_fault_def bindR_Inr_conv split: option.splits)

lemma bw_write_inner_holds:
  "bw_write_inner w d fs = Inr (w', fs') \<Longrightarrow> file_bytes fs (bw_place w) = Some b \<Longrightarrow> bw_pos w = length b \<Longrightarrow>
     file_bytes fs' (bw_place w') = Some (b @ d) \<and> bw_pos w' = length (b @ d) \<and> bw_buf w' = bw_buf w \<and>
     bw_place w' = bw_place w \<and> bw_capacity w' = bw_capacity w"
  by (auto simp: bw_write_inner_Inr file_bytes_update)

lemma bw_flush_holds:
  assumes "bw_flush w fs = Inr (w', fs')" "bw_holds (w, fs) c"
  shows "bw_stored (w', fs') c \<and> bw_place w' = bw_place w \<and> bw_capacity w' = bw_capacity w \<and> same_but (bw_place w) fs fs'"
proof (cases "bw_buf w = []")
  case True
  then show ?thesis using assms by (auto simp: bw_flush_def bw_stored_def)
next
  case False
  then obtain w1 where w1: "bw_write_inner w (bw_buf w) fs = Inr (w1, fs')" "w' = w1\<lparr>bw_buf := []\<rparr>"
    using assms(1) by (auto simp: bw_flush_def bindR_Inr_conv)
  then show ?thesis using assms(2) bw_write_inner_holds [OF w1(1)]
    by (auto simp: bw_stored_def bw_holds_def bw_write_inner_Inr)
qed

lemma bw_write_all_spec:
  assumes h: "bw_holds (w, fs) c" and wr: "bw_write_all w d fs = (r, w', fs')"
  shows "bw_holds (w', fs') (case r of Inr _ \<Rightarrow> c @ d | Inl _ \<Rightarrow> c) \<and>
    bw_place w' = bw_place w \<and> same_but (bw_place w) fs fs'"
proof (cases "length d < bw_capacity w - length (bw_buf w)")
  case True
  then show ?thesis using assms by (auto simp: bw_write_all_def bw_holds_def)
next
  case False
  define f where "f = (if length d > bw_capacity w - length (bw_buf w) then bw_flush w fs else Inr (w, fs))"
  have wr': "(case f of Inl e \<Rightarrow> (Inl e, w, fs)
        | Inr (w1, fs1) \<Rightarrow>
            (if length d \<ge> bw_capacity w1
             then (case bw_write_inner w1 d fs1 of Inl e \<Rightarrow> (Inl e, w1, fs1) | Inr (w2, fs2) \<Rightarrow> (Inr (), w2, fs2))
             else (Inr (), w1\<lparr>bw_buf := bw_buf w1 @ d\<rparr>, fs1))) = (r, w', fs')"
    using wr False unfolding bw_write_all_def f_def by simp
  show ?thesis
  proof (cases f)
    case (Inl e)
    then show ?thesis using wr' h by auto
  next
    case (Inr p)
    then obtain w1 fs1 where f: "f = Inr (w1, fs1)" by (cases p) auto
    have h1: "bw_holds (w1, fs1) c \<and> bw_place w1 = bw_place w \<and> bw_capacity w1 = bw_capacity w \<and> same_but (bw_place w) fs fs1"
      using f bw_flush_holds [of w fs w1 fs1 c] h unfolding f_def by (auto simp: bw_stored_def split: if_splits)
    have empty: "bw_buf w1 = []" if "length d \<ge> bw_capacity w1" "d \<noteq> []"
    proof (cases "length d > bw_capacity w - length (bw_buf w)")
      case True
      then show ?thesis using f bw_flush_holds [of w fs w1 fs1 c] h unfolding f_def by (auto simp: bw_stored_def)
    next
      case F: False
      then have "w1 = w" using f by (simp add: f_def)
      then show ?thesis using F that h1 False by (cases "bw_buf w"; cases d) auto
    qed
    show ?thesis
    proof (cases "length d \<ge> bw_capacity w1")
      case False
      then show ?thesis using wr' f h1 by (auto simp: bw_holds_def)
    next
      case True
      have comm: "d @ bw_buf w1 = bw_buf w1 @ d" using empty [OF True] by (cases "d = []") auto
      show ?thesis using True wr' f h1 comm
        by (auto simp: bw_holds_def bw_write_inner_Inr file_bytes_update split: sum.splits intro: same_but_trans)
    qed
  qed
qed

interpretation bw: byte_sink "\<lambda>d (w, fs). bw_write_all w d fs" "\<lambda>(w, fs). bw_flush w fs" bw_holds bw_stored
proof
  show "bw_holds s' (c @ d)"
    if "bw_holds s c" "(case s of (w, fs) \<Rightarrow> bw_write_all w d fs) = (Inr (), s')" for s c d s'
    using that bw_write_all_spec [of "fst s" "snd s" c d "Inr ()" "fst s'" "snd s'"] by (auto simp: case_prod_unfold)
  show "bw_holds s' c"
    if "bw_holds s c" "(case s of (w, fs) \<Rightarrow> bw_write_all w d fs) = (Inl e, s')" for s c d e s'
    using that bw_write_all_spec [of "fst s" "snd s" c d "Inl e" "fst s'" "snd s'"] by (auto simp: case_prod_unfold)
  show "bw_stored s' c"
    if "bw_holds s c" "(case s of (w, fs) \<Rightarrow> bw_flush w fs) = Inr s'" for s c s'
    using that bw_flush_holds [of "fst s" "snd s" "fst s'" "snd s'" c] by (auto simp: case_prod_unfold)
qed

end
