(* ===== verification/Compress.thy ===== *)
theory Compress
  imports Filesystem
begin

text \<open>
  The zstd wrappers of \<open>crates/qftp-protocol/src/compress.rs\<close>. The codec itself (the \<open>zstd\<close>
  crate) is a parameter: \<open>run\<close> takes the codec's state, the input that is left and the room in the
  output buffer, and returns a hint (0 when the frame is complete), the input bytes it consumed,
  the output and its new state. The crate's buffers cannot hold more than their slices, so
  consumed counts are cut to the input and outputs to the room.
\<close>

section \<open>Choosing a codec\<close>

text \<open>\<open>Path::extension\<close> of a path whose last component is \<open>n\<close>.\<close>

definition name_extension :: "string \<Rightarrow> string option" where
  "name_extension n =
     (let after = rev (takeWhile (\<lambda>c. c \<noteq> CHR ''.'') (rev n));
          rest = dropWhile (\<lambda>c. c \<noteq> CHR ''.'') (rev n)
      in case rest of [] \<Rightarrow> None | _ # before \<Rightarrow> if before = [] then None else Some after)"

definition ascii_lower :: "char \<Rightarrow> char" where
  "ascii_lower c = (let k = (of_char c :: nat) in if 65 \<le> k \<and> k \<le> 90 then char_of (k + 32) else c)"

definition incompressible_extensions :: "string list" where
  "incompressible_extensions =
     [''zip'', ''gz'', ''tgz'', ''bz2'', ''tbz2'', ''tbz'', ''xz'', ''txz'', ''zst'', ''tzst'', ''lz4'',
      ''lzma'', ''lzo'', ''7z'', ''rar'', ''br'', ''z'', ''cab'', ''arj'',
      ''jpg'', ''jpeg'', ''png'', ''gif'', ''webp'', ''heic'', ''heif'', ''avif'', ''jxl'',
      ''mp3'', ''aac'', ''m4a'', ''ogg'', ''oga'', ''opus'', ''flac'', ''wma'',
      ''mp4'', ''m4v'', ''mkv'', ''webm'', ''mov'', ''avi'', ''wmv'', ''flv'', ''mpeg'', ''mpg'', ''ts'',
      ''docx'', ''xlsx'', ''pptx'', ''odt'', ''ods'', ''odp'', ''jar'', ''apk'', ''epub'',
      ''woff'', ''woff2'', ''deb'', ''rpm'', ''dmg'', ''iso'', ''gpg'', ''pgp'']"

definition is_likely_incompressible :: "path \<Rightarrow> bool" where
  "is_likely_incompressible p =
     (case (if p = [] then None else name_extension (last p)) of
        None \<Rightarrow> False
      | Some ext \<Rightarrow> utf8_string ext \<and> map ascii_lower ext \<in> set incompressible_extensions)"

section \<open>Errors\<close>

datatype CompressionError =
    Codec io_error
  | PlaintextLimit u64
  | Truncated
  | NoProgress

definition CODEC_CHUNK :: nat where "CODEC_CHUNK = 64 * 1024"

section \<open>The encoder\<close>

text \<open>Both steps write at most \<open>CODEC_CHUNK\<close> bytes; the second also tells how much is left to write.\<close>

type_synonym 'e encoder_run = "'e \<Rightarrow> bytes \<Rightarrow> (io_error, nat \<times> bytes \<times> 'e) result"
type_synonym 'e encoder_finish = "'e \<Rightarrow> (io_error, nat \<times> bytes \<times> 'e) result"

record 'e ZstdEncoder =
  ze_inner :: 'e
  ze_pending :: bytes
  ze_pending_pos :: nat
  ze_finished :: bool

definition ZstdEncoder_new :: "(io_error, 'e) result \<Rightarrow> (CompressionError, 'e ZstdEncoder) result" where
  "ZstdEncoder_new inner = (case inner of
     Inl e \<Rightarrow> Inl (Codec e)
   | Inr i \<Rightarrow> Inr \<lparr>ze_inner = i, ze_pending = [], ze_pending_pos = 0, ze_finished = False\<rparr>)"

definition run_encoder_step ::
  "'e encoder_run \<Rightarrow> 'e ZstdEncoder \<Rightarrow> bytes \<Rightarrow> (CompressionError, nat \<times> nat) result \<times> 'e ZstdEncoder" where
  "run_encoder_step erun z input =
     (case erun (ze_inner z) input of
        Inl e \<Rightarrow> (Inl (Codec e), z)
      | Inr (consumed, out, i) \<Rightarrow>
          (let out = take CODEC_CHUNK out
           in (Inr (min consumed (length input), length out),
               z\<lparr>ze_inner := i, ze_pending := ze_pending z @ out\<rparr>)))"

text \<open>The loops end only when the codec lets them; not ending is \<open>None\<close>.\<close>

partial_function (option) encoder_push_loop ::
  "'e encoder_run \<Rightarrow> 'e ZstdEncoder \<Rightarrow> bytes \<Rightarrow> ((CompressionError, unit) result \<times> 'e ZstdEncoder) option" where
  "encoder_push_loop erun z input =
     (case run_encoder_step erun z input of
        (Inl e, z') \<Rightarrow> Some (Inl e, z')
      | (Inr (consumed, written), z') \<Rightarrow>
          (if consumed = length input \<and> written < CODEC_CHUNK then Some (Inr (), z')
           else if consumed = 0 \<and> written = 0 then Some (Inl NoProgress, z')
           else encoder_push_loop erun z' (drop consumed input)))"

definition encoder_push ::
  "'e encoder_run \<Rightarrow> 'e ZstdEncoder \<Rightarrow> bytes \<Rightarrow> ((CompressionError, unit) result \<times> 'e ZstdEncoder) option" where
  "encoder_push erun z plaintext = encoder_push_loop erun z plaintext"

partial_function (option) encoder_finish_loop ::
  "'e encoder_finish \<Rightarrow> 'e ZstdEncoder \<Rightarrow> ((CompressionError, unit) result \<times> 'e ZstdEncoder) option" where
  "encoder_finish_loop efin z =
     (case efin (ze_inner z) of
        Inl e \<Rightarrow> Some (Inl (Codec e), z)
      | Inr (remaining, out, i) \<Rightarrow>
          (let out = take CODEC_CHUNK out;
               z' = z\<lparr>ze_inner := i, ze_pending := ze_pending z @ out\<rparr>
           in if remaining = 0 then Some (Inr (), z'\<lparr>ze_finished := True\<rparr>)
              else if out = [] then Some (Inl NoProgress, z')
              else encoder_finish_loop efin z'))"

definition encoder_finish ::
  "'e encoder_finish \<Rightarrow> 'e ZstdEncoder \<Rightarrow> ((CompressionError, unit) result \<times> 'e ZstdEncoder) option" where
  "encoder_finish efin z = (if ze_finished z then Some (Inr (), z) else encoder_finish_loop efin z)"

definition encoder_pending :: "'e ZstdEncoder \<Rightarrow> bytes" where
  "encoder_pending z = drop (ze_pending_pos z) (ze_pending z)"

definition encoder_consume :: "'e ZstdEncoder \<Rightarrow> nat \<Rightarrow> 'e ZstdEncoder" where
  "encoder_consume z len =
     (let end_pos = ze_pending_pos z + len
      in if end_pos = length (ze_pending z) then z\<lparr>ze_pending := [], ze_pending_pos := 0\<rparr>
         else z\<lparr>ze_pending_pos := end_pos\<rparr>)"

section \<open>The decoder\<close>

type_synonym 'd decoder_run = "'d \<Rightarrow> bytes \<Rightarrow> nat \<Rightarrow> (io_error, nat \<times> nat \<times> bytes \<times> 'd) result"

record 'd ZstdDecoder =
  zd_inner :: 'd
  zd_pending :: bytes
  zd_pending_pos :: nat
  zd_decoded :: u64
  zd_max_plaintext :: u64
  zd_frame_complete :: bool

record DecodeProgress =
  dp_consumed :: nat
  dp_frame_complete :: bool

definition ZstdDecoder_new :: "(io_error, 'd) result \<Rightarrow> u64 \<Rightarrow> (CompressionError, 'd ZstdDecoder) result" where
  "ZstdDecoder_new inner max_plaintext = (case inner of
     Inl e \<Rightarrow> Inl (Codec e)
   | Inr i \<Rightarrow> Inr \<lparr>zd_inner = i, zd_pending = [], zd_pending_pos = 0, zd_decoded = 0,
                   zd_max_plaintext = max_plaintext, zd_frame_complete = False\<rparr>)"

definition run_decoder_step ::
  "'d decoder_run \<Rightarrow> 'd ZstdDecoder \<Rightarrow> bytes
     \<Rightarrow> (CompressionError, nat \<times> nat \<times> nat \<times> nat) result \<times> 'd ZstdDecoder" where
  "run_decoder_step drun z input =
     (let room = sat_sub (zd_max_plaintext z) (zd_decoded z);
          capacity = (if room = 0 then 1 else min CODEC_CHUNK (unat room))
      in case drun (zd_inner z) input capacity of
           Inl e \<Rightarrow> (Inl (Codec e), z)
         | Inr (hint, consumed, out, i) \<Rightarrow>
             (let out = take capacity out
              in if unat room < length out then (Inl (PlaintextLimit (zd_max_plaintext z)), z\<lparr>zd_inner := i\<rparr>)
                 else (Inr (hint, min consumed (length input), length out, capacity),
                       z\<lparr>zd_inner := i, zd_decoded := zd_decoded z + of_nat (length out),
                         zd_pending := zd_pending z @ out\<rparr>)))"

lemma run_decoder_step_Inr:
  assumes "run_decoder_step drun z input = (Inr (hint, consumed, written, capacity), z')"
  shows "\<exists>out. length out = written \<and> written \<le> unat (zd_max_plaintext z) - unat (zd_decoded z) \<and>
      consumed \<le> length input \<and> zd_pending z' = zd_pending z @ out \<and> zd_max_plaintext z' = zd_max_plaintext z \<and>
      zd_decoded z' = zd_decoded z + of_nat written \<and> zd_pending_pos z' = zd_pending_pos z \<and>
      zd_frame_complete z' = zd_frame_complete z"
  using assms by (auto simp: run_decoder_step_def Let_def u64_simps not_less split: sum.splits if_splits; linarith)

lemma decoded_grows:
  assumes "written \<le> unat (m :: u64) - unat (d :: u64)"
  shows "unat (d + of_nat written) = unat d + written"
proof -
  have "written < 18446744073709551616" "unat d + written < 18446744073709551616"
    using assms unat_less_u64 [of m] unat_less_u64 [of d] by arith+
  then show ?thesis by (simp add: u64_simps)
qed

function decoder_push_loop ::
  "'d decoder_run \<Rightarrow> 'd ZstdDecoder \<Rightarrow> bytes \<Rightarrow> nat \<Rightarrow> (CompressionError, DecodeProgress) result \<times> 'd ZstdDecoder" where
  "decoder_push_loop drun z input pos =
     (case run_decoder_step drun z (drop pos input) of
        (Inl e, z') \<Rightarrow> (Inl e, z')
      | (Inr (hint, consumed, written, capacity), z') \<Rightarrow>
          (if hint = 0
           then (Inr \<lparr>dp_consumed = pos + consumed, dp_frame_complete = True\<rparr>, z'\<lparr>zd_frame_complete := True\<rparr>)
           else if pos + consumed = length input \<and> written < capacity
           then (Inr \<lparr>dp_consumed = pos + consumed, dp_frame_complete = zd_frame_complete z'\<rparr>, z')
           else if consumed = 0 \<and> written = 0 then (Inl NoProgress, z')
           else decoder_push_loop drun z' input (pos + consumed)))"
  by pat_completeness auto
termination
proof (relation "measure (\<lambda>(drun, z, input, pos). (length input - pos) + (unat (zd_max_plaintext z) - unat (zd_decoded z)))",
    goal_cases)
  case (2 drun z input pos r z' v hint u consumed t written capacity)
  then have "run_decoder_step drun z (drop pos input) = (Inr (hint, consumed, written, capacity), z')"
    and p: "0 < consumed \<or> 0 < written" by auto
  from run_decoder_step_Inr [OF this(1)] have w: "written \<le> unat (zd_max_plaintext z) - unat (zd_decoded z)"
    and c: "consumed \<le> length input - pos" and m: "zd_max_plaintext z' = zd_max_plaintext z"
    and d: "zd_decoded z' = zd_decoded z + of_nat written" by auto
  from decoded_grows [OF w] show ?case using w c m d p by auto
qed simp

declare decoder_push_loop.simps [simp del]

definition decoder_push ::
  "'d decoder_run \<Rightarrow> 'd ZstdDecoder \<Rightarrow> bytes \<Rightarrow> (CompressionError, DecodeProgress) result \<times> 'd ZstdDecoder" where
  "decoder_push drun z compressed =
     (if zd_frame_complete z then (Inr \<lparr>dp_consumed = 0, dp_frame_complete = True\<rparr>, z)
      else decoder_push_loop drun z compressed 0)"

definition decoder_pending :: "'d ZstdDecoder \<Rightarrow> bytes" where
  "decoder_pending z = drop (zd_pending_pos z) (zd_pending z)"

definition decoder_consume :: "'d ZstdDecoder \<Rightarrow> nat \<Rightarrow> 'd ZstdDecoder" where
  "decoder_consume z len =
     (let end_pos = zd_pending_pos z + len
      in if end_pos = length (zd_pending z) then z\<lparr>zd_pending := [], zd_pending_pos := 0\<rparr>
         else z\<lparr>zd_pending_pos := end_pos\<rparr>)"

definition decoder_finish :: "'d ZstdDecoder \<Rightarrow> (CompressionError, unit) result" where
  "decoder_finish z = (if zd_frame_complete z then Inr () else Inl Truncated)"

section \<open>Lemmas\<close>

text \<open>The decoder has produced at most its limit, and what is pending was produced.\<close>

definition decoder_ok :: "'d ZstdDecoder \<Rightarrow> bool" where
  "decoder_ok z \<longleftrightarrow> zd_decoded z \<le> zd_max_plaintext z \<and> zd_pending_pos z \<le> length (zd_pending z)"

lemma decoder_push_loop_spec:
  "decoder_push_loop drun z input pos = (Inr p, z') \<Longrightarrow> decoder_ok z \<Longrightarrow> pos \<le> length input \<Longrightarrow>
     decoder_ok z' \<and> zd_max_plaintext z' = zd_max_plaintext z \<and> pos \<le> dp_consumed p \<and> dp_consumed p \<le> length input \<and>
     zd_pending_pos z' = zd_pending_pos z \<and>
     (\<exists>out. zd_pending z' = zd_pending z @ out \<and> unat (zd_decoded z') = unat (zd_decoded z) + length out) \<and>
     dp_frame_complete p = zd_frame_complete z'"
proof (induction drun z input pos arbitrary: p rule: decoder_push_loop.induct)
  case (1 drun z input pos)
  obtain hint consumed written capacity z1 where s:
    "run_decoder_step drun z (drop pos input) = (Inr (hint, consumed, written, capacity), z1)"
    using "1.prems"(1) by (subst (asm) decoder_push_loop.simps) (auto split: prod.splits sum.splits)
  from run_decoder_step_Inr [OF s] obtain out where o: "length out = written"
    "written \<le> unat (zd_max_plaintext z) - unat (zd_decoded z)" "consumed \<le> length input - pos"
    "zd_pending z1 = zd_pending z @ out" "zd_max_plaintext z1 = zd_max_plaintext z"
    "zd_decoded z1 = zd_decoded z + of_nat written" "zd_pending_pos z1 = zd_pending_pos z"
    "zd_frame_complete z1 = zd_frame_complete z" by auto
  have grow: "unat (zd_decoded z1) = unat (zd_decoded z) + written" using decoded_grows [OF o(2)] o(6) by simp
  have ok1: "decoder_ok z1" using "1.prems"(2) o grow by (auto simp: decoder_ok_def word_le_nat_alt)
  have unf: "(if hint = 0
      then (Inr \<lparr>dp_consumed = pos + consumed, dp_frame_complete = True\<rparr>, z1\<lparr>zd_frame_complete := True\<rparr>)
      else if pos + consumed = length input \<and> written < capacity
      then (Inr \<lparr>dp_consumed = pos + consumed, dp_frame_complete = zd_frame_complete z1\<rparr>, z1)
      else if consumed = 0 \<and> written = 0 then (Inl NoProgress, z1)
      else decoder_push_loop drun z1 input (pos + consumed)) = (Inr p, z')"
    using "1.prems"(1) by (simp add: decoder_push_loop.simps [of drun z input pos] s)
  show ?case
  proof (cases "hint = 0 \<or> pos + consumed = length input \<and> written < capacity")
    case True
    then show ?thesis using unf "1.prems"(2,3) o grow ok1 by (auto simp: decoder_ok_def split: if_splits)
  next
    case False
    then have np: "\<not> (consumed = 0 \<and> written = 0)" and r: "decoder_push_loop drun z1 input (pos + consumed) = (Inr p, z')"
      using unf by (auto split: if_splits)
    have "pos + consumed \<le> length input" using o(3) "1.prems"(3) by simp
    from "1.IH" [OF s [symmetric] refl refl refl refl _ _ np r ok1 this] show ?thesis
      using False o grow by auto
  qed
qed

lemma decoder_push_spec:
  assumes "decoder_push drun z input = (Inr p, z')" "decoder_ok z"
  shows "decoder_ok z' \<and> zd_max_plaintext z' = zd_max_plaintext z \<and> dp_consumed p \<le> length input \<and>
     (\<exists>out. decoder_pending z' = decoder_pending z @ out \<and> unat (zd_decoded z') = unat (zd_decoded z) + length out) \<and>
     dp_frame_complete p = zd_frame_complete z'"
proof (cases "zd_frame_complete z")
  case True
  then show ?thesis using assms by (auto simp: decoder_push_def)
next
  case False
  then show ?thesis using decoder_push_loop_spec [of drun z input 0 p z'] assms
    by (auto simp: decoder_push_def decoder_pending_def decoder_ok_def)
qed

lemma decoder_consume_all:
  "decoder_ok z \<Longrightarrow> decoder_pending (decoder_consume z (length (decoder_pending z))) = [] \<and>
     decoder_ok (decoder_consume z (length (decoder_pending z)))"
  by (auto simp: decoder_consume_def decoder_pending_def decoder_ok_def Let_def)

lemma decoder_consume_fields [simp]:
  "zd_decoded (decoder_consume z n) = zd_decoded z" "zd_max_plaintext (decoder_consume z n) = zd_max_plaintext z"
  "zd_frame_complete (decoder_consume z n) = zd_frame_complete z"
  by (simp_all add: decoder_consume_def Let_def)

section \<open>Properties\<close>

text \<open>Decoding a list of compressed chunks, draining the output after each, up to the first error.\<close>

fun decode_chunks :: "'d decoder_run \<Rightarrow> 'd ZstdDecoder \<Rightarrow> bytes list \<Rightarrow> bytes" where
  "decode_chunks drun z [] = []"
| "decode_chunks drun z (c # cs) =
     (case decoder_push drun z c of
        (Inl e, z') \<Rightarrow> []
      | (Inr p, z') \<Rightarrow>
          decoder_pending z' @ decode_chunks drun (decoder_consume z' (length (decoder_pending z'))) cs)"

lemma decode_chunks_bound:
  "decoder_ok z \<Longrightarrow> decoder_pending z = [] \<Longrightarrow>
     length (decode_chunks drun z cs) \<le> unat (zd_max_plaintext z) - unat (zd_decoded z)"
proof (induction cs arbitrary: z)
  case (Cons c cs)
  show ?case
  proof (cases "decoder_push drun z c")
    case (Pair r z')
    show ?thesis
    proof (cases r)
      case (Inr p)
      note spec = decoder_push_spec [OF Pair [unfolded Inr] Cons.prems(1)]
      let ?z = "decoder_consume z' (length (decoder_pending z'))"
      have "length (decode_chunks drun ?z cs) \<le> unat (zd_max_plaintext z) - unat (zd_decoded z')"
        using Cons.IH [of ?z] decoder_consume_all [of z'] spec by simp
      moreover have "unat (zd_decoded z') \<le> unat (zd_max_plaintext z)"
        using spec by (auto simp: decoder_ok_def word_le_nat_alt)
      ultimately show ?thesis using Pair Inr spec Cons.prems(2) by auto
    qed (simp add: Pair)
  qed
qed simp

text \<open>
  No decompression bomb. Whatever the zstd library does with whatever compressed chunks a
  peer sends, a decoder opened with a limit delivers at most that many bytes of plaintext, and
  each push returns.
\<close>

lemma zstd_output_bounded:
  assumes "ZstdDecoder_new inner limit = Inr z"
  shows "length (decode_chunks drun z chunks) \<le> unat limit"
  using decode_chunks_bound [of z drun chunks] assms
  by (auto simp: ZstdDecoder_new_def decoder_ok_def decoder_pending_def split: sum.splits)

text \<open>A codec that repeats every input byte three times.\<close>

definition triple_run :: "unit decoder_run" where
  "triple_run i input room = Inr (1, (if input = [] then 0 else 1), (case input of [] \<Rightarrow> [] | b # _ \<Rightarrow> [b, b, b]), ())"

lemma zstd_output_bounded_witness:
  "\<exists>z. ZstdDecoder_new (Inr ()) 5 = Inr z \<and> length (decode_chunks triple_run z [[1], [2, 3]]) \<le> 5"
proof -
  obtain z where z: "ZstdDecoder_new (Inr ()) 5 = Inr z" by (simp add: ZstdDecoder_new_def)
  then show ?thesis using zstd_output_bounded [OF z, of triple_run "[[1], [2, 3]]"] by auto
qed

end
