(* ===== verification/Streams.thy ===== *)
theory Streams
  imports Handler Files Compress
begin

text \<open>
  Per-stream transfer state of \<open>crates/qftp-protocol/src/stream.rs\<close>: the temp name of an upload,
  the mode filter, the trailer buffer, the rule that splits a received chunk into body and
  trailer, the claim on an upload's destination, the state of one stream and what dropping it
  does. BLAKE3 is a parameter of the code that finalizes it; a hasher is the bytes it was fed. A
  \<open>BufReader\<close> is a place and an offset: its buffer only matters when another process changes the
  file while it is read.
\<close>

section \<open>Names and modes\<close>

text \<open>A path without a last component has no upload; \<open>start_put\<close> refuses it.\<close>

definition temp_path_for :: "path \<Rightarrow> path" where
  "temp_path_for final_path =
     butlast final_path @ [(if final_path = [] then [] else last final_path) @ partial_suffix]"

definition apply_mode :: "path \<Rightarrow> u32 \<Rightarrow> FS \<Rightarrow> FS" where
  "apply_mode p mode fs = (case set_permissions fs p (mode AND 0x1FF) of Inl e \<Rightarrow> fs | Inr fs' \<Rightarrow> fs')"

definition MAX_FILE_SIZE :: u64 where "MAX_FILE_SIZE = 1024 * 1024 * 1024"
definition FILE_CHUNK_SIZE :: nat where "FILE_CHUNK_SIZE = 64 * 1024"
definition SEND_CHUNK_SIZE :: nat where "SEND_CHUNK_SIZE = 256 * 1024"

section \<open>The checksum trailer\<close>

record TrailerBuf =
  tb_bytes :: bytes
  tb_filled :: byte

definition TrailerBuf_new :: TrailerBuf where
  "TrailerBuf_new = \<lparr>tb_bytes = replicate 32 0, tb_filled = 0\<rparr>"

definition tb_remaining :: "TrailerBuf \<Rightarrow> nat" where
  "tb_remaining t = 32 - unat (tb_filled t)"

definition tb_is_full :: "TrailerBuf \<Rightarrow> bool" where
  "tb_is_full t \<longleftrightarrow> tb_filled t = 32"

definition tb_extend :: "bytes \<Rightarrow> TrailerBuf \<Rightarrow> nat \<times> TrailerBuf" where
  "tb_extend src t =
     (let want = min (tb_remaining t) (length src); start = unat (tb_filled t)
      in (want, \<lparr>tb_bytes = take start (tb_bytes t) @ take want src @ drop (start + want) (tb_bytes t),
                 tb_filled = tb_filled t + of_nat want\<rparr>))"

section \<open>Splitting a chunk\<close>

datatype PutOverflow = BodyExceeded | TrailerExceeded

record PutChunkSplit =
  to_body :: nat
  to_trailer :: nat

definition classify_put_chunk :: "nat \<Rightarrow> u64 \<Rightarrow> bool \<Rightarrow> nat \<Rightarrow> (PutOverflow, PutChunkSplit) result" where
  "classify_put_chunk chunk_len body_remaining checksum_trailer trailer_remaining =
     (let body = min chunk_len (unat body_remaining); after_body = chunk_len - body
      in if after_body = 0 then Inr \<lparr>to_body = body, to_trailer = 0\<rparr>
         else if \<not> checksum_trailer then Inl BodyExceeded
         else if after_body > trailer_remaining then Inl TrailerExceeded
         else Inr \<lparr>to_body = body, to_trailer = after_body\<rparr>)"

definition resolve_put_checksum :: "bool \<Rightarrow> TrailerBuf \<Rightarrow> bytes option \<Rightarrow> bytes option" where
  "resolve_put_checksum checksum_trailer trailer header_checksum =
     (if checksum_trailer \<and> tb_is_full trailer then Some (tb_bytes trailer) else header_checksum)"

section \<open>Claims\<close>

record UploadClaim =
  uc_path :: path

definition try_claim :: "path \<Rightarrow> User \<Rightarrow> UploadClaim option \<times> User" where
  "try_claim p u =
     (if p \<in> u_active_uploads u then (None, u)
      else (Some \<lparr>uc_path = p\<rparr>, u\<lparr>u_active_uploads := insert p (u_active_uploads u)\<rparr>))"

definition claim_drop :: "UploadClaim \<Rightarrow> User \<Rightarrow> User" where
  "claim_drop c u = u\<lparr>u_active_uploads := u_active_uploads u - {uc_path c}\<rparr>"

section \<open>Stream states\<close>

datatype 'e SendEncoding = Send_Identity | Send_Zstd "'e ZstdEncoder" bool

datatype 'd RecvEncoding = Recv_Identity | Recv_Zstd "'d ZstdDecoder"

record FileReader =
  fr_place :: path
  fr_pos :: nat

record ResumeRehash =
  rr_reader :: FileReader
  rr_remaining :: u64
  rr_pending_body :: bytes

record 'd ReadingFile =
  rf_final_path :: path
  rf_temp_path :: path
  rf_writer :: BufWriter
  rf_remaining :: u64
  rf_mode :: u32
  rf_completed :: bool
  rf_no_clobber :: bool
  rf_hasher :: bytes
  rf_recv_encoding :: "'d RecvEncoding"
  rf_expected_checksum :: "bytes option"
  rf_trailer_buf :: "TrailerBuf option"
  rf_reserved_bytes :: u64
  rf_prior_bytes :: u64
  rf_rehash :: "ResumeRehash option"
  rf_claim :: UploadClaim

record 'e SendingFile =
  sf_reader :: FileReader
  sf_total_size :: u64
  sf_encoding :: "'e SendEncoding"
  sf_sent :: u64
  sf_hasher :: bytes
  sf_trailer :: "bytes option"
  sf_trailer_offset :: nat
  sf_finished :: bool
  sf_prefix_remaining :: u64

datatype ('d, 'e) StreamState =
    ReadingRequest bytes
  | ReadingFileData "'d ReadingFile"
  | SendingFileData "'e SendingFile"
  | Done

text \<open>
  Dropping an upload: the body of \<open>Drop for StreamState\<close>, then the fields, of which the writer
  (flushed once more, errors ignored) and the claim have an effect.
\<close>

definition upload_drop :: "'d ReadingFile \<Rightarrow> FS \<times> User \<Rightarrow> FS \<times> User" where
  "upload_drop st w =
     (let (fs, u) = w;
          (writer, fs, u) =
            (if rf_completed st then (rf_writer st, fs, u)
             else (let u = u\<lparr>u_in_flight_bytes := u_in_flight_bytes u - rf_reserved_bytes st\<rparr>;
                       (writer, fs) = (case bw_flush (rf_writer st) fs of Inl e \<Rightarrow> (rf_writer st, fs) | Inr s \<Rightarrow> s);
                       written = sat_sub (rf_reserved_bytes st) (rf_remaining st)
                   in (writer, fs,
                       if written > 0 then u\<lparr>u_used_bytes := u_used_bytes u + written\<rparr> else u)))
      in (bw_drop writer fs, claim_drop (rf_claim st) u))"

definition stream_drop :: "('d, 'e) StreamState \<Rightarrow> FS \<times> User \<Rightarrow> FS \<times> User" where
  "stream_drop s w = (case s of ReadingFileData st \<Rightarrow> upload_drop st w | _ \<Rightarrow> w)"

section \<open>Lemmas\<close>

subsection \<open>The trailer buffer\<close>

text \<open>A trailer buffer that has received the bytes \<open>r\<close>.\<close>

definition trailer_has :: "TrailerBuf \<Rightarrow> bytes \<Rightarrow> bool" where
  "trailer_has t r \<longleftrightarrow> length r \<le> 32 \<and> length (tb_bytes t) = 32 \<and> unat (tb_filled t) = length r \<and>
     take (length r) (tb_bytes t) = r"

lemma trailer_has_new [simp]: "trailer_has TrailerBuf_new []"
  by (simp add: trailer_has_def TrailerBuf_new_def)

lemma trailer_remaining: "trailer_has t r \<Longrightarrow> tb_remaining t = 32 - length r"
  by (simp add: trailer_has_def tb_remaining_def)

lemma trailer_full: "trailer_has t r \<Longrightarrow> tb_is_full t \<longleftrightarrow> length r = 32"
proof -
  assume h: "trailer_has t r"
  have "tb_filled t = 32 \<longleftrightarrow> unat (tb_filled t) = 32" by (simp add: word_unat_eq_iff)
  then show ?thesis using h by (simp add: trailer_has_def tb_is_full_def)
qed

lemma trailer_full_bytes: "trailer_has t r \<Longrightarrow> tb_is_full t \<Longrightarrow> tb_bytes t = r"
  using trailer_full by (force simp: trailer_has_def)

lemma trailer_extend:
  assumes "trailer_has t r" "tb_extend src t = (n, t')"
  shows "n = min (32 - length r) (length src) \<and> trailer_has t' (r @ take (32 - length r) src)"
proof -
  have r: "length r \<le> 32" "length (tb_bytes t) = 32" "unat (tb_filled t) = length r" "take (length r) (tb_bytes t) = r"
    using assms(1) by (auto simp: trailer_has_def)
  define e where "e = take (32 - length r) src"
  have le: "length e = min (32 - length r) (length src)" by (simp add: e_def)
  have te: "take (length e) src = e" unfolding e_def by (metis append_eq_conv_conj append_take_drop_id)
  have n: "n = length e" "tb_bytes t' = r @ e @ drop (length r + length e) (tb_bytes t)"
    "tb_filled t' = tb_filled t + of_nat (length e)"
    using assms(2) r te unfolding tb_extend_def tb_remaining_def Let_def r(3) le [symmetric] by auto
  have w: "length r + length e \<le> 32" using r(1) by (simp add: le)
  have "unat (tb_filled t') = length r + length e" using n(3) r(3) w by (simp add: unat_word_ariths unat_of_nat)
  then show ?thesis using n r(2) w le by (simp add: trailer_has_def flip: e_def)
qed

subsection \<open>Chunks\<close>

text \<open>
  What the receive loops do with the chunks of an uncompressed upload: the body so far, the body
  bytes still expected, and the trailer buffer.
\<close>

fun route_chunks :: "bytes list \<Rightarrow> u64 \<Rightarrow> bytes \<Rightarrow> TrailerBuf option
    \<Rightarrow> (PutOverflow, u64 \<times> bytes \<times> TrailerBuf option) result" where
  "route_chunks [] remaining body tb = Inr (remaining, body, tb)"
| "route_chunks (c # cs) remaining body tb =
     bindR (classify_put_chunk (length c) remaining (tb \<noteq> None) (case tb of None \<Rightarrow> 0 | Some t \<Rightarrow> tb_remaining t)) (\<lambda>s.
       route_chunks cs (remaining - of_nat (to_body s)) (body @ take (to_body s) c)
         (if to_trailer s > 0 then map_option (\<lambda>t. snd (tb_extend (take (to_trailer s) (drop (to_body s) c)) t)) tb else tb))"

definition trailer_holds :: "TrailerBuf option \<Rightarrow> bytes \<Rightarrow> bool" where
  "trailer_holds tb r = (case tb of None \<Rightarrow> r = [] | Some t \<Rightarrow> trailer_has t r)"

definition trailer_room :: "TrailerBuf option \<Rightarrow> bytes \<Rightarrow> nat" where
  "trailer_room tb r = (case tb of None \<Rightarrow> 0 | Some t \<Rightarrow> 32 - length r)"

lemma classify_spec:
  "classify_put_chunk n rem tr troom =
     (if n \<le> unat rem then Inr \<lparr>to_body = n, to_trailer = 0\<rparr>
      else if \<not> tr then Inl BodyExceeded
      else if n - unat rem > troom then Inl TrailerExceeded
      else Inr \<lparr>to_body = unat rem, to_trailer = n - unat rem\<rparr>)"
  by (auto simp: classify_put_chunk_def Let_def)

lemma remaining_minus: "n \<le> unat rem \<Longrightarrow> unat ((rem :: u64) - of_nat n) = unat rem - n"
proof -
  assume n: "n \<le> unat rem"
  then have "n < 18446744073709551616" using unat_less_u64 [of rem] by linarith
  then show ?thesis using n by (simp add: u64_simps)
qed

lemma route_chunk_ok:
  assumes "trailer_holds tb r" "r = [] \<or> rem = 0" "length c \<le> unat rem + trailer_room tb r"
  shows "\<exists>tb'. route_chunks (c # cs) rem body tb =
      route_chunks cs (rem - of_nat (min (length c) (unat rem))) (body @ take (unat rem) c) tb' \<and>
    trailer_holds tb' (r @ drop (unat rem) c) \<and> (tb' = None \<longleftrightarrow> tb = None) \<and>
    unat (rem - of_nat (min (length c) (unat rem))) = unat rem - length c"
proof -
  have u: "unat (rem - of_nat (min (length c) (unat rem))) = unat rem - length c" using remaining_minus by simp
  show ?thesis
  proof (cases "length c \<le> unat rem")
    case True
    then show ?thesis using u assms(1) by (auto simp: classify_spec)
  next
    case False
    then obtain t where t: "tb = Some t" using assms(3) by (cases tb) (auto simp: trailer_room_def)
    then have h: "trailer_has t r" using assms(1) by (simp add: trailer_holds_def)
    have fit: "length c - unat rem \<le> 32 - length r" using assms(3) t by (simp add: trailer_room_def)
    obtain n t' where e: "tb_extend (drop (unat rem) c) t = (n, t')" by fastforce
    have "trailer_has t' (r @ drop (unat rem) c)" using trailer_extend [OF h e] fit by simp
    then show ?thesis using False t e u fit trailer_remaining [OF h]
      by (auto simp: classify_spec trailer_holds_def min_def intro!: exI [of _ "Some t'"])
  qed
qed

lemma route_chunk_overflow:
  assumes "trailer_holds tb r" "\<not> length c \<le> unat rem + trailer_room tb r"
  shows "route_chunks (c # cs) rem body tb = Inl (if tb = None then BodyExceeded else TrailerExceeded)"
  using assms trailer_remaining
  by (cases tb) (auto simp: classify_spec trailer_holds_def trailer_room_def)

lemma route_chunks_spec:
  assumes "trailer_holds tb r" "r = [] \<or> rem = 0"
  shows "if length (concat cs) \<le> unat rem + trailer_room tb r
    then \<exists>rem' tb'. route_chunks cs rem body tb = Inr (rem', body @ take (unat rem) (concat cs), tb') \<and>
      unat rem' = unat rem - length (concat cs) \<and> trailer_holds tb' (r @ drop (unat rem) (concat cs)) \<and> (tb' = None \<longleftrightarrow> tb = None)
    else route_chunks cs rem body tb = Inl (if tb = None then BodyExceeded else TrailerExceeded)"
  using assms
proof (induction cs arbitrary: rem body tb r)
  case Nil
  then show ?case by simp
next
  case (Cons c cs)
  show ?case
  proof (cases "length c \<le> unat rem + trailer_room tb r")
    case False
    then have "\<not> length (concat (c # cs)) \<le> unat rem + trailer_room tb r" by simp
    then show ?thesis using route_chunk_overflow [OF Cons.prems(1) False] by (simp del: route_chunks.simps)
  next
    case True
    let ?rem = "rem - of_nat (min (length c) (unat rem))"
    from route_chunk_ok [OF Cons.prems True] obtain tb' where
      tb': "route_chunks (c # cs) rem body tb = route_chunks cs ?rem (body @ take (unat rem) c) tb'"
      "trailer_holds tb' (r @ drop (unat rem) c)" "tb' = None \<longleftrightarrow> tb = None" "unat ?rem = unat rem - length c" by blast
    have pre: "r @ drop (unat rem) c = [] \<or> ?rem = 0"
      using Cons.prems(2) tb'(4) by (cases "length c \<le> unat rem") (auto simp: unat_eq_zero [symmetric] simp del: unat_eq_zero)
    have room: "length (concat cs) \<le> unat ?rem + trailer_room tb' (r @ drop (unat rem) c) \<longleftrightarrow>
        length (concat (c # cs)) \<le> unat rem + trailer_room tb r"
      using tb'(3,4) True Cons.prems by (cases tb; cases tb') (auto simp: trailer_room_def trailer_holds_def)
    have eqs: "take (unat rem) c @ take (unat rem - length c) (concat cs) = take (unat rem) (concat (c # cs))"
      "drop (unat rem) c @ drop (unat rem - length c) (concat cs) = drop (unat rem) (concat (c # cs))" by simp_all
    note IH = Cons.IH [OF tb'(2) pre, of "body @ take (unat rem) c", unfolded room tb'(3)]
    show ?thesis
    proof (cases "length (concat (c # cs)) \<le> unat rem + trailer_room tb r")
      case True
      then obtain rem' tb'' where q: "route_chunks cs ?rem (body @ take (unat rem) c) tb' =
          Inr (rem', (body @ take (unat rem) c) @ take (unat ?rem) (concat cs), tb'')"
        "unat rem' = unat ?rem - length (concat cs)"
        "trailer_holds tb'' ((r @ drop (unat rem) c) @ drop (unat ?rem) (concat cs))" "tb'' = None \<longleftrightarrow> tb = None"
        using IH by (simp only: if_True) blast
      have "route_chunks (c # cs) rem body tb = Inr (rem', body @ take (unat rem) (concat (c # cs)), tb'')"
        using q(1) unfolding tb'(1,4) eqs [symmetric] by (simp del: route_chunks.simps)
      moreover have "unat rem' = unat rem - length (concat (c # cs))" using q(2) tb'(4) by simp
      moreover have "trailer_holds tb'' (r @ drop (unat rem) (concat (c # cs)))"
        using q(3) unfolding tb'(4) eqs [symmetric] by simp
      ultimately show ?thesis using True q(4) by (simp del: route_chunks.simps concat.simps)
    next
      case False
      then show ?thesis using IH tb'(1) by (simp del: route_chunks.simps concat.simps)
    qed
  qed
qed

section \<open>Properties\<close>

text \<open>
  Chunk boundaries do not matter. However the network cuts an uncompressed upload into chunks,
  the stream is accepted exactly when it is no longer than the declared body plus, if the client
  announced one, the 32-byte trailer; the body is then its first \<open>size\<close> bytes, the trailer
  buffer holds the rest, and too long a stream fails with the same overflow kind.
\<close>

lemma put_split_chunking:
  "case route_chunks cs sz [] (if trailer then Some TrailerBuf_new else None) of
     Inr (remaining, body, tb) \<Rightarrow>
       length (concat cs) \<le> unat sz + (if trailer then 32 else 0) \<and> body = take (unat sz) (concat cs) \<and>
       unat remaining = unat sz - length (concat cs) \<and>
       (case tb of None \<Rightarrow> \<not> trailer | Some t \<Rightarrow> trailer \<and> trailer_has t (drop (unat sz) (concat cs)))
   | Inl e \<Rightarrow> length (concat cs) > unat sz + (if trailer then 32 else 0) \<and>
       e = (if trailer then TrailerExceeded else BodyExceeded)"
  using route_chunks_spec [of "if trailer then Some TrailerBuf_new else None" "[]" sz cs "[]"]
  by (cases trailer) (auto simp: trailer_holds_def trailer_room_def split: if_splits option.splits)

end
