(* ===== verification/Metrics.thy ===== *)
theory Metrics
  imports Prelude
begin

text \<open>
  The counters of \<open>crates/qftp-server/src/metrics.rs\<close> and the text they are published in. The
  atomics are \<open>u64\<close> words, \<open>fetch_add\<close> and \<open>fetch_sub\<close> wrap.
\<close>

record Metrics =
  m_connections_open :: u64
  m_connections_total :: u64
  m_connections_rejected_caps :: u64
  m_connections_rejected_rate :: u64
  m_initials_dropped_bad_dcid :: u64
  m_retries_issued :: u64
  m_bytes_received :: u64
  m_bytes_sent :: u64
  m_requests_total :: u64
  m_requests_failed :: u64
  m_requests_rate_limited :: u64
  m_uploads_completed :: u64
  m_downloads_completed :: u64
  m_zero_rtt_accepted :: u64
  m_zero_rtt_rejected :: u64

definition Metrics_default :: Metrics where
  "Metrics_default = \<lparr>m_connections_open = 0, m_connections_total = 0, m_connections_rejected_caps = 0, m_connections_rejected_rate = 0, m_initials_dropped_bad_dcid = 0, m_retries_issued = 0, m_bytes_received = 0, m_bytes_sent = 0, m_requests_total = 0, m_requests_failed = 0, m_requests_rate_limited = 0, m_uploads_completed = 0, m_downloads_completed = 0, m_zero_rtt_accepted = 0, m_zero_rtt_rejected = 0\<rparr>"

section \<open>Updates\<close>

definition inc_connections_open :: "Metrics \<Rightarrow> Metrics" where
  "inc_connections_open m = m\<lparr>m_connections_open := m_connections_open m + 1\<rparr>"

definition inc_connections_total :: "Metrics \<Rightarrow> Metrics" where
  "inc_connections_total m = m\<lparr>m_connections_total := m_connections_total m + 1\<rparr>"

definition inc_retries_issued :: "Metrics \<Rightarrow> Metrics" where
  "inc_retries_issued m = m\<lparr>m_retries_issued := m_retries_issued m + 1\<rparr>"

definition inc_requests_total :: "Metrics \<Rightarrow> Metrics" where
  "inc_requests_total m = m\<lparr>m_requests_total := m_requests_total m + 1\<rparr>"

definition inc_requests_failed :: "Metrics \<Rightarrow> Metrics" where
  "inc_requests_failed m = m\<lparr>m_requests_failed := m_requests_failed m + 1\<rparr>"

definition inc_zero_rtt_accepted :: "Metrics \<Rightarrow> Metrics" where
  "inc_zero_rtt_accepted m = m\<lparr>m_zero_rtt_accepted := m_zero_rtt_accepted m + 1\<rparr>"

definition inc_zero_rtt_rejected :: "Metrics \<Rightarrow> Metrics" where
  "inc_zero_rtt_rejected m = m\<lparr>m_zero_rtt_rejected := m_zero_rtt_rejected m + 1\<rparr>"

definition inc_uploads_completed :: "Metrics \<Rightarrow> Metrics" where
  "inc_uploads_completed m = m\<lparr>m_uploads_completed := m_uploads_completed m + 1\<rparr>"

definition inc_downloads_completed :: "Metrics \<Rightarrow> Metrics" where
  "inc_downloads_completed m = m\<lparr>m_downloads_completed := m_downloads_completed m + 1\<rparr>"

definition inc_connections_rejected_rate :: "Metrics \<Rightarrow> Metrics" where
  "inc_connections_rejected_rate m = m\<lparr>m_connections_rejected_rate := m_connections_rejected_rate m + 1\<rparr>"

definition inc_connections_rejected_caps :: "Metrics \<Rightarrow> Metrics" where
  "inc_connections_rejected_caps m = m\<lparr>m_connections_rejected_caps := m_connections_rejected_caps m + 1\<rparr>"

definition inc_initials_dropped_bad_dcid :: "Metrics \<Rightarrow> Metrics" where
  "inc_initials_dropped_bad_dcid m = m\<lparr>m_initials_dropped_bad_dcid := m_initials_dropped_bad_dcid m + 1\<rparr>"

definition inc_requests_rate_limited :: "Metrics \<Rightarrow> Metrics" where
  "inc_requests_rate_limited m = m\<lparr>m_requests_rate_limited := m_requests_rate_limited m + 1\<rparr>"

definition dec_connections_open :: "Metrics \<Rightarrow> Metrics" where
  "dec_connections_open m = m\<lparr>m_connections_open := m_connections_open m - 1\<rparr>"

definition add_bytes_sent :: "u64 \<Rightarrow> Metrics \<Rightarrow> Metrics" where
  "add_bytes_sent n m = m\<lparr>m_bytes_sent := m_bytes_sent m + n\<rparr>"

definition add_bytes_received :: "u64 \<Rightarrow> Metrics \<Rightarrow> Metrics" where
  "add_bytes_received n m = m\<lparr>m_bytes_received := m_bytes_received m + n\<rparr>"

section \<open>Publication\<close>

datatype MetricKind = Counter | Gauge

fun kind_as_str :: "MetricKind \<Rightarrow> string" where
  "kind_as_str Counter = ''counter''"
| "kind_as_str Gauge = ''gauge''"

definition newline :: string where "newline = [CHR 0x0A]"

definition metric_lines :: "string \<Rightarrow> string \<Rightarrow> MetricKind \<Rightarrow> u64 \<Rightarrow> string" where
  "metric_lines name help kind v =
     ''# HELP '' @ name @ '' '' @ help @ newline @
     ''# TYPE '' @ name @ '' '' @ kind_as_str kind @ newline @
     name @ '' '' @ show_u64 v @ newline"

definition render :: "Metrics \<Rightarrow> string" where
  "render m = concat
     [metric_lines ''qftp_connections_open''
        ''Currently open QUIC connections.'' Gauge (m_connections_open m),
      metric_lines ''qftp_connections_total''
        ''Total accepted QUIC connections since startup.'' Counter (m_connections_total m),
      metric_lines ''qftp_connections_rejected_caps_total''
        ''Connections dropped because per-IP or global caps were exceeded.'' Counter (m_connections_rejected_caps m),
      metric_lines ''qftp_connections_rejected_rate_total''
        ''Connections dropped by the rate limiter.'' Counter (m_connections_rejected_rate m),
      metric_lines ''qftp_initials_dropped_bad_dcid_total'' (''Initials dropped because the client-chosen DCID was out of the RFC 9000 '' @ [CHR 0xC2, CHR 0xA7] @ ''7.2 range.'') Counter (m_initials_dropped_bad_dcid m),
      metric_lines ''qftp_retries_issued_total''
        ''QUIC stateless retries issued for address validation.'' Counter (m_retries_issued m),
      metric_lines ''qftp_bytes_received_total''
        ''Bytes received in Put uploads.'' Counter (m_bytes_received m),
      metric_lines ''qftp_bytes_sent_total''
        ''Bytes sent in Get downloads.'' Counter (m_bytes_sent m),
      metric_lines ''qftp_requests_total''
        ''Protocol requests handled.'' Counter (m_requests_total m),
      metric_lines ''qftp_requests_failed_total''
        ''Protocol requests that returned Response::Err.'' Counter (m_requests_failed m),
      metric_lines ''qftp_requests_rate_limited_total''
        ''Per-request protocol calls rejected by the in-connection rate limiter.'' Counter (m_requests_rate_limited m),
      metric_lines ''qftp_uploads_completed_total''
        ''Successful Put uploads.'' Counter (m_uploads_completed m),
      metric_lines ''qftp_downloads_completed_total''
        ''Successful Get downloads.'' Counter (m_downloads_completed m),
      metric_lines ''qftp_zero_rtt_accepted_total''
        ''Requests accepted while the QUIC handshake was still in the early-data phase. These are read-only ops served at 0-RTT.'' Counter (m_zero_rtt_accepted m),
      metric_lines ''qftp_zero_rtt_rejected_total''
        ''Requests refused because they arrived during 0-RTT and would have mutated server state. The client retries them under 1-RTT.'' Counter (m_zero_rtt_rejected m)]"

definition format_response :: "string \<Rightarrow> string \<Rightarrow> string \<Rightarrow> string" where
  "format_response status content_type body =
     ''HTTP/1.1 '' @ status @ [CHR 0x0D, CHR 0x0A] @ ''Content-Type: '' @ content_type @ [CHR 0x0D, CHR 0x0A] @
     ''Content-Length: '' @ show_nat (length body) @ [CHR 0x0D, CHR 0x0A] @ ''Connection: close'' @
     [CHR 0x0D, CHR 0x0A, CHR 0x0D, CHR 0x0A] @ body"

lemmas metrics_defs =
  inc_connections_open_def inc_connections_total_def inc_retries_issued_def inc_requests_total_def
  inc_requests_failed_def inc_zero_rtt_accepted_def inc_zero_rtt_rejected_def inc_uploads_completed_def
  inc_downloads_completed_def inc_connections_rejected_rate_def inc_connections_rejected_caps_def
  inc_initials_dropped_bad_dcid_def inc_requests_rate_limited_def dec_connections_open_def
  add_bytes_sent_def add_bytes_received_def

end
