(* ===== verification/Transfer_Put.thy ===== *)
theory Transfer_Put
  imports Streams Framing Metrics
begin

text \<open>
  Uploads: \<open>crates/qftp-server/src/transfer_put.rs\<close>. \<open>start_put\<close> checks a request, claims the
  destination, opens the temp file and reserves quota; \<open>drive_put\<close> re-hashes a resumed prefix one
  slice per call, receives the body and the trailer, verifies the checksum and renames the temp
  file over the destination.

  BLAKE3 and the zstd decoder are parameters. The outcomes of \<open>conn.stream_recv\<close> are a list, as in
  theory Framing. The response is returned to the caller that sends it; \<open>None\<close> means that the
  upload goes on. The file system may change arbitrarily between two calls: each call gets the
  state it finds.
\<close>

section \<open>Parameters and state\<close>

record 'd Prims =
  p_blake3 :: "bytes \<Rightarrow> bytes"
  p_decoder_new :: "(io_error, 'd) result"
  p_decoder_run :: "'d decoder_run"

record World =
  w_fs :: FS
  w_user :: User
  w_metrics :: Metrics

record PutRequest =
  pr_path :: string
  pr_size :: u64
  pr_mode :: u32
  pr_offset :: u64
  pr_expected_checksum :: "bytes option"
  pr_no_clobber :: bool
  pr_checksum_trailer :: bool
  pr_encoding :: Encoding
  pr_plaintext_size :: u64
  pr_leftover :: bytes

definition requests_failed :: "World \<Rightarrow> World" where
  "requests_failed w = w\<lparr>w_metrics := inc_requests_failed (w_metrics w)\<rparr>"

section \<open>Errors\<close>

fun put_overflow_err :: "PutOverflow \<Rightarrow> Response" where
  "put_overflow_err BodyExceeded = err UploadOverflow ''Upload exceeded declared size''"
| "put_overflow_err TrailerExceeded = err UploadOverflow ''Upload exceeded declared size + trailer''"

fun compressed_decode_err :: "CompressionError \<Rightarrow> Response" where
  "compressed_decode_err (PlaintextLimit m) = err UploadOverflow ''decompressed size exceeded declared size''"
| "compressed_decode_err Truncated = err DecodeError ''zstd frame is truncated''"
| "compressed_decode_err (Codec e) = err DecodeError (''zstd decode error: '' @ io_text e)"
| "compressed_decode_err NoProgress = err DecodeError ''zstd decoder made no progress''"

fun compression_text :: "CompressionError \<Rightarrow> string" where
  "compression_text (Codec e) = ''zstd codec error: '' @ io_text e"
| "compression_text (PlaintextLimit m) = ''decoded plaintext exceeded limit of '' @ show_u64 m @ '' bytes''"
| "compression_text Truncated = ''zstd frame is truncated''"
| "compression_text NoProgress = ''zstd decoder made no progress''"

definition cleanup_rejected_upload :: "'d ReadingFile \<Rightarrow> World \<Rightarrow> 'd ReadingFile \<times> World" where
  "cleanup_rejected_upload st w =
     (let fs = (case remove_file (w_fs w) (rf_temp_path st) of Inl e \<Rightarrow> w_fs w | Inr fs' \<Rightarrow> fs');
          u = (w_user w)\<lparr>u_in_flight_bytes := u_in_flight_bytes (w_user w) - rf_reserved_bytes st\<rparr>;
          u = (if rf_prior_bytes st > 0 then u\<lparr>u_used_bytes := sat_sub (u_used_bytes u) (rf_prior_bytes st)\<rparr> else u)
      in (st\<lparr>rf_completed := True\<rparr>, w\<lparr>w_fs := fs, w_user := u\<rparr>))"

definition fail_rejected_upload :: "'d ReadingFile \<Rightarrow> World \<Rightarrow> Response \<Rightarrow> Response option \<times> 'd ReadingFile \<times> World" where
  "fail_rejected_upload st w resp = (Some resp, cleanup_rejected_upload st w)"

section \<open>Receiving\<close>

text \<open>Write body bytes, hash them and count them, as every receive path does.\<close>

definition write_body :: "bytes \<Rightarrow> 'd ReadingFile \<Rightarrow> World \<Rightarrow> (Response, unit) result \<times> 'd ReadingFile \<times> World" where
  "write_body data st w =
     (case bw_write_all (rf_writer st) data (w_fs w) of
        (Inl e, writer, fs) \<Rightarrow>
          (Inl (err Internal (''Failed to write file: '' @ io_text e)), st\<lparr>rf_writer := writer\<rparr>, w\<lparr>w_fs := fs\<rparr>)
      | (Inr _, writer, fs) \<Rightarrow>
          (Inr (),
           st\<lparr>rf_writer := writer, rf_hasher := rf_hasher st @ data,
             rf_remaining := rf_remaining st - of_nat (length data)\<rparr>,
           w\<lparr>w_fs := fs, w_metrics := add_bytes_received (of_nat (length data)) (w_metrics w)\<rparr>))"

definition append_put_trailer :: "bytes \<Rightarrow> TrailerBuf option \<Rightarrow> (Response, unit) result \<times> TrailerBuf option" where
  "append_put_trailer bs tb =
     (if bs = [] then (Inr (), tb)
      else (case tb of
          None \<Rightarrow> (Inl (err UploadOverflow ''Upload exceeded declared size''), tb)
        | Some buf \<Rightarrow>
            (let (consumed, buf') = tb_extend bs buf
             in if consumed < length bs then (Inl (err UploadOverflow ''Trailer bytes exceeded 32''), Some buf')
                else (Inr (), Some buf'))))"

text \<open>
  The loop over the decoder's pending output takes all of it at once, so it runs at most one
  round; \<open>z\<close> is the decoder after the push.
\<close>

definition drain_decoder :: "'d ZstdDecoder \<Rightarrow> 'd ReadingFile \<Rightarrow> World \<Rightarrow> (Response, unit) result \<times> 'd ReadingFile \<times> World" where
  "drain_decoder z st w =
     (let n = length (decoder_pending z)
      in if n = 0 then (Inr (), st, w)
         else if n > unat (rf_remaining st)
         then (Inl (err UploadOverflow ''decompressed size exceeded declared size''), st, w)
         else (case write_body (decoder_pending z) st w of
             (Inl resp, st', w') \<Rightarrow> (Inl resp, st', w')
           | (Inr _, st', w') \<Rightarrow> (Inr (), st'\<lparr>rf_recv_encoding := Recv_Zstd (decoder_consume z n)\<rparr>, w')))"

definition feed_zstd_put_chunk ::
  "'d Prims \<Rightarrow> bytes \<Rightarrow> 'd ZstdDecoder \<Rightarrow> 'd ReadingFile \<Rightarrow> World \<Rightarrow> (Response, unit) result \<times> 'd ReadingFile \<times> World" where
  "feed_zstd_put_chunk P input z st w =
     (if zd_frame_complete z
      then (let (r, tb) = append_put_trailer input (rf_trailer_buf st) in (r, st\<lparr>rf_trailer_buf := tb\<rparr>, w))
      else (case decoder_push (p_decoder_run P) z input of
          (Inl e, z') \<Rightarrow> (Inl (compressed_decode_err e), st\<lparr>rf_recv_encoding := Recv_Zstd z'\<rparr>, w)
        | (Inr progress, z') \<Rightarrow>
            (case drain_decoder z' (st\<lparr>rf_recv_encoding := Recv_Zstd z'\<rparr>) w of
               (Inl resp, st', w') \<Rightarrow> (Inl resp, st', w')
             | (Inr _, st', w') \<Rightarrow>
                 (if dp_frame_complete progress
                  then (if rf_remaining st' > 0
                        then (Inl (err DecodeError
                                (''compressed body decoded to fewer bytes than declared: '' @
                                 show_u64 (rf_remaining st') @ '' bytes missing'')), st', w')
                        else (let (r, tb) = append_put_trailer (drop (dp_consumed progress) input) (rf_trailer_buf st')
                              in (r, st'\<lparr>rf_trailer_buf := tb\<rparr>, w')))
                  else if dp_consumed progress < length input
                  then (Inl (err DecodeError ''zstd decoder stopped before consuming the compressed chunk''), st', w')
                  else (Inr (), st', w')))))"

definition trailer_space :: "TrailerBuf option \<Rightarrow> nat" where
  "trailer_space tb = (case tb of None \<Rightarrow> 0 | Some b \<Rightarrow> tb_remaining b)"

definition extend_trailer :: "bytes \<Rightarrow> TrailerBuf option \<Rightarrow> TrailerBuf option" where
  "extend_trailer bs tb = map_option (\<lambda>b. snd (tb_extend bs b)) tb"

section \<open>Driving an upload\<close>

text \<open>
  The re-hash of a resumed prefix. \<open>Some r\<close> returns \<open>r\<close> from \<open>drive_put\<close>; \<open>None\<close> goes on to the
  body.
\<close>

definition put_pending :: "'d Prims \<Rightarrow> bytes \<Rightarrow> 'd ReadingFile \<Rightarrow> World \<Rightarrow> Response option option \<times> 'd ReadingFile \<times> World" where
  "put_pending P pending st w =
     (if pending = [] then (None, st, w)
      else (case rf_recv_encoding st of
          Recv_Identity \<Rightarrow>
            (if length pending > unat (rf_remaining st)
             then (Some (Some (err UploadOverflow ''Upload exceeded declared size'')), st, w)
             else (case write_body pending st w of
                 (Inl resp, st', w') \<Rightarrow> (Some (Some resp), st', w')
               | (Inr _, st', w') \<Rightarrow> (None, st', w')))
        | Recv_Zstd z \<Rightarrow>
            (case feed_zstd_put_chunk P pending z st w of
               (Inl resp, st', w') \<Rightarrow> (let (r, s) = fail_rejected_upload st' w' resp in (Some r, s))
             | (Inr _, st', w') \<Rightarrow> (None, st', w'))))"

definition put_rehash :: "'d Prims \<Rightarrow> nat \<Rightarrow> 'd ReadingFile \<Rightarrow> World \<Rightarrow> Response option option \<times> 'd ReadingFile \<times> World" where
  "put_rehash P tmp_len st w =
     (case rf_rehash st of
        None \<Rightarrow> (None, st, w)
      | Some rh \<Rightarrow>
          (let want = min (unat (rr_remaining rh)) tmp_len; rd = rr_reader rh
           in case handle_read (w_fs w) (fr_place rd) (fr_pos rd) want of
                Inl e \<Rightarrow>
                  (let (r, s) = fail_rejected_upload st w (err (io_code e) (''resume re-hash read failed: '' @ io_text e))
                   in (Some r, s))
              | Inr [] \<Rightarrow>
                  (let (r, s) = fail_rejected_upload st w (err Internal ''partial upload shrank during resume re-hash'')
                   in (Some r, s))
              | Inr data \<Rightarrow>
                  (let n = length data;
                       rh' = rh\<lparr>rr_reader := rd\<lparr>fr_pos := fr_pos rd + n\<rparr>, rr_remaining := rr_remaining rh - of_nat n\<rparr>;
                       st' = st\<lparr>rf_hasher := rf_hasher st @ data, rf_rehash := Some rh'\<rparr>
                   in if rr_remaining rh' > 0 then (Some None, st', w)
                      else put_pending P (rr_pending_body rh') (st'\<lparr>rf_rehash := None\<rparr>) w)))"

definition body_done :: "'d ReadingFile \<Rightarrow> bool" where
  "body_done st = (case rf_recv_encoding st of Recv_Identity \<Rightarrow> rf_remaining st = 0 | Recv_Zstd z \<Rightarrow> zd_frame_complete z)"

definition put_identity_chunk :: "bytes \<Rightarrow> bool \<Rightarrow> 'd ReadingFile \<Rightarrow> World \<Rightarrow> Response option \<times> 'd ReadingFile \<times> World" where
  "put_identity_chunk data fin st w =
     (case classify_put_chunk (length data) (rf_remaining st) (rf_trailer_buf st \<noteq> None) (trailer_space (rf_trailer_buf st)) of
        Inl ov \<Rightarrow> (Some (put_overflow_err ov), st, w)
      | Inr split \<Rightarrow>
          (case write_body (take (to_body split) data) st w of
             (Inl resp, st', w') \<Rightarrow> (Some resp, st', w')
           | (Inr _, st', w') \<Rightarrow>
               (let st' = (if to_trailer split > 0
                           then st'\<lparr>rf_trailer_buf := extend_trailer (take (to_trailer split) (drop (to_body split) data)) (rf_trailer_buf st')\<rparr>
                           else st')
                in if fin \<and> rf_remaining st' > 0
                   then (Some (err UploadTruncated
                          (''Upload truncated: '' @ show_u64 (rf_remaining st') @ '' bytes still expected'')), st', w')
                   else (None, st', w'))))"

definition put_zstd_chunk ::
  "'d Prims \<Rightarrow> bytes \<Rightarrow> bool \<Rightarrow> 'd ZstdDecoder \<Rightarrow> 'd ReadingFile \<Rightarrow> World \<Rightarrow> Response option \<times> 'd ReadingFile \<times> World" where
  "put_zstd_chunk P data fin z st w =
     (case feed_zstd_put_chunk P data z st w of
        (Inl resp, st', w') \<Rightarrow> fail_rejected_upload st' w' resp
      | (Inr _, st', w') \<Rightarrow>
          (if fin \<and> \<not> body_done st'
           then fail_rejected_upload st' w' (err UploadTruncated ''Stream closed before zstd frame was complete'')
           else (None, st', w')))"

text \<open>Phase A: drain body bytes.\<close>

fun put_body :: "'d Prims \<Rightarrow> stream_recvs \<Rightarrow> 'd ReadingFile \<Rightarrow> World \<Rightarrow> Response option \<times> 'd ReadingFile \<times> stream_recvs \<times> World" where
  "put_body P [] st w = (None, st, [], w)"
| "put_body P (r # rs) st w =
     (if body_done st then (None, st, r # rs, w)
      else (case r of
          Inl e \<Rightarrow> (if e = Quic_Done then (None, st, rs, w) else (Some (err Internal ''Stream receive error''), st, rs, w))
        | Inr (data, fin) \<Rightarrow>
            (case (case rf_recv_encoding st of
                     Recv_Identity \<Rightarrow> put_identity_chunk data fin st w
                   | Recv_Zstd z \<Rightarrow> put_zstd_chunk P data fin z st w) of
               (Some resp, st', w') \<Rightarrow> (Some resp, st', rs, w')
             | (None, st', w') \<Rightarrow> put_body P rs st' w')))"

text \<open>Phase B: drain the trailer. \<open>None\<close> means that it is complete.\<close>

fun put_trailer :: "stream_recvs \<Rightarrow> TrailerBuf \<Rightarrow> Response option option \<times> TrailerBuf \<times> stream_recvs" where
  "put_trailer [] buf = ((if tb_is_full buf then None else Some None), buf, [])"
| "put_trailer (r # rs) buf =
     (if tb_is_full buf then (None, buf, r # rs)
      else (case r of
          Inr (data, fin) \<Rightarrow>
            (let (consumed, buf') = tb_extend data buf
             in if consumed < length data then (Some (Some (err UploadOverflow ''Trailer bytes exceeded 32'')), buf', rs)
                else if fin \<and> \<not> tb_is_full buf'
                then (Some (Some (err UploadTruncated ''Stream closed before BLAKE3 trailer was complete'')), buf', rs)
                else put_trailer rs buf')
        | Inl e \<Rightarrow>
            (case e of
               Quic_Done \<Rightarrow> (Some None, buf, rs)
             | Quic_InvalidStreamState _ \<Rightarrow>
                 (Some (Some (err UploadTruncated ''Stream closed before BLAKE3 trailer was complete'')), buf, rs)
             | _ \<Rightarrow> (Some (Some (err Internal ''Stream receive error'')), buf, rs))))"

definition no_clobber_commit_guard :: "'d ReadingFile \<Rightarrow> World \<Rightarrow> (Response option \<times> 'd ReadingFile \<times> World) option" where
  "no_clobber_commit_guard st w =
     (if \<not> (rf_no_clobber st \<and> is_ok (symlink_metadata (w_fs w) (rf_final_path st))) then None
      else Some (fail_rejected_upload st w
        (err AlreadyExists (''path already exists (no_clobber): '' @ display_path (rf_final_path st)))))"

definition expected_digest :: "'d ReadingFile \<Rightarrow> bytes option" where
  "expected_digest st = (case rf_trailer_buf st of
     Some buf \<Rightarrow> resolve_put_checksum True buf (rf_expected_checksum st)
   | None \<Rightarrow> rf_expected_checksum st)"

text \<open>Hand the reservation over to the used bytes.\<close>

definition commit_user :: "u64 \<Rightarrow> User \<Rightarrow> User" where
  "commit_user n u = u\<lparr>u_in_flight_bytes := u_in_flight_bytes u - n, u_used_bytes := u_used_bytes u + n\<rparr>"

definition put_rename :: "'d ReadingFile \<Rightarrow> World \<Rightarrow> Response option \<times> 'd ReadingFile \<times> World" where
  "put_rename st w =
     (case fs_rename (w_fs w) (rf_temp_path st) (rf_final_path st) of
        Inl e \<Rightarrow> (Some (err Internal (''Failed to finalize file: '' @ io_text e)), st, w)
      | Inr fs \<Rightarrow>
          (Some Resp_Ok, st\<lparr>rf_completed := True\<rparr>,
           w\<lparr>w_fs := apply_mode (rf_final_path st) (rf_mode st) fs,
             w_user := commit_user (rf_reserved_bytes st) (w_user w),
             w_metrics := inc_uploads_completed (w_metrics w)\<rparr>))"

definition put_commit :: "'d Prims \<Rightarrow> 'd ReadingFile \<Rightarrow> World \<Rightarrow> Response option \<times> 'd ReadingFile \<times> World" where
  "put_commit P st w =
     (case bw_flush (rf_writer st) (w_fs w) of
        Inl e \<Rightarrow> (Some (err Internal (''Failed to flush file: '' @ io_text e)), st, w)
      | Inr (writer, fs) \<Rightarrow>
          (let st = st\<lparr>rf_writer := writer\<rparr>; w = w\<lparr>w_fs := fs\<rparr>
           in if (case expected_digest st of None \<Rightarrow> False | Some d \<Rightarrow> p_blake3 P (rf_hasher st) \<noteq> d)
              then fail_rejected_upload st w (err ChecksumMismatch ''Upload checksum verification failed'')
              else (case recheck_ancestors_no_symlinks fs (rf_final_path st) (u_home (w_user w)) of
                  Inl e \<Rightarrow> (Some (Resp_Err e), st, w)
                | Inr _ \<Rightarrow>
                    (case no_clobber_commit_guard st w of
                       Some refused \<Rightarrow> refused
                     | None \<Rightarrow> put_rename st w))))"

definition put_finish ::
  "'d Prims \<Rightarrow> stream_recvs \<Rightarrow> 'd ReadingFile \<Rightarrow> World \<Rightarrow> Response option \<times> 'd ReadingFile \<times> stream_recvs \<times> World" where
  "put_finish P rs st w =
     (if \<not> body_done st then (None, st, rs, w)
      else if rf_remaining st > 0
      then (let (r, st', w') = fail_rejected_upload st w (err DecodeError
              (''compressed body decoded to fewer bytes than declared: '' @ show_u64 (rf_remaining st) @ '' bytes missing''))
            in (r, st', rs, w'))
      else (case (case rf_trailer_buf st of
                    None \<Rightarrow> (None, None, rs)
                  | Some buf \<Rightarrow> (let (r, buf', rs') = put_trailer rs buf in (r, Some buf', rs'))) of
          (Some r, tb, rs') \<Rightarrow> (r, st\<lparr>rf_trailer_buf := tb\<rparr>, rs', w)
        | (None, tb, rs') \<Rightarrow> (let (r, st', w') = put_commit P (st\<lparr>rf_trailer_buf := tb\<rparr>) w in (r, st', rs', w'))))"

definition drive_put ::
  "'d Prims \<Rightarrow> nat \<Rightarrow> stream_recvs \<Rightarrow> 'd ReadingFile \<Rightarrow> World \<Rightarrow> Response option \<times> 'd ReadingFile \<times> stream_recvs \<times> World" where
  "drive_put P tmp_len rs st w =
     (case put_rehash P tmp_len st w of
        (Some r, st', w') \<Rightarrow> (r, st', rs, w')
      | (None, st', w') \<Rightarrow>
          (case put_body P rs st' w' of
             (Some resp, st'', rs', w'') \<Rightarrow> (Some resp, st'', rs', w'')
           | (None, st'', rs', w'') \<Rightarrow> put_finish P rs' st'' w''))"

text \<open>
  What every caller of \<open>drive_put\<close> does with its result: a response ends the stream, whose state
  is dropped.
\<close>

definition drop_upload :: "'d ReadingFile \<Rightarrow> World \<Rightarrow> World" where
  "drop_upload st w = (let (fs, u) = upload_drop st (w_fs w, w_user w) in w\<lparr>w_fs := fs, w_user := u\<rparr>)"

definition settle_put ::
  "Response option \<times> 'd ReadingFile \<times> stream_recvs \<times> World \<Rightarrow> Response option \<times> ('d, 'e) StreamState \<times> stream_recvs \<times> World" where
  "settle_put res =
     (case res of
        (None, st, rs, w) \<Rightarrow> (None, ReadingFileData st, rs, w)
      | (Some resp, st, rs, w) \<Rightarrow>
          (Some resp, Done, rs, drop_upload st (if is_err resp then requests_failed w else w)))"

section \<open>Accepting an upload\<close>

definition open_temp :: "FS \<Rightarrow> path \<Rightarrow> bool \<Rightarrow> (io_error, path \<times> FS) result" where
  "open_temp fs p resume =
     (let opts = OpenOptions_new\<lparr>oo_read := True, oo_write := True\<rparr>
      in if resume
         then bindR (require_regular_file fs p) (\<lambda>_. open_file fs (apply_no_follow opts) p)
         else open_file fs (apply_owner_only_no_follow (opts\<lparr>oo_create := True\<rparr>)) p)"

text \<open>
  A fresh upload: the place and offset of the writer, the bytes already accounted for, and no
  prefix to hash.
\<close>

definition open_fresh ::
  "path \<Rightarrow> World \<Rightarrow> (Response, path \<times> nat \<times> u64 \<times> ResumeRehash option) result \<times> World" where
  "open_fresh temp_path w =
     (case open_temp (w_fs w) temp_path False of
        Inl e \<Rightarrow> (Inl (err (io_code e) (''Failed to create upload temp file: '' @ io_text e)), w)
      | Inr (place, fs) \<Rightarrow>
          (let stale = (case handle_metadata fs place of Inl _ \<Rightarrow> 0 | Inr m \<Rightarrow> node_size m);
               u = (if stale > 0 then (w_user w)\<lparr>u_used_bytes := sat_sub (u_used_bytes (w_user w)) stale\<rparr> else w_user w);
               w = w\<lparr>w_fs := fs, w_user := u\<rparr>
           in case handle_set_len fs place 0 of
                Inl e \<Rightarrow> (Inl (err (io_code e) (''Failed to truncate upload temp file: '' @ io_text e)), w)
              | Inr fs \<Rightarrow>
                  (case handle_set_permissions fs place 0x180 of
                     Inl e \<Rightarrow> (Inl (err (io_code e) (''Failed to re-assert 0o600 on partial: '' @ io_text e)), w\<lparr>w_fs := fs\<rparr>)
                   | Inr fs \<Rightarrow> (Inr (place, 0, 0, None), w\<lparr>w_fs := fs\<rparr>))))"

definition open_resume ::
  "path \<Rightarrow> u64 \<Rightarrow> World \<Rightarrow> (Response, path \<times> nat \<times> u64 \<times> ResumeRehash option) result \<times> World" where
  "open_resume temp_path offset w =
     (case open_temp (w_fs w) temp_path True of
        Inl e \<Rightarrow> (Inl (err InvalidRange (''no resumable partial upload to continue: '' @ io_text e)), w)
      | Inr (place, fs) \<Rightarrow>
          (let w = w\<lparr>w_fs := fs\<rparr>;
               have = (case handle_metadata fs place of Inl _ \<Rightarrow> - 1 | Inr m \<Rightarrow> node_size m)
           in if have \<noteq> offset
              then (Inl (Resp_Err (ErrorResponse_with_details InvalidRange
                      (''resume offset '' @ show_u64 offset @ '' does not match partial length '' @ show_u64 have)
                      (Range offset have))), w)
              else (case handle_seek fs place (unat offset) of
                  Inl e \<Rightarrow> (Inl (err (io_code e) (''Failed to seek partial upload: '' @ io_text e)), w)
                | Inr pos \<Rightarrow>
                    (case open_temp fs temp_path True of
                       Inl e \<Rightarrow> (Inl (err (io_code e) (''Failed to reopen partial for re-hash: '' @ io_text e)), w)
                     | Inr (rplace, fs) \<Rightarrow>
                         (Inr (place, pos, offset,
                               Some \<lparr>rr_reader = \<lparr>fr_place = rplace, fr_pos = 0\<rparr>, rr_remaining = offset, rr_pending_body = []\<rparr>),
                          w\<lparr>w_fs := fs\<rparr>)))))"

text \<open>The checks that need neither the file system nor the user.\<close>

definition put_precheck :: "PutRequest \<Rightarrow> Response option" where
  "put_precheck req =
     (let offset = pr_offset req; body_size = pr_size req; final_size = sat_add offset body_size;
          no_checksum = (\<not> pr_checksum_trailer req \<and> pr_expected_checksum req = None)
      in if is_upload_temp (pr_path req)
         then Some (err PermissionDenied ''path refers to a server-internal upload temp file'')
         else if offset > 0 \<and> no_checksum then Some (err Unsupported ''resumed upload requires a checksum'')
         else if \<not> is_supported (pr_encoding req) then Some (err Unsupported ''unsupported upload transfer encoding'')
         else if pr_encoding req \<noteq> Encoding_Identity \<and> no_checksum
         then Some (err Unsupported ''compressed upload requires a checksum'')
         else if pr_encoding req = Encoding_Zstd \<and> pr_plaintext_size req \<noteq> body_size
         then Some (err Malformed (''compressed upload size '' @ show_u64 body_size @ '' != plaintext_size '' @ show_u64 (pr_plaintext_size req)))
         else if final_size > MAX_FILE_SIZE
         then Some (err FileTooLarge (''Upload too large: '' @ show_u64 final_size @ '' bytes (max '' @ show_u64 MAX_FILE_SIZE @ '' bytes)''))
         else None)"

text \<open>The decoder, when the encoding asks for one.\<close>

definition recv_encoding_for :: "'d Prims \<Rightarrow> PutRequest \<Rightarrow> (CompressionError, 'd RecvEncoding) result" where
  "recv_encoding_for P req =
     (if pr_encoding req = Encoding_Zstd
      then (case ZstdDecoder_new (p_decoder_new P) (min (pr_size req) MAX_FILE_SIZE) of
              Inl e \<Rightarrow> Inl e | Inr z \<Rightarrow> Inr (Recv_Zstd z))
      else Inr Recv_Identity)"

text \<open>Reserve the declared bytes, then check the quota with them counted.\<close>

definition put_reserve :: "PutRequest \<Rightarrow> path \<Rightarrow> World \<Rightarrow> (Response, InFlightReservation) result \<times> World" where
  "put_reserve req temp_path w =
     (let (reservation, u) = ifr_reserve (w_user w) (pr_size req);
          projected = sat_add (u_used_bytes u) (u_in_flight_bytes u)
      in case u_quota_bytes u of
           Some limit \<Rightarrow>
             (if projected > limit
              then (Inl (err QuotaExceeded
                      (''Quota exceeded: would use '' @ show_u64 projected @ '' bytes (limit '' @ show_u64 limit @ '')'')),
                    w\<lparr>w_user := ifr_drop reservation u,
                      w_fs := (if pr_offset req = 0
                               then (case remove_file (w_fs w) temp_path of Inl e \<Rightarrow> w_fs w | Inr fs \<Rightarrow> fs)
                               else w_fs w)\<rparr>)
              else (Inr reservation, w\<lparr>w_user := u\<rparr>))
         | None \<Rightarrow> (Inr reservation, w\<lparr>w_user := u\<rparr>))"

text \<open>Bytes that came with the request.\<close>

definition put_leftover :: "'d Prims \<Rightarrow> bytes \<Rightarrow> 'd ReadingFile \<Rightarrow> World \<Rightarrow> Response option \<times> 'd ReadingFile \<times> World" where
  "put_leftover P leftover st w =
     (if leftover = [] then (None, st, w)
      else (case rf_recv_encoding st of
          Recv_Identity \<Rightarrow>
            (case classify_put_chunk (length leftover) (rf_remaining st) (rf_trailer_buf st \<noteq> None) (trailer_space (rf_trailer_buf st)) of
               Inl ov \<Rightarrow> (Some (put_overflow_err ov), st, w)
             | Inr split \<Rightarrow>
                 (let st = (if to_trailer split > 0
                            then st\<lparr>rf_trailer_buf := extend_trailer (take (to_trailer split) (drop (to_body split) leftover)) (rf_trailer_buf st)\<rparr>
                            else st);
                      body = take (to_body split) leftover
                  in case rf_rehash st of
                       Some rh \<Rightarrow> (None, st\<lparr>rf_rehash := Some (rh\<lparr>rr_pending_body := body\<rparr>)\<rparr>, w)
                     | None \<Rightarrow>
                         (if body = [] then (None, st, w)
                          else (case write_body body st w of
                              (Inl resp, st', w') \<Rightarrow> (Some resp, st', w')
                            | (Inr _, st', w') \<Rightarrow> (None, st', w')))))
        | Recv_Zstd z \<Rightarrow>
            (case rf_rehash st of
               Some rh \<Rightarrow> (None, st\<lparr>rf_rehash := Some (rh\<lparr>rr_pending_body := leftover\<rparr>)\<rparr>, w)
             | None \<Rightarrow>
                 (case feed_zstd_put_chunk P leftover z st w of
                    (Inl resp, st', w') \<Rightarrow> fail_rejected_upload st' w' resp
                  | (Inr _, st', w') \<Rightarrow> (None, st', w')))))"

definition new_upload ::
  "PutRequest \<Rightarrow> path \<Rightarrow> path \<Rightarrow> path \<times> nat \<times> u64 \<times> ResumeRehash option \<Rightarrow> 'd RecvEncoding \<Rightarrow> UploadClaim \<Rightarrow> 'd ReadingFile" where
  "new_upload req final_path temp_path opened enc claim =
     (let (place, pos, prior, rehash) = opened
      in \<lparr>rf_final_path = final_path, rf_temp_path = temp_path,
          rf_writer = BufWriter_with_capacity FILE_CHUNK_SIZE place pos,
          rf_remaining = pr_size req, rf_mode = pr_mode req, rf_completed = False,
          rf_no_clobber = pr_no_clobber req, rf_hasher = [], rf_recv_encoding = enc,
          rf_expected_checksum = pr_expected_checksum req,
          rf_trailer_buf = (if pr_checksum_trailer req then Some TrailerBuf_new else None),
          rf_reserved_bytes = pr_size req, rf_prior_bytes = prior, rf_rehash = rehash, rf_claim = claim\<rparr>)"

definition fail_put :: "Response \<Rightarrow> stream_recvs \<Rightarrow> World \<Rightarrow> Response option \<times> ('d, 'e) StreamState \<times> stream_recvs \<times> World" where
  "fail_put resp rs w = (Some resp, Done, rs, requests_failed w)"

text \<open>
  What \<open>start_put\<close> does before it inserts the new state into the stream table: \<open>Inl\<close> is a
  refusal, in the world in which it is sent, and \<open>Inr\<close> the state that is inserted. Everything
  after the claim is \<open>open_put\<close>; an early return gives the claim back.
\<close>

definition open_put ::
  "'d Prims \<Rightarrow> PutRequest \<Rightarrow> path \<Rightarrow> UploadClaim \<Rightarrow> World \<Rightarrow> Response \<times> World + 'd ReadingFile \<times> World" where
  "open_put P req final_path claim w =
     (let temp_path = temp_path_for final_path;
          refuse = (\<lambda>resp w. Inl (resp, w\<lparr>w_user := claim_drop claim (w_user w)\<rparr>))
      in case (if pr_offset req = 0 then open_fresh temp_path w else open_resume temp_path (pr_offset req) w) of
           (Inl resp, w) \<Rightarrow> refuse resp w
         | (Inr opened, w) \<Rightarrow>
             (case put_reserve req temp_path w of
                (Inl resp, w) \<Rightarrow> refuse resp w
              | (Inr reservation, w) \<Rightarrow>
                  (case recv_encoding_for P req of
                     Inl e \<Rightarrow>
                       refuse (err Internal (''failed to initialize zstd decoder: '' @ compression_text e))
                         (w\<lparr>w_user := ifr_drop reservation (w_user w)\<rparr>)
                   | Inr enc \<Rightarrow>
                       (case put_leftover P (pr_leftover req) (new_upload req final_path temp_path opened enc claim) w of
                          (Some resp, st, w) \<Rightarrow> Inl (resp, drop_upload st w)
                        | (None, st, w) \<Rightarrow> Inr (st, w)))))"

text \<open>\<open>fs0\<close> is the file system in which the path is resolved; everything else happens in \<open>w\<close>.\<close>

definition begin_put ::
  "'d Prims \<Rightarrow> FS \<Rightarrow> path \<Rightarrow> PutRequest \<Rightarrow> World \<Rightarrow> Response \<times> World + 'd ReadingFile \<times> World" where
  "begin_put P fs0 cwd req w =
     (case put_precheck req of
        Some resp \<Rightarrow> Inl (resp, w)
      | None \<Rightarrow>
          (case resolve_parent fs0 cwd (u_home (w_user w)) (pr_path req) of
             Inl e \<Rightarrow> Inl (Resp_Err e, w)
           | Inr final_path \<Rightarrow>
               (if final_path = [] then Inl (err Malformed ''invalid upload path: no file name'', w)
                else (case recheck_ancestors_no_symlinks (w_fs w) final_path (u_home (w_user w)) of
                    Inl e \<Rightarrow> Inl (Resp_Err e, w)
                  | Inr _ \<Rightarrow>
                      (if pr_no_clobber req \<and> is_ok (symlink_metadata (w_fs w) final_path)
                       then Inl (err AlreadyExists (''path already exists (no_clobber): '' @ pr_path req), w)
                       else (case try_claim final_path (w_user w) of
                           (None, u) \<Rightarrow>
                             Inl (err AlreadyExists (''an upload to this path is already in progress: '' @ pr_path req), w)
                         | (Some claim, u) \<Rightarrow> open_put P req final_path claim (w\<lparr>w_user := u\<rparr>)))))))"

text \<open>A new upload is driven at once, with what the stream has buffered. Its answer ends it.\<close>

definition put_outcome ::
  "'d Prims \<Rightarrow> nat \<Rightarrow> stream_recvs \<Rightarrow> Response \<times> World + 'd ReadingFile \<times> World
     \<Rightarrow> Response option \<times> ('d, 'e) StreamState \<times> stream_recvs \<times> World" where
  "put_outcome P tmp_len rs res =
     (case res of
        Inl (resp, w) \<Rightarrow> fail_put resp rs w
      | Inr (st, w) \<Rightarrow> settle_put (drive_put P tmp_len rs st w))"

lemma put_outcome_refused [simp]: "put_outcome P tmp_len rs (Inl (resp, w)) = fail_put resp rs w"
  by (simp add: put_outcome_def)

definition accept_put ::
  "'d Prims \<Rightarrow> nat \<Rightarrow> PutRequest \<Rightarrow> path \<Rightarrow> UploadClaim \<Rightarrow> stream_recvs \<Rightarrow> World
     \<Rightarrow> Response option \<times> ('d, 'e) StreamState \<times> stream_recvs \<times> World" where
  "accept_put P tmp_len req final_path claim rs w = put_outcome P tmp_len rs (open_put P req final_path claim w)"

definition start_put ::
  "'d Prims \<Rightarrow> nat \<Rightarrow> FS \<Rightarrow> path \<Rightarrow> PutRequest \<Rightarrow> stream_recvs \<Rightarrow> World
     \<Rightarrow> Response option \<times> ('d, 'e) StreamState \<times> stream_recvs \<times> World" where
  "start_put P tmp_len fs0 cwd req rs w = put_outcome P tmp_len rs (begin_put P fs0 cwd req w)"

end
