(* ===== verification/Transfer_Get.thy ===== *)
theory Transfer_Get
  imports Transfer_Put Handler_Props
begin

text \<open>
  Downloads: \<open>crates/qftp-server/src/transfer_get.rs\<close>. \<open>start_get\<close> checks a request and opens the
  file; \<open>drive_one_sender\<close> re-hashes the prefix that a resumed download skips, one chunk per call,
  then sends the body, plain or compressed, and the BLAKE3 trailer, and stops whenever the stream
  accepts no more.

  \<open>stream_send\<close> of the QUIC connection is a parameter, as in theory Framing. It never accepts more
  bytes than it is given (the code would panic): counts are cut to the length. BLAKE3 and the zstd
  encoder are parameters; the encoder may not return, so the compressed body is an option.
\<close>

section \<open>Parameters\<close>

record 'e GetPrims =
  g_blake3 :: "bytes \<Rightarrow> bytes"
  g_encoder_new :: "(io_error, 'e) result"
  g_encoder_run :: "'e encoder_run"
  g_encoder_finish :: "'e encoder_finish"

section \<open>Accepting a download\<close>

definition open_get_file :: "FS \<Rightarrow> path \<Rightarrow> (io_error, path \<times> Node) result" where
  "open_get_file fs p =
     bindR (open_file fs (apply_no_follow_nonblock (OpenOptions_new\<lparr>oo_read := True\<rparr>)) p) (\<lambda>(place, _).
       bindR (handle_metadata fs place) (\<lambda>meta. Inr (place, meta)))"

record GetRequest =
  gr_path :: string
  gr_offset :: u64
  gr_length :: "u64 option"
  gr_accept_encoding :: "Encoding list"

definition get_encoding :: "GetRequest \<Rightarrow> path \<Rightarrow> u64 \<Rightarrow> Encoding" where
  "get_encoding req file_path bytes_to_send =
     (if bytes_to_send \<ge> 1024 \<and> Encoding_Zstd \<in> set (gr_accept_encoding req) \<and> \<not> is_likely_incompressible file_path
      then Encoding_Zstd else Encoding_Identity)"

text \<open>
  \<open>fs0\<close> is the file system in which the path is resolved. The result is the response and the new
  state of the stream; a refusal counts as a failed request.
\<close>

definition start_get ::
  "'e GetPrims \<Rightarrow> FS \<Rightarrow> path \<Rightarrow> GetRequest \<Rightarrow> World \<Rightarrow> Response \<times> ('d, 'e) StreamState \<times> World" where
  "start_get P fs0 cwd req w =
     (let fail = (\<lambda>resp. (resp, Done, requests_failed w)); offset = gr_offset req
      in if is_upload_temp (gr_path req)
         then fail (err PermissionDenied ''path refers to a server-internal upload temp file'')
         else (case resolve fs0 cwd (u_home (w_user w)) (gr_path req) of
             Inl e \<Rightarrow> fail (Resp_Err e)
           | Inr file_path \<Rightarrow>
               (case recheck_ancestors_no_symlinks (w_fs w) file_path (u_home (w_user w)) of
                  Inl e \<Rightarrow> fail (err (er_code e) (er_message e))
                | Inr _ \<Rightarrow>
                    (case open_get_file (w_fs w) file_path of
                       Inl e \<Rightarrow> fail (err (io_code e) (''Failed to open file: '' @ io_text e))
                     | Inr (place, meta) \<Rightarrow>
                         (let len = node_size meta
                          in if \<not> is_file_kind (n_kind meta) then fail (err IsADirectory ''Not a regular file'')
                             else if len > MAX_FILE_SIZE
                             then fail (err FileTooLarge (''File too large: '' @ show_u64 len @ '' bytes (max '' @ show_u64 MAX_FILE_SIZE @ '' bytes)''))
                             else if offset > len
                             then fail (Resp_Err (ErrorResponse_with_details InvalidRange
                                    (''offset '' @ show_u64 offset @ '' past end of file (size '' @ show_u64 len @ '')'') (Range offset len)))
                             else (let remaining = len - offset;
                                       bytes_to_send = (case gr_length req of Some n \<Rightarrow> min n remaining | None \<Rightarrow> remaining);
                                       encoding = get_encoding req file_path bytes_to_send
                                   in case (if encoding = Encoding_Zstd
                                            then (case ZstdEncoder_new (g_encoder_new P) of Inl e \<Rightarrow> Inl e | Inr z \<Rightarrow> Inr (Send_Zstd z False))
                                            else Inr Send_Identity) of
                                        Inl e \<Rightarrow> fail (err Internal (''failed to initialize zstd encoder: '' @ compression_text e))
                                      | Inr enc \<Rightarrow>
                                          (Resp_FileReady \<lparr>fr_size = bytes_to_send, fr_total_size = len, fr_checksum_follows = True,
                                             fr_hash_algorithm = HashAlgorithm_Blake3, fr_encoding = encoding,
                                             fr_plaintext_size = (if encoding = Encoding_Zstd then bytes_to_send else 0)\<rparr>,
                                           SendingFileData \<lparr>sf_reader = \<lparr>fr_place = place, fr_pos = 0\<rparr>, sf_total_size = bytes_to_send,
                                             sf_encoding = enc, sf_sent = 0, sf_hasher = [], sf_trailer = None, sf_trailer_offset = 0,
                                             sf_finished = False, sf_prefix_remaining = offset\<rparr>,
                                           w)))))))"

section \<open>Reading\<close>

text \<open>\<open>Read::read_exact\<close> on a buffered reader, and \<open>BufReader::seek_relative\<close> back by \<open>n\<close> bytes.\<close>

definition read_exact :: "FS \<Rightarrow> FileReader \<Rightarrow> nat \<Rightarrow> (io_error, bytes) result \<times> FileReader" where
  "read_exact fs rd want =
     (case handle_read fs (fr_place rd) (fr_pos rd) want of
        Inl e \<Rightarrow> (Inl e, rd)
      | Inr data \<Rightarrow>
          ((if length data < want then Inl (UnexpectedEof ''failed to fill whole buffer'') else Inr data),
           rd\<lparr>fr_pos := fr_pos rd + length data\<rparr>))"

definition seek_back :: "FS \<Rightarrow> FileReader \<Rightarrow> nat \<Rightarrow> (io_error, unit) result \<times> FileReader" where
  "seek_back fs rd n =
     (case handle_seek fs (fr_place rd) (fr_pos rd - n) of Inl e \<Rightarrow> (Inl e, rd) | Inr pos \<Rightarrow> (Inr (), rd\<lparr>fr_pos := pos\<rparr>))"

section \<open>Sending\<close>

datatype SendOutcome = Blocked | Finished | Failed

text \<open>\<open>Some outcome\<close> returns from \<open>drive_one_sender\<close>; \<open>None\<close> goes on to the next phase.\<close>

definition send_phase_prefix_rehash ::
  "'c stream_send \<Rightarrow> FS \<Rightarrow> u64 \<Rightarrow> nat \<Rightarrow> 'e SendingFile \<Rightarrow> 'c \<Rightarrow> SendOutcome option \<times> 'e SendingFile \<times> 'c" where
  "send_phase_prefix_rehash stream_send fs sid chunk_len st c =
     (if sf_prefix_remaining st > 0
      then (let want = min (unat (sf_prefix_remaining st)) chunk_len
            in case read_exact fs (sf_reader st) want of
                 (Inl e, rd) \<Rightarrow> (Some Failed, st\<lparr>sf_reader := rd\<rparr>, snd (stream_send c sid [] True))
               | (Inr data, rd) \<Rightarrow>
                   (let st' = st\<lparr>sf_reader := rd, sf_hasher := sf_hasher st @ data,
                                 sf_prefix_remaining := sf_prefix_remaining st - of_nat want\<rparr>
                    in ((if sf_prefix_remaining st' > 0 then Some Blocked else None), st', c)))
      else (None, st, c))"

text \<open>The stream took fewer bytes than were read: put the reader back and wait.\<close>

definition send_blocked :: "FS \<Rightarrow> nat \<Rightarrow> 'e SendingFile \<Rightarrow> 'c \<Rightarrow> Metrics \<Rightarrow> SendOutcome option \<times> 'e SendingFile \<times> 'c \<times> Metrics" where
  "send_blocked fs n st c m =
     (case seek_back fs (sf_reader st) n of
        (Inl e, rd) \<Rightarrow> (Some Failed, st\<lparr>sf_reader := rd\<rparr>, c, m)
      | (Inr _, rd) \<Rightarrow> (Some Blocked, st\<lparr>sf_reader := rd\<rparr>, c, m))"

lemma sent_measure:
  assumes "sent < tot" "n \<le> unat (tot - sent)" "0 < n"
  shows "unat ((tot :: u64) - (sent + of_nat n)) < unat (tot - sent)"
proof -
  have "tot - (sent + of_nat n) = (tot - sent) - of_nat n" by simp
  then have "unat (tot - (sent + of_nat n)) = unat (tot - sent) - n" using remaining_minus assms(2) by metis
  then show ?thesis using assms(2,3) by simp
qed

function send_phase_body_identity ::
  "'c stream_send \<Rightarrow> FS \<Rightarrow> u64 \<Rightarrow> nat \<Rightarrow> 'e SendingFile \<Rightarrow> 'c \<Rightarrow> Metrics \<Rightarrow> SendOutcome option \<times> 'e SendingFile \<times> 'c \<times> Metrics" where
  "send_phase_body_identity stream_send fs sid chunk_len st c m =
     (if \<not> (sf_sent st < sf_total_size st \<and> sf_trailer st = None) then (None, st, c, m)
      else (let want = min (unat (sf_total_size st - sf_sent st)) chunk_len
            in case read_exact fs (sf_reader st) want of
                 (Inl e, rd) \<Rightarrow> (Some Failed, st\<lparr>sf_reader := rd\<rparr>, snd (stream_send c sid [] True), m)
               | (Inr data, rd) \<Rightarrow>
                   (case stream_send c sid data False of
                      (Inl e, c') \<Rightarrow>
                        (if e = Quic_Done then send_blocked fs want (st\<lparr>sf_reader := rd\<rparr>) c' m
                         else (Some Failed, st\<lparr>sf_reader := rd\<rparr>, c', m))
                    | (Inr n0, c') \<Rightarrow>
                        (let n = min n0 want
                         in if n = 0 then send_blocked fs want (st\<lparr>sf_reader := rd\<rparr>) c' m
                            else (let st' = st\<lparr>sf_reader := rd, sf_hasher := sf_hasher st @ take n data,
                                             sf_sent := sf_sent st + of_nat n\<rparr>;
                                      m' = add_bytes_sent (of_nat n) m
                                  in if n < want then send_blocked fs (want - n) st' c' m'
                                     else send_phase_body_identity stream_send fs sid chunk_len st' c' m')))))"
  by pat_completeness auto

termination
  by (relation "measure (\<lambda>(s, fs, sid, k, st, c, m). unat (sf_total_size st - sf_sent st))")
    (auto intro!: sent_measure)

declare send_phase_body_identity.simps [simp del]

text \<open>
  The compressed body: pending output of the encoder is sent before more of the file is read, and
  the frame is finished at the end of the range. The three branches are the loop's body.
\<close>

definition zstd_more :: "'e SendingFile \<Rightarrow> 'e ZstdEncoder \<Rightarrow> bool \<Rightarrow> bool" where
  "zstd_more st z frame_finished \<longleftrightarrow>
     (sf_sent st < sf_total_size st \<or> \<not> frame_finished \<or> encoder_pending z \<noteq> []) \<and> sf_trailer st = None"

definition zstd_send_pending ::
  "'c stream_send \<Rightarrow> u64 \<Rightarrow> 'e ZstdEncoder \<Rightarrow> bool \<Rightarrow> 'e SendingFile \<Rightarrow> 'c \<Rightarrow> Metrics \<Rightarrow> SendOutcome option \<times> 'e SendingFile \<times> 'c \<times> Metrics" where
  "zstd_send_pending stream_send sid z ff st c m =
     (case stream_send c sid (encoder_pending z) False of
        (Inl e, c') \<Rightarrow> (Some (if e = Quic_Done then Blocked else Failed), st, c', m)
      | (Inr n0, c') \<Rightarrow>
          (let n = min n0 (length (encoder_pending z))
           in if n = 0 then (Some Blocked, st, c', m)
              else (let z' = encoder_consume z n
                    in ((if encoder_pending z' \<noteq> [] then Some Blocked else None),
                        st\<lparr>sf_encoding := Send_Zstd z' ff\<rparr>, c', add_bytes_sent (of_nat n) m))))"

definition zstd_read_more ::
  "'e GetPrims \<Rightarrow> 'c stream_send \<Rightarrow> FS \<Rightarrow> u64 \<Rightarrow> nat \<Rightarrow> 'e ZstdEncoder \<Rightarrow> bool \<Rightarrow> 'e SendingFile \<Rightarrow> 'c \<Rightarrow> Metrics
     \<Rightarrow> (SendOutcome option \<times> 'e SendingFile \<times> 'c \<times> Metrics) option" where
  "zstd_read_more P stream_send fs sid chunk_len z ff st c m =
     (let want = min (unat (sf_total_size st - sf_sent st)) chunk_len
      in case read_exact fs (sf_reader st) want of
           (Inl e, rd) \<Rightarrow> Some (Some Failed, st\<lparr>sf_reader := rd\<rparr>, snd (stream_send c sid [] True), m)
         | (Inr data, rd) \<Rightarrow>
             (let st = st\<lparr>sf_reader := rd, sf_hasher := sf_hasher st @ data\<rparr>
              in map_option (\<lambda>(r, z').
                   case r of
                     Inl e \<Rightarrow> (Some Failed, st\<lparr>sf_encoding := Send_Zstd z' ff\<rparr>, snd (stream_send c sid [] True), m)
                   | Inr _ \<Rightarrow> (None, st\<lparr>sf_encoding := Send_Zstd z' ff, sf_sent := sf_sent st + of_nat want\<rparr>, c, m))
                 (encoder_push (g_encoder_run P) z data)))"

definition zstd_finish_frame ::
  "'e GetPrims \<Rightarrow> 'c stream_send \<Rightarrow> u64 \<Rightarrow> 'e ZstdEncoder \<Rightarrow> bool \<Rightarrow> 'e SendingFile \<Rightarrow> 'c \<Rightarrow> Metrics
     \<Rightarrow> (SendOutcome option \<times> 'e SendingFile \<times> 'c \<times> Metrics) option" where
  "zstd_finish_frame P stream_send sid z ff st c m =
     (if ff then Some (None, st, c, m)
      else map_option (\<lambda>(r, z').
             case r of
               Inl e \<Rightarrow> (Some Failed, st\<lparr>sf_encoding := Send_Zstd z' ff\<rparr>, snd (stream_send c sid [] True), m)
             | Inr _ \<Rightarrow> (None, st\<lparr>sf_encoding := Send_Zstd z' True\<rparr>, c, m))
           (encoder_finish (g_encoder_finish P) z))"

definition zstd_round ::
  "'e GetPrims \<Rightarrow> 'c stream_send \<Rightarrow> FS \<Rightarrow> u64 \<Rightarrow> nat \<Rightarrow> 'e ZstdEncoder \<Rightarrow> bool \<Rightarrow> 'e SendingFile \<Rightarrow> 'c \<Rightarrow> Metrics
     \<Rightarrow> (SendOutcome option \<times> 'e SendingFile \<times> 'c \<times> Metrics) option" where
  "zstd_round P stream_send fs sid chunk_len z ff st c m =
     (if encoder_pending z \<noteq> [] then Some (zstd_send_pending stream_send sid z ff st c m)
      else if sf_sent st < sf_total_size st then zstd_read_more P stream_send fs sid chunk_len z ff st c m
      else zstd_finish_frame P stream_send sid z ff st c m)"

partial_function (option) send_phase_body_zstd ::
  "'e GetPrims \<Rightarrow> 'c stream_send \<Rightarrow> FS \<Rightarrow> u64 \<Rightarrow> nat \<Rightarrow> 'e SendingFile \<Rightarrow> 'c \<Rightarrow> Metrics
     \<Rightarrow> (SendOutcome option \<times> 'e SendingFile \<times> 'c \<times> Metrics) option" where
  "send_phase_body_zstd P stream_send fs sid chunk_len st c m =
     (case sf_encoding st of
        Send_Identity \<Rightarrow> Some (None, st, c, m)
      | Send_Zstd z ff \<Rightarrow>
          (if \<not> zstd_more st z ff then Some (None, st, c, m)
           else Option.bind (zstd_round P stream_send fs sid chunk_len z ff st c m) (\<lambda>(r, st', c', m').
                  case r of
                    Some outcome \<Rightarrow> Some (Some outcome, st', c', m')
                  | None \<Rightarrow> send_phase_body_zstd P stream_send fs sid chunk_len st' c' m')))"

definition send_phase_body ::
  "'e GetPrims \<Rightarrow> 'c stream_send \<Rightarrow> FS \<Rightarrow> u64 \<Rightarrow> nat \<Rightarrow> 'e SendingFile \<Rightarrow> 'c \<Rightarrow> Metrics
     \<Rightarrow> (SendOutcome option \<times> 'e SendingFile \<times> 'c \<times> Metrics) option" where
  "send_phase_body P stream_send fs sid chunk_len st c m =
     (case sf_encoding st of
        Send_Identity \<Rightarrow> Some (send_phase_body_identity stream_send fs sid chunk_len st c m)
      | Send_Zstd z ff \<Rightarrow> send_phase_body_zstd P stream_send fs sid chunk_len st c m)"

text \<open>\<open>None\<close>: all 32 bytes are queued.\<close>

function send_trailer_bytes ::
  "'c stream_send \<Rightarrow> u64 \<Rightarrow> bytes \<Rightarrow> nat \<Rightarrow> 'c \<Rightarrow> Metrics \<Rightarrow> SendOutcome option \<times> nat \<times> 'c \<times> Metrics" where
  "send_trailer_bytes stream_send sid bs off c m =
     (if \<not> off < length bs then (None, off, c, m)
      else (case stream_send c sid (drop off bs) False of
          (Inl e, c') \<Rightarrow> (Some (if e = Quic_Done then Blocked else Failed), off, c', m)
        | (Inr n0, c') \<Rightarrow>
            (let n = min n0 (length bs - off)
             in if n = 0 then (Some Blocked, off, c', m)
                else send_trailer_bytes stream_send sid bs (off + n) c' (add_bytes_sent (of_nat n) m))))"
  by pat_completeness auto
termination
  by (relation "measure (\<lambda>(s, sid, bs, off, c, m). length bs - off)") auto

declare send_trailer_bytes.simps [simp del]

definition send_phase_trailer ::
  "'e GetPrims \<Rightarrow> 'c stream_send \<Rightarrow> u64 \<Rightarrow> 'e SendingFile \<Rightarrow> 'c \<Rightarrow> Metrics \<Rightarrow> SendOutcome \<times> 'e SendingFile \<times> 'c \<times> Metrics" where
  "send_phase_trailer P stream_send sid st c m =
     (let st = (case sf_trailer st of
            None \<Rightarrow> st\<lparr>sf_trailer := Some (g_blake3 P (sf_hasher st)), sf_trailer_offset := 0\<rparr> | Some _ \<Rightarrow> st);
          bs = the (sf_trailer st)
      in case send_trailer_bytes stream_send sid bs (sf_trailer_offset st) c m of
           (Some outcome, off, c', m') \<Rightarrow> (outcome, st\<lparr>sf_trailer_offset := off\<rparr>, c', m')
         | (None, off, c', m') \<Rightarrow>
             (let st = st\<lparr>sf_trailer_offset := off\<rparr>
              in case stream_send c' sid [] True of
                   (Inl e, c'') \<Rightarrow>
                     (if e = Quic_Done then (Finished, st\<lparr>sf_finished := True\<rparr>, c'', inc_downloads_completed m')
                      else (Failed, st, c'', m'))
                 | (Inr _, c'') \<Rightarrow> (Finished, st\<lparr>sf_finished := True\<rparr>, c'', inc_downloads_completed m')))"

definition drive_one_sender ::
  "'e GetPrims \<Rightarrow> 'c stream_send \<Rightarrow> FS \<Rightarrow> u64 \<Rightarrow> nat \<Rightarrow> 'e SendingFile \<Rightarrow> 'c \<Rightarrow> Metrics
     \<Rightarrow> (SendOutcome \<times> 'e SendingFile \<times> 'c \<times> Metrics) option" where
  "drive_one_sender P stream_send fs sid chunk_len st c m =
     (if sf_finished st then Some (Finished, st, c, m)
      else (case send_phase_prefix_rehash stream_send fs sid chunk_len st c of
          (Some outcome, st', c') \<Rightarrow> Some (outcome, st', c', m)
        | (None, st', c') \<Rightarrow>
            map_option (\<lambda>(r, st'', c'', m').
              case r of
                Some outcome \<Rightarrow> (outcome, st'', c'', m')
              | None \<Rightarrow> send_phase_trailer P stream_send sid st'' c'' m')
            (send_phase_body P stream_send fs sid chunk_len st' c' m)))"

end
