(* ===== verification/Connection.thy ===== *)
theory Connection
  imports Transfer_Get Rate_Limits
begin

text \<open>
  The state of a connection (\<open>crates/qftp-server/src/connection.rs\<close>) and the half of
  \<open>server.rs\<close> that runs generic requests on the pool of worker threads: dispatching a job, the
  worker's handling of it, and applying its result.

  An \<open>Arc<User>\<close> is a pointer into the user directory: \<open>None\<close> is the anonymous record, \<open>Some n\<close>
  the record stored under the name \<open>n\<close>; the record itself, with its atomic counters, is in the
  directory, which every thread shares. \<open>Arc::ptr_eq\<close> is equality of pointers.

  quiche is a parameter, the record \<open>Quic\<close> of the calls the server makes. What the calls of
  \<open>stream_recv\<close> on a stream will return is \<open>q_inbound\<close>, and \<open>q_taken\<close> is the connection in which
  only the given outcomes are left of them. \<open>flush_egress\<close>, the subject of theory Gso, is
  \<open>q_flush\<close> here.
\<close>

section \<open>Parameters\<close>

record 'c Quic =
  q_stream_send :: "'c stream_send"
  q_inbound :: "'c \<Rightarrow> u64 \<Rightarrow> stream_recvs"
  q_taken :: "'c \<Rightarrow> u64 \<Rightarrow> stream_recvs \<Rightarrow> 'c"
  q_readable :: "'c \<Rightarrow> u64 list"
  q_is_established :: "'c \<Rightarrow> bool"
  q_is_in_early_data :: "'c \<Rightarrow> bool"
  q_is_closed :: "'c \<Rightarrow> bool"
  q_peer_cert :: "'c \<Rightarrow> bytes option"
  q_timeout :: "'c \<Rightarrow> nat option"
  q_on_timeout :: "'c \<Rightarrow> 'c"
  q_close :: "'c \<Rightarrow> u64 \<Rightarrow> string \<Rightarrow> 'c"
  q_flush :: "'c \<Rightarrow> (io_error TransportError, unit) result \<times> 'c"
  q_recv :: "'c \<Rightarrow> SocketAddr \<Rightarrow> bytes \<Rightarrow> (QuicError, nat) result \<times> 'c"
  q_accept :: "bytes \<Rightarrow> bytes option \<Rightarrow> SocketAddr \<Rightarrow> (QuicError, 'c) result"
  q_retry :: "bytes \<Rightarrow> bytes \<Rightarrow> bytes \<Rightarrow> bytes \<Rightarrow> u32 \<Rightarrow> (QuicError, bytes) result"

section \<open>Users by pointer\<close>

type_synonym UserPtr = "string option"

definition get_user :: "UserDirectory \<Rightarrow> UserPtr \<Rightarrow> User" where
  "get_user d p =
     (case p of
        None \<Rightarrow> ud_anonymous d
      | Some n \<Rightarrow> (case map_of (by_name d) n of Some u \<Rightarrow> u | None \<Rightarrow> ud_anonymous d))"

definition set_user :: "UserDirectory \<Rightarrow> UserPtr \<Rightarrow> User \<Rightarrow> UserDirectory" where
  "set_user d p u =
     (case p of
        None \<Rightarrow> d\<lparr>ud_anonymous := u\<rparr>
      | Some n \<Rightarrow> d\<lparr>by_name := AList.map_entry n (\<lambda>_. u) (by_name d)\<rparr>)"

section \<open>Connections\<close>

text \<open>
  An entry of the stream table carries the user pointer that \<open>ReadingFileData\<close> holds as its
  \<open>owner\<close>. Instants are nanoseconds.
\<close>

record ('c, 'd, 'e) ConnectionContext =
  cx_conn :: 'c
  cx_peer_addr :: SocketAddr
  cx_user :: UserPtr
  cx_cwd :: path
  cx_streams :: "(u64 \<times> UserPtr \<times> ('d, 'e) StreamState) list"
  cx_created_at :: nat
  cx_scid :: bytes
  cx_generation :: u64
  cx_handler_in_flight :: bool
  cx_pending_handler_jobs :: "(u64 \<times> Request) list"

definition ConnectionContext_new ::
  "'c \<Rightarrow> SocketAddr \<Rightarrow> UserDirectory \<Rightarrow> UserPtr \<Rightarrow> bytes \<Rightarrow> u64 \<Rightarrow> nat \<Rightarrow> ('c, 'd, 'e) ConnectionContext" where
  "ConnectionContext_new conn peer_addr users user scid generation now =
     \<lparr>cx_conn = conn, cx_peer_addr = peer_addr, cx_user = user, cx_cwd = u_home (get_user users user),
      cx_streams = [], cx_created_at = now, cx_scid = scid, cx_generation = generation,
      cx_handler_in_flight = False, cx_pending_handler_jobs = []\<rparr>"

section \<open>Jobs\<close>

record HandlerJob =
  hj_conn_key :: bytes
  hj_generation :: u64
  hj_stream_id :: u64
  hj_req :: Request
  hj_cwd :: path
  hj_user :: UserPtr

record HandlerResult =
  hr_conn_key :: bytes
  hr_generation :: u64
  hr_stream_id :: u64
  hr_response :: Response
  hr_new_cwd :: path
  hr_user :: UserPtr

definition handler_result_is_stale :: "u64 \<Rightarrow> u64 \<Rightarrow> bool" where
  "handler_result_is_stale ctx_generation result_generation \<longleftrightarrow> ctx_generation \<noteq> result_generation"

definition handler_result_user_matches :: "UserPtr \<Rightarrow> UserPtr \<Rightarrow> bool" where
  "handler_result_user_matches ctx_user result_user \<longleftrightarrow> ctx_user = result_user"

text \<open>
  The pool: the two channels and the jobs the workers are running, each with the file system it
  was started in. \<open>hp_alive\<close> is whether the job channel has a receiver.
\<close>

record HandlerPool =
  hp_alive :: bool
  hp_jobs :: "HandlerJob list"
  hp_running :: "(HandlerJob \<times> FS) list"
  hp_results :: "HandlerResult list"

definition HANDLER_WORKERS :: nat where "HANDLER_WORKERS = 4"

text \<open>
  What the threads share. The \<open>n\<close>-th reading of the clock is \<open>sx_clock n\<close>, and \<open>sx_ticks\<close> counts
  the readings.
\<close>

record StreamCtx =
  sx_fs :: FS
  sx_users :: UserDirectory
  sx_metrics :: Metrics
  sx_rate_limiter :: RateLimiter
  sx_pool :: HandlerPool
  sx_clock :: "nat \<Rightarrow> nat"
  sx_ticks :: nat

definition now_tick :: "StreamCtx \<Rightarrow> nat \<times> StreamCtx" where
  "now_tick sx = (sx_clock sx (sx_ticks sx), sx\<lparr>sx_ticks := Suc (sx_ticks sx)\<rparr>)"

definition metric :: "(Metrics \<Rightarrow> Metrics) \<Rightarrow> StreamCtx \<Rightarrow> StreamCtx" where
  "metric f sx = sx\<lparr>sx_metrics := f (sx_metrics sx)\<rparr>"

definition metric_if :: "bool \<Rightarrow> (Metrics \<Rightarrow> Metrics) \<Rightarrow> StreamCtx \<Rightarrow> StreamCtx" where
  "metric_if b f sx = (if b then metric f sx else sx)"

section \<open>Running a request\<close>

fun run_handler :: "FS \<Rightarrow> FS \<Rightarrow> Request \<Rightarrow> path \<Rightarrow> User \<Rightarrow> Response \<times> path \<times> FS \<times> User" where
  "run_handler fs0 fs (Req_Rm path) cwd user =
     (let (resp, fs', user') = quota_aware_remove fs0 fs path cwd user in (resp, cwd, fs', user'))"
| "run_handler fs0 fs (Req_Rename from to) cwd user = quota_aware_rename fs (Req_Rename from to) cwd user"
| "run_handler fs0 fs req cwd user =
     (let (resp, cwd', fs') = handle_request_at fs0 fs req cwd (u_home user) in (resp, cwd', fs', user))"

definition is_cd :: "Request \<Rightarrow> bool" where
  "is_cd req \<longleftrightarrow> (case req of Req_Cd _ \<Rightarrow> True | _ \<Rightarrow> False)"

text \<open>
  A panic of the handler: the file system and the used bytes of the user at that moment, and the
  working directory, which only \<open>Cd\<close> writes.
\<close>

type_synonym crash = "path \<times> FS \<times> u64"

definition handle_handler_panic ::
  "crash option \<Rightarrow> FS \<Rightarrow> FS \<Rightarrow> Request \<Rightarrow> path \<Rightarrow> User \<Rightarrow> Response \<times> path \<times> FS \<times> User" where
  "handle_handler_panic crash fs0 fs req cwd user =
     (let cwd_snapshot = (if is_cd req then Some cwd else None)
      in case crash of
           None \<Rightarrow> run_handler fs0 fs req cwd user
         | Some (cwd', fs', used') \<Rightarrow>
             (let cwd = (if is_cd req then cwd' else cwd)
              in (Resp_Err (ErrorResponse_new Internal ''handler crashed''),
                  (case cwd_snapshot of Some c \<Rightarrow> c | None \<Rightarrow> cwd), fs', user\<lparr>u_used_bytes := used'\<rparr>)))"

text \<open>A worker takes the first job, and later runs it and posts the result.\<close>

definition worker_take :: "StreamCtx \<Rightarrow> StreamCtx" where
  "worker_take sx =
     (let pool = sx_pool sx
      in case hp_jobs pool of
           [] \<Rightarrow> sx
         | job # jobs \<Rightarrow>
             (if length (hp_running pool) < HANDLER_WORKERS
              then sx\<lparr>sx_pool := pool\<lparr>hp_jobs := jobs, hp_running := hp_running pool @ [(job, sx_fs sx)]\<rparr>\<rparr>
              else sx))"

definition worker_finish :: "crash option \<Rightarrow> nat \<Rightarrow> StreamCtx \<Rightarrow> StreamCtx" where
  "worker_finish crash i sx =
     (let pool = sx_pool sx
      in if i < length (hp_running pool)
         then (let (job, fs0) = hp_running pool ! i;
                   (response, new_cwd, fs', user') =
                     handle_handler_panic crash fs0 (sx_fs sx) (hj_req job) (hj_cwd job) (get_user (sx_users sx) (hj_user job));
                   result = \<lparr>hr_conn_key = hj_conn_key job, hr_generation = hj_generation job,
                     hr_stream_id = hj_stream_id job, hr_response = response, hr_new_cwd = new_cwd, hr_user = hj_user job\<rparr>
               in sx\<lparr>sx_fs := fs', sx_users := set_user (sx_users sx) (hj_user job) user',
                     sx_pool := pool\<lparr>hp_running := take i (hp_running pool) @ drop (Suc i) (hp_running pool),
                                     hp_results := hp_results pool @ [result]\<rparr>\<rparr>)
         else sx)"

section \<open>Sending a response\<close>

definition send_response ::
  "'c Quic \<Rightarrow> u64 \<Rightarrow> Response \<Rightarrow> ('c, 'd, 'e) ConnectionContext
     \<Rightarrow> (io_error TransportError, unit) result \<times> ('c, 'd, 'e) ConnectionContext" where
  "send_response Q sid resp ctx =
     (let (r, conn) = send_message enc_Response (q_stream_send Q) (cx_conn ctx) sid resp in (r, ctx\<lparr>cx_conn := conn\<rparr>))"

section \<open>Dispatching\<close>

text \<open>
  \<open>crashes\<close> gives, for each request that runs on the event-loop thread, by connection and stream,
  the panic it may end in.
\<close>

type_synonym crashes = "bytes \<Rightarrow> u64 \<Rightarrow> crash option"

definition run_handler_inline ::
  "'c Quic \<Rightarrow> crash option \<Rightarrow> u64 \<Rightarrow> Request \<Rightarrow> path \<Rightarrow> UserPtr
     \<Rightarrow> ('c, 'd, 'e) ConnectionContext \<times> StreamCtx \<Rightarrow> ('c, 'd, 'e) ConnectionContext \<times> StreamCtx" where
  "run_handler_inline Q crash sid req cwd user s =
     (let (ctx, sx) = s;
          (response, new_cwd, fs', user') =
            handle_handler_panic crash (sx_fs sx) (sx_fs sx) req cwd (get_user (sx_users sx) user);
          sx = metric_if (is_err response) inc_requests_failed
                 (sx\<lparr>sx_fs := fs', sx_users := set_user (sx_users sx) user user'\<rparr>)
      in (snd (send_response Q sid response (ctx\<lparr>cx_cwd := new_cwd\<rparr>)), sx))"

fun drain_inline ::
  "'c Quic \<Rightarrow> crashes \<Rightarrow> (u64 \<times> Request) list
     \<Rightarrow> ('c, 'd, 'e) ConnectionContext \<times> StreamCtx \<Rightarrow> ('c, 'd, 'e) ConnectionContext \<times> StreamCtx" where
  "drain_inline Q crashes [] s = s"
| "drain_inline Q crashes ((sid, req) # queue) s =
     drain_inline Q crashes queue (run_handler_inline Q (crashes (cx_scid (fst s)) sid) sid req (cx_cwd (fst s)) (cx_user (fst s)) s)"

definition dispatch_handler_job ::
  "'c Quic \<Rightarrow> crashes \<Rightarrow> u64 \<Rightarrow> Request
     \<Rightarrow> ('c, 'd, 'e) ConnectionContext \<times> StreamCtx \<Rightarrow> ('c, 'd, 'e) ConnectionContext \<times> StreamCtx" where
  "dispatch_handler_job Q crashes sid req s =
     (let (ctx, sx) = s;
          job = \<lparr>hj_conn_key = cx_scid ctx, hj_generation = cx_generation ctx, hj_stream_id = sid,
                 hj_req = req, hj_cwd = cx_cwd ctx, hj_user = cx_user ctx\<rparr>;
          pool = sx_pool sx
      in if hp_alive pool
         then (ctx\<lparr>cx_handler_in_flight := True\<rparr>, sx\<lparr>sx_pool := pool\<lparr>hp_jobs := hp_jobs pool @ [job]\<rparr>\<rparr>)
         else (let (ctx, sx) = run_handler_inline Q (crashes (cx_scid ctx) sid) sid req (hj_cwd job) (hj_user job) (ctx, sx);
                   queue = cx_pending_handler_jobs ctx
               in drain_inline Q crashes queue
                    (ctx\<lparr>cx_handler_in_flight := False, cx_pending_handler_jobs := []\<rparr>, sx)))"

section \<open>Applying a result\<close>

definition requires_1rtt :: Response where
  "requires_1rtt = err Unsupported ''Operation requires 1-RTT data''"

text \<open>What a live connection does with a result of its own generation.\<close>

definition deliver_result ::
  "'c Quic \<Rightarrow> crashes \<Rightarrow> HandlerResult
     \<Rightarrow> ('c, 'd, 'e) ConnectionContext \<times> StreamCtx \<Rightarrow> ('c, 'd, 'e) ConnectionContext \<times> StreamCtx" where
  "deliver_result Q crashes result s =
     (let (ctx, sx) = s;
          (response, ctx, sx) =
            (if handler_result_user_matches (cx_user ctx) (hr_user result)
             then (hr_response result, ctx\<lparr>cx_cwd := hr_new_cwd result\<rparr>, sx)
             else (requires_1rtt, ctx, metric inc_zero_rtt_rejected sx));
          sx = metric_if (is_err response) inc_requests_failed sx;
          (_, ctx) = send_response Q (hr_stream_id result) response ctx;
          ctx = ctx\<lparr>cx_handler_in_flight := False\<rparr>
      in case cx_pending_handler_jobs ctx of
           [] \<Rightarrow> (ctx, sx)
         | (sid, req) # queue \<Rightarrow>
             dispatch_handler_job Q crashes sid req (ctx\<lparr>cx_pending_handler_jobs := queue\<rparr>, sx))"

type_synonym ('c, 'd, 'e) Connections = "(bytes \<times> ('c, 'd, 'e) ConnectionContext) list"

definition apply_handler_result ::
  "'c Quic \<Rightarrow> crashes \<Rightarrow> HandlerResult
     \<Rightarrow> ('c, 'd, 'e) Connections \<times> StreamCtx \<Rightarrow> ('c, 'd, 'e) Connections \<times> StreamCtx" where
  "apply_handler_result Q crashes result s =
     (let (conns, sx) = s
      in case map_of conns (hr_conn_key result) of
           None \<Rightarrow> (conns, sx)
         | Some ctx \<Rightarrow>
             (if handler_result_is_stale (cx_generation ctx) (hr_generation result) then (conns, sx)
              else (let (ctx', sx') = deliver_result Q crashes result (ctx, sx)
                    in (AList.update (hr_conn_key result) ctx' conns, sx'))))"

text \<open>Phase 1.5: every result that is ready when the phase runs.\<close>

fun apply_results ::
  "'c Quic \<Rightarrow> crashes \<Rightarrow> HandlerResult list
     \<Rightarrow> ('c, 'd, 'e) Connections \<times> StreamCtx \<Rightarrow> ('c, 'd, 'e) Connections \<times> StreamCtx" where
  "apply_results Q crashes [] s = s"
| "apply_results Q crashes (r # rs) s = apply_results Q crashes rs (apply_handler_result Q crashes r s)"

definition phase_drain_handler_results ::
  "'c Quic \<Rightarrow> crashes
     \<Rightarrow> ('c, 'd, 'e) Connections \<times> StreamCtx \<Rightarrow> ('c, 'd, 'e) Connections \<times> StreamCtx" where
  "phase_drain_handler_results Q crashes s =
     (let (conns, sx) = s; pool = sx_pool sx
      in apply_results Q crashes (hp_results pool) (conns, sx\<lparr>sx_pool := pool\<lparr>hp_results := []\<rparr>\<rparr>))"

end
