(* ===== verification/Server.thy ===== *)
theory Server
  imports Connection
begin

text \<open>
  The event loop of \<open>crates/qftp-server/src/server.rs\<close>: accepting connections, reading requests,
  the checks before a request is served, serving it, driving the transfers of a connection,
  reaping, and one iteration of \<open>run\<close> with its phases in order.

  The workers of the pool run between two iterations (\<open>worker_take\<close> and \<open>worker_finish\<close> of theory
  Connection); an iteration is atomic. Hash tables are association lists, and the order of their
  entries is the order in which the code's iterators meet them.
\<close>

section \<open>Parameters\<close>

datatype PacketType = Pkt_Initial | Pkt_Retry | Pkt_Handshake | Pkt_ZeroRTT | Pkt_VersionNegotiation | Pkt_Short

record Header =
  hd_ty :: PacketType
  hd_version :: u32
  hd_dcid :: bytes
  hd_scid :: bytes
  hd_token :: "bytes option"

text \<open>
  \<open>s_hmac\<close> is HMAC-SHA256 under the seed for connection ids, \<open>s_sign\<close> the one of the retry key.
  \<open>s_tmp_len\<close> and \<open>s_send_len\<close> are the lengths of the scratch buffers, 65536 and
  \<open>SEND_CHUNK_SIZE\<close> in \<open>run\<close>.
\<close>

record ('c, 'd, 'e) ServerPrims =
  s_quic :: "'c Quic"
  s_put :: "'d Prims"
  s_get :: "'e GetPrims"
  s_from_der :: "bytes \<Rightarrow> Certificate option"
  s_hmac :: "bytes \<Rightarrow> bytes"
  s_sign :: "bytes \<Rightarrow> bytes"
  s_header :: "bytes \<Rightarrow> Header option"
  s_tmp_len :: nat
  s_send_len :: nat

record ServerConfig =
  sc_caps :: Caps
  sc_require_retry :: bool
  sc_rate_limit_rps :: rat
  sc_rate_limit_burst :: rat
  sc_mtls_required :: bool

section \<open>Early data\<close>

definition request_is_replay_safe :: "Request \<Rightarrow> bool" where
  "request_is_replay_safe req \<longleftrightarrow>
     (case req of Req_Cd _ \<Rightarrow> True | Req_Pwd \<Rightarrow> True | Req_Stat _ \<Rightarrow> True | Req_Quit \<Rightarrow> True | _ \<Rightarrow> False)"

definition early_data_refused :: "bool \<Rightarrow> Request \<Rightarrow> bool" where
  "early_data_refused refuse_all req \<longleftrightarrow> refuse_all \<or> \<not> request_is_replay_safe req"

section \<open>The stream table\<close>

type_synonym ('c, 'd, 'e) served = "('c, 'd, 'e) ConnectionContext \<times> StreamCtx"
type_synonym ('c, 'd, 'e) outcome = "(io_error TransportError, unit) result \<times> ('c, 'd, 'e) served"

definition world_of :: "StreamCtx \<Rightarrow> UserPtr \<Rightarrow> World" where
  "world_of sx p = \<lparr>w_fs = sx_fs sx, w_user = get_user (sx_users sx) p, w_metrics = sx_metrics sx\<rparr>"

definition set_world :: "UserPtr \<Rightarrow> World \<Rightarrow> StreamCtx \<Rightarrow> StreamCtx" where
  "set_world p w sx = sx\<lparr>sx_fs := w_fs w, sx_users := set_user (sx_users sx) p (w_user w), sx_metrics := w_metrics w\<rparr>"

text \<open>Overwriting or removing an entry drops the old state.\<close>

definition drop_stream :: "UserPtr \<times> ('d, 'e) StreamState \<Rightarrow> StreamCtx \<Rightarrow> StreamCtx" where
  "drop_stream entry sx =
     (let (p, s) = entry; (fs, u) = stream_drop s (sx_fs sx, get_user (sx_users sx) p)
      in sx\<lparr>sx_fs := fs, sx_users := set_user (sx_users sx) p u\<rparr>)"

definition replace_stream :: "u64 \<Rightarrow> UserPtr \<times> ('d, 'e) StreamState \<Rightarrow> ('c, 'd, 'e) served \<Rightarrow> ('c, 'd, 'e) served" where
  "replace_stream sid entry s =
     (let (ctx, sx) = s
      in (ctx\<lparr>cx_streams := AList.update sid entry (cx_streams ctx)\<rparr>,
          case map_of (cx_streams ctx) sid of None \<Rightarrow> sx | Some old \<Rightarrow> drop_stream old sx))"

definition fail_stream ::
  "('c, 'd, 'e) ServerPrims \<Rightarrow> u64 \<Rightarrow> Response \<Rightarrow> ('c, 'd, 'e) served \<Rightarrow> ('c, 'd, 'e) outcome" where
  "fail_stream P sid response s =
     (let (ctx, sx) = s
      in case send_response (s_quic P) sid response ctx of
           (Inl e, ctx) \<Rightarrow> (Inl e, ctx, sx)
         | (Inr _, ctx) \<Rightarrow> (Inr (), replace_stream sid (cx_user ctx, Done) (ctx, metric inc_requests_failed sx)))"

section \<open>Transfers of a connection\<close>

text \<open>
  What every caller of \<open>drive_put\<close> does: drive the upload, and when there is an answer send it and
  end the stream.
\<close>

definition drive_upload ::
  "('c, 'd, 'e) ServerPrims \<Rightarrow> u64 \<Rightarrow> UserPtr \<Rightarrow> 'd ReadingFile \<Rightarrow> ('c, 'd, 'e) served \<Rightarrow> ('c, 'd, 'e) outcome" where
  "drive_upload P sid owner st s =
     (let (ctx, sx) = s; Q = s_quic P;
          (r, st', rs', w) = drive_put (s_put P) (s_tmp_len P) (q_inbound Q (cx_conn ctx) sid) st (world_of sx owner);
          ctx = ctx\<lparr>cx_conn := q_taken Q (cx_conn ctx) sid rs',
                    cx_streams := AList.update sid (owner, ReadingFileData st') (cx_streams ctx)\<rparr>;
          sx = set_world owner w sx
      in case r of
           None \<Rightarrow> (Inr (), ctx, sx)
         | Some resp \<Rightarrow>
             (let sx = metric_if (is_err resp) inc_requests_failed sx
              in case send_response Q sid resp ctx of
                   (Inl e, ctx) \<Rightarrow> (Inl e, ctx, sx)
                 | (Inr _, ctx) \<Rightarrow> (Inr (), replace_stream sid (owner, Done) (ctx, sx))))"

definition start_put_stream ::
  "('c, 'd, 'e) ServerPrims \<Rightarrow> u64 \<Rightarrow> PutRequest \<Rightarrow> ('c, 'd, 'e) served \<Rightarrow> ('c, 'd, 'e) outcome" where
  "start_put_stream P sid req s =
     (let (ctx, sx) = s; owner = cx_user ctx
      in case begin_put (s_put P) (sx_fs sx) (cx_cwd ctx) req (world_of sx owner) of
           Inl (resp, w) \<Rightarrow> fail_stream P sid resp (ctx, set_world owner w sx)
         | Inr (st, w) \<Rightarrow>
             drive_upload P sid owner st (replace_stream sid (owner, ReadingFileData st) (ctx, set_world owner w sx)))"

definition start_get_stream ::
  "('c, 'd, 'e) ServerPrims \<Rightarrow> u64 \<Rightarrow> GetRequest \<Rightarrow> ('c, 'd, 'e) served \<Rightarrow> ('c, 'd, 'e) outcome" where
  "start_get_stream P sid req s =
     (let (ctx, sx) = s; owner = cx_user ctx;
          (resp, st :: ('d, 'e) StreamState, _) = start_get (s_get P) (sx_fs sx) (cx_cwd ctx) req (world_of sx owner)
      in case st of
           SendingFileData _ \<Rightarrow>
             (case send_response (s_quic P) sid resp ctx of
                (Inl e, ctx) \<Rightarrow> (Inl e, ctx, sx)
              | (Inr _, ctx) \<Rightarrow> (Inr (), replace_stream sid (owner, st) (ctx, sx)))
         | _ \<Rightarrow> fail_stream P sid resp (ctx, sx))"

fun rehash_streams ::
  "('c, 'd, 'e) ServerPrims \<Rightarrow> u64 list \<Rightarrow> ('c, 'd, 'e) served \<Rightarrow> ('c, 'd, 'e) outcome" where
  "rehash_streams P [] s = (Inr (), s)"
| "rehash_streams P (sid # ids) s =
     (case map_of (cx_streams (fst s)) sid of
        Some (owner, ReadingFileData st) \<Rightarrow>
          (case drive_upload P sid owner st s of
             (Inl e, s') \<Rightarrow> (Inl e, s')
           | (Inr _, s') \<Rightarrow> rehash_streams P ids s')
      | _ \<Rightarrow> rehash_streams P ids s)"

definition is_rehashing :: "('d, 'e) StreamState \<Rightarrow> bool" where
  "is_rehashing s \<longleftrightarrow> (case s of ReadingFileData st \<Rightarrow> rf_rehash st \<noteq> None | _ \<Rightarrow> False)"

definition drive_rehash_streams ::
  "('c, 'd, 'e) ServerPrims \<Rightarrow> ('c, 'd, 'e) served \<Rightarrow> ('c, 'd, 'e) outcome" where
  "drive_rehash_streams P s =
     rehash_streams P (map fst (filter (\<lambda>(_, _, st). is_rehashing st) (cx_streams (fst s)))) s"

text \<open>\<open>drive_one_sender\<close> may not return (the zstd encoder): then neither does the sweep.\<close>

definition send_stream ::
  "('c, 'd, 'e) ServerPrims \<Rightarrow> u64 \<Rightarrow> ('c, 'd, 'e) served \<Rightarrow> ('c, 'd, 'e) served option" where
  "send_stream P sid s =
     (let (ctx, sx) = s
      in case map_of (cx_streams ctx) sid of
           None \<Rightarrow> Some s
         | Some (owner, SendingFileData st) \<Rightarrow>
             map_option (\<lambda>(outcome, st', conn, m).
               let s' = (ctx\<lparr>cx_conn := conn, cx_streams := AList.update sid (owner, SendingFileData st') (cx_streams ctx)\<rparr>,
                         sx\<lparr>sx_metrics := m\<rparr>)
               in if outcome = Finished then replace_stream sid (owner, Done) s' else s')
             (drive_one_sender (s_get P) (q_stream_send (s_quic P)) (sx_fs sx) sid (s_send_len P) st (cx_conn ctx) (sx_metrics sx))
         | Some (owner, _) \<Rightarrow> Some (replace_stream sid (owner, Done) s))"

fun send_streams ::
  "('c, 'd, 'e) ServerPrims \<Rightarrow> u64 list \<Rightarrow> ('c, 'd, 'e) served \<Rightarrow> ('c, 'd, 'e) served option" where
  "send_streams P [] s = Some s"
| "send_streams P (sid # ids) s = Option.bind (send_stream P sid s) (send_streams P ids)"

definition is_sending :: "('d, 'e) StreamState \<Rightarrow> bool" where
  "is_sending s \<longleftrightarrow> (case s of SendingFileData _ \<Rightarrow> True | _ \<Rightarrow> False)"

definition drive_sending_streams ::
  "('c, 'd, 'e) ServerPrims \<Rightarrow> ('c, 'd, 'e) served \<Rightarrow> ('c, 'd, 'e) served option" where
  "drive_sending_streams P s =
     send_streams P (map fst (filter (\<lambda>(_, _, st). is_sending st) (cx_streams (fst s)))) s"

section \<open>Identity\<close>

text \<open>\<open>False\<close>: the connection was refused and closed.\<close>

definition upgrade_user_from_cert ::
  "('c, 'd, 'e) ServerPrims \<Rightarrow> UserDirectory \<Rightarrow> bool \<Rightarrow> ('c, 'd, 'e) ConnectionContext
     \<Rightarrow> bool \<times> ('c, 'd, 'e) ConnectionContext" where
  "upgrade_user_from_cert P users mtls_required ctx =
     (let Q = s_quic P; refuse = (\<lambda>reason. (False, ctx\<lparr>cx_conn := q_close Q (cx_conn ctx) 0x101 reason\<rparr>))
      in if cx_user ctx \<noteq> None then (True, ctx)
         else if \<not> q_is_established Q (cx_conn ctx) then (True, ctx)
         else (case q_peer_cert Q (cx_conn ctx) of
             None \<Rightarrow> (if mtls_required then refuse ''client certificate required'' else (True, ctx))
           | Some der \<Rightarrow>
               (case resolve_identity (extract_identity_candidates (s_from_der P) der) users of
                  Matched i user \<Rightarrow> (True, ctx\<lparr>cx_cwd := u_home user, cx_user := Some (trim i)\<rparr>)
                | NoMatch \<Rightarrow> refuse ''unknown identity''
                | Ambiguous _ \<Rightarrow> refuse ''ambiguous identity'')))"

section \<open>Reading requests\<close>

datatype PendingAction =
    StartGet u64 GetRequest
  | StartPut u64 PutRequest
  | HandleSimple u64 Request
  | Act_Quit u64
  | Act_Quota u64
  | AclReject u64 Response

text \<open>The rate limit, then the early-data rule, then the permissions; \<open>Some\<close> refuses the request.\<close>

definition validate_request_prerequisites ::
  "bool \<Rightarrow> User \<Rightarrow> IpAddr \<Rightarrow> bool \<Rightarrow> Request \<Rightarrow> StreamCtx \<Rightarrow> Response option \<times> StreamCtx" where
  "validate_request_prerequisites in_early_data user peer_ip refuse_all req sx =
     (let (now, sx) = now_tick sx; (granted, rl) = try_consume now peer_ip (sx_rate_limiter sx); sx = sx\<lparr>sx_rate_limiter := rl\<rparr>
      in if \<not> granted
         then (Some (Resp_Err (ErrorResponse_with_details RateLimited ''Rate limit exceeded'' (RetryAfter (retry_after_millis rl)))),
               metric inc_requests_rate_limited sx)
         else if in_early_data \<and> early_data_refused refuse_all req
         then (Some requires_1rtt, metric inc_zero_rtt_rejected sx)
         else (acl_reject user req, metric_if in_early_data inc_zero_rtt_accepted sx))"

fun show_ValidationError :: "ValidationError \<Rightarrow> string" where
  "show_ValidationError (PathTooLong field len mx) =
     field @ '' field is '' @ show_nat len @ '' bytes, exceeds MAX_PATH_LEN ('' @ show_nat mx @ '') (#140)''"
| "show_ValidationError (ErrorMessageTooLong len mx) =
     ''ErrorResponse.message is '' @ show_nat len @ '' bytes, exceeds MAX_ERROR_MESSAGE_LEN ('' @ show_nat mx @ '') (#140)''"
| "show_ValidationError (DirEntriesTooMany len mx) =
     ''DirListing has '' @ show_nat len @ '' entries, exceeds MAX_DIR_ENTRIES ('' @ show_nat mx @ '') (#140)''"
| "show_ValidationError (ChecksumTooLong len mx) =
     ''Put.checksum is '' @ show_nat len @ '' bytes, exceeds MAX_CHECKSUM_LEN ('' @ show_nat mx @ '') (#140)''"

fun action_of :: "u64 \<Rightarrow> bytes \<Rightarrow> Request \<Rightarrow> PendingAction" where
  "action_of sid leftover (Req_Get path offset len acc) =
     StartGet sid \<lparr>gr_path = path, gr_offset = offset, gr_length = len, gr_accept_encoding = acc\<rparr>"
| "action_of sid leftover (Req_Put p) =
     (if put_hash_algorithm p \<noteq> HashAlgorithm_Blake3
      then AclReject sid (err Unsupported ''unsupported hash algorithm (only BLAKE3 is supported)'')
      else StartPut sid \<lparr>pr_path = put_path p, pr_size = put_size p, pr_mode = put_mode p, pr_offset = put_offset p,
             pr_expected_checksum = put_checksum p, pr_no_clobber = put_no_clobber p,
             pr_checksum_trailer = put_checksum_trailer p, pr_encoding = put_encoding p,
             pr_plaintext_size = put_plaintext_size p, pr_leftover = leftover\<rparr>)"
| "action_of sid leftover Req_Quit = Act_Quit sid"
| "action_of sid leftover Req_Quota = Act_Quota sid"
| "action_of sid leftover req = HandleSimple sid req"

text \<open>What becomes of a decoded request; \<open>leftover\<close> is what the stream delivered behind it.\<close>

definition plan_request ::
  "('c, 'd, 'e) ServerPrims \<Rightarrow> bool \<Rightarrow> u64 \<Rightarrow> bytes \<Rightarrow> Request \<Rightarrow> ('c, 'd, 'e) served \<Rightarrow> PendingAction \<times> StreamCtx" where
  "plan_request P refuse_all sid leftover req s =
     (let (ctx, sx) = s
      in case validate_request req of
           Inl e \<Rightarrow> (AclReject sid (err Malformed (show_ValidationError e)), sx)
         | Inr _ \<Rightarrow>
             (case validate_request_prerequisites (q_is_in_early_data (s_quic P) (cx_conn ctx)) (get_user (sx_users sx) (cx_user ctx))
                     (sa_ip (cx_peer_addr ctx)) refuse_all req (metric inc_requests_total sx) of
                (Some resp, sx) \<Rightarrow> (AclReject sid resp, sx)
              | (None, sx) \<Rightarrow> (action_of sid leftover req, sx)))"

definition plan_stream ::
  "('c, 'd, 'e) ServerPrims \<Rightarrow> bool \<Rightarrow> u64 \<Rightarrow> ('c, 'd, 'e) served
     \<Rightarrow> (io_error TransportError, PendingAction list) result \<times> ('c, 'd, 'e) served" where
  "plan_stream P refuse_all sid s =
     (let (ctx, sx) = s; Q = s_quic P;
          (owner, state) = (case map_of (cx_streams ctx) sid of Some e \<Rightarrow> e | None \<Rightarrow> (cx_user ctx, ReadingRequest []));
          ctx = ctx\<lparr>cx_streams := AList.update sid (owner, state) (cx_streams ctx)\<rparr>
      in case state of
           ReadingRequest buf \<Rightarrow>
             (let (r, buf', rs') = recv_message dec_Request (q_inbound Q (cx_conn ctx) sid) buf;
                  ctx = ctx\<lparr>cx_conn := q_taken Q (cx_conn ctx) sid rs'\<rparr>;
                  end_with = (\<lambda>(action, sx). (Inr [action], replace_stream sid (owner, Done) (ctx, sx)))
              in case (r :: (io_error TransportError, Request option) result) of
                   Inl e \<Rightarrow> end_with (AclReject sid (err Malformed ''Malformed request''), sx)
                 | Inr None \<Rightarrow> (Inr [], ctx\<lparr>cx_streams := AList.update sid (owner, ReadingRequest buf') (cx_streams ctx)\<rparr>, sx)
                 | Inr (Some req) \<Rightarrow> end_with (plan_request P refuse_all sid buf' req (ctx, sx)))
         | ReadingFileData st \<Rightarrow>
             (case drive_upload P sid owner st (ctx, sx) of
                (Inl e, s') \<Rightarrow> (Inl e, s')
              | (Inr _, s') \<Rightarrow> (Inr [], s'))
         | SendingFileData _ \<Rightarrow> (Inr [], ctx, sx)
         | Done \<Rightarrow> (Inr [], ctx, sx))"

fun plan_actions ::
  "('c, 'd, 'e) ServerPrims \<Rightarrow> bool \<Rightarrow> u64 list \<Rightarrow> ('c, 'd, 'e) served
     \<Rightarrow> (io_error TransportError, PendingAction list) result \<times> ('c, 'd, 'e) served" where
  "plan_actions P refuse_all [] s = (Inr [], s)"
| "plan_actions P refuse_all (sid # ids) s =
     (case plan_stream P refuse_all sid s of
        (Inl e, s') \<Rightarrow> (Inl e, s')
      | (Inr as1, s') \<Rightarrow>
          (case plan_actions P refuse_all ids s' of
             (Inl e, s'') \<Rightarrow> (Inl e, s'')
           | (Inr as2, s'') \<Rightarrow> (Inr (as1 @ as2), s'')))"

section \<open>Serving requests\<close>

fun execute_action ::
  "('c, 'd, 'e) ServerPrims \<Rightarrow> crashes \<Rightarrow> PendingAction \<Rightarrow> ('c, 'd, 'e) served \<Rightarrow> ('c, 'd, 'e) outcome" where
  "execute_action P crashes (AclReject sid resp) (ctx, sx) =
     (case send_response (s_quic P) sid resp ctx of
        (Inl e, ctx) \<Rightarrow> (Inl e, ctx, sx)
      | (Inr _, ctx) \<Rightarrow> (Inr (), ctx, metric inc_requests_failed sx))"
| "execute_action P crashes (StartGet sid req) s = start_get_stream P sid req s"
| "execute_action P crashes (StartPut sid req) s = start_put_stream P sid req s"
| "execute_action P crashes (Act_Quit sid) (ctx, sx) =
     (case send_response (s_quic P) sid Resp_Ok ctx of
        (Inl e, ctx) \<Rightarrow> (Inl e, ctx, sx)
      | (Inr _, ctx) \<Rightarrow>
          (case q_flush (s_quic P) (cx_conn ctx) of
             (Inl e, conn) \<Rightarrow> (Inl e, ctx\<lparr>cx_conn := conn\<rparr>, sx)
           | (Inr _, conn) \<Rightarrow> (Inr (), ctx\<lparr>cx_conn := q_close (s_quic P) conn 0 ''bye''\<rparr>, sx)))"
| "execute_action P crashes (Act_Quota sid) (ctx, sx) =
     (let user = get_user (sx_users sx) (cx_user ctx);
          (r, ctx) = send_response (s_quic P) sid (Resp_QuotaInfo (current_usage user) 0 (u_quota_bytes user)) ctx
      in (r, ctx, sx))"
| "execute_action P crashes (HandleSimple sid req) (ctx, sx) =
     (Inr (),
      if cx_handler_in_flight ctx
      then (ctx\<lparr>cx_pending_handler_jobs := cx_pending_handler_jobs ctx @ [(sid, req)]\<rparr>, sx)
      else dispatch_handler_job (s_quic P) crashes sid req (ctx, sx))"

fun execute_pending_actions ::
  "('c, 'd, 'e) ServerPrims \<Rightarrow> crashes \<Rightarrow> PendingAction list \<Rightarrow> ('c, 'd, 'e) served \<Rightarrow> ('c, 'd, 'e) outcome" where
  "execute_pending_actions P crashes [] s = (Inr (), s)"
| "execute_pending_actions P crashes (a # as) s =
     (case execute_action P crashes a s of
        (Inl e, s') \<Rightarrow> (Inl e, s')
      | (Inr _, s') \<Rightarrow> execute_pending_actions P crashes as s')"

definition process_readable_streams ::
  "('c, 'd, 'e) ServerPrims \<Rightarrow> ServerConfig \<Rightarrow> crashes \<Rightarrow> ('c, 'd, 'e) served \<Rightarrow> ('c, 'd, 'e) outcome" where
  "process_readable_streams P cfg crashes s =
     (let (ctx, sx) = s
      in case upgrade_user_from_cert P (sx_users sx) (sc_mtls_required cfg) ctx of
           (False, ctx) \<Rightarrow> (Inr (), ctx, sx)
         | (True, ctx) \<Rightarrow>
             (let refuse_all = (sc_mtls_required cfg \<or> has_named_users (sx_users sx))
              in case plan_actions P refuse_all (q_readable (s_quic P) (cx_conn ctx)) (ctx, sx) of
                   (Inl e, s') \<Rightarrow> (Inl e, s')
                 | (Inr actions, s') \<Rightarrow> execute_pending_actions P crashes actions s'))"

section \<open>Phases\<close>

text \<open>Phases 3 to 5 for one connection: an error closes the connection and nothing else.\<close>

definition close_on_error :: "('c, 'd, 'e) ServerPrims \<Rightarrow> ('c, 'd, 'e) outcome \<Rightarrow> ('c, 'd, 'e) served" where
  "close_on_error P r =
     (case r of
        (Inr _, s) \<Rightarrow> s
      | (Inl _, ctx, sx) \<Rightarrow> (ctx\<lparr>cx_conn := q_close (s_quic P) (cx_conn ctx) 1 ''connection error''\<rparr>, sx))"

definition flush_connection :: "('c, 'd, 'e) ServerPrims \<Rightarrow> ('c, 'd, 'e) served \<Rightarrow> ('c, 'd, 'e) outcome" where
  "flush_connection P s =
     (let (ctx, sx) = s; (r, conn) = q_flush (s_quic P) (cx_conn ctx) in (r, ctx\<lparr>cx_conn := conn\<rparr>, sx))"

definition connection_work ::
  "('c, 'd, 'e) ServerPrims \<Rightarrow> ServerConfig \<Rightarrow> crashes \<Rightarrow> ('c, 'd, 'e) served \<Rightarrow> ('c, 'd, 'e) served option" where
  "connection_work P cfg crashes s =
     (let s = close_on_error P (process_readable_streams P cfg crashes s);
          s = close_on_error P (drive_rehash_streams P s)
      in map_option (\<lambda>s. close_on_error P (flush_connection P s)) (drive_sending_streams P s))"

fun phase_per_connection_work ::
  "('c, 'd, 'e) ServerPrims \<Rightarrow> ServerConfig \<Rightarrow> crashes \<Rightarrow> ('c, 'd, 'e) Connections \<Rightarrow> StreamCtx
     \<Rightarrow> (('c, 'd, 'e) Connections \<times> StreamCtx) option" where
  "phase_per_connection_work P cfg crashes [] sx = Some ([], sx)"
| "phase_per_connection_work P cfg crashes ((k, ctx) # conns) sx =
     Option.bind (connection_work P cfg crashes (ctx, sx)) (\<lambda>(ctx', sx').
       map_option (\<lambda>(conns', sx''). ((k, ctx') # conns', sx'')) (phase_per_connection_work P cfg crashes conns sx'))"

definition HALF_OPEN_TIMEOUT :: nat where "HALF_OPEN_TIMEOUT = 5 * ns_per_sec"

definition half_open_expired :: "bool \<Rightarrow> nat \<Rightarrow> bool" where
  "half_open_expired established age \<longleftrightarrow> \<not> established \<and> age \<ge> HALF_OPEN_TIMEOUT"

text \<open>Phase 6. A connection that goes drops the uploads it has in progress.\<close>

fun phase_reap_connections ::
  "('c, 'd, 'e) ServerPrims \<Rightarrow> ('c, 'd, 'e) Connections \<Rightarrow> ConnectionCounter \<Rightarrow> StreamCtx
     \<Rightarrow> ('c, 'd, 'e) Connections \<times> ConnectionCounter \<times> StreamCtx" where
  "phase_reap_connections P [] counter sx = ([], counter, sx)"
| "phase_reap_connections P ((k, ctx) # conns) counter sx =
     (let (now, sx) = now_tick sx; Q = s_quic P;
          half_open = half_open_expired (q_is_established Q (cx_conn ctx)) (now - cx_created_at ctx)
      in if \<not> q_is_closed Q (cx_conn ctx) \<and> \<not> half_open
         then (let (conns', counter', sx') = phase_reap_connections P conns counter sx in ((k, ctx) # conns', counter', sx'))
         else phase_reap_connections P conns (release (sa_ip (cx_peer_addr ctx)) counter)
                (foldl (\<lambda>sx (_, e). drop_stream e sx) (metric dec_connections_open sx) (cx_streams ctx)))"

definition phase_sweep_done_streams :: "('c, 'd, 'e) Connections \<Rightarrow> ('c, 'd, 'e) Connections" where
  "phase_sweep_done_streams conns =
     map (\<lambda>(k, ctx). (k, ctx\<lparr>cx_streams := filter (\<lambda>(_, _, s). s \<noteq> Done) (cx_streams ctx)\<rparr>)) conns"

definition phase_on_timeout :: "('c, 'd, 'e) ServerPrims \<Rightarrow> ('c, 'd, 'e) Connections \<Rightarrow> ('c, 'd, 'e) Connections" where
  "phase_on_timeout P conns = map (\<lambda>(k, ctx). (k, ctx\<lparr>cx_conn := q_on_timeout (s_quic P) (cx_conn ctx)\<rparr>)) conns"

subsection \<open>Waiting\<close>

definition stream_needs_local_progress :: "('d, 'e) StreamState \<Rightarrow> bool" where
  "stream_needs_local_progress s \<longleftrightarrow>
     (case s of
        ReadingFileData st \<Rightarrow> rf_rehash st \<noteq> None
      | SendingFileData st \<Rightarrow> sf_prefix_remaining st > 0
      | _ \<Rightarrow> False)"

definition connection_timeout :: "('c, 'd, 'e) ServerPrims \<Rightarrow> nat \<Rightarrow> ('c, 'd, 'e) ConnectionContext \<Rightarrow> nat option" where
  "connection_timeout P now ctx =
     (let quic = q_timeout (s_quic P) (cx_conn ctx);
          half_open = (if \<not> q_is_established (s_quic P) (cx_conn ctx)
                       then Some (HALF_OPEN_TIMEOUT - (now - cx_created_at ctx)) else None)
      in case (quic, half_open) of
           (Some a, Some b) \<Rightarrow> Some (min a b)
         | (Some a, None) \<Rightarrow> Some a
         | (None, Some b) \<Rightarrow> Some b
         | (None, None) \<Rightarrow> None)"

definition min_option :: "nat list \<Rightarrow> nat option" where
  "min_option xs = (if xs = [] then None else Some (Min (set xs)))"

definition compute_poll_timeout :: "('c, 'd, 'e) ServerPrims \<Rightarrow> nat \<Rightarrow> ('c, 'd, 'e) Connections \<Rightarrow> bool \<Rightarrow> nat option" where
  "compute_poll_timeout P now conns closing =
     (let shortest_timeout = min_option (List.map_filter (\<lambda>(_, c). connection_timeout P now c) conns);
          rehash_pending = list_ex (\<lambda>(_, c). list_ex (\<lambda>(_, _, s). stream_needs_local_progress s) (cx_streams c)) conns
      in if closing then Some (case shortest_timeout of Some t \<Rightarrow> t | None \<Rightarrow> 250 * 1000000)
         else if rehash_pending then Some 0
         else shortest_timeout)"

section \<open>Accepting\<close>

definition MAX_CONN_ID_LEN :: nat where "MAX_CONN_ID_LEN = 20"

definition derive_scid :: "(bytes \<Rightarrow> bytes) \<Rightarrow> bytes \<Rightarrow> bytes" where
  "derive_scid hmac dcid = (let bytes = hmac dcid in take (min MAX_CONN_ID_LEN (length bytes)) bytes)"

text \<open>
  The server, and one datagram with what the environment answers while it is handled: the
  sender, the system's random bytes, whether a reply can be sent, and the readings of the
  calendar clock.
\<close>

record ('c, 'd, 'e) Server =
  sv_connections :: "('c, 'd, 'e) Connections"
  sv_counter :: ConnectionCounter
  sv_next_generation :: u64
  sv_closing :: bool
  sv_retries :: "(SocketAddr \<times> bytes) list"
  sv_ctx :: StreamCtx

record Arrival =
  ar_from :: SocketAddr
  ar_pkt :: bytes
  ar_random :: "bytes option"
  ar_send :: "(io_error, unit) result"
  ar_unix :: u64
  ar_unix' :: u64

definition send_retry ::
  "('c, 'd, 'e) ServerPrims \<Rightarrow> Arrival \<Rightarrow> Header \<Rightarrow> ('c, 'd, 'e) Server \<Rightarrow> (io_error TransportError, bool) result \<times> ('c, 'd, 'e) Server" where
  "send_retry P a hdr sv =
     (case ar_random a of
        None \<Rightarrow> (Inr False, sv)
      | Some new_scid \<Rightarrow>
          (case mint_at (s_sign P) (ar_from a) (hd_dcid hdr) (ar_unix a) of
             None \<Rightarrow> (Inr False, sv)
           | Some token \<Rightarrow>
               (case q_retry (s_quic P) (hd_scid hdr) (hd_dcid hdr) new_scid token (hd_version hdr) of
                  Inl e \<Rightarrow> (Inl (TE_QuicCtx ''quiche::retry failed'' e), sv)
                | Inr out \<Rightarrow>
                    (case ar_send a of
                       Inl e \<Rightarrow> (Inl (TE_IoCtx ''UDP send_to for retry failed'' e), sv)
                     | Inr _ \<Rightarrow> (Inr True, sv\<lparr>sv_retries := sv_retries sv @ [(ar_from a, out)]\<rparr>)))))"

text \<open>Everything after the retry check: the slot of the counter, the connection, the table.\<close>

definition accept_connection ::
  "('c, 'd, 'e) ServerPrims \<Rightarrow> ServerConfig \<Rightarrow> Arrival \<Rightarrow> Header \<Rightarrow> ('c, 'd, 'e) Server \<Rightarrow> ('c, 'd, 'e) Server" where
  "accept_connection P cfg a hdr sv =
     (let Q = s_quic P; from = ar_from a; sx = sv_ctx sv
      in case try_acquire (sc_caps cfg) (sa_ip from) (sv_counter sv) of
           (None, counter) \<Rightarrow> sv\<lparr>sv_counter := counter, sv_ctx := metric inc_connections_rejected_caps sx\<rparr>
         | (Some slot, counter) \<Rightarrow>
             (let scid = derive_scid (s_hmac P) (hd_dcid hdr);
                  odcid = (if sc_require_retry cfg then Option.bind (hd_token hdr) (\<lambda>t. verify_at (s_sign P) from t (ar_unix' a)) else None);
                  dropped = sv\<lparr>sv_counter := slot_drop slot counter\<rparr>
              in case q_accept Q scid odcid from of
                   Inl e \<Rightarrow> dropped
                 | Inr conn \<Rightarrow>
                     (case q_recv Q conn from (ar_pkt a) of
                        (Inl e, _) \<Rightarrow> dropped
                      | (Inr _, conn) \<Rightarrow>
                          (if map_of (sv_connections sv) scid \<noteq> None then dropped
                           else (let generation = sv_next_generation sv; (now, sx) = now_tick sx;
                                     ctx = ConnectionContext_new conn from (sx_users sx) None scid generation now
                                 in sv\<lparr>sv_connections := AList.update scid ctx (sv_connections sv),
                                       sv_counter := slot_drop (slot_commit slot) counter,
                                       sv_next_generation := generation + 1,
                                       sv_ctx := metric inc_connections_open (metric inc_connections_total sx)\<rparr>)))))"

definition try_accept ::
  "('c, 'd, 'e) ServerPrims \<Rightarrow> ServerConfig \<Rightarrow> Arrival \<Rightarrow> Header \<Rightarrow> ('c, 'd, 'e) Server
     \<Rightarrow> (io_error TransportError, unit) result \<times> ('c, 'd, 'e) Server" where
  "try_accept P cfg a hdr sv =
     (if \<not> (8 \<le> length (hd_dcid hdr) \<and> length (hd_dcid hdr) \<le> 20)
      then (Inr (), sv\<lparr>sv_ctx := metric inc_initials_dropped_bad_dcid (sv_ctx sv)\<rparr>)
      else (let (now, sx) = now_tick (sv_ctx sv);
                (granted, rl) = try_consume now (sa_ip (ar_from a)) (sx_rate_limiter sx);
                sx = sx\<lparr>sx_rate_limiter := rl\<rparr>; sv = sv\<lparr>sv_ctx := sx\<rparr>
            in if \<not> granted then (Inr (), sv\<lparr>sv_ctx := metric inc_connections_rejected_rate sx\<rparr>)
               else if sc_require_retry cfg
               then (if hd_token hdr = None \<or> hd_token hdr = Some []
                     then (case send_retry P a hdr sv of
                         (Inl e, sv) \<Rightarrow> (Inl e, sv)
                       | (Inr emitted, sv) \<Rightarrow> (Inr (), sv\<lparr>sv_ctx := metric_if emitted inc_retries_issued (sv_ctx sv)\<rparr>))
                     else if verify_at (s_sign P) (ar_from a) (the (hd_token hdr)) (ar_unix a) = None then (Inr (), sv)
                     else (Inr (), accept_connection P cfg a hdr sv))
               else (Inr (), accept_connection P cfg a hdr sv)))"

text \<open>Phase 1, for one datagram: an error of \<open>try_accept\<close> is logged and dropped.\<close>

definition receive_packet ::
  "('c, 'd, 'e) ServerPrims \<Rightarrow> SocketAddr \<Rightarrow> bytes \<Rightarrow> bytes \<Rightarrow> ('c, 'd, 'e) ConnectionContext \<Rightarrow> ('c, 'd, 'e) Server \<Rightarrow> ('c, 'd, 'e) Server" where
  "receive_packet P from pkt key ctx sv =
     sv\<lparr>sv_connections := AList.update key (ctx\<lparr>cx_conn := snd (q_recv (s_quic P) (cx_conn ctx) from pkt)\<rparr>) (sv_connections sv)\<rparr>"

definition ingress_one ::
  "('c, 'd, 'e) ServerPrims \<Rightarrow> ServerConfig \<Rightarrow> bool \<Rightarrow> Arrival \<Rightarrow> ('c, 'd, 'e) Server \<Rightarrow> ('c, 'd, 'e) Server" where
  "ingress_one P cfg closing a sv =
     (case s_header P (ar_pkt a) of
        None \<Rightarrow> sv
      | Some hdr \<Rightarrow>
          (case map_of (sv_connections sv) (hd_dcid hdr) of
             Some ctx \<Rightarrow> receive_packet P (ar_from a) (ar_pkt a) (hd_dcid hdr) ctx sv
           | None \<Rightarrow>
               (let alias = derive_scid (s_hmac P) (hd_dcid hdr)
                in case map_of (sv_connections sv) alias of
                     Some ctx \<Rightarrow> receive_packet P (ar_from a) (ar_pkt a) alias ctx sv
                   | None \<Rightarrow>
                       (if hd_ty hdr \<noteq> Pkt_Initial \<or> closing then sv else snd (try_accept P cfg a hdr sv)))))"

text \<open>The end of the list is \<open>WouldBlock\<close>; any other error ends the server.\<close>

fun phase_ingress ::
  "('c, 'd, 'e) ServerPrims \<Rightarrow> ServerConfig \<Rightarrow> bool \<Rightarrow> (io_error, Arrival) result list \<Rightarrow> ('c, 'd, 'e) Server
     \<Rightarrow> (io_error, unit) result \<times> ('c, 'd, 'e) Server" where
  "phase_ingress P cfg closing [] sv = (Inr (), sv)"
| "phase_ingress P cfg closing (Inl e # as) sv = (Inl e, sv)"
| "phase_ingress P cfg closing (Inr a # as) sv = phase_ingress P cfg closing as (ingress_one P cfg closing a sv)"

section \<open>The loop\<close>

definition phase_shutdown_drain :: "('c, 'd, 'e) ServerPrims \<Rightarrow> bool \<Rightarrow> ('c, 'd, 'e) Server \<Rightarrow> ('c, 'd, 'e) Server" where
  "phase_shutdown_drain P shutdown sv =
     (if shutdown \<and> \<not> sv_closing sv
      then sv\<lparr>sv_closing := True,
              sv_connections := map (\<lambda>(k, c). (k, c\<lparr>cx_conn := q_close (s_quic P) (cx_conn c) 0 ''server shutdown''\<rparr>)) (sv_connections sv)\<rparr>
      else sv)"

record LoopInput =
  li_shutdown :: bool
  li_arrivals :: "(io_error, Arrival) result list"
  li_crashes :: crashes

text \<open>\<open>Inr True\<close> is the \<open>break\<close> at the end of a shutdown; \<open>None\<close> an iteration that does not end.\<close>

definition server_iteration ::
  "('c, 'd, 'e) ServerPrims \<Rightarrow> ServerConfig \<Rightarrow> LoopInput \<Rightarrow> ('c, 'd, 'e) Server
     \<Rightarrow> ((io_error, bool) result \<times> ('c, 'd, 'e) Server) option" where
  "server_iteration P cfg inp sv =
     (let sv = phase_shutdown_drain P (li_shutdown inp) sv
      in case phase_ingress P cfg (sv_closing sv) (li_arrivals inp) sv of
           (Inl e, sv) \<Rightarrow> Some (Inl e, sv)
         | (Inr _, sv) \<Rightarrow>
             (let (conns, sx) = phase_drain_handler_results (s_quic P) (li_crashes inp) (sv_connections sv, sv_ctx sv);
                  conns = phase_on_timeout P conns
              in map_option (\<lambda>(conns, sx).
                   let (conns, counter, sx) = phase_reap_connections P conns (sv_counter sv) sx;
                       conns = phase_sweep_done_streams conns
                   in (Inr (sv_closing sv \<and> conns = []),
                       sv\<lparr>sv_connections := conns, sv_counter := counter, sv_ctx := sx\<rparr>))
                 (phase_per_connection_work P cfg (li_crashes inp) conns sx)))"

text \<open>\<open>run\<close> starts with no connection, an empty pool and a full rate limiter.\<close>

definition server_start :: "ServerConfig \<Rightarrow> FS \<Rightarrow> UserDirectory \<Rightarrow> (nat \<Rightarrow> nat) \<Rightarrow> ('c, 'd, 'e) Server" where
  "server_start cfg fs users clock =
     \<lparr>sv_connections = [], sv_counter = counter_empty, sv_next_generation = 0, sv_closing = False, sv_retries = [],
      sv_ctx = \<lparr>sx_fs = fs, sx_users = users, sx_metrics = Metrics_default,
        sx_rate_limiter = RateLimiter_new (sc_rate_limit_rps cfg) (sc_rate_limit_burst cfg) (clock 0),
        sx_pool = \<lparr>hp_alive = True, hp_jobs = [], hp_running = [], hp_results = []\<rparr>, sx_clock = clock, sx_ticks = 1\<rparr>\<rparr>"

text \<open>
  The server and its workers: a step is one iteration of the loop, a worker that takes a job, or
  a worker that finishes one. \<open>n\<close> counts the datagrams that have arrived.
\<close>

inductive server_run ::
  "('c, 'd, 'e) ServerPrims \<Rightarrow> ServerConfig \<Rightarrow> ('c, 'd, 'e) Server \<Rightarrow> nat \<Rightarrow> ('c, 'd, 'e) Server \<Rightarrow> bool"
  for P cfg sv0 where
  run_start: "server_run P cfg sv0 0 sv0"
| run_iteration: "server_run P cfg sv0 n sv \<Longrightarrow> server_iteration P cfg inp sv = Some (Inr go, sv') \<Longrightarrow>
     server_run P cfg sv0 (n + length (li_arrivals inp)) sv'"
| run_take: "server_run P cfg sv0 n sv \<Longrightarrow> server_run P cfg sv0 n (sv\<lparr>sv_ctx := worker_take (sv_ctx sv)\<rparr>)"
| run_finish: "server_run P cfg sv0 n sv \<Longrightarrow> server_run P cfg sv0 n (sv\<lparr>sv_ctx := worker_finish crash i (sv_ctx sv)\<rparr>)"

end
