(* ===== verification/Server_Frame.thy ===== *)
theory Server_Frame
  imports Server
begin

text \<open>
  What the steps of the event loop leave alone. No operation moves the home of a user, and
  everything the loop does on a connection, except upgrading its user and dispatching a request,
  keeps its identity, working directory and queue and the pool of workers (\<open>frozen\<close>).
\<close>

section \<open>Homes\<close>

definition homes :: "UserDirectory \<Rightarrow> path \<times> (string \<times> path) list" where
  "homes d = (u_home (ud_anonymous d), map (\<lambda>(n, u). (n, u_home u)) (by_name d))"

lemma map_of_homes: "map_of (map (\<lambda>(n, u). (n, u_home u)) xs) n = map_option u_home (map_of xs n)"
  by (induction xs) auto

lemma home_homes: "u_home (get_user d p) = (case p of None \<Rightarrow> fst (homes d) | Some n \<Rightarrow>
   (case map_of (snd (homes d)) n of Some h \<Rightarrow> h | None \<Rightarrow> fst (homes d)))"
  by (auto simp: get_user_def homes_def map_of_homes split: option.splits)

lemma homes_home: "homes d' = homes d \<Longrightarrow> u_home (get_user d' p) = u_home (get_user d p)"
  by (simp only: home_homes)

lemma map_entry_homes: "(\<forall>v. map_of xs n = Some v \<longrightarrow> u_home u = u_home v) \<Longrightarrow>
  map (\<lambda>(n, u). (n, u_home u)) (AList.map_entry n (\<lambda>_. u) xs) = map (\<lambda>(n, u). (n, u_home u)) xs"
  by (induction xs) auto

lemma homes_set_user [simp]: "u_home u = u_home (get_user d p) \<Longrightarrow> homes (set_user d p u) = homes d"
  by (auto simp: homes_def set_user_def get_user_def map_entry_homes split: option.splits)

text \<open>No operation on a user moves the home.\<close>

lemma upload_drop_home: "upload_drop st (fs, u) = (fs', u') \<Longrightarrow> u_home u' = u_home u"
  by (auto simp: upload_drop_def Let_def claim_drop_def split: if_splits sum.splits prod.splits)

lemma stream_drop_home: "stream_drop s (fs, u) = (fs', u') \<Longrightarrow> u_home u' = u_home u"
  using upload_drop_home by (auto simp: stream_drop_def split: StreamState.splits)

lemma drop_upload_home [simp]: "u_home (w_user (drop_upload st w)) = u_home (w_user w)"
  using upload_drop_home by (auto simp: drop_upload_def Let_def split: prod.splits)

named_theorems keeps_home \<open>operations of an upload keep the home of its user\<close>

lemma cleanup_home [keeps_home]: "cleanup_rejected_upload st w = (st', w') \<Longrightarrow> u_home (w_user w') = u_home (w_user w)"
  by (auto simp: cleanup_rejected_upload_def Let_def split: if_splits sum.splits prod.splits)

lemma fail_rejected_home [keeps_home]: "fail_rejected_upload st w resp = (r, st', w') \<Longrightarrow> u_home (w_user w') = u_home (w_user w)"
  by (auto simp: fail_rejected_upload_def Let_def split: prod.splits dest!: keeps_home)

lemma write_body_home [keeps_home]: "write_body bs st w = (r, st', w') \<Longrightarrow> u_home (w_user w') = u_home (w_user w)"
  by (auto simp: write_body_def Let_def split: if_splits sum.splits prod.splits)

lemma drain_home [keeps_home]: "drain_decoder z st w = (r, st', w') \<Longrightarrow> u_home (w_user w') = u_home (w_user w)"
  by (auto simp: drain_decoder_def Let_def split: if_splits sum.splits prod.splits dest!: keeps_home)

lemma feed_home [keeps_home]: "feed_zstd_put_chunk P bs z st w = (r, st', w') \<Longrightarrow> u_home (w_user w') = u_home (w_user w)"
  by (auto simp: feed_zstd_put_chunk_def Let_def split: if_splits sum.splits prod.splits dest!: keeps_home)

lemma pending_home [keeps_home]: "put_pending P bs st w = (r, st', w') \<Longrightarrow> u_home (w_user w') = u_home (w_user w)"
  by (auto simp: put_pending_def Let_def split: if_splits sum.splits prod.splits RecvEncoding.splits dest!: keeps_home)

lemma rehash_home [keeps_home]: "put_rehash P n st w = (r, st', w') \<Longrightarrow> u_home (w_user w') = u_home (w_user w)"
  by (auto simp: put_rehash_def Let_def split: list.splits if_splits sum.splits prod.splits option.splits dest!: keeps_home)

lemma identity_chunk_home [keeps_home]: "put_identity_chunk bs fin st w = (r, st', w') \<Longrightarrow> u_home (w_user w') = u_home (w_user w)"
  by (auto simp: put_identity_chunk_def Let_def split: if_splits sum.splits prod.splits option.splits dest!: keeps_home)

lemma zstd_chunk_home [keeps_home]: "put_zstd_chunk P bs fin z st w = (r, st', w') \<Longrightarrow> u_home (w_user w') = u_home (w_user w)"
  by (auto simp: put_zstd_chunk_def Let_def split: if_splits sum.splits prod.splits option.splits dest!: keeps_home)

lemma put_body_home [keeps_home]: "put_body P rs st w = (r, st', rs', w') \<Longrightarrow> u_home (w_user w') = u_home (w_user w)"
proof (induction P rs st w rule: put_body.induct)
  case (2 P x rs st w)
  show ?case using 2
    by (cases x; cases "rf_recv_encoding st")
      (auto split: if_splits prod.splits option.splits dest!: keeps_home) 
qed simp

lemma put_rename_home [keeps_home]: "put_rename st w = (r, st', w') \<Longrightarrow> u_home (w_user w') = u_home (w_user w)"
  by (auto simp: put_rename_def Let_def commit_user_def split: if_splits sum.splits prod.splits option.splits dest!: keeps_home)

lemma put_commit_home [keeps_home]: "put_commit P st w = (r, st', w') \<Longrightarrow> u_home (w_user w') = u_home (w_user w)"
  by (auto simp: put_commit_def no_clobber_commit_guard_def Let_def split: if_splits sum.splits prod.splits option.splits dest!: keeps_home)

lemma put_finish_home [keeps_home]: "put_finish P rs st w = (r, st', rs', w') \<Longrightarrow> u_home (w_user w') = u_home (w_user w)"
  by (auto simp: put_finish_def Let_def split: if_splits sum.splits prod.splits option.splits dest!: keeps_home)

lemma drive_put_home: "drive_put P n rs st w = (r, st', rs', w') \<Longrightarrow> u_home (w_user w') = u_home (w_user w)"
  by (auto simp: drive_put_def split: prod.splits option.splits dest!: keeps_home)


lemma put_leftover_home [keeps_home]: "put_leftover P bs st w = (r, st', w') \<Longrightarrow> u_home (w_user w') = u_home (w_user w)"
  by (auto simp: put_leftover_def Let_def split: if_splits sum.splits prod.splits option.splits RecvEncoding.splits dest!: keeps_home)

lemma open_fresh_home [keeps_home]: "open_fresh p w = (r, w') \<Longrightarrow> u_home (w_user w') = u_home (w_user w)"
  by (auto simp: open_fresh_def Let_def split: if_splits sum.splits prod.splits option.splits)

lemma open_resume_home [keeps_home]: "open_resume p off w = (r, w') \<Longrightarrow> u_home (w_user w') = u_home (w_user w)"
  by (auto simp: open_resume_def Let_def split: if_splits sum.splits prod.splits option.splits)

lemma put_reserve_home [keeps_home]: "put_reserve req p w = (r, w') \<Longrightarrow> u_home (w_user w') = u_home (w_user w)"
  by (auto simp: put_reserve_def Let_def ifr_reserve_def ifr_drop_def split: if_splits sum.splits prod.splits option.splits)

definition put_world :: "Response \<times> World + 'd ReadingFile \<times> World \<Rightarrow> World" where
  "put_world r = (case r of Inl (_, w) \<Rightarrow> w | Inr (_, w) \<Rightarrow> w)"

lemma put_world_simps [simp]: "put_world (Inl (resp, w)) = w" "put_world (Inr (st, w)) = w"
  by (simp_all add: put_world_def)

lemma open_put_home: "u_home (w_user (put_world (open_put P req final claim w))) = u_home (w_user w)"
  by (auto simp: open_put_def Let_def claim_drop_def ifr_drop_def split: if_splits sum.splits prod.splits option.splits dest!: keeps_home)

lemma begin_put_home: "u_home (w_user (put_world (begin_put P fs0 cwd req w))) = u_home (w_user w)"
  by (auto simp: begin_put_def try_claim_def open_put_home split: sum.splits option.splits)

lemma run_handler_home: "run_handler fs0 fs req cwd u = (r, cwd', fs', u') \<Longrightarrow> u_home u' = u_home u"
  by (cases req) (auto simp: quota_aware_remove_def quota_aware_rename_def Let_def simp del: handle_op_defs split: if_splits sum.splits prod.splits)

lemma handle_handler_panic_home: "handle_handler_panic crash fs0 fs req cwd u = (r, cwd', fs', u') \<Longrightarrow> u_home u' = u_home u"
  by (auto simp: handle_handler_panic_def Let_def run_handler_home split: option.splits)

section \<open>What most of the loop leaves alone\<close>

definition frozen :: "('c, 'd, 'e) served \<Rightarrow> _" where
  "frozen s = (let (ctx, sx) = s
     in (cx_peer_addr ctx, cx_user ctx, cx_cwd ctx, cx_created_at ctx, cx_scid ctx, cx_generation ctx, cx_handler_in_flight ctx,
         cx_pending_handler_jobs ctx, sx_pool sx, homes (sx_users sx)))"

named_theorems frozen_simps \<open>steps that keep a connection and the pool frozen\<close>

lemma frozen_conn [frozen_simps]: "frozen (ctx\<lparr>cx_conn := c\<rparr>, sx) = frozen (ctx, sx)"
  by (simp add: frozen_def)

lemma frozen_streams [frozen_simps]: "frozen (ctx\<lparr>cx_streams := ss\<rparr>, sx) = frozen (ctx, sx)"
  by (simp add: frozen_def)

lemma frozen_metric [frozen_simps]:
  "frozen (ctx, metric f sx) = frozen (ctx, sx)" "frozen (ctx, metric_if b f sx) = frozen (ctx, sx)"
  "frozen (ctx, sx\<lparr>sx_metrics := m\<rparr>) = frozen (ctx, sx)"
  by (simp_all add: frozen_def metric_def metric_if_def)

lemma frozen_limiter [frozen_simps]:
  "frozen (ctx, sx\<lparr>sx_rate_limiter := rl\<rparr>) = frozen (ctx, sx)" "frozen (ctx, sx\<lparr>sx_ticks := n\<rparr>) = frozen (ctx, sx)"
  by (simp_all add: frozen_def)

lemma frozen_send [frozen_simps]: "send_response Q sid resp ctx = (r, ctx') \<Longrightarrow> frozen (ctx', sx) = frozen (ctx, sx)"
  by (auto simp: send_response_def frozen_simps split: prod.splits)

lemma frozen_drop [frozen_simps]: "frozen (ctx, drop_stream e sx) = frozen (ctx, sx)"
  by (auto simp: drop_stream_def frozen_def stream_drop_home Let_def split: prod.splits)

lemma frozen_replace [frozen_simps]: "frozen (replace_stream sid e s) = frozen s"
  by (cases s) (auto simp: replace_stream_def frozen_simps split: option.splits)

lemma frozen_set_world [frozen_simps]:
  "u_home (w_user w) = u_home (get_user (sx_users sx) p) \<Longrightarrow> frozen (ctx, set_world p w sx) = frozen (ctx, sx)"
  by (simp add: frozen_def set_world_def)

lemma world_of_user [simp]: "w_user (world_of sx p) = get_user (sx_users sx) p" "w_fs (world_of sx p) = sx_fs sx"
  "w_metrics (world_of sx p) = sx_metrics sx"
  by (simp_all add: world_of_def)

lemma frozen_fail [frozen_simps]: "frozen (snd (fail_stream P sid resp s)) = frozen s"
  by (cases s) (auto simp: fail_stream_def frozen_simps split: prod.splits sum.splits)

lemma frozen_drive_upload [frozen_simps]: "frozen (snd (drive_upload P sid owner st s)) = frozen s"
  by (cases s) (auto simp: drive_upload_def Let_def frozen_simps drive_put_home split: prod.splits sum.splits option.splits)

lemma frozen_start_put [frozen_simps]: "frozen (snd (start_put_stream P sid req s)) = frozen s"
proof (cases s)
  case (Pair ctx sx)
  let ?b = "begin_put (s_put P) (sx_fs sx) (cx_cwd ctx) req (world_of sx (cx_user ctx))"
  show ?thesis using begin_put_home [of "s_put P" "sx_fs sx" "cx_cwd ctx" req "world_of sx (cx_user ctx)"] Pair
    by (cases ?b) (auto simp: start_put_stream_def Let_def frozen_simps)
qed

lemma frozen_start_get [frozen_simps]: "frozen (snd (start_get_stream P sid req s)) = frozen s"
  by (cases s) (auto simp: start_get_stream_def Let_def frozen_simps split: prod.splits sum.splits StreamState.splits)

lemma frozen_upload_eq: "drive_upload P sid owner st s = (r, s') \<Longrightarrow> frozen s' = frozen s"
  using frozen_drive_upload [of P sid owner st s] by simp

lemma frozen_rehash [frozen_simps]: "frozen (snd (rehash_streams P ids s)) = frozen s"
proof (induction P ids s rule: rehash_streams.induct)
  case (2 P sid ids s)
  show ?case using 2 by (auto split: option.splits prod.splits StreamState.splits sum.splits dest!: frozen_upload_eq)
qed simp

lemma frozen_drive_rehash [frozen_simps]: "frozen (snd (drive_rehash_streams P s)) = frozen s"
  by (simp add: drive_rehash_streams_def frozen_simps)

lemma frozen_send_stream: "send_stream P sid s = Some s' \<Longrightarrow> frozen s' = frozen s"
  by (cases s) (auto simp: send_stream_def Let_def frozen_simps split: option.splits prod.splits StreamState.splits if_splits)

lemma frozen_send_streams: "send_streams P ids s = Some s' \<Longrightarrow> frozen s' = frozen s"
  by (induction ids arbitrary: s) (auto simp: bind_eq_Some_conv frozen_send_stream)

lemma frozen_drive_sending: "drive_sending_streams P s = Some s' \<Longrightarrow> frozen s' = frozen s"
  by (simp add: drive_sending_streams_def frozen_send_streams)

lemma frozen_prerequisites [frozen_simps]:
  "frozen (ctx, snd (validate_request_prerequisites e u ip refuse req sx)) = frozen (ctx, sx)"
  by (auto simp: validate_request_prerequisites_def now_tick_def Let_def frozen_simps split: prod.splits)

lemma frozen_prerequisites_eq:
  "validate_request_prerequisites e u ip refuse req sx = (r, sx') \<Longrightarrow> frozen (ctx, sx') = frozen (ctx, sx)"
  using frozen_prerequisites [of ctx e u ip refuse req sx] by simp

lemma frozen_plan_request:
  "plan_request P refuse sid left req (ctx, sx) = (a, sx') \<Longrightarrow> frozen (ctx', sx') = frozen (ctx', sx)"
  by (auto simp: plan_request_def frozen_simps split: sum.splits prod.splits option.splits
      dest!: frozen_prerequisites_eq [where ctx = ctx'])

lemma frozen_plan_stream [frozen_simps]: "frozen (snd (plan_stream P refuse sid s)) = frozen s"
proof (cases s)
  case (Pair ctx sx)
  show ?thesis
    by (auto simp: Pair plan_stream_def Let_def frozen_simps frozen_plan_request split: prod.splits sum.splits option.splits StreamState.splits
        dest!: frozen_upload_eq)
qed

lemma frozen_plan_actions [frozen_simps]: "frozen (snd (plan_actions P refuse ids s)) = frozen s"
proof (induction P refuse ids s rule: plan_actions.induct)
  case (2 P refuse sid ids s)
  show ?case using 2 frozen_plan_stream [of P refuse sid s] by (auto split: prod.splits sum.splits)
qed simp

lemma frozen_close [frozen_simps]: "frozen (close_on_error P r) = frozen (snd r)"
  by (auto simp: close_on_error_def frozen_simps split: prod.splits sum.splits)

lemma frozen_flush [frozen_simps]: "frozen (snd (flush_connection P s)) = frozen s"
  by (cases s) (auto simp: flush_connection_def frozen_simps split: prod.splits)

end
