(* ===== verification/Server_Jobs.thy ===== *)
theory Server_Jobs
  imports Server_Frame Users_Props
begin

text \<open>
  The invariant of the server and its workers, proved for every step: each connection has at most
  one job with the workers and queues requests only behind it, the counter of the connection caps
  agrees with the connection table, generations are fresh, and every working directory lies in
  the home of the user it belongs to, also in the jobs and results that are under way.
\<close>

section \<open>The invariant\<close>

subsection \<open>Outstanding jobs\<close>

definition job_key :: "('c, 'd, 'e) ConnectionContext \<Rightarrow> bytes \<times> u64" where
  "job_key ctx = (cx_scid ctx, cx_generation ctx)"

definition hj_key :: "HandlerJob \<Rightarrow> bytes \<times> u64" where "hj_key j = (hj_conn_key j, hj_generation j)"
definition hr_key :: "HandlerResult \<Rightarrow> bytes \<times> u64" where "hr_key r = (hr_conn_key r, hr_generation r)"

definition outstanding :: "HandlerPool \<Rightarrow> (bytes \<times> u64) multiset" where
  "outstanding pool = mset (map hj_key (hp_jobs pool)) + mset (map (hj_key \<circ> fst) (hp_running pool)) + mset (map hr_key (hp_results pool))"

definition busy :: "(bytes \<times> u64) multiset \<Rightarrow> ('c, 'd, 'e) ConnectionContext \<Rightarrow> bool" where
  "busy ks ctx \<longleftrightarrow> count ks (job_key ctx) = (if cx_handler_in_flight ctx then 1 else 0) \<and>
     (cx_pending_handler_jobs ctx \<noteq> [] \<longrightarrow> cx_handler_in_flight ctx)"

subsection \<open>Working directories\<close>

definition home_at :: "path \<times> (string \<times> path) list \<Rightarrow> UserPtr \<Rightarrow> path" where
  "home_at h p = (case p of None \<Rightarrow> fst h | Some n \<Rightarrow> (case map_of (snd h) n of Some x \<Rightarrow> x | None \<Rightarrow> fst h))"

lemma home_at_homes: "home_at (homes d) p = u_home (get_user d p)"
  by (simp add: home_homes home_at_def)

definition cwd_ok :: "path \<times> (string \<times> path) list \<Rightarrow> UserPtr \<Rightarrow> path \<Rightarrow> bool" where
  "cwd_ok h p cwd \<longleftrightarrow> prefix (home_at h p) cwd \<and> names_ok cwd"

definition homes_ok :: "path \<times> (string \<times> path) list \<Rightarrow> bool" where
  "homes_ok h \<longleftrightarrow> names_ok (fst h) \<and> (\<forall>x \<in> set (snd h). names_ok (snd x))"

lemma homes_ok_at: "homes_ok h \<Longrightarrow> names_ok (home_at h p)"
  by (force simp: homes_ok_def home_at_def split: option.splits dest: map_of_SomeD)

definition pool_ok :: "path \<times> (string \<times> path) list \<Rightarrow> HandlerPool \<Rightarrow> bool" where
  "pool_ok h pool \<longleftrightarrow> (\<forall>j \<in> set (hp_jobs pool). cwd_ok h (hj_user j) (hj_cwd j)) \<and>
     (\<forall>(j, _) \<in> set (hp_running pool). cwd_ok h (hj_user j) (hj_cwd j)) \<and>
     (\<forall>r \<in> set (hp_results pool). cwd_ok h (hr_user r) (hr_new_cwd r))"

lemma run_handler_cwd:
  assumes "run_handler fs0 fs req cwd u = (r, cwd', fs', u')" "names_ok (u_home u)" "prefix (u_home u) cwd" "names_ok cwd"
  shows "prefix (u_home u) cwd' \<and> names_ok cwd'"
proof (cases "\<exists>p. req = Req_Cd p")
  case True
  then show ?thesis using assms resolve_result [OF _ assms(2,4)]
    by (auto split: sum.splits if_splits prod.splits)
next
  case False
  then have "cwd' = cwd" using assms(1)
    by (cases req) (auto simp: quota_aware_remove_def quota_aware_rename_def handle_request_def Let_def
        split: sum.splits if_splits prod.splits option.splits)
  then show ?thesis using assms by simp
qed

lemma panic_cwd:
  assumes "handle_handler_panic crash fs0 fs req cwd (get_user d p) = (r, cwd', fs', u')" "homes_ok (homes d)" "cwd_ok (homes d) p cwd"
  shows "cwd_ok (homes d) p cwd'"
  using assms run_handler_cwd [of fs0 fs req cwd "get_user d p"] homes_ok_at [of "homes d" p]
  by (auto simp: handle_handler_panic_def cwd_ok_def home_at_homes Let_def split: option.splits if_splits)

section \<open>Steps of one connection\<close>

text \<open>A connection with its pool and user directory, as far as the working directories are concerned.\<close>

definition dirs_ok :: "('c, 'd, 'e) served \<Rightarrow> bool" where
  "dirs_ok s \<longleftrightarrow> (let (ctx, sx) = s; h = homes (sx_users sx)
     in homes_ok h \<and> pool_ok h (sx_pool sx) \<and> cwd_ok h (cx_user ctx) (cx_cwd ctx))"

text \<open>A step on one connection: it concerns no other connection, and keeps the invariant.\<close>

definition local_step :: "('c, 'd, 'e) served \<Rightarrow> ('c, 'd, 'e) served \<Rightarrow> bool" where
  "local_step s s' \<longleftrightarrow> (let (ctx, sx) = s; (ctx', sx') = s'
     in job_key ctx' = job_key ctx \<and> cx_peer_addr ctx' = cx_peer_addr ctx \<and> homes (sx_users sx') = homes (sx_users sx) \<and>
        (\<forall>k. k \<noteq> job_key ctx \<longrightarrow> count (outstanding (sx_pool sx')) k = count (outstanding (sx_pool sx)) k))"

definition served_busy :: "('c, 'd, 'e) served \<Rightarrow> bool" where
  "served_busy s \<longleftrightarrow> busy (outstanding (sx_pool (snd s))) (fst s)"

definition conn_step :: "('c, 'd, 'e) served \<Rightarrow> ('c, 'd, 'e) served \<Rightarrow> bool" where
  "conn_step s s' \<longleftrightarrow> local_step s s' \<and> (served_busy s \<longrightarrow> served_busy s') \<and> (dirs_ok s \<longrightarrow> dirs_ok s')"

lemma local_step_trans: "local_step s s' \<Longrightarrow> local_step s' s'' \<Longrightarrow> local_step s s''"
  by (cases s; cases s'; cases s'') (simp add: local_step_def)

lemma conn_step_trans [trans]: "conn_step s s' \<Longrightarrow> conn_step s' s'' \<Longrightarrow> conn_step s s''"
  using local_step_trans unfolding conn_step_def by blast

lemma conn_step_frozen: "frozen s' = frozen s \<Longrightarrow> conn_step s s'"
  by (cases s; cases s') (simp add: conn_step_def local_step_def served_busy_def dirs_ok_def frozen_def job_key_def busy_def Let_def)

lemma inline_step:
  assumes "run_handler_inline Q crash sid req (cx_cwd ctx) (cx_user ctx) (ctx, sx) = (ctx', sx')"
  shows "local_step (ctx, sx) (ctx', sx') \<and> sx_pool sx' = sx_pool sx \<and>
    cx_pending_handler_jobs ctx' = cx_pending_handler_jobs ctx \<and> cx_handler_in_flight ctx' = cx_handler_in_flight ctx \<and>
    (dirs_ok (ctx, sx) \<longrightarrow> dirs_ok (ctx', sx'))"
proof -
  obtain r c fs u where h: "handle_handler_panic crash (sx_fs sx) (sx_fs sx) req (cx_cwd ctx) (get_user (sx_users sx) (cx_user ctx)) = (r, c, fs, u)"
    by (metis prod_cases4)
  have hm: "homes (set_user (sx_users sx) (cx_user ctx) u) = homes (sx_users sx)"
    using handle_handler_panic_home [OF h] by simp
  show ?thesis using assms h hm panic_cwd [OF h]
    by (auto simp: run_handler_inline_def send_response_def local_step_def dirs_ok_def job_key_def metric_if_def metric_def Let_def
        split: prod.splits if_splits)
qed

lemma drain_step:
  "drain_inline Q crashes queue (ctx, sx) = (ctx', sx') \<Longrightarrow> local_step (ctx, sx) (ctx', sx') \<and> sx_pool sx' = sx_pool sx \<and>
    cx_pending_handler_jobs ctx' = cx_pending_handler_jobs ctx \<and> cx_handler_in_flight ctx' = cx_handler_in_flight ctx \<and>
    (dirs_ok (ctx, sx) \<longrightarrow> dirs_ok (ctx', sx'))"
proof (induction queue arbitrary: ctx sx)
  case (Cons q queue)
  obtain sid req where q: "q = (sid, req)" by fastforce
  obtain c1 x1 where i: "run_handler_inline Q (crashes (cx_scid ctx) sid) sid req (cx_cwd ctx) (cx_user ctx) (ctx, sx) = (c1, x1)" by fastforce
  from inline_step [OF i] Cons.IH [of c1 x1] Cons.prems show ?case by (auto simp: q i intro: local_step_trans)
qed (simp add: local_step_def)

lemma dispatch_step:
  assumes "dispatch_handler_job Q crashes sid req (ctx, sx) = (ctx', sx')"
  shows "local_step (ctx, sx) (ctx', sx') \<and> (dirs_ok (ctx, sx) \<longrightarrow> dirs_ok (ctx', sx')) \<and>
    (count (outstanding (sx_pool sx)) (job_key ctx) = 0 \<longrightarrow> served_busy (ctx', sx'))"
proof (cases "hp_alive (sx_pool sx)")
  case True
  then show ?thesis using assms
    by (auto simp: dispatch_handler_job_def local_step_def dirs_ok_def served_busy_def Let_def job_key_def busy_def outstanding_def hj_key_def pool_ok_def)
next
  case False
  obtain c1 x1 where i: "run_handler_inline Q (crashes (cx_scid ctx) sid) sid req (cx_cwd ctx) (cx_user ctx) (ctx, sx) = (c1, x1)" by fastforce
  have d: "drain_inline Q crashes (cx_pending_handler_jobs c1) (c1\<lparr>cx_handler_in_flight := False, cx_pending_handler_jobs := []\<rparr>, x1) = (ctx', sx')"
    using assms(1) False i by (simp add: dispatch_handler_job_def Let_def)
  have m: "local_step (c1, x1) (c1\<lparr>cx_handler_in_flight := False, cx_pending_handler_jobs := []\<rparr>, x1)"
    "dirs_ok (c1\<lparr>cx_handler_in_flight := False, cx_pending_handler_jobs := []\<rparr>, x1) = dirs_ok (c1, x1)"
    by (simp_all add: local_step_def dirs_ok_def job_key_def)
  have l: "local_step (ctx, sx) (ctx', sx')" using inline_step [OF i] drain_step [OF d] m(1) local_step_trans by blast
  then have "served_busy (ctx', sx')" if "count (outstanding (sx_pool sx)) (job_key ctx) = 0"
    using that inline_step [OF i] drain_step [OF d] by (auto simp: served_busy_def busy_def local_step_def)
  then show ?thesis using l inline_step [OF i] drain_step [OF d] m(2) by auto
qed

lemma execute_action_step: "conn_step s (snd (execute_action P crashes a s))"
proof (cases "\<exists>sid req. a = HandleSimple sid req")
  case True
  then obtain sid req where a: "a = HandleSimple sid req" by blast
  obtain ctx sx where s: "s = (ctx, sx)" by fastforce
  show ?thesis
  proof (cases "cx_handler_in_flight ctx")
    case True
    then show ?thesis by (simp add: a s conn_step_def local_step_def served_busy_def dirs_ok_def job_key_def busy_def)
  next
    case False
    obtain ctx' sx' where d: "dispatch_handler_job (s_quic P) crashes sid req (ctx, sx) = (ctx', sx')" by fastforce
    show ?thesis using dispatch_step [OF d] False by (auto simp: a s d conn_step_def served_busy_def [of "(ctx, sx)"] busy_def)
  qed
next
  case False
  have "frozen (snd (execute_action P crashes a s)) = frozen s"
    using False by (cases a; cases s) (auto simp: frozen_simps Let_def split: prod.splits sum.splits)
  then show ?thesis by (rule conn_step_frozen)
qed

lemma execute_step: "conn_step s (snd (execute_pending_actions P crashes as s))"
proof (induction P crashes as s rule: execute_pending_actions.induct)
  case (2 P crashes a as s)
  show ?case using execute_action_step [of s P crashes a] 2
    by (auto split: prod.splits sum.splits intro: conn_step_trans)
qed (simp add: conn_step_frozen)

lemma resolve_identity_lookup: "resolve_identity cs d = Matched i u \<Longrightarrow> lookup_strict d i = Some u"
  using match_identities_spec(1) [OF refl, of d cs] by (auto simp: resolve_identity_def split: list.splits)

lemma upgrade_step:
  assumes "upgrade_user_from_cert P (sx_users sx) mtls ctx = (b, ctx')"
  shows "conn_step (ctx, sx) (ctx', sx)"
proof (cases "cx_user ctx' = cx_user ctx")
  case True
  then have "frozen (ctx', sx) = frozen (ctx, sx)" using assms
    by (auto simp: upgrade_user_from_cert_def frozen_def Let_def split: if_splits option.splits IdentityResolution.splits)
  then show ?thesis by (rule conn_step_frozen)
next
  case False
  then obtain der i u where m: "resolve_identity (extract_identity_candidates (s_from_der P) der) (sx_users sx) = Matched i u"
    "ctx' = ctx\<lparr>cx_cwd := u_home u, cx_user := Some (trim i)\<rparr>"
    using assms by (auto simp: upgrade_user_from_cert_def Let_def split: if_splits option.splits IdentityResolution.splits)
  have "lookup_strict (sx_users sx) i = Some u" by (rule resolve_identity_lookup [OF m(1)])
  then have "get_user (sx_users sx) (Some (trim i)) = u" by (simp add: lookup_strict_def get_user_def)
  then show ?thesis using homes_ok_at [of "homes (sx_users sx)" "Some (trim i)"]
    by (auto simp: m conn_step_def local_step_def served_busy_def dirs_ok_def job_key_def busy_def cwd_ok_def home_at_homes Let_def)
qed

lemma process_step: "conn_step s (snd (process_readable_streams P cfg crashes s))"
proof -
  obtain ctx sx where s: "s = (ctx, sx)" by fastforce
  obtain b ctx' where u: "upgrade_user_from_cert P (sx_users sx) (sc_mtls_required cfg) ctx = (b, ctx')" by fastforce
  note up = upgrade_step [OF u]
  let ?refuse = "sc_mtls_required cfg \<or> has_named_users (sx_users sx)"
  obtain r s1 where p: "plan_actions P ?refuse (q_readable (s_quic P) (cx_conn ctx')) (ctx', sx) = (r, s1)" by (rule prod.exhaust)
  have "conn_step (ctx', sx) s1"
    using frozen_plan_actions [of P ?refuse "q_readable (s_quic P) (cx_conn ctx')" "(ctx', sx)"] p by (simp add: conn_step_frozen)
  then have c: "conn_step (ctx, sx) s1" using up conn_step_trans by blast
  show ?thesis using up c conn_step_trans [OF c execute_step, of P crashes]
    by (cases b; cases r) (simp_all add: s u p process_readable_streams_def)
qed

lemma work_step:
  assumes "connection_work P cfg crashes s = Some s'"
  shows "conn_step s s'"
proof -
  let ?s1 = "close_on_error P (process_readable_streams P cfg crashes s)"
  let ?s2 = "close_on_error P (drive_rehash_streams P ?s1)"
  obtain s3 where s3: "drive_sending_streams P ?s2 = Some s3" "s' = close_on_error P (flush_connection P s3)"
    using assms by (auto simp: connection_work_def Let_def)
  have "frozen s' = frozen (snd (process_readable_streams P cfg crashes s))"
    using frozen_drive_sending [OF s3(1)] by (simp add: s3(2) frozen_simps)
  then show ?thesis using process_step conn_step_frozen conn_step_trans by blast
qed


section \<open>The connection table\<close>

text \<open>
  \<open>ks\<close> are the jobs outstanding: those of the pool, and during phase 1.5 the results that are
  still to be applied.
\<close>

definition table_ok :: "(bytes \<times> u64) multiset \<Rightarrow> path \<times> (string \<times> path) list \<Rightarrow> ('c, 'd, 'e) Connections \<Rightarrow> bool" where
  "table_ok ks h conns \<longleftrightarrow> distinct (map fst conns) \<and>
     (\<forall>(k, ctx) \<in> set conns. cx_scid ctx = k \<and> busy ks ctx \<and> cwd_ok h (cx_user ctx) (cx_cwd ctx))"

definition addrs :: "('c, 'd, 'e) Connections \<Rightarrow> (bytes \<times> u64 \<times> SocketAddr) list" where
  "addrs conns = map (\<lambda>(k, ctx). (k, cx_generation ctx, cx_peer_addr ctx)) conns"

lemma addrs_fst: "addrs conns' = addrs conns \<Longrightarrow> map fst conns' = map fst conns"
proof -
  assume "addrs conns' = addrs conns"
  then have "map fst (addrs conns') = map fst (addrs conns)" by simp
  then show ?thesis by (simp add: addrs_def comp_def case_prod_beta)
qed

lemma busy_cong: "count ks' (job_key ctx) = count ks (job_key ctx) \<Longrightarrow> busy ks' ctx = busy ks ctx"
  by (simp add: busy_def)

lemma table_ok_Cons: "table_ok ks h ((k, ctx) # conns) \<longleftrightarrow> k \<notin> fst ` set conns \<and> cx_scid ctx = k \<and> busy ks ctx \<and>
   cwd_ok h (cx_user ctx) (cx_cwd ctx) \<and> table_ok ks h conns"
  by (auto simp: table_ok_def)

lemma table_ok_cong:
  assumes "table_ok ks h conns" "\<forall>k. fst k \<in> fst ` set conns \<longrightarrow> count ks' k = count ks k"
  shows "table_ok ks' h conns"
proof -
  have "busy ks' ctx" if "(k, ctx) \<in> set conns" for k ctx
  proof -
    have "busy ks ctx" "fst (job_key ctx) \<in> fst ` set conns" using that assms(1) by (force simp: table_ok_def job_key_def)+
    then show ?thesis using busy_cong assms(2) by blast
  qed
  then show ?thesis using assms(1) by (auto simp: table_ok_def)
qed

lemma work_table:
  "phase_per_connection_work P cfg crashes conns sx = Some (conns', sx') \<Longrightarrow>
   table_ok (outstanding (sx_pool sx)) (homes (sx_users sx)) conns \<Longrightarrow> homes_ok (homes (sx_users sx)) \<Longrightarrow>
   pool_ok (homes (sx_users sx)) (sx_pool sx) \<Longrightarrow>
   table_ok (outstanding (sx_pool sx')) (homes (sx_users sx')) conns' \<and> pool_ok (homes (sx_users sx')) (sx_pool sx') \<and>
   homes (sx_users sx') = homes (sx_users sx) \<and> addrs conns' = addrs conns \<and>
   (\<forall>k. fst k \<notin> fst ` set conns \<longrightarrow> count (outstanding (sx_pool sx')) k = count (outstanding (sx_pool sx)) k) \<and>
   set_mset (outstanding (sx_pool sx')) \<subseteq> set_mset (outstanding (sx_pool sx)) \<union> (\<lambda>(k, g, a). (k, g)) ` set (addrs conns)"
proof (induction conns arbitrary: sx conns' sx')
  case Nil
  then show ?case by simp
next
  case (Cons c conns)
  obtain k ctx where c: "c = (k, ctx)" by fastforce
  from Cons.prems(1) obtain ctx1 sx1 conns1 where w: "connection_work P cfg crashes (ctx, sx) = Some (ctx1, sx1)"
    "phase_per_connection_work P cfg crashes conns sx1 = Some (conns1, sx')" "conns' = (k, ctx1) # conns1"
    by (auto simp: c bind_eq_Some_conv)
  note st = work_step [OF w(1)]
  have pre: "k \<notin> fst ` set conns" "cx_scid ctx = k" "busy (outstanding (sx_pool sx)) ctx" "cwd_ok (homes (sx_users sx)) (cx_user ctx) (cx_cwd ctx)"
    "table_ok (outstanding (sx_pool sx)) (homes (sx_users sx)) conns"
    using Cons.prems(2) by (auto simp: c table_ok_Cons)
  have l: "job_key ctx1 = job_key ctx" "cx_peer_addr ctx1 = cx_peer_addr ctx" "homes (sx_users sx1) = homes (sx_users sx)"
    "\<And>k. k \<noteq> job_key ctx \<Longrightarrow> count (outstanding (sx_pool sx1)) k = count (outstanding (sx_pool sx)) k"
    "busy (outstanding (sx_pool sx1)) ctx1" "pool_ok (homes (sx_users sx)) (sx_pool sx1)" "cwd_ok (homes (sx_users sx)) (cx_user ctx1) (cx_cwd ctx1)"
    using st pre Cons.prems(3,4) by (auto simp: conn_step_def local_step_def served_busy_def dirs_ok_def Let_def)
  have t1: "table_ok (outstanding (sx_pool sx1)) (homes (sx_users sx1)) conns"
    unfolding l(3) by (rule table_ok_cong [OF pre(5)]) (use l(4) pre(1,2) in \<open>metis fst_conv job_key_def\<close>)
  note ih = Cons.IH [OF w(2) t1]
  have jk: "job_key ctx = (k, cx_generation ctx)" using pre(2) by (simp add: job_key_def)
  have "busy (outstanding (sx_pool sx')) ctx1"
    using ih l(1,3,5,6) pre(1) Cons.prems(3) jk by (subst busy_cong [where ks = "outstanding (sx_pool sx1)"]) auto
  moreover have "cx_scid ctx1 = k" "cx_generation ctx1 = cx_generation ctx" using l(1) jk by (auto simp: job_key_def)
  moreover have "k \<notin> fst ` set conns1" using ih l(3,6) Cons.prems(3) addrs_fst [of conns1 conns] pre(1) by (metis list.set_map)
  moreover have "set_mset (outstanding (sx_pool sx1)) \<subseteq> insert (job_key ctx) (set_mset (outstanding (sx_pool sx)))"
  proof
    fix x assume "x \<in># outstanding (sx_pool sx1)"
    then show "x \<in> insert (job_key ctx) (set_mset (outstanding (sx_pool sx)))"
      using l(4) [of x] by (cases "x = job_key ctx") (auto simp flip: count_greater_zero_iff)
  qed
  ultimately show ?case using ih l jk Cons.prems(3) by (auto simp: w(3) c table_ok_Cons addrs_def)
qed


subsection \<open>Results\<close>

lemma deliver_step:
  assumes "deliver_result Q crashes r (ctx, sx) = (ctx', sx')"
    and "count (outstanding (sx_pool sx)) (job_key ctx) = 0"
    and "cwd_ok (homes (sx_users sx)) (hr_user r) (hr_new_cwd r)"
  shows "local_step (ctx, sx) (ctx', sx') \<and> served_busy (ctx', sx') \<and> (dirs_ok (ctx, sx) \<longrightarrow> dirs_ok (ctx', sx'))"
proof -
  define m where "m = handler_result_user_matches (cx_user ctx) (hr_user r)"
  define resp where "resp = (if m then hr_response r else requires_1rtt)"
  define x1 where "x1 = metric_if (is_err resp) inc_requests_failed (metric_if (\<not> m) inc_zero_rtt_rejected sx)"
  define c1 where "c1 = (snd (send_response Q (hr_stream_id r) resp (if m then ctx\<lparr>cx_cwd := hr_new_cwd r\<rparr> else ctx)))\<lparr>cx_handler_in_flight := False\<rparr>"
  have x1: "sx_pool x1 = sx_pool sx" "sx_users x1 = sx_users sx" by (simp_all add: x1_def metric_if_def metric_def)
  have c1: "job_key c1 = job_key ctx" "cx_peer_addr c1 = cx_peer_addr ctx" "cx_user c1 = cx_user ctx" "\<not> cx_handler_in_flight c1"
    "cx_pending_handler_jobs c1 = cx_pending_handler_jobs ctx" "cx_cwd c1 = (if m then hr_new_cwd r else cx_cwd ctx)"
    by (auto simp: c1_def send_response_def job_key_def split: prod.splits)
  have l: "local_step (ctx, sx) (c1, x1)" by (simp add: local_step_def x1 c1)
  have d: "dirs_ok (c1, x1)" if "dirs_ok (ctx, sx)"
    using that assms(3) by (auto simp: dirs_ok_def x1 c1 m_def handler_result_user_matches_def Let_def)
  have e: "(ctx', sx') = (case cx_pending_handler_jobs c1 of [] \<Rightarrow> (c1, x1)
     | (sid, req) # queue \<Rightarrow> dispatch_handler_job Q crashes sid req (c1\<lparr>cx_pending_handler_jobs := queue\<rparr>, x1))"
    unfolding assms(1) [symmetric] by (auto simp: deliver_result_def c1_def x1_def resp_def m_def metric_if_def Let_def split: prod.splits list.splits)
  show ?thesis
  proof (cases "cx_pending_handler_jobs c1")
    case Nil
    then show ?thesis using e l d assms(2) c1 x1 by (auto simp: served_busy_def busy_def)
  next
    case (Cons q queue)
    obtain sid req where q: "q = (sid, req)" by fastforce
    have dis: "dispatch_handler_job Q crashes sid req (c1\<lparr>cx_pending_handler_jobs := queue\<rparr>, x1) = (ctx', sx')"
      using e Cons q by simp
    have "local_step (ctx, sx) (c1\<lparr>cx_pending_handler_jobs := queue\<rparr>, x1)" "job_key (c1\<lparr>cx_pending_handler_jobs := queue\<rparr>) = job_key ctx"
      "dirs_ok (c1\<lparr>cx_pending_handler_jobs := queue\<rparr>, x1) = dirs_ok (c1, x1)"
      using l c1(1) by (auto simp: local_step_def dirs_ok_def job_key_def)
    then show ?thesis using dispatch_step [OF dis] local_step_trans d assms(2) x1(1) by auto
  qed
qed

lemma map_of_table: "table_ok ks h conns \<Longrightarrow> map_of conns k = Some ctx \<Longrightarrow>
  cx_scid ctx = k \<and> busy ks ctx \<and> cwd_ok h (cx_user ctx) (cx_cwd ctx)"
  by (auto simp: table_ok_def dest!: map_of_SomeD)

lemma table_ok_update:
  assumes "table_ok ks h conns" "map_of conns k = Some ctx" "job_key ctx' = job_key ctx" "busy ks' ctx'"
    "cwd_ok h (cx_user ctx') (cx_cwd ctx')" "\<forall>j. j \<noteq> job_key ctx \<longrightarrow> count ks' j = count ks j"
  shows "table_ok ks' h (AList.update k ctx' conns)"
proof -
  have k: "cx_scid ctx = k" using map_of_table [OF assms(1,2)] by simp
  have d: "distinct (map fst conns)" using assms(1) by (simp add: table_ok_def)
  have "cx_scid c = j \<and> busy ks' c \<and> cwd_ok h (cx_user c) (cx_cwd c)" if "(j, c) \<in> set (AList.update k ctx' conns)" for j c
  proof (cases "j = k")
    case True
    have "map_of (AList.update k ctx' conns) j = Some c"
      using that d by (metis distinct_update map_of_eq_Some_iff)
    then show ?thesis using True assms(3-5) k by (auto simp: job_key_def)
  next
    case False
    have m: "map_of conns j = Some c"
      using that d False by (metis distinct_update map_of_eq_Some_iff update_conv' fun_upd_other)
    note mt = map_of_table [OF assms(1) m]
    have "job_key c \<noteq> job_key ctx" using mt k False by (auto simp: job_key_def)
    then have "count ks' (job_key c) = count ks (job_key c)" using assms(6) by blast
    then show ?thesis using mt busy_cong by blast
  qed
  then show ?thesis using d by (auto simp: table_ok_def distinct_update)
qed

lemma addrs_update:
  assumes "map_of conns k = Some ctx" "cx_generation ctx' = cx_generation ctx" "cx_peer_addr ctx' = cx_peer_addr ctx"
  shows "addrs (AList.update k ctx' conns) = addrs conns"
  using assms(1) by (induction conns) (auto simp: addrs_def assms(2,3) split: if_splits)

lemma results_table:
  "apply_results Q crashes rs (conns, sx) = (conns', sx') \<Longrightarrow>
   table_ok (outstanding (sx_pool sx) + mset (map hr_key rs)) (homes (sx_users sx)) conns \<Longrightarrow> homes_ok (homes (sx_users sx)) \<Longrightarrow>
   pool_ok (homes (sx_users sx)) (sx_pool sx) \<Longrightarrow> (\<forall>r \<in> set rs. cwd_ok (homes (sx_users sx)) (hr_user r) (hr_new_cwd r)) \<Longrightarrow>
   table_ok (outstanding (sx_pool sx')) (homes (sx_users sx')) conns' \<and> pool_ok (homes (sx_users sx')) (sx_pool sx') \<and>
   homes (sx_users sx') = homes (sx_users sx) \<and> addrs conns' = addrs conns \<and>
   set_mset (outstanding (sx_pool sx')) \<subseteq> set_mset (outstanding (sx_pool sx)) \<union> (\<lambda>(k, g, a). (k, g)) ` set (addrs conns)"
proof (induction rs arbitrary: conns sx)
  case Nil
  then show ?case by simp
next
  case (Cons r rs)
  let ?ks = "mset (map hr_key rs)" and ?h = "homes (sx_users sx)"
  show ?case
  proof (cases "\<exists>ctx. map_of conns (hr_conn_key r) = Some ctx \<and> cx_generation ctx = hr_generation r")
    case False
    then have a: "apply_handler_result Q crashes r (conns, sx) = (conns, sx)"
      by (auto simp: apply_handler_result_def handler_result_is_stale_def split: option.splits)
    have "busy (outstanding (sx_pool sx) + ?ks) ctx" if "(k, ctx) \<in> set conns" for k ctx
    proof -
      have o: "busy (outstanding (sx_pool sx) + mset (map hr_key (r # rs))) ctx" "cx_scid ctx = k" "distinct (map fst conns)"
        using Cons.prems(2) that by (auto simp: table_ok_def)
      then have "map_of conns (cx_scid ctx) = Some ctx" using that by simp
      then have "hr_key r \<noteq> job_key ctx" using False by (auto simp: hr_key_def job_key_def)
      then show ?thesis using o(1) by (simp add: busy_def)
    qed
    then have "table_ok (outstanding (sx_pool sx) + ?ks) ?h conns" using Cons.prems(2) by (auto simp: table_ok_def)
    then show ?thesis using Cons.IH [of conns sx] Cons.prems a by auto
  next
    case True
    then obtain ctx where m: "map_of conns (hr_conn_key r) = Some ctx" "cx_generation ctx = hr_generation r" by blast
    obtain c1 x1 where d: "deliver_result Q crashes r (ctx, sx) = (c1, x1)" by fastforce
    let ?conns1 = "AList.update (hr_conn_key r) c1 conns"
    have a: "apply_handler_result Q crashes r (conns, sx) = (?conns1, x1)"
      by (simp add: apply_handler_result_def m handler_result_is_stale_def d)
    note mt = map_of_table [OF Cons.prems(2) m(1)]
    have jk: "job_key ctx = hr_key r" using mt m(2) by (simp add: job_key_def hr_key_def)
    have z: "count (outstanding (sx_pool sx)) (job_key ctx) = 0" "count ?ks (job_key ctx) = 0"
      using mt jk by (auto simp: busy_def split: if_splits)
    have ds: "local_step (ctx, sx) (c1, x1)" "served_busy (c1, x1)" "dirs_ok (ctx, sx) \<longrightarrow> dirs_ok (c1, x1)"
      using deliver_step [OF d z(1)] Cons.prems(5) by auto
    have l: "job_key c1 = job_key ctx" "cx_peer_addr c1 = cx_peer_addr ctx" "homes (sx_users x1) = ?h"
      "\<And>k. k \<noteq> job_key ctx \<Longrightarrow> count (outstanding (sx_pool x1)) k = count (outstanding (sx_pool sx)) k"
      "busy (outstanding (sx_pool x1)) c1" "pool_ok ?h (sx_pool x1)" "cwd_ok ?h (cx_user c1) (cx_cwd c1)"
      using ds mt Cons.prems(3,4) by (auto simp: local_step_def served_busy_def dirs_ok_def Let_def)
    have b: "busy (outstanding (sx_pool x1) + ?ks) c1" using l(1,5) z(2) by (simp add: busy_def)
    have t: "table_ok (outstanding (sx_pool x1) + ?ks) ?h ?conns1"
      by (rule table_ok_update [OF Cons.prems(2) m(1) l(1) b l(7)]) (use l(4) jk in auto)
    have ad: "addrs ?conns1 = addrs conns" using addrs_update [OF m(1)] l(1,2) by (simp add: job_key_def)
    have sub: "set_mset (outstanding (sx_pool x1)) \<subseteq> insert (job_key ctx) (set_mset (outstanding (sx_pool sx)))"
    proof
      fix x assume "x \<in># outstanding (sx_pool x1)"
      then show "x \<in> insert (job_key ctx) (set_mset (outstanding (sx_pool sx)))"
        using l(4) [of x] by (cases "x = job_key ctx") (auto simp flip: count_greater_zero_iff)
    qed
    have jin: "job_key ctx \<in> (\<lambda>(k, g, a). (k, g)) ` set (addrs conns)"
      using map_of_SomeD [OF m(1)] mt by (force simp: addrs_def job_key_def)
    have ap: "apply_results Q crashes rs (?conns1, x1) = (conns', sx')" using Cons.prems(1) a by simp
    note ih = Cons.IH [OF ap t [folded l(3)], unfolded l(3) ad]
    have "set_mset (outstanding (sx_pool sx')) \<subseteq> set_mset (outstanding (sx_pool x1)) \<union> (\<lambda>(k, g, a). (k, g)) ` set (addrs conns)"
      using ih Cons.prems(3,5) l(6) by auto
    then have "set_mset (outstanding (sx_pool sx')) \<subseteq> set_mset (outstanding (sx_pool sx)) \<union> (\<lambda>(k, g, a). (k, g)) ` set (addrs conns)"
      using sub jin by blast
    then show ?thesis using ih Cons.prems(3,5) l(6) by auto
  qed
qed


section \<open>The server\<close>

definition live :: "('c, 'd, 'e) Connections \<Rightarrow> bytes multiset" where
  "live conns = mset (map (\<lambda>(k, g, a). bucket_key (sa_ip a)) (addrs conns))"

definition server_ok :: "Caps \<Rightarrow> nat \<Rightarrow> ('c, 'd, 'e) Server \<Rightarrow> bool" where
  "server_ok caps n sv \<longleftrightarrow> (let conns = sv_connections sv; sx = sv_ctx sv; g = sv_next_generation sv; h = homes (sx_users sx)
     in table_ok (outstanding (sx_pool sx)) h conns \<and> homes_ok h \<and> pool_ok h (sx_pool sx) \<and> unat g \<le> n \<and>
        (\<forall>(k, x, a) \<in> set (addrs conns). x < g) \<and> (\<forall>(k, x) \<in># outstanding (sx_pool sx). x < g) \<and>
        counter_abs (sv_counter sv) (live conns) \<and> within_caps caps (live conns))"

lemmas server_ok_defs = server_ok_def Let_def

text \<open>Changes that the invariant does not see.\<close>

lemma server_ok_ctx:
  "sx_pool sx = sx_pool (sv_ctx sv) \<Longrightarrow> homes (sx_users sx) = homes (sx_users (sv_ctx sv)) \<Longrightarrow>
   server_ok caps n (sv\<lparr>sv_ctx := sx\<rparr>) = server_ok caps n sv"
  by (simp add: server_ok_defs)

lemma server_ok_mono: "server_ok caps n sv \<Longrightarrow> n \<le> m \<Longrightarrow> server_ok caps m sv"
  by (auto simp: server_ok_defs)

lemma server_ok_retries: "server_ok caps n (sv\<lparr>sv_retries := r\<rparr>) = server_ok caps n sv"
  by (simp add: server_ok_defs)

lemma metric_simps [simp]: "sx_pool (metric f sx) = sx_pool sx" "sx_users (metric f sx) = sx_users sx"
  "sx_pool (metric_if b f sx) = sx_pool sx" "sx_users (metric_if b f sx) = sx_users sx"
  by (simp_all add: metric_def metric_if_def)

lemma table_ok_map:
  assumes "table_ok ks h conns" "\<And>ctx. frozen (f ctx, sx) = frozen (ctx, sx)"
  shows "table_ok ks h (map (\<lambda>(k, ctx). (k, f ctx)) conns)" "addrs (map (\<lambda>(k, ctx). (k, f ctx)) conns) = addrs conns"
proof -
  have f: "cx_scid (f ctx) = cx_scid ctx" "busy ks (f ctx) = busy ks ctx" "cx_user (f ctx) = cx_user ctx" "cx_cwd (f ctx) = cx_cwd ctx"
    "cx_generation (f ctx) = cx_generation ctx" "cx_peer_addr (f ctx) = cx_peer_addr ctx" for ctx
    using assms(2) [of ctx] by (auto simp: frozen_def busy_def job_key_def)
  have "map fst (map (\<lambda>(k, ctx). (k, f ctx)) conns) = map fst conns" by (simp add: comp_def case_prod_beta)
  then show "table_ok ks h (map (\<lambda>(k, ctx). (k, f ctx)) conns)"
    using assms(1) unfolding table_ok_def by (simp only:) (auto simp: f)
  show "addrs (map (\<lambda>(k, ctx). (k, f ctx)) conns) = addrs conns" by (auto simp: addrs_def f comp_def case_prod_beta)
qed

lemma server_ok_conns:
  assumes "server_ok caps n sv" "table_ok (outstanding (sx_pool (sv_ctx sv))) (homes (sx_users (sv_ctx sv))) conns" "addrs conns = addrs (sv_connections sv)"
  shows "server_ok caps n (sv\<lparr>sv_connections := conns\<rparr>)"
  using assms by (simp add: server_ok_defs live_def)

subsection \<open>Accepting\<close>

lemma receive_ok:
  assumes "server_ok caps n sv" "map_of (sv_connections sv) key = Some ctx"
  shows "server_ok caps n (receive_packet P from pkt key ctx sv)"
proof -
  let ?ctx' = "ctx\<lparr>cx_conn := snd (q_recv (s_quic P) (cx_conn ctx) from pkt)\<rparr>"
  have t: "table_ok (outstanding (sx_pool (sv_ctx sv))) (homes (sx_users (sv_ctx sv))) (sv_connections sv)"
    using assms(1) by (simp add: server_ok_defs)
  note mt = map_of_table [OF t assms(2)]
  have "table_ok (outstanding (sx_pool (sv_ctx sv))) (homes (sx_users (sv_ctx sv))) (AList.update key ?ctx' (sv_connections sv))"
    by (rule table_ok_update [OF t assms(2)]) (use mt in \<open>auto simp: job_key_def busy_def\<close>)
  then show ?thesis unfolding receive_packet_def
    by (rule server_ok_conns [OF assms(1)]) (rule addrs_update [OF assms(2)], simp_all)
qed

lemma addrs_new: "map_of conns k = None \<Longrightarrow> addrs (AList.update k ctx conns) = addrs conns @ [(k, cx_generation ctx, cx_peer_addr ctx)]"
  by (induction conns) (auto simp: addrs_def split: if_splits)

lemma table_ok_new:
  assumes "table_ok ks h conns" "map_of conns k = None" "cx_scid ctx = k" "busy ks ctx" "cwd_ok h (cx_user ctx) (cx_cwd ctx)"
  shows "table_ok ks h (AList.update k ctx conns)"
proof -
  have "AList.update k ctx conns = conns @ [(k, ctx)]" using assms(2) by (induction conns) (auto split: if_splits)
  then show ?thesis using assms by (auto simp: table_ok_def map_of_eq_None_iff)
qed

lemma accept_ok:
  fixes P :: "('c, 'd, 'e) ServerPrims" and sv :: "('c, 'd, 'e) Server"
  assumes ok: "server_ok (sc_caps cfg) n sv" and n: "Suc n < 2 ^ 64"
  shows "server_ok (sc_caps cfg) (Suc n) (accept_connection P cfg a hdr sv)"
proof -
  let ?ip = "sa_ip (ar_from a)" and ?scid = "derive_scid (s_hmac P) (hd_dcid hdr)" and ?sx = "sv_ctx sv"
  obtain r c where acq: "try_acquire (sc_caps cfg) ?ip (sv_counter sv) = (r, c)" by fastforce
  have ca: "counter_abs (sv_counter sv) (live (sv_connections sv))" using ok by (simp add: server_ok_defs)
  note ref = try_acquire_refines [OF ca acq]
  have keep: "server_ok (sc_caps cfg) (Suc n) (sv\<lparr>sv_counter := c'\<rparr>)" if "counter_abs c' (live (sv_connections sv))" for c'
    using ok that by (simp add: server_ok_defs)
  show ?thesis
  proof (cases r)
    case None
    then have "counter_abs c (live (sv_connections sv))" using ref by (auto split: if_splits)
    then show ?thesis using keep [of c] server_ok_ctx [of "metric inc_connections_rejected_caps ?sx" "sv\<lparr>sv_counter := c\<rparr>"]
      by (simp add: accept_connection_def acq None)
  next
    case (Some slot)
    have cap: "size (live (sv_connections sv)) < max_total_connections (sc_caps cfg)"
      "count (live (sv_connections sv)) (bucket_key ?ip) < max_per_ip_connections (sc_caps cfg)"
      "slot = \<lparr>slot_ip = ?ip, slot_armed = True\<rparr>" "counter_abs c (add_mset (bucket_key ?ip) (live (sv_connections sv)))"
      using ref Some by (auto split: if_splits)
    have "counter_abs (slot_drop slot c) (live (sv_connections sv))"
      using slots.undone [OF ca acq [unfolded Some]] by (simp add: cap(3) slot_drop_def)
    note dropped = keep [OF this]
    consider (gone) "accept_connection P cfg a hdr sv = sv\<lparr>sv_counter := slot_drop slot c\<rparr>"
      | (new) conn where "map_of (sv_connections sv) ?scid = None"
        "accept_connection P cfg a hdr sv = (let (now, sx) = now_tick ?sx in
           sv\<lparr>sv_connections := AList.update ?scid (ConnectionContext_new conn (ar_from a) (sx_users sx) None ?scid (sv_next_generation sv) now) (sv_connections sv),
              sv_counter := slot_drop (slot_commit slot) c, sv_next_generation := sv_next_generation sv + 1,
              sv_ctx := metric inc_connections_open (metric inc_connections_total sx)\<rparr>)"
    proof (cases "q_accept (s_quic P) ?scid (if sc_require_retry cfg then Option.bind (hd_token hdr) (\<lambda>t. verify_at (s_sign P) (ar_from a) t (ar_unix' a)) else None) (ar_from a)")
      case (Inl e)
      then show ?thesis using that(1) acq Some by (simp add: accept_connection_def Let_def)
    next
      case conn: (Inr conn)
      obtain x conn' where rc: "q_recv (s_quic P) conn (ar_from a) (ar_pkt a) = (x, conn')" by fastforce
      show ?thesis
      proof (cases "is_ok x \<and> map_of (sv_connections sv) ?scid = None")
        case True
        then show ?thesis using that(2) [of conn'] acq Some conn rc
          by (cases x) (simp_all add: accept_connection_def Let_def)
      next
        case False
        then show ?thesis using that(1) acq Some conn rc by (cases x) (auto simp: accept_connection_def Let_def)
      qed
    qed
    then show ?thesis
    proof cases
      case gone
      then show ?thesis using dropped by simp
    next
      case new
      define g where "g = sv_next_generation sv"
      define ctx :: "('c, 'd, 'e) ConnectionContext" where "ctx = ConnectionContext_new conn (ar_from a) (sx_users ?sx) None ?scid g (sx_clock ?sx (sx_ticks ?sx)) "
      have g: "unat g \<le> n" "\<forall>(k, x, a) \<in> set (addrs (sv_connections sv)). x < g" "\<forall>(k, x) \<in># outstanding (sx_pool ?sx). x < g"
        using ok by (simp_all add: server_ok_defs g_def)
      have g1: "unat (g + 1) = Suc (unat g)" using g(1) n by (simp add: u64_simps)
      then have lt: "x < g + 1" if "x < g" for x using that by (simp add: word_less_nat_alt)
      have gg: "g < g + 1" using g1 by (simp add: word_less_nat_alt)
      have "count (outstanding (sx_pool ?sx)) (?scid, g) = 0"
        using g(3) by (force simp: count_eq_zero_iff)
      then have b: "busy (outstanding (sx_pool ?sx)) ctx" by (simp add: ctx_def ConnectionContext_new_def busy_def job_key_def)
      have h: "homes_ok (homes (sx_users ?sx))" "table_ok (outstanding (sx_pool ?sx)) (homes (sx_users ?sx)) (sv_connections sv)"
        using ok by (simp_all add: server_ok_defs)
      have "cwd_ok (homes (sx_users ?sx)) (cx_user ctx) (cx_cwd ctx)"
        using homes_ok_at [OF h(1), of None] by (simp add: cwd_ok_def ctx_def ConnectionContext_new_def home_at_homes)
      then have t: "table_ok (outstanding (sx_pool ?sx)) (homes (sx_users ?sx)) (AList.update ?scid ctx (sv_connections sv))"
        using table_ok_new [OF h(2) new(1) _ b] by (simp add: ctx_def ConnectionContext_new_def)
      have lv: "live (AList.update ?scid ctx (sv_connections sv)) = add_mset (bucket_key ?ip) (live (sv_connections sv))"
        using addrs_new [OF new(1), of ctx] by (simp add: live_def ctx_def ConnectionContext_new_def)
      have "within_caps (sc_caps cfg) (add_mset (bucket_key ?ip) (live (sv_connections sv)))"
        using slots.stays_within [OF ca acq [unfolded Some]] ok by (simp add: server_ok_defs within_caps_def)
      moreover have "counter_abs (slot_drop (slot_commit slot) c) (add_mset (bucket_key ?ip) (live (sv_connections sv)))"
        using cap(4) by (simp add: slot_drop_def slot_commit_def)
      moreover have "\<forall>(k, x, a) \<in> set (addrs (AList.update ?scid ctx (sv_connections sv))). x < g + 1"
        using g(2) lt gg addrs_new [OF new(1), of ctx] by (auto simp: ctx_def ConnectionContext_new_def)
      moreover have "\<forall>(k, x) \<in># outstanding (sx_pool ?sx). x < g + 1" using g(3) lt by auto
      moreover have "unat (g + 1) \<le> Suc n" using g(1) g1 by simp
      ultimately show ?thesis using new(2) ok t lv
        by (simp add: now_tick_def server_ok_defs ctx_def g_def)
    qed
  qed
qed


lemma try_accept_ok:
  assumes "server_ok (sc_caps cfg) n sv" "Suc n < 2 ^ 64"
  shows "server_ok (sc_caps cfg) (Suc n) (snd (try_accept P cfg a hdr sv))"
proof -
  obtain granted rl where tc: "try_consume (sx_clock (sv_ctx sv) (sx_ticks (sv_ctx sv))) (sa_ip (ar_from a)) (sx_rate_limiter (sv_ctx sv)) = (granted, rl)"
    by fastforce
  let ?sx = "(sv_ctx sv)\<lparr>sx_ticks := Suc (sx_ticks (sv_ctx sv)), sx_rate_limiter := rl\<rparr>"
  have s1: "server_ok (sc_caps cfg) n (sv\<lparr>sv_ctx := ?sx\<rparr>)" using assms(1) server_ok_ctx [of ?sx sv] by simp
  note more = server_ok_mono [OF s1, of "Suc n", simplified]
  have metrics: "server_ok (sc_caps cfg) (Suc n) (sv\<lparr>sv_ctx := metric f ?sx\<rparr>)" for f
    using more server_ok_ctx [of "metric f ?sx" "sv\<lparr>sv_ctx := ?sx\<rparr>"] by simp
  have early: "server_ok (sc_caps cfg) (Suc n) (sv\<lparr>sv_ctx := metric f (sv_ctx sv)\<rparr>)" for f
    using server_ok_mono [OF assms(1), of "Suc n"] server_ok_ctx [of "metric f (sv_ctx sv)" sv] by simp
  have retry: "server_ok (sc_caps cfg) (Suc n) (sv1\<lparr>sv_ctx := metric_if b f (sv_ctx sv1)\<rparr>)"
    if "send_retry P a hdr (sv\<lparr>sv_ctx := ?sx\<rparr>) = (r, sv1)" for r sv1 b f
  proof -
    have "server_ok (sc_caps cfg) (Suc n) sv1"
      using that more server_ok_retries [where sv = "sv\<lparr>sv_ctx := ?sx\<rparr>"]
      by (auto simp: send_retry_def split: option.splits sum.splits)
    then show ?thesis using server_ok_ctx [of "metric_if b f (sv_ctx sv1)" sv1] by simp
  qed
  have retry': "server_ok (sc_caps cfg) (Suc n) sv1" if "send_retry P a hdr (sv\<lparr>sv_ctx := ?sx\<rparr>) = (r, sv1)" for r sv1
    using retry [OF that, of False] by (simp add: metric_if_def)
  note acc = accept_ok [OF s1 assms(2), of P a hdr]
  show ?thesis using acc metrics early more retry retry'
    by (auto simp: try_accept_def now_tick_def tc Let_def split: prod.splits sum.splits)
qed

lemma ingress_one_ok:
  assumes "server_ok (sc_caps cfg) n sv" "Suc n < 2 ^ 64"
  shows "server_ok (sc_caps cfg) (Suc n) (ingress_one P cfg closing a sv)"
proof -
  have r: "server_ok (sc_caps cfg) (Suc n) (receive_packet P fr pkt key ctx sv)" if "map_of (sv_connections sv) key = Some ctx" for fr pkt key ctx
    by (rule server_ok_mono [OF receive_ok [OF assms(1) that]]) simp
  show ?thesis using r try_accept_ok [OF assms, of P a] server_ok_mono [OF assms(1), of "Suc n"]
    by (auto simp: ingress_one_def Let_def split: option.splits)
qed

lemma ingress_ok:
  "phase_ingress P cfg closing as sv = (r, sv') \<Longrightarrow> server_ok (sc_caps cfg) n sv \<Longrightarrow> n + length as < 2 ^ 64 \<Longrightarrow>
   server_ok (sc_caps cfg) (n + length as) sv'"
proof (induction P cfg closing as sv arbitrary: n rule: phase_ingress.induct)
  case (2 P cfg closing e as sv)
  then show ?case using server_ok_mono [OF 2(2)] by auto
next
  case (3 P cfg closing a as sv)
  then show ?case using ingress_one_ok [OF 3(3), of P closing a] by fastforce
qed auto

subsection \<open>Reaping\<close>

lemma drop_stream_pool: "sx_pool (drop_stream e sx) = sx_pool sx" "homes (sx_users (drop_stream e sx)) = homes (sx_users sx)"
  using frozen_drop [of undefined e sx] by (simp_all add: frozen_def)

lemma drop_all_pool:
  "sx_pool (foldl (\<lambda>sx (_, e). drop_stream e sx) sx es) = sx_pool sx \<and>
   homes (sx_users (foldl (\<lambda>sx (_, e). drop_stream e sx) sx es)) = homes (sx_users sx)"
  by (induction es arbitrary: sx) (auto simp: drop_stream_pool)

lemma live_Cons: "live ((k, ctx) # conns) = add_mset (bucket_key (sa_ip (cx_peer_addr ctx))) (live conns)"
  by (simp add: live_def addrs_def)

lemma reap_ok:
  "phase_reap_connections P conns counter sx = (conns', counter', sx') \<Longrightarrow> table_ok ks h conns \<Longrightarrow>
   counter_abs counter (live conns + extra) \<Longrightarrow>
   table_ok ks h conns' \<and> set conns' \<subseteq> set conns \<and> live conns' \<subseteq># live conns \<and> counter_abs counter' (live conns' + extra) \<and>
   sx_pool sx' = sx_pool sx \<and> homes (sx_users sx') = homes (sx_users sx)"
proof (induction conns arbitrary: counter sx conns' counter' sx' extra)
  case (Cons c conns)
  obtain k ctx where c: "c = (k, ctx)" by fastforce
  define sx1 where "sx1 = sx\<lparr>sx_ticks := Suc (sx_ticks sx)\<rparr>"
  define sx2 where "sx2 = foldl (\<lambda>sx (_, e). drop_stream e sx) (metric dec_connections_open sx1) (cx_streams ctx)"
  define ip where "ip = sa_ip (cx_peer_addr ctx)"
  define keep where "keep \<longleftrightarrow> \<not> q_is_closed (s_quic P) (cx_conn ctx) \<and>
     \<not> half_open_expired (q_is_established (s_quic P) (cx_conn ctx)) (sx_clock sx (sx_ticks sx) - cx_created_at ctx)"
  have p: "sx_pool sx1 = sx_pool sx" "sx_users sx1 = sx_users sx" "sx_pool sx2 = sx_pool sx" "homes (sx_users sx2) = homes (sx_users sx)"
    by (simp_all add: sx1_def sx2_def drop_all_pool)
  have t: "table_ok ks h conns" "k \<notin> fst ` set conns" using Cons.prems(2) by (auto simp: c table_ok_Cons)
  show ?case
  proof (cases keep)
    case True
    obtain c3 n3 x3 where r: "phase_reap_connections P conns counter sx1 = (c3, n3, x3)" by (metis prod_cases3)
    have e: "conns' = (k, ctx) # c3" "counter' = n3" "sx' = x3"
      using Cons.prems(1) True r by (auto simp: c now_tick_def Let_def keep_def sx1_def)
    have "table_ok ks h c3 \<and> set c3 \<subseteq> set conns \<and> live c3 \<subseteq># live conns \<and> counter_abs n3 (live c3 + add_mset (bucket_key ip) extra) \<and>
      sx_pool x3 = sx_pool sx1 \<and> homes (sx_users x3) = homes (sx_users sx1)"
      by (rule Cons.IH)
        (use True r t Cons.prems(3) in \<open>auto simp: c keep_def now_tick_def sx1_def live_Cons ip_def\<close>)
    then show ?thesis using e p t(2) Cons.prems(2) by (auto simp: c table_ok_Cons live_Cons ip_def)
  next
    case False
    have e: "phase_reap_connections P conns (release ip counter) sx2 = (conns', counter', sx')"
      using Cons.prems(1) False by (auto simp: c now_tick_def Let_def keep_def sx1_def sx2_def ip_def)
    have "counter_abs counter (add_mset (bucket_key ip) (live conns + extra))" using Cons.prems(3) by (simp add: c live_Cons ip_def)
    from slots.give_back [OF this, of ip] have rel: "counter_abs (release ip counter) (live conns + extra)" by simp
    have "table_ok ks h conns' \<and> set conns' \<subseteq> set conns \<and> live conns' \<subseteq># live conns \<and> counter_abs counter' (live conns' + extra) \<and>
      sx_pool sx' = sx_pool sx2 \<and> homes (sx_users sx') = homes (sx_users sx2)"
      by (rule Cons.IH)
        (use False e rel t in \<open>auto simp: c keep_def now_tick_def sx1_def sx2_def ip_def\<close>)
    moreover have "live conns \<subseteq># live (c # conns)" by (simp add: c live_Cons)
    ultimately show ?thesis using p subset_mset.order_trans by auto
  qed
qed auto


subsection \<open>Workers\<close>

lemma take_ok: "server_ok caps n sv \<Longrightarrow> server_ok caps n (sv\<lparr>sv_ctx := worker_take (sv_ctx sv)\<rparr>)"
proof -
  assume ok: "server_ok caps n sv"
  have o: "outstanding (sx_pool (worker_take (sv_ctx sv))) = outstanding (sx_pool (sv_ctx sv))"
    by (auto simp: worker_take_def outstanding_def Let_def split: list.splits)
  have "pool_ok h (sx_pool (worker_take (sv_ctx sv)))" if "pool_ok h (sx_pool (sv_ctx sv))" for h
    using that by (auto simp: worker_take_def pool_ok_def Let_def split: list.splits)
  moreover have "sx_users (worker_take (sv_ctx sv)) = sx_users (sv_ctx sv)"
    by (auto simp: worker_take_def Let_def split: list.splits)
  ultimately show ?thesis using ok o by (simp add: server_ok_defs)
qed

lemma mset_remove_nth: "i < length xs \<Longrightarrow> add_mset (xs ! i) (mset (take i xs @ drop (Suc i) xs)) = mset xs"
proof -
  assume "i < length xs"
  then have "xs = take i xs @ xs ! i # drop (Suc i) xs" by (simp add: id_take_nth_drop)
  then have "mset xs = mset (take i xs @ xs ! i # drop (Suc i) xs)" by simp
  then show ?thesis by simp
qed

lemma finish_ok:
  assumes ok: "server_ok caps n sv"
  shows "server_ok caps n (sv\<lparr>sv_ctx := worker_finish crash i (sv_ctx sv)\<rparr>)"
proof (cases "i < length (hp_running (sx_pool (sv_ctx sv)))")
  case False
  then show ?thesis using ok by (simp add: worker_finish_def Let_def)
next
  case i: True
  let ?sx = "sv_ctx sv"
  let ?pool = "sx_pool ?sx"
  obtain job fs0 where j: "hp_running ?pool ! i = (job, fs0)" by fastforce
  obtain r c fs u where h: "handle_handler_panic crash fs0 (sx_fs ?sx) (hj_req job) (hj_cwd job) (get_user (sx_users ?sx) (hj_user job)) = (r, c, fs, u)"
    by (metis prod_cases4)
  define res where "res = \<lparr>hr_conn_key = hj_conn_key job, hr_generation = hj_generation job, hr_stream_id = hj_stream_id job,
    hr_response = r, hr_new_cwd = c, hr_user = hj_user job\<rparr>"
  define pool' where "pool' = ?pool\<lparr>hp_running := take i (hp_running ?pool) @ drop (Suc i) (hp_running ?pool), hp_results := hp_results ?pool @ [res]\<rparr>"
  have w: "worker_finish crash i ?sx = ?sx\<lparr>sx_fs := fs, sx_users := set_user (sx_users ?sx) (hj_user job) u, sx_pool := pool'\<rparr>"
    using i by (simp add: worker_finish_def Let_def j h pool'_def res_def)
  have hm: "homes (set_user (sx_users ?sx) (hj_user job) u) = homes (sx_users ?sx)" using handle_handler_panic_home [OF h] by simp
  have "mset (hp_running ?pool) = add_mset (job, fs0) (mset (take i (hp_running ?pool) @ drop (Suc i) (hp_running ?pool)))"
    using mset_remove_nth [OF i] unfolding j by (rule sym)
  moreover have "hr_key res = hj_key job" by (simp add: res_def hr_key_def hj_key_def)
  ultimately have o: "outstanding pool' = outstanding ?pool" by (simp add: outstanding_def pool'_def)
  have p: "pool_ok (homes (sx_users ?sx)) ?pool" "homes_ok (homes (sx_users ?sx))" using ok by (simp_all add: server_ok_defs)
  have "(job, fs0) \<in> set (hp_running ?pool)" using i j nth_mem by metis
  then have "cwd_ok (homes (sx_users ?sx)) (hj_user job) (hj_cwd job)" using p(1) by (auto simp: pool_ok_def)
  then have "cwd_ok (homes (sx_users ?sx)) (hj_user job) c" using panic_cwd [OF h p(2)] by simp
  then have "pool_ok (homes (sx_users ?sx)) pool'"
    using p(1) by (auto simp: pool_ok_def pool'_def res_def dest: in_set_takeD in_set_dropD)
  then show ?thesis using ok o hm w by (simp add: server_ok_defs)
qed

subsection \<open>The loop\<close>

lemma shutdown_ok: "server_ok caps n sv \<Longrightarrow> server_ok caps n (phase_shutdown_drain P shutdown sv)"
proof -
  assume ok: "server_ok caps n sv"
  let ?f = "\<lambda>c. c\<lparr>cx_conn := q_close (s_quic P) (cx_conn c) 0 ''server shutdown''\<rparr>"
  have t: "table_ok (outstanding (sx_pool (sv_ctx sv))) (homes (sx_users (sv_ctx sv))) (sv_connections sv)" using ok by (simp add: server_ok_defs)
  have "server_ok caps n (sv\<lparr>sv_connections := map (\<lambda>(k, c). (k, ?f c)) (sv_connections sv)\<rparr>)"
    using server_ok_conns [OF ok] table_ok_map [OF t, of ?f undefined] by (simp add: frozen_conn)
  then show ?thesis using ok by (simp add: phase_shutdown_drain_def server_ok_defs)
qed

lemma iteration_ok:
  assumes it: "server_iteration P cfg inp sv = Some (Inr go, sv')"
    and ok: "server_ok (sc_caps cfg) n sv" and n: "n + length (li_arrivals inp) < 2 ^ 64"
  shows "server_ok (sc_caps cfg) (n + length (li_arrivals inp)) sv'"
proof -
  let ?m = "n + length (li_arrivals inp)"
  define sv1 where "sv1 = phase_shutdown_drain P (li_shutdown inp) sv"
  obtain r sv2 where i: "phase_ingress P cfg (sv_closing sv1) (li_arrivals inp) sv1 = (r, sv2)" by fastforce
  have ok2: "server_ok (sc_caps cfg) ?m sv2" using ingress_ok [OF i _ n] shutdown_ok [OF ok] by (simp add: sv1_def)
  obtain c3 x3 where d: "phase_drain_handler_results (s_quic P) (li_crashes inp) (sv_connections sv2, sv_ctx sv2) = (c3, x3)" by fastforce
  obtain c4 x4 where w: "phase_per_connection_work P cfg (li_crashes inp) (phase_on_timeout P c3) x3 = Some (c4, x4)"
    using it i d unfolding server_iteration_def sv1_def [symmetric] Let_def by (auto split: sum.splits)
  obtain c5 n5 x5 where rp: "phase_reap_connections P c4 (sv_counter sv2) x4 = (c5, n5, x5)" by (metis prod_cases3)
  have sv': "sv' = sv2\<lparr>sv_connections := phase_sweep_done_streams c5, sv_counter := n5, sv_ctx := x5\<rparr>"
    using it i d w rp unfolding server_iteration_def sv1_def [symmetric] Let_def by (auto split: sum.splits)
  let ?x2 = "sv_ctx sv2" and ?g = "sv_next_generation sv2"
  let ?h = "homes (sx_users ?x2)"
  define pool where "pool = (sx_pool ?x2)\<lparr>hp_results := []\<rparr>"
  have b2: "table_ok (outstanding (sx_pool ?x2)) ?h (sv_connections sv2)" "homes_ok ?h" "pool_ok ?h (sx_pool ?x2)"
    "\<forall>(k, x, a) \<in> set (addrs (sv_connections sv2)). x < ?g" "\<forall>(k, x) \<in># outstanding (sx_pool ?x2). x < ?g"
    "counter_abs (sv_counter sv2) (live (sv_connections sv2))" "within_caps (sc_caps cfg) (live (sv_connections sv2))"
    using ok2 by (simp_all add: server_ok_defs)
  have o2: "outstanding (sx_pool ?x2) = outstanding pool + mset (map hr_key (hp_results (sx_pool ?x2)))"
    by (simp add: outstanding_def pool_def)
  have dr: "apply_results (s_quic P) (li_crashes inp) (hp_results (sx_pool ?x2)) (sv_connections sv2, ?x2\<lparr>sx_pool := pool\<rparr>) = (c3, x3)"
    using d by (simp add: phase_drain_handler_results_def Let_def pool_def)
  have r3: "table_ok (outstanding (sx_pool x3)) ?h c3" "pool_ok ?h (sx_pool x3)" "homes (sx_users x3) = ?h" "addrs c3 = addrs (sv_connections sv2)"
    "set_mset (outstanding (sx_pool x3)) \<subseteq> set_mset (outstanding pool) \<union> (\<lambda>(k, g, a). (k, g)) ` set (addrs (sv_connections sv2))"
    using results_table [OF dr] b2 by (auto simp: o2 pool_ok_def pool_def)
  have g3: "\<forall>(k, x) \<in># outstanding (sx_pool x3). x < ?g" using r3(5) b2(4,5) o2 by fastforce
  have t3: "table_ok (outstanding (sx_pool x3)) ?h (phase_on_timeout P c3)" "addrs (phase_on_timeout P c3) = addrs c3"
    unfolding phase_on_timeout_def by (rule table_ok_map [OF r3(1), where sx = undefined]; simp add: frozen_conn)+
  have w4: "table_ok (outstanding (sx_pool x4)) ?h c4" "pool_ok ?h (sx_pool x4)" "homes (sx_users x4) = ?h" "addrs c4 = addrs (sv_connections sv2)"
    "set_mset (outstanding (sx_pool x4)) \<subseteq> set_mset (outstanding (sx_pool x3)) \<union> (\<lambda>(k, g, a). (k, g)) ` set (addrs (sv_connections sv2))"
    using work_table [OF w] t3 b2(2) r3 by auto
  have g4: "\<forall>(k, x) \<in># outstanding (sx_pool x4). x < ?g" using w4(5) b2(4) g3 by fastforce
  have lv: "live c4 = live (sv_connections sv2)" using w4(4) by (simp add: live_def)
  have r5: "table_ok (outstanding (sx_pool x4)) ?h c5" "set c5 \<subseteq> set c4" "live c5 \<subseteq># live c4" "counter_abs n5 (live c5)"
    "sx_pool x5 = sx_pool x4" "homes (sx_users x5) = ?h"
    using reap_ok [OF rp w4(1), of "{#}"] b2(6) lv w4(3) by auto
  have t6: "table_ok (outstanding (sx_pool x4)) ?h (phase_sweep_done_streams c5)" "addrs (phase_sweep_done_streams c5) = addrs c5"
    unfolding phase_sweep_done_streams_def by (rule table_ok_map [OF r5(1), where sx = undefined]; simp add: frozen_streams)+
  have "set (addrs c5) \<subseteq> set (addrs c4)" using r5(2) by (auto simp: addrs_def)
  then have g5: "\<forall>(k, x, a) \<in> set (addrs c5). x < ?g" using b2(4) unfolding w4(4) by (meson subsetD)
  have "within_caps (sc_caps cfg) (live c5)"
    using b2(7) r5(3) lv by (auto simp: within_caps_def intro: order_trans size_mset_mono mset_subset_eq_count)
  then show ?thesis using ok2 t6 r5 g4 g5 b2(2) w4(2) by (simp add: sv' server_ok_defs live_def)
qed

lemma start_ok:
  assumes "homes_ok (homes users)"
  shows "server_ok caps 0 (server_start cfg fs users clock)"
  using assms by (simp add: server_ok_defs server_start_def table_ok_def outstanding_def pool_ok_def addrs_def live_def
      counter_abs_def counter_empty_def counts_def within_caps_def)

lemma run_ok:
  assumes "server_run P cfg sv0 n sv" "server_ok (sc_caps cfg) 0 sv0" "n < 2 ^ 64"
  shows "server_ok (sc_caps cfg) n sv"
  using assms by (induction) (simp_all add: iteration_ok take_ok finish_ok)

end
