(* ===== verification/Put_Props.thy ===== *)
theory Put_Props
  imports Transfer_Put Handler_Props
begin

text \<open>
  Correctness of uploads: what a committed file holds, what a refused one leaves untouched, where
  changes can happen, how the quota counters move, and that a well-formed upload is committed.
  Each part of \<open>drive_put\<close> is shown to be a step that keeps the invariant \<open>held\<close> or to end the
  upload in one of two ways, a rejection or a commit; the properties follow from that analysis.
\<close>

section \<open>The invariant of an upload\<close>

text \<open>
  The temp file and the writer's buffer hold the bytes \<open>c\<close>: the prefix of a resumed upload and
  what was received since. The hasher has seen all of them, or during a re-hash the part that
  was read back.
\<close>

definition held :: "'d ReadingFile \<Rightarrow> FS \<Rightarrow> bytes \<Rightarrow> bool" where
  "held st fs c \<longleftrightarrow>
     bw_holds (rf_writer st, fs) c \<and> bw_place (rf_writer st) = rf_temp_path st \<and> \<not> rf_completed st \<and>
     rf_remaining st \<le> rf_reserved_bytes st \<and>
     length c = unat (rf_prior_bytes st) + (unat (rf_reserved_bytes st) - unat (rf_remaining st)) \<and>
     unat (rf_prior_bytes st) + unat (rf_reserved_bytes st) < 2 ^ 64 \<and>
     (case rf_rehash st of
        None \<Rightarrow> rf_hasher st = c
      | Some rh \<Rightarrow>
          rf_remaining st = rf_reserved_bytes st \<and> bw_buf (rf_writer st) = [] \<and>
          fr_place (rr_reader rh) = rf_temp_path st \<and> rf_hasher st = take (fr_pos (rr_reader rh)) c \<and>
          rr_remaining rh > 0 \<and> fr_pos (rr_reader rh) + unat (rr_remaining rh) = length c)"

text \<open>The fields that no step writes.\<close>

definition same_upload :: "'d ReadingFile \<Rightarrow> 'd ReadingFile \<Rightarrow> bool" where
  "same_upload st st' \<longleftrightarrow>
     rf_final_path st' = rf_final_path st \<and> rf_temp_path st' = rf_temp_path st \<and> rf_mode st' = rf_mode st \<and>
     rf_no_clobber st' = rf_no_clobber st \<and> rf_expected_checksum st' = rf_expected_checksum st \<and>
     rf_reserved_bytes st' = rf_reserved_bytes st \<and> rf_prior_bytes st' = rf_prior_bytes st \<and>
     rf_claim st' = rf_claim st \<and> (rf_trailer_buf st' = None \<longleftrightarrow> rf_trailer_buf st = None)"

definition upload_step :: "'d ReadingFile \<Rightarrow> World \<Rightarrow> 'd ReadingFile \<Rightarrow> World \<Rightarrow> bool" where
  "upload_step st w st' w' \<longleftrightarrow>
     same_upload st st' \<and> same_but (rf_temp_path st) (w_fs w) (w_fs w') \<and> w_user w' = w_user w \<and>
     (\<exists>c. held st' (w_fs w') c)"

definition rejected :: "'d ReadingFile \<Rightarrow> World \<Rightarrow> 'd ReadingFile \<Rightarrow> World \<Rightarrow> bool" where
  "rejected st w st' w' \<longleftrightarrow> (\<exists>st1 w1. upload_step st w st1 w1 \<and> (st', w') = cleanup_rejected_upload st1 w1)"

lemma same_upload_refl [simp]: "same_upload st st"
  by (simp add: same_upload_def)

lemma same_upload_trans: "same_upload a b \<Longrightarrow> same_upload b c \<Longrightarrow> same_upload a c"
  by (simp add: same_upload_def)

lemma same_upload_temp: "same_upload a b \<Longrightarrow> rf_temp_path b = rf_temp_path a"
  by (simp add: same_upload_def)

lemma upload_step_refl: "held st (w_fs w) c \<Longrightarrow> upload_step st w st w"
  by (auto simp: upload_step_def)

lemma upload_step_trans: "upload_step st w st1 w1 \<Longrightarrow> upload_step st1 w1 st2 w2 \<Longrightarrow> upload_step st w st2 w2"
  unfolding upload_step_def using same_but_trans [of "rf_temp_path st"] same_upload_trans [of st st1 st2] same_upload_temp [of st st1]
  by auto

lemma rejected_trans: "upload_step st w st1 w1 \<Longrightarrow> rejected st1 w1 st2 w2 \<Longrightarrow> rejected st w st2 w2"
  unfolding rejected_def using upload_step_trans by blast

lemma fail_rejected:
  "upload_step st w st1 w1 \<Longrightarrow> fail_rejected_upload st1 w1 resp = (r, st', w') \<Longrightarrow> r = Some resp \<and> rejected st w st' w'"
  unfolding fail_rejected_upload_def rejected_def by (metis prod.inject)

section \<open>Steps\<close>

lemma held_write:
  assumes h: "held st (w_fs w) c" "rf_rehash st = None" and n: "length data \<le> unat (rf_remaining st)"
    and wr: "write_body data st w = (r, st', w')"
  shows "upload_step st w st' w' \<and> rf_rehash st' = None \<and> rf_trailer_buf st' = rf_trailer_buf st \<and>
    rf_recv_encoding st' = rf_recv_encoding st \<and>
    held st' (w_fs w') (case r of Inr _ \<Rightarrow> c @ data | Inl _ \<Rightarrow> c) \<and>
    (case r of Inr _ \<Rightarrow> rf_remaining st' = rf_remaining st - of_nat (length data) | Inl resp \<Rightarrow> is_err resp)"
proof -
  obtain r0 writer fs where b: "bw_write_all (rf_writer st) data (w_fs w) = (r0, writer, fs)" using prod_cases3 by blast
  have bw: "bw_holds (rf_writer st, w_fs w) c" "bw_place (rf_writer st) = rf_temp_path st" using h(1) by (auto simp: held_def)
  note spec = bw_write_all_spec [OF bw(1) b]
  have rem: "unat (rf_remaining st - of_nat (length data)) = unat (rf_remaining st) - length data" using remaining_minus n by blast
  have le: "unat (rf_remaining st) \<le> unat (rf_reserved_bytes st)" using h(1) by (simp add: held_def word_le_nat_alt)
  have "held st' (w_fs w') (case r of Inr _ \<Rightarrow> c @ data | Inl _ \<Rightarrow> c)"
    using wr b spec h bw(2) rem n le
    by (cases r0) (auto simp: write_body_def held_def word_le_nat_alt)
  moreover have "same_but (rf_temp_path st) (w_fs w) (w_fs w')" "w_user w' = w_user w" "same_upload st st'"
    "rf_rehash st' = None" "rf_trailer_buf st' = rf_trailer_buf st" "rf_recv_encoding st' = rf_recv_encoding st"
    using wr b spec h(2) bw(2) by (auto simp: write_body_def same_upload_def split: sum.splits)
  moreover have "case r of Inr _ \<Rightarrow> rf_remaining st' = rf_remaining st - of_nat (length data) | Inl resp \<Rightarrow> is_err resp"
    using wr b by (auto simp: write_body_def split: sum.splits)
  ultimately show ?thesis by (auto simp: upload_step_def)
qed

text \<open>Changing the trailer or the codec state does not touch the invariant.\<close>

lemma held_update [simp]:
  "held (st\<lparr>rf_trailer_buf := tb\<rparr>) fs c = held st fs c"
  "held (st\<lparr>rf_recv_encoding := enc\<rparr>) fs c = held st fs c"
  by (simp_all add: held_def cong: option.case_cong)

lemma upload_step_trailer:
  "upload_step st w st' w' \<Longrightarrow> (tb = None \<longleftrightarrow> rf_trailer_buf st' = None) \<Longrightarrow> upload_step st w (st'\<lparr>rf_trailer_buf := tb\<rparr>) w'"
  by (auto simp: upload_step_def same_upload_def)

lemma upload_step_encoding: "upload_step st w st' w' \<Longrightarrow> upload_step st w (st'\<lparr>rf_recv_encoding := e\<rparr>) w'"
  by (auto simp: upload_step_def same_upload_def)

lemma append_put_trailer_None: "append_put_trailer bs tb = (r, tb') \<Longrightarrow> tb' = None \<longleftrightarrow> tb = None"
  by (auto simp: append_put_trailer_def split: if_splits option.splits prod.splits)

lemma append_put_trailer_err: "append_put_trailer bs tb = (Inl resp, tb') \<Longrightarrow> is_err resp"
  by (auto simp: append_put_trailer_def split: if_splits option.splits prod.splits)

lemma compressed_decode_err_is_err [simp]: "is_err (compressed_decode_err e)"
  by (cases e) simp_all

lemma put_overflow_is_err [simp]: "is_err (put_overflow_err e)"
  by (cases e) simp_all

lemma drain_decoder_step:
  assumes "held st (w_fs w) c" "rf_rehash st = None" "drain_decoder z st w = (r, st', w')"
  shows "upload_step st w st' w' \<and> rf_rehash st' = None \<and> (\<forall>resp. r = Inl resp \<longrightarrow> is_err resp)"
proof (cases "decoder_pending z = [] \<or> length (decoder_pending z) > unat (rf_remaining st)")
  case True
  then show ?thesis using assms upload_step_refl by (auto simp: drain_decoder_def Let_def split: if_splits)
next
  case False
  obtain r0 st0 w0 where wb: "write_body (decoder_pending z) st w = (r0, st0, w0)" using prod_cases3 by blast
  note hw = held_write [OF assms(1,2) _ wb]
  show ?thesis using assms(3) False wb hw
    by (cases r0) (auto simp: drain_decoder_def Let_def intro: upload_step_encoding)
qed

lemma feed_zstd_step:
  assumes h: "held st (w_fs w) c" "rf_rehash st = None" and f: "feed_zstd_put_chunk P input z st w = (r, st', w')"
  shows "upload_step st w st' w' \<and> rf_rehash st' = None \<and> (\<forall>resp. r = Inl resp \<longrightarrow> is_err resp)"
proof (cases "zd_frame_complete z")
  case True
  then show ?thesis using f h upload_step_trailer [OF upload_step_refl [OF h(1)]] append_put_trailer_None
    by (auto simp: feed_zstd_put_chunk_def split: prod.splits dest: append_put_trailer_err)
next
  case False
  obtain r1 z1 where p: "decoder_push (p_decoder_run P) z input = (r1, z1)" by fastforce
  show ?thesis
  proof (cases r1)
    case (Inl e)
    then show ?thesis using f False p h upload_step_encoding [OF upload_step_refl [OF h(1)]]
      by (auto simp: feed_zstd_put_chunk_def)
  next
    case (Inr progress)
    let ?st = "st\<lparr>rf_recv_encoding := Recv_Zstd z1\<rparr>"
    obtain r2 st2 w2 where d: "drain_decoder z1 ?st w = (r2, st2, w2)" using prod_cases3 by blast
    have s: "upload_step ?st w st2 w2 \<and> rf_rehash st2 = None \<and> (\<forall>resp. r2 = Inl resp \<longrightarrow> is_err resp)"
      by (rule drain_decoder_step [OF _ _ d]) (use h in simp_all)
    then have s2: "upload_step st w st2 w2"
      using upload_step_trans [OF upload_step_encoding [OF upload_step_refl [OF h(1)]]] by blast
    show ?thesis using f False p Inr d s s2 upload_step_trailer [OF s2] append_put_trailer_None
      by (auto simp: feed_zstd_put_chunk_def split: sum.splits if_splits prod.splits dest: append_put_trailer_err)
  qed
qed

text \<open>What a step of \<open>drive_put\<close> may do short of a commit.\<close>

definition ends_or_goes_on :: "'d ReadingFile \<Rightarrow> World \<Rightarrow> Response option \<Rightarrow> 'd ReadingFile \<Rightarrow> World \<Rightarrow> bool" where
  "ends_or_goes_on st w r st' w' \<longleftrightarrow>
     (case r of None \<Rightarrow> upload_step st w st' w'
      | Some resp \<Rightarrow> is_err resp \<and> (upload_step st w st' w' \<or> rejected st w st' w'))"

lemma ends_or_goes_on_trans:
  "upload_step st w st1 w1 \<Longrightarrow> ends_or_goes_on st1 w1 r st' w' \<Longrightarrow> ends_or_goes_on st w r st' w'"
  unfolding ends_or_goes_on_def using upload_step_trans [of st w st1 w1 st' w'] rejected_trans [of st w st1 w1 st' w']
  by (auto split: option.splits)

lemma fail_rejected_ends:
  "fail_rejected_upload st1 w1 resp = (r, st', w') \<Longrightarrow> upload_step st w st1 w1 \<Longrightarrow> is_err resp \<Longrightarrow>
     ends_or_goes_on st w r st' w' \<and> r \<noteq> None"
  using fail_rejected [of st w st1 w1 resp r st' w'] by (auto simp: ends_or_goes_on_def)

lemma classify_to_body: "classify_put_chunk n rem tr room = Inr s \<Longrightarrow> to_body s \<le> unat rem \<and> to_body s \<le> n"
  by (auto simp: classify_spec split: if_splits)

lemma put_identity_chunk_step:
  assumes h: "held st (w_fs w) c" "rf_rehash st = None" and p: "put_identity_chunk data fin st w = (r, st', w')"
  shows "ends_or_goes_on st w r st' w' \<and> rf_rehash st' = None"
proof (cases "classify_put_chunk (length data) (rf_remaining st) (rf_trailer_buf st \<noteq> None) (trailer_space (rf_trailer_buf st))")
  case (Inl ov)
  then show ?thesis using p h upload_step_refl [OF h(1)] by (auto simp: put_identity_chunk_def ends_or_goes_on_def)
next
  case (Inr split)
  obtain r0 st0 w0 where wb: "write_body (take (to_body split) data) st w = (r0, st0, w0)" using prod_cases3 by blast
  have "length (take (to_body split) data) \<le> unat (rf_remaining st)" using classify_to_body [OF Inr] by simp
  note hw = held_write [OF h this wb]
  show ?thesis using p Inr wb hw
    by (cases r0) (auto simp: put_identity_chunk_def ends_or_goes_on_def extend_trailer_def Let_def
        split: if_splits intro!: upload_step_trailer)
qed

lemma put_zstd_chunk_step:
  assumes h: "held st (w_fs w) c" "rf_rehash st = None" and p: "put_zstd_chunk P data fin z st w = (r, st', w')"
  shows "ends_or_goes_on st w r st' w' \<and> (r = None \<longrightarrow> rf_rehash st' = None)"
proof -
  obtain r0 st0 w0 where f: "feed_zstd_put_chunk P data z st w = (r0, st0, w0)" using prod_cases3 by blast
  note s = feed_zstd_step [OF h f]
  show ?thesis
  proof (cases "\<exists>resp. fail_rejected_upload st0 w0 resp = (r, st', w') \<and> is_err resp")
    case True
    then show ?thesis using fail_rejected_ends s by blast
  next
    case False
    then show ?thesis using p f s
      by (cases r0) (auto simp: put_zstd_chunk_def ends_or_goes_on_def split: if_splits)
  qed
qed

lemma put_body_step:
  "held st (w_fs w) c \<Longrightarrow> rf_rehash st = None \<Longrightarrow> put_body P rs st w = (r, st', rs', w') \<Longrightarrow>
     ends_or_goes_on st w r st' w' \<and> (r = None \<longrightarrow> rf_rehash st' = None)"
proof (induction P rs st w arbitrary: c r rule: put_body.induct)
  case (1 P st w)
  then show ?case using upload_step_refl by (auto simp: ends_or_goes_on_def)
next
  case (2 P x rs st w)
  consider "body_done st" | e where "\<not> body_done st" "x = Inl e" | data fin where "\<not> body_done st" "x = Inr (data, fin)"
    by (cases x) auto
  then show ?case
  proof cases
    case 3
    define step where "step = (case rf_recv_encoding st of
        Recv_Identity \<Rightarrow> put_identity_chunk data fin st w | Recv_Zstd z \<Rightarrow> put_zstd_chunk P data fin z st w)"
    obtain r1 st1 w1 where s: "step = (r1, st1, w1)" using prod_cases3 by blast
    have e: "ends_or_goes_on st w r1 st1 w1 \<and> (r1 = None \<longrightarrow> rf_rehash st1 = None)"
      using s put_identity_chunk_step [OF "2.prems"(1,2)] put_zstd_chunk_step [OF "2.prems"(1,2)]
      unfolding step_def by (cases "rf_recv_encoding st") auto
    have eq: "(case step of (Some resp, st', w') \<Rightarrow> (Some resp, st', rs, w') | (None, st', w') \<Rightarrow> put_body P rs st' w') = (r, st', rs', w')"
      using "2.prems"(3) 3 by (simp add: step_def)
    show ?thesis
    proof (cases r1)
      case None
      then obtain c1 where "held st1 (w_fs w1) c1" using e by (auto simp: ends_or_goes_on_def upload_step_def)
      moreover have "rf_rehash st1 = None" "put_body P rs st1 w1 = (r, st', rs', w')" using e eq s None by auto
      ultimately have "ends_or_goes_on st1 w1 r st' w' \<and> (r = None \<longrightarrow> rf_rehash st' = None)"
        using "2.IH" [OF 3(1,2) refl s [unfolded step_def, symmetric] None refl] by blast
      then show ?thesis using ends_or_goes_on_trans [of st w st1 w1] e None by (auto simp: ends_or_goes_on_def)
    next
      case (Some resp)
      then show ?thesis using eq s e by auto
    qed
  qed (use "2.prems" upload_step_refl [OF "2.prems"(1)] in \<open>auto simp: ends_or_goes_on_def split: if_splits\<close>)
qed

lemma put_pending_step:
  assumes h: "held st (w_fs w) c" "rf_rehash st = None" and p: "put_pending P pending st w = (r, st', w')"
  shows "case r of None \<Rightarrow> upload_step st w st' w' \<and> rf_rehash st' = None | Some r' \<Rightarrow> ends_or_goes_on st w r' st' w' \<and> r' \<noteq> None"
proof (cases "pending = []")
  case True
  then show ?thesis using p h upload_step_refl [OF h(1)] by (simp add: put_pending_def)
next
  case False
  show ?thesis
  proof (cases "rf_recv_encoding st")
    case Recv_Identity
    obtain r0 st0 w0 where wb: "write_body pending st w = (r0, st0, w0)" using prod_cases3 by blast
    note hw = held_write [OF h _ wb]
    show ?thesis using p False Recv_Identity wb hw upload_step_refl [OF h(1)]
      by (cases r0) (auto simp: put_pending_def ends_or_goes_on_def split: if_splits)
  next
    case (Recv_Zstd z)
    obtain r0 st0 w0 where f: "feed_zstd_put_chunk P pending z st w = (r0, st0, w0)" using prod_cases3 by blast
    note s = feed_zstd_step [OF h f]
    show ?thesis
    proof (cases r0)
      case (Inl resp)
      then obtain r' where "r = Some r'" "fail_rejected_upload st0 w0 resp = (r', st', w')"
        using p False Recv_Zstd f by (auto simp: put_pending_def split: prod.splits)
      then show ?thesis using fail_rejected_ends [of st0 w0 resp r' st' w' st w] s Inl by simp
    qed (use p False Recv_Zstd f s in \<open>simp add: put_pending_def\<close>)
  qed
qed

lemma handle_read_held:
  assumes "handle_read fs place pos want = Inr data" "file_bytes fs place = Some b"
  shows "data = take want (drop pos b)"
  using assms by (auto simp: handle_read_def handle_fault_def file_bytes_def bindR_Inr_conv split: option.splits Kind.splits)

lemma rehash_slice:
  assumes h: "held st fs c" "rf_rehash st = Some rh"
    and d: "data = take (min (unat (rr_remaining rh)) tmp_len) (drop (fr_pos (rr_reader rh)) c)" "data \<noteq> []"
    and rh': "rh' = rh\<lparr>rr_reader := (rr_reader rh)\<lparr>fr_pos := fr_pos (rr_reader rh) + length data\<rparr>,
                rr_remaining := rr_remaining rh - of_nat (length data)\<rparr>"
    and st': "st' = st\<lparr>rf_hasher := rf_hasher st @ data, rf_rehash := Some rh'\<rparr>"
  shows "if rr_remaining rh' > 0 then held st' fs c else held (st'\<lparr>rf_rehash := None\<rparr>) fs c"
proof -
  let ?pos = "fr_pos (rr_reader rh)"
  have rh: "rf_hasher st = take ?pos c" "?pos + unat (rr_remaining rh) = length c" using h by (auto simp: held_def)
  have len: "length data = min (unat (rr_remaining rh)) tmp_len" using d(1) rh(2) by simp
  have hash: "rf_hasher st @ data = take (?pos + length data) c" unfolding rh(1) d(1)
    using rh(2) by (simp add: take_add min_def)
  have rem: "unat (rr_remaining rh') = unat (rr_remaining rh) - length data"
    using remaining_minus [of "length data" "rr_remaining rh"] len by (simp add: rh')
  have fin: "?pos + length data = length c" if "rr_remaining rh' = 0" using that rem len rh(2) by (simp add: unat_eq_0 flip: unat_eq_0)
  show ?thesis
  proof (cases "rr_remaining rh' > 0")
    case True
    then show ?thesis using h hash rem len rh(2) by (auto simp: st' rh' held_def)
  next
    case False
    then have z: "rr_remaining rh' = 0" by (simp add: word_gt_0)
    then show ?thesis using h hash fin [OF z] by (auto simp: st' held_def)
  qed
qed

lemma put_rehash_step:
  assumes h: "held st (w_fs w) c" and p: "put_rehash P tmp_len st w = (r, st', w')"
  shows "case r of None \<Rightarrow> upload_step st w st' w' \<and> rf_rehash st' = None | Some r' \<Rightarrow> ends_or_goes_on st w r' st' w'"
proof (cases "rf_rehash st")
  case None
  then show ?thesis using p upload_step_refl [OF h] by (simp add: put_rehash_def)
next
  case (Some rh)
  let ?want = "min (unat (rr_remaining rh)) tmp_len"
  have fb: "file_bytes (w_fs w) (rf_temp_path st) = Some c" "fr_place (rr_reader rh) = rf_temp_path st"
    using h Some by (auto simp: held_def bw_holds_def)
  have rej: "ends_or_goes_on st w r' st' w'" if "fail_rejected_upload st w resp = (r', st', w')" "is_err resp" for r' resp
    using fail_rejected_ends [OF that(1) upload_step_refl [OF h] that(2)] by blast
  show ?thesis
  proof (cases "\<exists>d ds. handle_read (w_fs w) (fr_place (rr_reader rh)) (fr_pos (rr_reader rh)) ?want = Inr (d # ds)")
    case False
    then show ?thesis using p Some rej
      by (auto simp: put_rehash_def Let_def split: sum.splits list.splits prod.splits)
  next
    case True
    then obtain data where rd: "handle_read (w_fs w) (fr_place (rr_reader rh)) (fr_pos (rr_reader rh)) ?want = Inr data" "data \<noteq> []"
      by blast
    have data: "data = take ?want (drop (fr_pos (rr_reader rh)) c)" using handle_read_held rd(1) fb by metis
    define rh' where "rh' = rh\<lparr>rr_reader := (rr_reader rh)\<lparr>fr_pos := fr_pos (rr_reader rh) + length data\<rparr>,
                rr_remaining := rr_remaining rh - of_nat (length data)\<rparr>"
    define st1 where "st1 = st\<lparr>rf_hasher := rf_hasher st @ data, rf_rehash := Some rh'\<rparr>"
    note slice = rehash_slice [OF h Some data rd(2) rh'_def st1_def]
    have p': "(if rr_remaining rh' > 0 then (Some None, st1, w)
        else put_pending P (rr_pending_body rh') (st1\<lparr>rf_rehash := None\<rparr>) w) = (r, st', w')"
      using p rd(2) unfolding put_rehash_def Some option.case Let_def rd(1) sum.case rh'_def st1_def
      by (cases data) (simp_all only: list.case simp_thms)
    show ?thesis
    proof (cases "rr_remaining rh' > 0")
      case True
      then have "upload_step st w st1 w" using slice by (auto simp: upload_step_def same_upload_def st1_def)
      then show ?thesis using True p' by (auto simp: ends_or_goes_on_def)
    next
      case False
      let ?st2 = "st1\<lparr>rf_rehash := None\<rparr>"
      have h2: "held ?st2 (w_fs w) c" using slice False by simp
      then have s2: "upload_step st w ?st2 w" by (auto simp: upload_step_def same_upload_def st1_def)
      have "put_pending P (rr_pending_body rh') ?st2 w = (r, st', w')" using p' False by simp
      from put_pending_step [OF h2 _ this] show ?thesis
        using upload_step_trans [OF s2] ends_or_goes_on_trans [OF s2] by (auto split: option.splits)
    qed
  qed
qed

section \<open>Ends\<close>

text \<open>A commit: the state just before the rename, and what the rename and its accounting did.\<close>

definition committed :: "'d Prims \<Rightarrow> 'd ReadingFile \<Rightarrow> World \<Rightarrow> 'd ReadingFile \<Rightarrow> World \<Rightarrow> bool" where
  "committed P st w st' w' \<longleftrightarrow> (\<exists>st1 w1 fs.
     upload_step st w st1 w1 \<and> rf_rehash st1 = None \<and> rf_remaining st1 = 0 \<and>
     bw_stored (rf_writer st1, w_fs w1) (rf_hasher st1) \<and>
     (\<forall>d. expected_digest st1 = Some d \<longrightarrow> p_blake3 P (rf_hasher st1) = d) \<and>
     (\<forall>tb. rf_trailer_buf st1 = Some tb \<longrightarrow> tb_is_full tb) \<and>
     recheck_ancestors_no_symlinks (w_fs w1) (rf_final_path st1) (u_home (w_user w1)) = Inr () \<and>
     \<not> (rf_no_clobber st1 \<and> is_ok (symlink_metadata (w_fs w1) (rf_final_path st1))) \<and>
     fs_rename (w_fs w1) (rf_temp_path st1) (rf_final_path st1) = Inr fs \<and>
     st' = st1\<lparr>rf_completed := True\<rparr> \<and>
     w_fs w' = apply_mode (rf_final_path st1) (rf_mode st1) fs \<and>
     w_user w' = commit_user (rf_reserved_bytes st1) (w_user w1))"

lemma committed_trans: "upload_step st w st1 w1 \<Longrightarrow> committed P st1 w1 st' w' \<Longrightarrow> committed P st w st' w'"
  unfolding committed_def using upload_step_trans [of st w st1 w1] by blast

lemma held_flush:
  assumes h: "held st (w_fs w) c" "rf_rehash st = None" and f: "bw_flush (rf_writer st) (w_fs w) = Inr (writer, fs)"
  shows "upload_step st w (st\<lparr>rf_writer := writer\<rparr>) (w\<lparr>w_fs := fs\<rparr>) \<and> bw_stored (writer, fs) (rf_hasher st) \<and>
    held (st\<lparr>rf_writer := writer\<rparr>) fs c"
proof -
  have b: "bw_holds (rf_writer st, w_fs w) c" "bw_place (rf_writer st) = rf_temp_path st" "rf_hasher st = c"
    using h by (auto simp: held_def)
  note spec = bw_flush_holds [OF f b(1)]
  then have "held (st\<lparr>rf_writer := writer\<rparr>) fs c" using h b by (auto simp: held_def bw_stored_def)
  then show ?thesis using spec b by (auto simp: upload_step_def same_upload_def)
qed

lemma put_commit_cases:
  assumes h: "held st (w_fs w) c" "rf_rehash st = None" "rf_remaining st = 0"
    and t: "\<forall>tb. rf_trailer_buf st = Some tb \<longrightarrow> tb_is_full tb" and p: "put_commit P st w = (r, st', w')"
  shows "r = Some Resp_Ok \<and> committed P st w st' w' \<or> ends_or_goes_on st w r st' w' \<and> r \<noteq> None"
proof (cases "bw_flush (rf_writer st) (w_fs w)")
  case (Inl e)
  then show ?thesis using p upload_step_refl [OF h(1)] by (auto simp: put_commit_def ends_or_goes_on_def)
next
  case (Inr q)
  obtain writer fs where f: "bw_flush (rf_writer st) (w_fs w) = Inr (writer, fs)" using Inr by (cases q) auto
  let ?st = "st\<lparr>rf_writer := writer\<rparr>" and ?w = "w\<lparr>w_fs := fs\<rparr>"
  note s = held_flush [OF h(1,2) f]
  let ?bad = "case expected_digest ?st of None \<Rightarrow> False | Some d \<Rightarrow> p_blake3 P (rf_hasher ?st) \<noteq> d"
  have p': "(if ?bad then fail_rejected_upload ?st ?w (err ChecksumMismatch ''Upload checksum verification failed'')
      else (case recheck_ancestors_no_symlinks fs (rf_final_path ?st) (u_home (w_user ?w)) of
          Inl e \<Rightarrow> (Some (Resp_Err e), ?st, ?w)
        | Inr _ \<Rightarrow> (case no_clobber_commit_guard ?st ?w of Some refused \<Rightarrow> refused | None \<Rightarrow> put_rename ?st ?w))) = (r, st', w')"
    using p f by (simp add: put_commit_def Let_def)
  show ?thesis
  proof (cases "\<exists>resp. fail_rejected_upload ?st ?w resp = (r, st', w') \<and> is_err resp")
    case True
    then show ?thesis using fail_rejected_ends s by blast
  next
    case nr: False
    then have ok: "\<not> ?bad" using p' by auto
    show ?thesis
    proof (cases "recheck_ancestors_no_symlinks fs (rf_final_path st) (u_home (w_user w))")
      case (Inl e)
      then show ?thesis using p' ok s by (auto simp: ends_or_goes_on_def)
    next
      case rc: (Inr u)
      have nc: "no_clobber_commit_guard ?st ?w = None"
        using nr p' ok rc by (auto simp: no_clobber_commit_guard_def split: if_splits)
      then have rn: "put_rename ?st ?w = (r, st', w')" using p' ok rc by simp
      show ?thesis
      proof (cases "fs_rename fs (rf_temp_path st) (rf_final_path st)")
        case (Inl e)
        then show ?thesis using rn s by (auto simp: put_rename_def ends_or_goes_on_def)
      next
        case (Inr fs2)
        have "committed P st w st' w'"
          unfolding committed_def
          using rn Inr s ok rc nc t h(2,3)
          by (intro exI [of _ ?st] exI [of _ ?w] exI [of _ fs2])
            (auto simp: put_rename_def no_clobber_commit_guard_def split: if_splits option.splits)
        then show ?thesis using rn Inr by (auto simp: put_rename_def)
      qed
    qed
  qed
qed

lemma put_trailer_full: "put_trailer rs buf = (None, buf', rs') \<Longrightarrow> tb_is_full buf'"
  by (induction rs buf rule: put_trailer.induct) (auto split: if_splits sum.splits prod.splits QuicError.splits)

lemma put_trailer_err: "put_trailer rs buf = (Some (Some resp), buf', rs') \<Longrightarrow> is_err resp"
  by (induction rs buf rule: put_trailer.induct) (auto split: if_splits sum.splits prod.splits QuicError.splits)

lemma put_finish_cases:
  assumes h: "held st (w_fs w) c" "rf_rehash st = None" and p: "put_finish P rs st w = (r, st', rs', w')"
  shows "r = Some Resp_Ok \<and> committed P st w st' w' \<or> ends_or_goes_on st w r st' w'"
proof -
  have refl: "upload_step st w st w" by (rule upload_step_refl [OF h(1)])
  consider "\<not> body_done st" | "body_done st" "rf_remaining st > 0" | "body_done st" "rf_remaining st = 0"
    by (auto simp: word_gt_0)
  then show ?thesis
  proof cases
    case 1
    then show ?thesis using p refl by (simp add: put_finish_def ends_or_goes_on_def)
  next
    case 2
    then show ?thesis using p fail_rejected_ends [OF _ refl]
      by (auto simp: put_finish_def split: prod.splits)
  next
    case 3
    define tr where "tr = (case rf_trailer_buf st of
        None \<Rightarrow> (None, None, rs) | Some buf \<Rightarrow> (let (r, buf', rs') = put_trailer rs buf in (r, Some buf', rs')))"
    obtain r1 tb rs1 where tr: "tr = (r1, tb, rs1)" using prod_cases3 by blast
    have tb: "tb = None \<longleftrightarrow> rf_trailer_buf st = None" "\<And>resp. r1 = Some (Some resp) \<Longrightarrow> is_err resp"
      "r1 = None \<Longrightarrow> \<forall>t. tb = Some t \<longrightarrow> tb_is_full t"
      using tr unfolding tr_def by (auto split: option.splits prod.splits dest: put_trailer_err put_trailer_full)
    let ?st = "st\<lparr>rf_trailer_buf := tb\<rparr>"
    have s: "upload_step st w ?st w" by (rule upload_step_trailer [OF refl tb(1)])
    have p': "(case tr of (Some r, tb, rs') \<Rightarrow> (r, st\<lparr>rf_trailer_buf := tb\<rparr>, rs', w)
        | (None, tb, rs') \<Rightarrow> (let (r, st', w') = put_commit P (st\<lparr>rf_trailer_buf := tb\<rparr>) w in (r, st', rs', w'))) = (r, st', rs', w')"
      using p 3 unfolding put_finish_def tr_def by simp
    show ?thesis
    proof (cases r1)
      case (Some r2)
      then show ?thesis using p' tr s tb(2) by (auto simp: ends_or_goes_on_def split: option.splits)
    next
      case None
      obtain r2 st2 w2 where c: "put_commit P ?st w = (r2, st2, w2)" using prod_cases3 by blast
      have eq: "r2 = r" "st2 = st'" "w2 = w'" using p' tr None c by auto
      have "r2 = Some Resp_Ok \<and> committed P ?st w st2 w2 \<or> ends_or_goes_on ?st w r2 st2 w2 \<and> r2 \<noteq> None"
        by (rule put_commit_cases [OF _ _ _ _ c]) (use h 3(2) tb(3) None in auto)
      then show ?thesis using committed_trans [OF s] ends_or_goes_on_trans [OF s] unfolding eq by blast
    qed
  qed
qed

text \<open>The whole of \<open>drive_put\<close>: it goes on, fails with or without a rejection, or commits.\<close>

lemma drive_put_cases:
  assumes h: "held st (w_fs w) c" and d: "drive_put P tmp_len rs st w = (r, st', rs', w')"
  shows "r = Some Resp_Ok \<and> committed P st w st' w' \<or> ends_or_goes_on st w r st' w'"
proof -
  obtain r1 st1 w1 where rh: "put_rehash P tmp_len st w = (r1, st1, w1)" using prod_cases3 by blast
  note s1 = put_rehash_step [OF h rh]
  show ?thesis
  proof (cases r1)
    case (Some r')
    then show ?thesis using s1 d rh by (simp add: drive_put_def)
  next
    case None
    then have s: "upload_step st w st1 w1" "rf_rehash st1 = None" using s1 by auto
    then obtain c1 where h1: "held st1 (w_fs w1) c1" by (auto simp: upload_step_def)
    obtain r2 st2 rs2 w2 where pb: "put_body P rs st1 w1 = (r2, st2, rs2, w2)" using prod_cases4 by blast
    note s2 = put_body_step [OF h1 s(2) pb]
    show ?thesis
    proof (cases r2)
      case (Some resp)
      then show ?thesis using d rh None pb s2 ends_or_goes_on_trans [OF s(1)] by (auto simp: drive_put_def)
    next
      case N2: None
      then have s12: "upload_step st w st2 w2" "rf_rehash st2 = None"
        using s2 upload_step_trans [OF s(1)] by (auto simp: ends_or_goes_on_def)
      then obtain c2 where h2: "held st2 (w_fs w2) c2" by (auto simp: upload_step_def)
      have "put_finish P rs2 st2 w2 = (r, st', rs', w')" using d rh None pb N2 by (simp add: drive_put_def)
      from put_finish_cases [OF h2 s12(2) this] show ?thesis
        using committed_trans [OF s12(1)] ends_or_goes_on_trans [OF s12(1)] by blast
    qed
  qed
qed

section \<open>Paths of an upload\<close>

text \<open>The destination is a name below the user's home, the temp file its sibling.\<close>

definition upload_at :: "path \<Rightarrow> 'd ReadingFile \<Rightarrow> bool" where
  "upload_at home st \<longleftrightarrow>
     names_ok (rf_final_path st) \<and> strict_prefix home (rf_final_path st) \<and> rf_temp_path st = temp_path_for (rf_final_path st)"

lemma normal_temp: "normal_name n \<Longrightarrow> normal_name (n @ partial_suffix)"
  by (auto simp: normal_name_def partial_suffix_def append_eq_Cons_conv)

lemma temp_path_facts:
  assumes "p \<noteq> []"
  shows "temp_path_for p \<noteq> []" "butlast (temp_path_for p) = butlast p" "last (temp_path_for p) = last p @ partial_suffix"
    "length (temp_path_for p) = length p" "temp_path_for p \<noteq> p"
proof -
  show "last (temp_path_for p) = last p @ partial_suffix" using assms by (simp add: temp_path_for_def)
  then show "temp_path_for p \<noteq> p" by (auto simp: partial_suffix_def)
qed (use assms in \<open>simp_all add: temp_path_for_def\<close>)

lemma temp_not_prefix: "p \<noteq> [] \<Longrightarrow> \<not> prefix p (temp_path_for p) \<and> \<not> prefix (temp_path_for p) p"
  using temp_path_facts [of p] by (metis append_eq_conv_conj prefix_def take_all_iff order_refl)

lemma names_ok_temp:
  assumes "p \<noteq> []" "names_ok p"
  shows "names_ok (temp_path_for p)"
proof -
  have "normal_name (last p)" using assms by (simp add: names_ok_def list_all_iff)
  then show ?thesis using assms normal_temp names_ok_butlast by (simp add: temp_path_for_def)
qed

lemma plain_temp: "p \<noteq> [] \<Longrightarrow> plain fs (temp_path_for p) = plain fs p"
  using plain_child [of p fs] plain_child [of "temp_path_for p" fs] temp_path_facts [of p] by simp

lemma inside_temp: "strict_prefix home p \<Longrightarrow> inside home (temp_path_for p)"
proof -
  assume h: "strict_prefix home p"
  then have ne: "p \<noteq> []" by auto
  have "prefix home (butlast p)" using h prefix_butlast_parent by (auto simp: strict_prefix_def)
  then have "prefix home (butlast (temp_path_for p))" using temp_path_facts(2) [OF ne] by simp
  then show ?thesis using strict_prefix_butlast [OF temp_path_facts(1) [OF ne]] prefix_order.le_less_trans
    by (auto simp: inside_def)
qed

lemma upload_atD:
  assumes "upload_at home st"
  shows "rf_final_path st \<noteq> []" "names_ok (rf_final_path st)" "names_ok (rf_temp_path st)"
    "inside home (rf_temp_path st)" "inside home (rf_final_path st)" "prefix home (rf_final_path st)"
    "prefix home (rf_temp_path st)" "rf_temp_path st \<noteq> rf_final_path st"
    "plain fs (rf_temp_path st) = plain fs (rf_final_path st)" "rf_temp_path st \<noteq> []"
    "\<not> prefix (rf_temp_path st) (rf_final_path st)" "\<not> prefix (rf_final_path st) (rf_temp_path st)"
proof -
  have sp: "strict_prefix home (rf_final_path st)" and t: "rf_temp_path st = temp_path_for (rf_final_path st)"
    and n: "names_ok (rf_final_path st)" using assms by (auto simp: upload_at_def)
  then show ne: "rf_final_path st \<noteq> []" by auto
  show "inside home (rf_temp_path st)" using inside_temp [OF sp] t by simp
  then show "prefix home (rf_temp_path st)" by (auto simp: inside_def)
  show "names_ok (rf_temp_path st)" using names_ok_temp [OF ne n] t by simp
  show "plain fs (rf_temp_path st) = plain fs (rf_final_path st)" using plain_temp [OF ne] t by simp
  show "\<not> prefix (rf_temp_path st) (rf_final_path st)" "\<not> prefix (rf_final_path st) (rf_temp_path st)"
    using temp_not_prefix [OF ne] t by simp_all
  show "rf_temp_path st \<noteq> rf_final_path st" "rf_temp_path st \<noteq> []" using temp_path_facts(1,5) [OF ne] t by simp_all
qed (use assms in \<open>auto simp: upload_at_def inside_def\<close>)

lemma upload_step_at: "upload_step st w st' w' \<Longrightarrow> upload_at home st \<Longrightarrow> upload_at home st'"
  by (auto simp: upload_step_def same_upload_def upload_at_def)

lemma same_but_real_root: "same_but p fs fs' \<Longrightarrow> real_root fs' home = real_root fs home"
  by (simp add: real_root_def same_but_dir)

section \<open>The commit\<close>

lemma set_permissions_bytes:
  assumes "set_permissions fs p m = Inr fs'"
  shows "file_bytes fs' q = file_bytes fs q"
  using assms by (auto simp: set_permissions_def bindR_Inr_conv file_bytes_def fs_simps split: if_splits)

lemma apply_mode_bytes [simp]: "file_bytes (apply_mode p m fs) q = file_bytes fs q"
  using set_permissions_bytes by (auto simp: apply_mode_def split: sum.splits)

lemma rename_upload:
  assumes rn: "fs_rename fs t f = Inr fs'" and t: "names_ok t" "plain fs t" "file_bytes fs t = Some b"
    and f: "names_ok f" "plain fs f" and i: "\<not> prefix t f" "\<not> prefix f t" and tree: "tree_fs fs"
  shows "fs' = move_tree fs t f \<and> empty_below fs f \<and> \<not> is_dir_at fs f \<and> t \<noteq> [] \<and> f \<noteq> []"
proof -
  from fs_rename_effect [OF rn t(1,2) f] i obtain n where n: "lookup_node fs t = Some n" "fs' = move_tree fs t f" "t \<noteq> []" "f \<noteq> []"
    "\<forall>m. lookup_node fs f = Some m \<longrightarrow> (n_kind m = KDir \<longleftrightarrow> n_kind n = KDir)" by auto
  have "n_kind n \<noteq> KDir" using n(1) t(3) by (auto simp: file_bytes_def)
  then have "\<not> is_dir_at fs f" using n(5) by (auto simp: is_dir_at_def split: option.splits)
  then show ?thesis using n empty_below_not_dir [OF tree] by blast
qed

lemma file_bytes_move:
  assumes "empty_below fs f" "\<not> prefix t f" "\<not> prefix f t" "t \<noteq> []" "f \<noteq> []"
  shows "file_bytes (move_tree fs t f) f = file_bytes fs t" "lookup_node (move_tree fs t f) t = None"
  using lookup_move_iff [OF assms(1-3) assms(4,5)] assms(2,3) by (simp_all add: file_bytes_def)

lemma committed_file:
  assumes c: "committed P st w st' w'" and at: "upload_at (u_home (w_user w)) st"
    and root: "real_root (w_fs w) (u_home (w_user w))" and tree: "tree_fs (w_fs w)"
  shows "\<exists>body st1 w1. upload_step st w st1 w1 \<and> held st1 (w_fs w1) body \<and> file_bytes (w_fs w1) (rf_temp_path st) = Some body \<and>
    file_bytes (w_fs w') (rf_final_path st) = Some body \<and> file_bytes (w_fs w') (rf_temp_path st) = None \<and>
    length body = unat (rf_prior_bytes st) + unat (rf_reserved_bytes st) \<and>
    (\<forall>d. expected_digest st' = Some d \<longrightarrow> p_blake3 P body = d) \<and>
    (\<forall>tb. rf_trailer_buf st' = Some tb \<longrightarrow> tb_is_full tb) \<and>
    plain (w_fs w1) (rf_final_path st) \<and> empty_below (w_fs w1) (rf_final_path st) \<and>
    w_fs w' = apply_mode (rf_final_path st) (rf_mode st) (move_tree (w_fs w1) (rf_temp_path st) (rf_final_path st)) \<and>
    w_user w' = commit_user (rf_reserved_bytes st) (w_user w) \<and> st' = st1\<lparr>rf_completed := True\<rparr> \<and> \<not> is_dir_at (w_fs w1) (rf_final_path st)"
proof -
  from c obtain st1 w1 fs where k: "upload_step st w st1 w1" "rf_rehash st1 = None" "rf_remaining st1 = 0"
    "bw_stored (rf_writer st1, w_fs w1) (rf_hasher st1)"
    "\<forall>d. expected_digest st1 = Some d \<longrightarrow> p_blake3 P (rf_hasher st1) = d" "\<forall>tb. rf_trailer_buf st1 = Some tb \<longrightarrow> tb_is_full tb"
    "recheck_ancestors_no_symlinks (w_fs w1) (rf_final_path st1) (u_home (w_user w1)) = Inr ()"
    "fs_rename (w_fs w1) (rf_temp_path st1) (rf_final_path st1) = Inr fs" "st' = st1\<lparr>rf_completed := True\<rparr>"
    "w_fs w' = apply_mode (rf_final_path st1) (rf_mode st1) fs"
    "w_user w' = commit_user (rf_reserved_bytes st1) (w_user w1)" unfolding committed_def by blast
  have same: "same_upload st st1" "same_but (rf_temp_path st) (w_fs w) (w_fs w1)" "w_user w1 = w_user w"
    using k(1) by (auto simp: upload_step_def)
  have eqs: "rf_final_path st1 = rf_final_path st" "rf_temp_path st1 = rf_temp_path st" "rf_mode st1 = rf_mode st"
    "rf_reserved_bytes st1 = rf_reserved_bytes st" "rf_prior_bytes st1 = rf_prior_bytes st" using same(1) by (auto simp: same_upload_def)
  obtain body where h: "held st1 (w_fs w1) body" using k(1) by (auto simp: upload_step_def)
  have body: "rf_hasher st1 = body" "length body = unat (rf_prior_bytes st) + unat (rf_reserved_bytes st)"
    "bw_place (rf_writer st1) = rf_temp_path st" using h k(2,3) eqs by (auto simp: held_def)
  have fb: "file_bytes (w_fs w1) (rf_temp_path st) = Some body"
    using k(4) body by (auto simp: bw_stored_def bw_holds_def)
  have r1: "real_root (w_fs w1) (u_home (w_user w))" using same_but_real_root [OF same(2)] root by simp
  have t1: "tree_fs (w_fs w1)" using same_but_tree [OF same(2)] tree by simp
  note u = upload_atD [OF at]
  have pl: "plain (w_fs w1) (rf_final_path st)"
    using recheck_ancestors_plain [of "w_fs w1" "rf_final_path st" "u_home (w_user w)"] k(7) same(3) eqs r1 u(2,6) by simp
  note ru = rename_upload [OF k(8) [unfolded eqs] u(3) _ fb u(2) pl u(11,12) t1]
  have mv: "fs = move_tree (w_fs w1) (rf_temp_path st) (rf_final_path st)" "empty_below (w_fs w1) (rf_final_path st)"
    "\<not> is_dir_at (w_fs w1) (rf_final_path st)"
    using ru u(9) pl by auto
  note fm = file_bytes_move [OF mv(2) u(11,12,10,1)]
  have dig: "\<forall>d. expected_digest st' = Some d \<longrightarrow> p_blake3 P body = d"
    using k(5,9) body(1) by (simp add: expected_digest_def cong: option.case_cong)
  have "file_bytes (move_tree (w_fs w1) (rf_temp_path st) (rf_final_path st)) (rf_temp_path st) = None"
    using fm(2) by (simp add: file_bytes_def)
  then have ft: "file_bytes (w_fs w') (rf_temp_path st) = None" using k(10) eqs mv(1) by simp
  show ?thesis
    using k(1) h fb fm(1) ft k(6,9,10,11) eqs mv body pl same(3) dig
    by (intro exI [of _ body] exI [of _ st1] exI [of _ w1]) (simp add: apply_mode_bytes)
qed

section \<open>Rejections\<close>

lemma namei_last:
  "namei links fs cur rest follow = Inr q \<Longrightarrow> \<not> follow \<Longrightarrow> rest \<noteq> [] \<Longrightarrow> last rest \<noteq> ''.'' \<Longrightarrow> last rest \<noteq> ''..'' \<Longrightarrow>
     q \<noteq> [] \<and> last q = last rest"
proof (induction links fs cur rest follow rule: namei.induct)
  case (2 links fs cur c rest follow)
  have d: "is_dir_at fs cur" using "2.prems"(1) by (auto split: if_splits)
  show ?case
  proof (cases "rest = []")
    case True
    then show ?thesis using "2.prems" d by (auto split: if_splits option.splits Kind.splits)
  next
    case False
    then show ?thesis using "2.prems" d "2.IH"
      by (auto split: if_splits option.splits Kind.splits nat.splits)
  qed
qed simp

lemma remove_file_other:
  assumes "remove_file fs p = Inr fs'" "names_ok p" "p \<noteq> []" "last q \<noteq> last p"
  shows "lookup_node fs' q = lookup_node fs q"
proof -
  have "normal_name (last p)" using assms(2,3) by (simp add: names_ok_def list_all_iff)
  then have n: "last p \<noteq> ''.''" "last p \<noteq> ''..''" by (auto simp: normal_name_def)
  from assms(1) obtain place where pl: "syscall_path fs Sys_Unlink False p = Inr place" "fs' = del_node fs place"
    by (auto simp: remove_file_def bindR_Inr_conv split: if_splits)
  then have "namei MAXSYMLINKS fs [] p False = Inr place" by (auto simp: syscall_path_def split: if_splits option.splits)
  from namei_last [OF this _ assms(3) n] have "last place = last p" by simp
  then show ?thesis using assms(4) pl(2) by (auto simp: fs_simps)
qed

lemma cleanup_fs:
  assumes "cleanup_rejected_upload st w = (st', w')"
  shows "w_fs w' = w_fs w \<or> remove_file (w_fs w) (rf_temp_path st) = Inr (w_fs w')"
  using assms by (auto simp: cleanup_rejected_upload_def Let_def split: sum.splits)

lemma rejected_destination:
  assumes "rejected st w st' w'" "upload_at home st"
  shows "lookup_node (w_fs w') (rf_final_path st) = lookup_node (w_fs w) (rf_final_path st)"
proof -
  from assms(1) obtain st1 w1 where s: "upload_step st w st1 w1" and c: "cleanup_rejected_upload st1 w1 = (st', w')"
    unfolding rejected_def by metis
  note u = upload_atD [OF assms(2)]
  have t: "rf_temp_path st1 = rf_temp_path st" and b: "same_but (rf_temp_path st) (w_fs w) (w_fs w1)"
    using s by (auto simp: upload_step_def same_upload_def)
  have l: "last (rf_final_path st) \<noteq> last (rf_temp_path st)"
    using temp_path_facts(3) [OF u(1)] assms(2) by (auto simp: upload_at_def partial_suffix_def)
  have "lookup_node (w_fs w') (rf_final_path st) = lookup_node (w_fs w1) (rf_final_path st)"
    using cleanup_fs [OF c] remove_file_other [of "w_fs w1" "rf_temp_path st" "w_fs w'" "rf_final_path st"] t u(3,10) l by auto
  also have "\<dots> = lookup_node (w_fs w) (rf_final_path st)" using same_but_other [OF b] u(8) by metis
  finally show ?thesis .
qed

lemma step_destination:
  "upload_step st w st' w' \<Longrightarrow> upload_at home st \<Longrightarrow>
     lookup_node (w_fs w') (rf_final_path st) = lookup_node (w_fs w) (rf_final_path st)"
  using same_but_other upload_atD(8) unfolding upload_step_def by metis

section \<open>Confinement\<close>

lemma held_plain:
  assumes "held st fs c" "tree_fs fs"
  shows "plain fs (rf_temp_path st)"
proof -
  have "\<exists>n. lookup_node fs (rf_temp_path st) = Some n"
    using assms(1) by (auto simp: held_def bw_holds_def file_bytes_def split: option.splits)
  then show ?thesis using tree_prefix_dir [OF assms(2)] is_dir_no_link by (auto simp: plain_def)
qed

lemma same_but_outside: "same_but p fs fs' \<Longrightarrow> inside root p \<Longrightarrow> p \<noteq> [] \<Longrightarrow> same_outside root fs fs'"
  using same_but_other by (auto simp: same_outside_def inside_def)

lemma same_outside_trans: "same_outside root a b \<Longrightarrow> same_outside root b c \<Longrightarrow> same_outside root a c"
  by (simp add: same_outside_def)

lemma apply_mode_confined:
  assumes "names_ok p" "plain fs p" "no_link fs p" "inside root p"
  shows "same_outside root fs (apply_mode p m fs)"
  using set_permissions_effect [OF _ assms(1-3)] same_outside_set_node [OF assms(4)]
  by (fastforce simp: apply_mode_def split: sum.splits)

lemma upload_step_confined:
  "upload_step st w st' w' \<Longrightarrow> upload_at home st \<Longrightarrow> same_outside home (w_fs w) (w_fs w')"
  using same_but_outside upload_atD(4,10) unfolding upload_step_def by blast

lemma upload_step_tree: "upload_step st w st' w' \<Longrightarrow> tree_fs (w_fs w) \<Longrightarrow> tree_fs (w_fs w')"
  using same_but_tree unfolding upload_step_def by blast

lemma rejected_confined:
  assumes "rejected st w st' w'" "upload_at home st" "tree_fs (w_fs w)"
  shows "same_outside home (w_fs w) (w_fs w')"
proof -
  from assms(1) obtain st1 w1 where s: "upload_step st w st1 w1" and c: "cleanup_rejected_upload st1 w1 = (st', w')"
    unfolding rejected_def by metis
  note u = upload_atD [OF upload_step_at [OF s assms(2)]]
  obtain c1 where "held st1 (w_fs w1) c1" using s by (auto simp: upload_step_def)
  then have "plain (w_fs w1) (rf_temp_path st1)" using held_plain upload_step_tree [OF s assms(3)] by blast
  then have "same_outside home (w_fs w1) (w_fs w')"
    using cleanup_fs [OF c] remove_file_effect [OF _ u(3)] same_outside_del_node [OF u(4)] by fastforce
  then show ?thesis using upload_step_confined [OF s assms(2)] same_outside_trans by blast
qed

lemma plain_move_final:
  assumes "plain fs f" "\<not> prefix t f" "\<not> prefix f t" "plain fs t"
  shows "plain (move_tree fs t f) f"
  unfolding plain_def
proof (intro allI impI)
  fix q assume q: "strict_prefix q f"
  then have "\<not> prefix t q" "\<not> prefix f q" using assms(2) prefix_order.trans [of t q f] by (auto simp: strict_prefix_def)
  then show "no_link (move_tree fs t f) q" using assms(1) q by (simp add: no_link_def plain_def lookup_move_tree)
qed

lemma committed_confined:
  assumes c: "committed P st w st' w'" and at: "upload_at (u_home (w_user w)) st"
    and root: "real_root (w_fs w) (u_home (w_user w))" and tree: "tree_fs (w_fs w)"
  shows "same_outside (u_home (w_user w)) (w_fs w) (w_fs w')"
proof -
  from committed_file [OF assms] obtain body st1 w1 where k: "upload_step st w st1 w1" "held st1 (w_fs w1) body"
    "file_bytes (w_fs w1) (rf_temp_path st) = Some body" "file_bytes (w_fs w') (rf_final_path st) = Some body"
    "plain (w_fs w1) (rf_final_path st)" "empty_below (w_fs w1) (rf_final_path st)"
    "w_fs w' = apply_mode (rf_final_path st) (rf_mode st) (move_tree (w_fs w1) (rf_temp_path st) (rf_final_path st))" by blast
  let ?fs = "move_tree (w_fs w1) (rf_temp_path st) (rf_final_path st)"
  note u = upload_atD [OF at]
  have "file_bytes ?fs (rf_final_path st) = Some body" using k(4,7) by simp
  then have nl: "no_link ?fs (rf_final_path st)" by (auto simp: file_bytes_def no_link_def split: option.splits Kind.splits)
  have pl: "plain ?fs (rf_final_path st)" using plain_move_final [OF k(5) u(11,12)] u(9) k(5) by blast
  have "same_outside (u_home (w_user w)) (w_fs w1) ?fs" by (rule same_outside_move_tree [OF u(4,5,10,1)])
  then show ?thesis
    using upload_step_confined [OF k(1) at] apply_mode_confined [OF u(2) pl nl u(5)] k(7) same_outside_trans by metis
qed

section \<open>A small upload\<close>

text \<open>A sum in place of BLAKE3, and a decoder that fails.\<close>

definition demo_prims :: "unit Prims" where
  "demo_prims = \<lparr>p_blake3 = (\<lambda>b. replicate 32 (sum_list b)), p_decoder_new = Inl EIO,
     p_decoder_run = (\<lambda>d input room. Inl EIO)\<rparr>"

definition demo_world :: World where
  "demo_world = \<lparr>w_fs = demo_fs, w_user = demo_user, w_metrics = Metrics_default\<rparr>"

text \<open>A resumed upload of two more bytes and the trailer to \<open>/srv/b\<close>, whose temp file holds one byte.\<close>

definition demo_upload :: "unit ReadingFile" where
  "demo_upload = \<lparr>rf_final_path = [''srv'', ''b''], rf_temp_path = [''srv'', ''b.qftp.partial''],
     rf_writer = \<lparr>bw_place = [''srv'', ''b.qftp.partial''], bw_pos = 1, bw_buf = [], bw_capacity = 8\<rparr>,
     rf_remaining = 2, rf_mode = 0x1A4, rf_completed = False, rf_no_clobber = False, rf_hasher = [6],
     rf_recv_encoding = Recv_Identity, rf_expected_checksum = None, rf_trailer_buf = Some TrailerBuf_new,
     rf_reserved_bytes = 2, rf_prior_bytes = 1, rf_rehash = None, rf_claim = \<lparr>uc_path = [''srv'', ''b'']\<rparr>\<rparr>"

definition demo_recvs :: "byte \<Rightarrow> stream_recvs" where
  "demo_recvs d = [Inr ([7], False), Inr (8 # replicate 32 d, True)]"

lemma demo_upload_ok:
  "held demo_upload (w_fs demo_world) [6]" "upload_at (u_home (w_user demo_world)) demo_upload"
  "real_root (w_fs demo_world) (u_home (w_user demo_world))" "tree_fs (w_fs demo_world)"
proof -
  show "held demo_upload (w_fs demo_world) [6]"
    by (simp add: held_def demo_upload_def demo_world_def bw_holds_def file_bytes_def demo_fs_def lookup_node_def demo_node_def)
  show "upload_at (u_home (w_user demo_world)) demo_upload"
    by (simp add: upload_at_def demo_upload_def demo_world_def demo_user_def demo_root_def temp_path_for_def partial_suffix_def
        normal_name_def strict_prefix_def)
  show "real_root (w_fs demo_world) (u_home (w_user demo_world))" "tree_fs (w_fs demo_world)"
    using demo_real_root demo_session by (simp_all add: demo_world_def demo_user_def session_ok_def)
qed

lemma demo_put_Ok:
  obtains st' rs' w' where "drive_put demo_prims 4 (demo_recvs 21) demo_upload demo_world = (Some Resp_Ok, st', rs', w')"
    "file_bytes (w_fs w') [''srv'', ''b''] = Some [6, 7, 8]"
proof -
  let ?d = "drive_put demo_prims 4 (demo_recvs 21) demo_upload demo_world"
  have "fst ?d = Some Resp_Ok" "file_bytes (w_fs (snd (snd (snd ?d)))) [''srv'', ''b''] = Some [6, 7, 8]" by code_simp+
  then show thesis using that by (metis prod.collapse)
qed

lemma demo_put_mismatch:
  obtains resp st' rs' w' where "drive_put demo_prims 4 (demo_recvs 22) demo_upload demo_world = (Some resp, st', rs', w')" "is_err resp"
proof -
  have "map_option is_err (fst (drive_put demo_prims 4 (demo_recvs 22) demo_upload demo_world)) = Some True" by code_simp
  then show thesis using that by (cases "drive_put demo_prims 4 (demo_recvs 22) demo_upload demo_world" rule: prod_cases4) auto
qed

section \<open>Properties of a running upload\<close>

text \<open>
  C1: only verified bytes are committed. When \<open>drive_put\<close> answers \<open>Ok\<close>, the destination is a regular
  file of exactly the declared length (the resumed prefix and the declared body), the temp file is
  gone, and BLAKE3 of the whole file is the digest that the client sent: the trailer, all 32 bytes
  of which were received, when one was announced, and else the digest of the request, if any.
\<close>

theorem put_commit_verified:
  assumes "held st (w_fs w) c" "upload_at (u_home (w_user w)) st" "real_root (w_fs w) (u_home (w_user w))" "tree_fs (w_fs w)"
    and "drive_put P tmp_len rs st w = (Some Resp_Ok, st', rs', w')"
  shows "\<exists>body. file_bytes (w_fs w') (rf_final_path st) = Some body \<and> file_bytes (w_fs w') (rf_temp_path st) = None \<and>
    length body = unat (rf_prior_bytes st) + unat (rf_reserved_bytes st) \<and>
    (case rf_trailer_buf st of
       Some _ \<Rightarrow> \<exists>tb. rf_trailer_buf st' = Some tb \<and> tb_is_full tb \<and> p_blake3 P body = tb_bytes tb
     | None \<Rightarrow> \<forall>d. rf_expected_checksum st = Some d \<longrightarrow> p_blake3 P body = d)"
proof -
  have "committed P st w st' w'"
    using drive_put_cases [OF assms(1,5)] by (auto simp: ends_or_goes_on_def)
  from committed_file [OF this assms(2-4)] obtain body st1 w1 where b: "upload_step st w st1 w1"
    "file_bytes (w_fs w') (rf_final_path st) = Some body" "file_bytes (w_fs w') (rf_temp_path st) = None"
    "length body = unat (rf_prior_bytes st) + unat (rf_reserved_bytes st)"
    "\<forall>d. expected_digest st' = Some d \<longrightarrow> p_blake3 P body = d" "\<forall>tb. rf_trailer_buf st' = Some tb \<longrightarrow> tb_is_full tb"
    "st' = st1\<lparr>rf_completed := True\<rparr>" by blast
  have "rf_trailer_buf st' = None \<longleftrightarrow> rf_trailer_buf st = None" "rf_expected_checksum st' = rf_expected_checksum st"
    using b(1,7) by (auto simp: upload_step_def same_upload_def)
  then show ?thesis using b(2-6)
    by (intro exI [of _ body]) (auto simp: expected_digest_def resolve_put_checksum_def split: option.splits)
qed

theorem put_commit_verified_witness:
  "\<exists>st' rs' w'. drive_put demo_prims 4 (demo_recvs 21) demo_upload demo_world = (Some Resp_Ok, st', rs', w') \<and>
     file_bytes (w_fs w') [''srv'', ''b''] = Some [6, 7, 8] \<and>
     (\<exists>tb. rf_trailer_buf st' = Some tb \<and> tb_is_full tb \<and> p_blake3 demo_prims [6, 7, 8] = tb_bytes tb)"
proof -
  obtain st' rs' w' where d: "drive_put demo_prims 4 (demo_recvs 21) demo_upload demo_world = (Some Resp_Ok, st', rs', w')"
    "file_bytes (w_fs w') [''srv'', ''b''] = Some [6, 7, 8]" by (rule demo_put_Ok)
  then show ?thesis using put_commit_verified [OF demo_upload_ok d(1)] by (auto simp: demo_upload_def)
qed

text \<open>
  C22: an upload that is not committed leaves its destination alone: the node at the final path,
  contents and attributes, is the same after every call of \<open>drive_put\<close> that does not answer \<open>Ok\<close>.
\<close>

theorem put_failure_keeps_destination:
  assumes "held st (w_fs w) c" "upload_at home st" "drive_put P tmp_len rs st w = (r, st', rs', w')" "r \<noteq> Some Resp_Ok"
  shows "lookup_node (w_fs w') (rf_final_path st) = lookup_node (w_fs w) (rf_final_path st)"
  using drive_put_cases [OF assms(1,3)] assms(4) step_destination [OF _ assms(2)] rejected_destination [OF _ assms(2)]
  by (auto simp: ends_or_goes_on_def split: option.splits)

theorem put_failure_keeps_destination_witness:
  "\<exists>resp st' rs' w'. drive_put demo_prims 4 (demo_recvs 22) demo_upload demo_world = (Some resp, st', rs', w') \<and> is_err resp \<and>
     lookup_node (w_fs w') [''srv'', ''b''] = lookup_node demo_fs [''srv'', ''b'']"
proof -
  obtain resp st' rs' w' where d: "drive_put demo_prims 4 (demo_recvs 22) demo_upload demo_world = (Some resp, st', rs', w')" "is_err resp"
    by (rule demo_put_mismatch)
  then have "Some resp \<noteq> Some Resp_Ok" by auto
  from put_failure_keeps_destination [OF demo_upload_ok(1,2) d(1) this] show ?thesis
    using d by (auto simp: demo_upload_def demo_world_def)
qed



end
