(* ===== verification/Put_Quota.thy ===== *)
theory Put_Quota
  imports Put_Props
begin

text \<open>
  The quota counters of a user over the life of an upload: what the used bytes, the bytes in flight
  and the claims are after a commit, a rejection, a failure and a dropped stream.
\<close>

section \<open>Accounting\<close>

subsection \<open>Bytes on disk while a file grows\<close>

lemma sum_list_update:
  "map_of al k = Some v \<Longrightarrow>
     sum_list (map (\<lambda>(p, n). f p n) (AList.update k u al)) + f k v = sum_list (map (\<lambda>(p, n). f p n) al) + f k u"
  for f :: "'k \<Rightarrow> 'v \<Rightarrow> nat"
  by (induction al) (auto split: if_splits)

lemma usage_update_file:
  assumes "distinct_fs fs" "file_bytes fs p = Some b" "prefix root p"
  shows "usage (update_file fs p f) root + length b = usage fs root + length (f b)" "distinct_fs (update_file fs p f)"
proof -
  from assms(2) obtain n where n: "lookup_node fs p = Some n" "n_kind n = KFile b"
    by (auto simp: file_bytes_def split: option.splits Kind.splits)
  have ne: "p \<noteq> []" using file_bytes_not_root assms(2) by blast
  let ?m = "n\<lparr>n_kind := KFile (f b), n_mtime := Some (fs_now fs)\<rparr>"
  have eq: "nodes (update_file fs p f) = AList.update p ?m (nodes fs)" using n ne by (simp add: update_file_def set_node_def)
  have m: "map_of (nodes fs) p = Some n" using n ne by (simp add: lookup_node_def)
  show "distinct_fs (update_file fs p f)" using assms(1) by (simp add: distinct_fs_def eq distinct_update)
  from sum_list_update [OF m, of "\<lambda>p n. if prefix root p then file_len n else 0" ?m] assms(1,3) n(2)
  show "usage (update_file fs p f) root + length b = usage fs root + length (f b)"
    by (simp add: usage_def eq distinct_fs_def file_len_def)
qed

lemma usage_apply_mode [simp]: "usage (apply_mode p m fs) root = usage fs root"
proof (cases "set_permissions fs p (m AND 0x1FF)")
  case (Inr fs')
  then obtain q n where q: "lookup_node fs q = Some n" "fs' = set_node fs q (n\<lparr>n_perm := (m AND 0x1FF) AND 0xFFF\<rparr>)"
    by (auto simp: set_permissions_def bindR_Inr_conv)
  have "usage fs' root = usage fs root"
  proof (cases "q = []")
    case False
    then have "map_of (nodes fs) q = Some n" using q(1) by (simp add: lookup_node_def)
    from sum_list_update [OF this, of "\<lambda>p n. if prefix root p then file_len n else 0" "n\<lparr>n_perm := (m AND 0x1FF) AND 0xFFF\<rparr>"]
    moreover have "file_len (n\<lparr>n_perm := k\<rparr>) = file_len n" for k by (simp add: file_len_def)
    ultimately show ?thesis using False q(2) by (simp add: usage_def set_node_def split: if_splits)
  qed (use q in \<open>simp add: usage_def set_node_def\<close>)
  then show ?thesis using Inr by (simp add: apply_mode_def)
qed (simp add: apply_mode_def)

lemma same_but_usage:
  assumes "same_but p fs fs'" "distinct_fs fs" "file_bytes fs p = Some b" "file_bytes fs' p = Some b'" "prefix root p"
  shows "usage fs' root + length b = usage fs root + length b'" "distinct_fs fs'"
  using assms usage_update_file [OF assms(2,3,5)] by (auto simp: same_but_def file_bytes_update)

subsection \<open>The counters of an upload\<close>

text \<open>
  While an upload runs, the used bytes are those in the user's home, but for the bytes that this
  upload has added to its temp file.
\<close>

definition accounted :: "'d ReadingFile \<Rightarrow> World \<Rightarrow> bool" where
  "accounted st w \<longleftrightarrow> distinct_fs (w_fs w) \<and> (\<exists>b. file_bytes (w_fs w) (rf_temp_path st) = Some b \<and>
     unat (u_used_bytes (w_user w)) + length b = usage (w_fs w) (u_home (w_user w)) + unat (rf_prior_bytes st))"

lemma held_bytes: "held st fs c \<Longrightarrow> \<exists>b. file_bytes fs (rf_temp_path st) = Some b \<and> b @ bw_buf (rf_writer st) = c"
  by (auto simp: held_def bw_holds_def)

lemma accounted_same_but:
  assumes "same_but (rf_temp_path st) (w_fs w) (w_fs w')" "w_user w' = w_user w" "prefix (u_home (w_user w)) (rf_temp_path st)"
    "accounted st w" "file_bytes (w_fs w') (rf_temp_path st) = Some b'" "rf_temp_path st' = rf_temp_path st"
    "rf_prior_bytes st' = rf_prior_bytes st"
  shows "accounted st' w'"
proof -
  obtain b where b: "file_bytes (w_fs w) (rf_temp_path st) = Some b" "distinct_fs (w_fs w)"
    "unat (u_used_bytes (w_user w)) + length b = usage (w_fs w) (u_home (w_user w)) + unat (rf_prior_bytes st)"
    using assms(4) by (auto simp: accounted_def)
  from same_but_usage [OF assms(1) b(2,1) assms(5,3)] b(3) show ?thesis using assms(2,5-7) by (simp add: accounted_def)
qed

lemma accounted_step:
  assumes "upload_step st w st' w'" "accounted st w" "upload_at (u_home (w_user w)) st"
  shows "accounted st' w'"
proof -
  have s: "same_but (rf_temp_path st) (w_fs w) (w_fs w')" "w_user w' = w_user w" "rf_temp_path st' = rf_temp_path st"
    "rf_prior_bytes st' = rf_prior_bytes st" using assms(1) by (auto simp: upload_step_def same_upload_def)
  obtain c where "held st' (w_fs w') c" using assms(1) by (auto simp: upload_step_def)
  then obtain b' where "file_bytes (w_fs w') (rf_temp_path st) = Some b'" using held_bytes s(3) by metis
  from accounted_same_but [OF s(1,2) upload_atD(7) [OF assms(3)] assms(2) this s(3,4)] show ?thesis .
qed

lemma unlink_temp:
  assumes "held st fs c" "tree_fs fs" "names_ok (rf_temp_path st)" "\<not> has_nul (rf_temp_path st)"
    "env_fault fs Sys_Unlink (rf_temp_path st) = None"
  shows "remove_file fs (rf_temp_path st) = Inr (del_node fs (rf_temp_path st))"
proof -
  obtain n b where n: "lookup_node fs (rf_temp_path st) = Some n" "n_kind n = KFile b"
    using held_bytes [OF assms(1)] by (auto simp: file_bytes_def split: option.splits Kind.splits)
  from namei_existing [OF assms(2) n(1) assms(3)] show ?thesis using assms(4,5) n
    by (simp add: remove_file_def syscall_path_def existing_def)
qed

lemma cleanup_accounts:
  assumes h: "held st (w_fs w) c" and a: "accounted st w" and at: "upload_at (u_home (w_user w)) st" and t: "tree_fs (w_fs w)"
    and nul: "\<not> has_nul (rf_temp_path st)" and unlink: "env_fault (w_fs w) Sys_Unlink (rf_temp_path st) = None"
    and c: "cleanup_rejected_upload st w = (st', w')"
  shows "unat (u_used_bytes (w_user w')) = usage (w_fs w') (u_home (w_user w')) \<and>
    u_in_flight_bytes (w_user w') = u_in_flight_bytes (w_user w) - rf_reserved_bytes st \<and>
    file_bytes (w_fs w') (rf_temp_path st) = None \<and> st' = st\<lparr>rf_completed := True\<rparr>"
proof -
  note u = upload_atD [OF at]
  have rm: "w_fs w' = del_node (w_fs w) (rf_temp_path st)"
    using c unlink_temp [OF h t u(3) nul unlink] by (auto simp: cleanup_rejected_upload_def Let_def)
  obtain b where b: "file_bytes (w_fs w) (rf_temp_path st) = Some b" "distinct_fs (w_fs w)"
    "unat (u_used_bytes (w_user w)) + length b = usage (w_fs w) (u_home (w_user w)) + unat (rf_prior_bytes st)"
    using a by (auto simp: accounted_def)
  obtain n where n: "lookup_node (w_fs w) (rf_temp_path st) = Some n" "file_len n = length b"
    using b(1) by (auto simp: file_bytes_def file_len_def split: option.splits Kind.splits)
  have use: "usage (w_fs w) (u_home (w_user w)) = length b + usage (w_fs w') (u_home (w_user w))"
    using usage_del [OF b(2) n(1) u(7,10)] n(2) rm by simp
  then have "unat (u_used_bytes (w_user w)) = usage (w_fs w') (u_home (w_user w)) + unat (rf_prior_bytes st)" using b(3) by simp
  then have "unat (sat_sub (u_used_bytes (w_user w)) (rf_prior_bytes st)) = usage (w_fs w') (u_home (w_user w))" by (simp add: u64_simps)
  moreover have "file_bytes (w_fs w') (rf_temp_path st) = None" using rm u(10) by (simp add: file_bytes_def fs_simps)
  ultimately show ?thesis using c \<open>unat (u_used_bytes (w_user w)) = _\<close>
    by (auto simp: cleanup_rejected_upload_def Let_def word_gt_0)
qed

subsection \<open>Dropping the stream\<close>

lemma drop_fields [simp]:
  "u_home (w_user (drop_upload st w)) = u_home (w_user w)"
  "u_active_uploads (w_user (drop_upload st w)) = u_active_uploads (w_user w) - {uc_path (rf_claim st)}"
  by (auto simp: drop_upload_def upload_drop_def claim_drop_def Let_def split: prod.splits if_splits)

lemma bw_flush_works: "env_fault fs Sys_Write (bw_place w) = None \<Longrightarrow> \<exists>s. bw_flush w fs = Inr s"
  by (simp add: bw_flush_def bw_write_inner_def handle_write_def handle_fault_def)

lemma drop_running:
  assumes h: "held st (w_fs w) c" and ok: "env_fault (w_fs w) Sys_Write (rf_temp_path st) = None"
  shows "\<exists>fs. same_but (rf_temp_path st) (w_fs w) fs \<and> file_bytes fs (rf_temp_path st) = Some c \<and>
    w_fs (drop_upload st w) = fs \<and>
    u_used_bytes (w_user (drop_upload st w)) = u_used_bytes (w_user w) + (rf_reserved_bytes st - rf_remaining st) \<and>
    u_in_flight_bytes (w_user (drop_upload st w)) = u_in_flight_bytes (w_user w) - rf_reserved_bytes st"
proof -
  have p: "bw_holds (rf_writer st, w_fs w) c" "bw_place (rf_writer st) = rf_temp_path st" "\<not> rf_completed st"
    "rf_remaining st \<le> rf_reserved_bytes st" using h by (auto simp: held_def)
  obtain writer fs where f: "bw_flush (rf_writer st) (w_fs w) = Inr (writer, fs)"
    using bw_flush_works [of "w_fs w" "rf_writer st"] ok p(2) by (metis prod.collapse)
  have s: "bw_stored (writer, fs) c" "bw_place writer = rf_temp_path st" "same_but (rf_temp_path st) (w_fs w) fs"
    using bw_flush_holds [OF f p(1)] p(2) by auto
  then have "bw_drop writer fs = fs" "file_bytes fs (rf_temp_path st) = Some c"
    by (auto simp: bw_drop_def bw_flush_def bw_stored_def bw_holds_def)
  moreover have "sat_sub (rf_reserved_bytes st) (rf_remaining st) = rf_reserved_bytes st - rf_remaining st"
    using p(4) by (simp add: sat_sub_def)
  ultimately show ?thesis using s(3) f p(3)
    by (auto simp: drop_upload_def upload_drop_def claim_drop_def Let_def word_gt_0)
qed

lemma bw_drop_gone: "file_bytes fs (bw_place w) = None \<Longrightarrow> bw_drop w fs = fs"
  by (auto simp: bw_drop_def bw_flush_def bw_write_inner_def handle_write_def handle_fault_def update_file_def
      file_bytes_def split: option.splits Kind.splits)

lemma bw_drop_empty: "bw_buf w = [] \<Longrightarrow> bw_drop w fs = fs"
  by (simp add: bw_drop_def bw_flush_def)

lemma drop_completed:
  assumes "rf_completed st" "bw_drop (rf_writer st) (w_fs w) = w_fs w"
  shows "w_fs (drop_upload st w) = w_fs w" "u_used_bytes (w_user (drop_upload st w)) = u_used_bytes (w_user w)"
    "u_in_flight_bytes (w_user (drop_upload st w)) = u_in_flight_bytes (w_user w)"
  using assms by (simp_all add: drop_upload_def upload_drop_def claim_drop_def)

lemma drop_running_accounts:
  assumes h: "held st (w_fs w) c" and ok: "env_fault (w_fs w) Sys_Write (rf_temp_path st) = None"
    and a: "accounted st w" and at: "upload_at (u_home (w_user w)) st"
    and b: "unat (u_used_bytes (w_user w)) + unat (rf_reserved_bytes st) < 2 ^ 64"
  shows "unat (u_used_bytes (w_user (drop_upload st w))) = usage (w_fs (drop_upload st w)) (u_home (w_user w))"
proof -
  from drop_running [OF h ok] obtain fs where d: "same_but (rf_temp_path st) (w_fs w) fs" "file_bytes fs (rf_temp_path st) = Some c"
    "w_fs (drop_upload st w) = fs"
    "u_used_bytes (w_user (drop_upload st w)) = u_used_bytes (w_user w) + (rf_reserved_bytes st - rf_remaining st)" by blast
  have "accounted st (w\<lparr>w_fs := fs\<rparr>)"
    by (rule accounted_same_but [OF _ _ upload_atD(7) [OF at] a, where b' = c]) (use d in simp_all)
  then have u: "unat (u_used_bytes (w_user w)) + length c = usage fs (u_home (w_user w)) + unat (rf_prior_bytes st)"
    using d(2) by (auto simp: accounted_def)
  have r: "rf_remaining st \<le> rf_reserved_bytes st" "length c = unat (rf_prior_bytes st) + (unat (rf_reserved_bytes st) - unat (rf_remaining st))"
    using h by (auto simp: held_def)
  have "unat (rf_reserved_bytes st - rf_remaining st) = unat (rf_reserved_bytes st) - unat (rf_remaining st)"
    using r(1) by (simp add: unat_sub)
  then have "unat (u_used_bytes (w_user (drop_upload st w))) =
      unat (u_used_bytes (w_user w)) + (unat (rf_reserved_bytes st) - unat (rf_remaining st))"
    using d(4) b by (simp add: unat_word_ariths)
  then show ?thesis using u r(2) d(3) by simp
qed

subsection \<open>The end of an upload\<close>

lemma committed_writer: "committed P st w st' w' \<Longrightarrow> bw_buf (rf_writer st') = [] \<and> rf_completed st'"
  by (auto simp: committed_def bw_stored_def)

lemma committed_accounts:
  assumes c: "committed P st w st' w'" and at: "upload_at (u_home (w_user w)) st"
    and root: "real_root (w_fs w) (u_home (w_user w))" and tree: "tree_fs (w_fs w)" and a: "accounted st w"
    and b: "unat (u_used_bytes (w_user w)) + unat (rf_reserved_bytes st) < 2 ^ 64"
  shows "unat (u_used_bytes (w_user w')) = usage (w_fs w') (u_home (w_user w)) +
      (case file_bytes (w_fs w) (rf_final_path st) of None \<Rightarrow> 0 | Some old \<Rightarrow> length old)"
proof -
  from committed_file [OF c at root tree] obtain body st1 w1 where k: "upload_step st w st1 w1" "held st1 (w_fs w1) body"
    "file_bytes (w_fs w1) (rf_temp_path st) = Some body" "length body = unat (rf_prior_bytes st) + unat (rf_reserved_bytes st)"
    "w_fs w' = apply_mode (rf_final_path st) (rf_mode st) (move_tree (w_fs w1) (rf_temp_path st) (rf_final_path st))"
    "w_user w' = commit_user (rf_reserved_bytes st) (w_user w)" "\<not> is_dir_at (w_fs w1) (rf_final_path st)"
    by blast
  note u = upload_atD [OF at]
  have a1: "accounted st1 w1" by (rule accounted_step [OF k(1) a at])
  have s: "w_user w1 = w_user w" "rf_temp_path st1 = rf_temp_path st" "rf_prior_bytes st1 = rf_prior_bytes st"
    "same_but (rf_temp_path st) (w_fs w) (w_fs w1)" using k(1) by (auto simp: upload_step_def same_upload_def)
  let ?fs = "move_tree (w_fs w1) (rf_temp_path st) (rf_final_path st)"
  have d: "distinct_fs (w_fs w1)" "unat (u_used_bytes (w_user w)) + length body = usage (w_fs w1) (u_home (w_user w)) + unat (rf_prior_bytes st)"
    using a1 k(3) s by (auto simp: accounted_def)
  have old: "lookup_node (w_fs w1) (rf_final_path st) = lookup_node (w_fs w) (rf_final_path st)"
    using same_but_other [OF s(4)] u(8) by metis
  have "(case lookup_node (w_fs w1) (rf_final_path st) of None \<Rightarrow> 0 | Some m \<Rightarrow> file_len m) =
      (case file_bytes (w_fs w) (rf_final_path st) of None \<Rightarrow> 0 | Some old \<Rightarrow> length old)"
    unfolding old by (auto simp: file_bytes_def file_len_def split: option.splits Kind.splits)
  then have "usage (w_fs w1) (u_home (w_user w)) =
      (case file_bytes (w_fs w) (rf_final_path st) of None \<Rightarrow> 0 | Some old \<Rightarrow> length old) + usage ?fs (u_home (w_user w))"
    using usage_move [OF d(1) u(7,6,1)] by simp
  moreover have "unat (u_used_bytes (w_user w')) = unat (u_used_bytes (w_user w)) + unat (rf_reserved_bytes st)"
    using k(6) b by (simp add: commit_user_def unat_word_ariths)
  ultimately show ?thesis using d(2) k(4,5) by simp
qed

text \<open>What holds when the stream of an upload is done.\<close>

definition settled :: "World \<Rightarrow> nat \<Rightarrow> 'd ReadingFile \<Rightarrow> World \<Rightarrow> bool" where
  "settled w over st w' \<longleftrightarrow>
     unat (u_used_bytes (w_user w')) = usage (w_fs w') (u_home (w_user w)) + over \<and>
     u_in_flight_bytes (w_user w') = u_in_flight_bytes (w_user w) - rf_reserved_bytes st \<and>
     u_active_uploads (w_user w') = u_active_uploads (w_user w) - {uc_path (rf_claim st)}"

lemma cleanup_fields:
  "cleanup_rejected_upload st w = (st', w') \<Longrightarrow>
     u_home (w_user w') = u_home (w_user w) \<and> u_active_uploads (w_user w') = u_active_uploads (w_user w) \<and>
     rf_claim st' = rf_claim st \<and> rf_completed st' \<and> rf_writer st' = rf_writer st"
  by (auto simp: cleanup_rejected_upload_def Let_def split: if_splits)

lemma rejected_settled:
  assumes "rejected st w st' w'" "accounted st w" "upload_at (u_home (w_user w)) st" "tree_fs (w_fs w)"
    "\<not> has_nul (rf_temp_path st)" "env_fault (w_fs w) Sys_Unlink (rf_temp_path st) = None"
  shows "settled w 0 st (drop_upload st' w')"
proof -
  from assms(1) obtain st1 w1 where s: "upload_step st w st1 w1" and c: "cleanup_rejected_upload st1 w1 = (st', w')"
    unfolding rejected_def by metis
  obtain c1 where h: "held st1 (w_fs w1) c1" using s by (auto simp: upload_step_def)
  have e: "rf_temp_path st1 = rf_temp_path st" "w_user w1 = w_user w" "env_fault (w_fs w1) = env_fault (w_fs w)"
    "rf_claim st1 = rf_claim st" "rf_reserved_bytes st1 = rf_reserved_bytes st"
    using s same_but_env by (auto simp: upload_step_def same_upload_def)
  note k = cleanup_accounts [OF h accounted_step [OF s assms(2,3)] _ upload_step_tree [OF s assms(4)] _ _ c]
  have at: "upload_at (u_home (w_user w1)) st1" using upload_step_at [OF s assms(3)] e(2) by simp
  note k = k [OF at, unfolded e, OF assms(5,6)]
  note f = cleanup_fields [OF c]
  have "bw_place (rf_writer st') = rf_temp_path st" using h e(1) f by (simp add: held_def)
  then have "bw_drop (rf_writer st') (w_fs w') = w_fs w'" using k bw_drop_gone by simp
  from drop_completed [OF _ this] show ?thesis using f k e by (simp add: settled_def)
qed

lemma step_settled:
  assumes "upload_step st w st' w'" "accounted st w" "upload_at (u_home (w_user w)) st"
    "env_fault (w_fs w) Sys_Write (rf_temp_path st) = None" "unat (u_used_bytes (w_user w)) + unat (rf_reserved_bytes st) < 2 ^ 64"
  shows "settled w 0 st (drop_upload st' w')"
proof -
  obtain c where h: "held st' (w_fs w') c" using assms(1) by (auto simp: upload_step_def)
  have e: "rf_temp_path st' = rf_temp_path st" "w_user w' = w_user w" "env_fault (w_fs w') = env_fault (w_fs w)"
    "rf_claim st' = rf_claim st" "rf_reserved_bytes st' = rf_reserved_bytes st"
    using assms(1) same_but_env by (auto simp: upload_step_def same_upload_def)
  have f: "env_fault (w_fs w') Sys_Write (rf_temp_path st') = None" using e assms(4) by simp
  have at: "upload_at (u_home (w_user w')) st'" using upload_step_at [OF assms(1,3)] e(2) by simp
  have b: "unat (u_used_bytes (w_user w')) + unat (rf_reserved_bytes st') < 2 ^ 64" using assms(5) e by simp
  from drop_running_accounts [OF h f accounted_step [OF assms(1-3)] at b] drop_running [OF h f] show ?thesis
    using e by (auto simp: settled_def)
qed

lemma committed_settled:
  assumes c: "committed P st w st' w'" and at: "upload_at (u_home (w_user w)) st"
    and root: "real_root (w_fs w) (u_home (w_user w))" and tree: "tree_fs (w_fs w)" and a: "accounted st w"
    and b: "unat (u_used_bytes (w_user w)) + unat (rf_reserved_bytes st) < 2 ^ 64"
  shows "settled w (case file_bytes (w_fs w) (rf_final_path st) of None \<Rightarrow> 0 | Some old \<Rightarrow> length old) st (drop_upload st' w')"
proof -
  note w = committed_writer [OF c]
  have u: "w_user w' = commit_user (rf_reserved_bytes st) (w_user w)" "rf_claim st' = rf_claim st"
    using committed_file [OF c at root tree] by (auto simp: upload_step_def same_upload_def)
  from drop_completed [of st' w'] w bw_drop_empty committed_accounts [OF assms] show ?thesis
    using u by (simp add: settled_def commit_user_def)
qed


lemma demo_accounted:
  "accounted demo_upload demo_world" "\<not> has_nul (rf_temp_path demo_upload)" "env_fault (w_fs demo_world) sys p = None"
  "unat (u_used_bytes (w_user demo_world)) + unat (rf_reserved_bytes demo_upload) < 2 ^ 64"
proof -
  show "accounted demo_upload demo_world" using demo_user_ok
    by (simp add: accounted_def demo_upload_def demo_world_def) (simp add: file_bytes_def demo_fs_def lookup_node_def demo_node_def)
qed (simp_all add: demo_upload_def demo_world_def demo_user_def demo_fs_def has_nul_def)


text \<open>
  An upload that is cut off (its connection closes, or the server drops the stream) can be
  resumed: every byte received so far is in the temp file, the destination is untouched, and the
  counters account for the bytes kept.
\<close>

lemma put_abort_resumable:
  assumes "held st (w_fs w) c" "accounted st w" "upload_at (u_home (w_user w)) st"
    and "env_fault (w_fs w) Sys_Write (rf_temp_path st) = None"
    and "unat (u_used_bytes (w_user w)) + unat (rf_reserved_bytes st) < 2 ^ 64"
    and "stream_drop (ReadingFileData st :: ('d, 'e) StreamState) (w_fs w, w_user w) = (fs', u')"
  shows "file_bytes fs' (rf_temp_path st) = Some c \<and>
    lookup_node fs' (rf_final_path st) = lookup_node (w_fs w) (rf_final_path st) \<and>
    unat (u_used_bytes u') = usage fs' (u_home u') \<and>
    u_in_flight_bytes u' = u_in_flight_bytes (w_user w) - rf_reserved_bytes st \<and> uc_path (rf_claim st) \<notin> u_active_uploads u'"
proof -
  have e: "fs' = w_fs (drop_upload st w)" "u' = w_user (drop_upload st w)"
    using assms(6) by (auto simp: stream_drop_def drop_upload_def)
  from drop_running [OF assms(1,4)] obtain fs where d: "same_but (rf_temp_path st) (w_fs w) fs" "fs' = fs"
    "file_bytes fs (rf_temp_path st) = Some c"
    "u_in_flight_bytes u' = u_in_flight_bytes (w_user w) - rf_reserved_bytes st" unfolding e by blast
  moreover have "rf_final_path st \<noteq> rf_temp_path st" using upload_atD(8) [OF assms(3)] by metis
  ultimately show ?thesis using drop_running_accounts [OF assms(1,4,2,3,5)] same_but_other [OF d(1)] e by simp
qed

lemma put_abort_resumable_witness:
  "\<exists>fs' u'. stream_drop (ReadingFileData demo_upload :: (unit, unit) StreamState) (demo_fs, demo_user) = (fs', u') \<and>
     file_bytes fs' [''srv'', ''b.qftp.partial''] = Some [6] \<and> unat (u_used_bytes u') = usage fs' (u_home u')"
proof -
  obtain fs' u' where s: "stream_drop (ReadingFileData demo_upload :: (unit, unit) StreamState) (w_fs demo_world, w_user demo_world) = (fs', u')"
    by fastforce
  from put_abort_resumable [OF demo_upload_ok(1) demo_accounted(1) demo_upload_ok(2) demo_accounted(3,4) s] s
  show ?thesis by (simp add: demo_world_def demo_upload_def)
qed

end
