(* ===== verification/Put_Start.thy ===== *)
theory Put_Start
  imports Put_Quota
begin

text \<open>
  Accepting an upload: \<open>start_put\<close> establishes the invariant that the theories Put_Props and
  Put_Quota start from, inside the user's quota and behind an exclusive claim, and a refused
  request gives back whatever it took.
\<close>

section \<open>Opening the temp file\<close>

lemma open_file_effect:
  assumes "open_file fs opts p = Inr (q, fs')" "names_ok p" "plain fs p" "oo_no_follow opts"
  shows "q = p \<and> ((\<exists>n. lookup_node fs p = Some n \<and> \<not> is_symlink_kind (n_kind n) \<and> fs' = fs) \<or>
    lookup_node fs p = None \<and> oo_create opts \<and> fs' = set_node fs p (new_node fs (KFile []) (oo_mode opts)))"
proof -
  obtain x where x: "syscall_path fs Sys_Open False p = Inr x" using assms(1,4) by (auto simp: open_file_def bindR_Inr_conv)
  then have "x = p" using syscall_plain [OF x assms(2,3)] by simp
  then show ?thesis using assms(1,4) x by (cases "lookup_node fs p") (auto simp: open_file_def split: Kind.splits if_splits)
qed

lemma open_file_parent:
  assumes "open_file fs opts p = Inr (q, fs')" "names_ok p" "plain fs p" "oo_no_follow opts" "tree_fs fs" "p \<noteq> []"
  shows "is_dir_at fs (butlast p)"
proof -
  obtain x where "syscall_path fs Sys_Open False p = Inr x" "x = p"
    using assms(1-4) syscall_plain [of fs Sys_Open False p] by (auto simp: open_file_def bindR_Inr_conv)
  then show ?thesis using syscall_parent_dir assms(5,6) by blast
qed

text \<open>Two states that differ only in a file at one place, which may be new.\<close>

definition file_set :: "path \<Rightarrow> FS \<Rightarrow> FS \<Rightarrow> bool" where
  "file_set p fs fs' \<longleftrightarrow> fs' = fs \<or> (\<exists>n. fs' = set_node fs p n)"

lemma file_set_trans: "file_set p a b \<Longrightarrow> file_set p b c \<Longrightarrow> file_set p a c"
  unfolding file_set_def using set_node_twice by metis

lemma file_set_update [simp]: "file_set p fs (update_file fs p f)"
  by (auto simp: file_set_def update_file_def split: option.splits Kind.splits)

lemma file_set_other: "file_set p fs fs' \<Longrightarrow> q \<noteq> p \<Longrightarrow> lookup_node fs' q = lookup_node fs q"
  by (auto simp: file_set_def fs_simps)

lemma file_set_env: "file_set p fs fs' \<Longrightarrow> env_fault fs' = env_fault fs"
  by (auto simp: file_set_def)

lemma file_set_distinct: "file_set p fs fs' \<Longrightarrow> distinct_fs fs \<Longrightarrow> distinct_fs fs'"
  by (auto simp: file_set_def distinct_fs_def set_node_def distinct_update)

lemma file_set_outside: "file_set p fs fs' \<Longrightarrow> inside root p \<Longrightarrow> same_outside root fs fs'"
  using same_outside_set_node by (auto simp: file_set_def)

lemma sum_list_update_new:
  "map_of al k = None \<Longrightarrow>
     sum_list (map (\<lambda>(p, n). f p n) (AList.update k u al)) = sum_list (map (\<lambda>(p, n). f p n) al) + f k u"
  for f :: "'k \<Rightarrow> 'v \<Rightarrow> nat"
  by (induction al) (auto split: if_splits)

lemma usage_set_node:
  assumes "p \<noteq> []" "prefix root p"
  shows "usage (set_node fs p n) root + (case lookup_node fs p of None \<Rightarrow> 0 | Some m \<Rightarrow> file_len m) = usage fs root + file_len n"
  using assms sum_list_update [of "nodes fs" p _ "\<lambda>p n. if prefix root p then file_len n else 0" n]
    sum_list_update_new [of "nodes fs" p "\<lambda>p n. if prefix root p then file_len n else 0" n]
  by (cases "lookup_node fs p") (auto simp: usage_def set_node_def lookup_node_def)

lemma file_set_usage:
  assumes "file_set p fs fs'" "p \<noteq> []" "prefix root p"
  shows "usage fs' root + (case lookup_node fs p of None \<Rightarrow> 0 | Some m \<Rightarrow> file_len m) =
    usage fs root + (case lookup_node fs' p of None \<Rightarrow> 0 | Some m \<Rightarrow> file_len m)"
  using assms usage_set_node [OF assms(2,3), of fs] by (auto simp: file_set_def fs_simps)

lemma file_set_tree:
  assumes "file_set p fs fs'" "tree_fs fs" "p \<noteq> []" "\<not> is_dir_at fs p" "is_dir_at fs (butlast p)"
  shows "tree_fs fs'"
proof (rule tree_fsI)
  fix q n assume q: "lookup_node fs' q = Some n" "q \<noteq> []"
  have b: "butlast p \<noteq> p" using assms(3) by (metis append_butlast_last_id append_self_conv not_Cons_self2)
  have d: "is_dir_at fs' x" if "is_dir_at fs x" "x \<noteq> p" for x
    using that file_set_other [OF assms(1)] by (simp add: is_dir_at_def)
  show "is_dir_at fs' (butlast q)"
  proof (cases "q = p")
    case True
    then show ?thesis using d assms(5) b by simp
  next
    case False
    then have "is_dir_at fs (butlast q)" using q file_set_other [OF assms(1)] tree_fs_parent [OF assms(2)] by metis
    then show ?thesis using d assms(4) by metis
  qed
qed

subsection \<open>A fresh upload\<close>

lemma handle_metadata_len:
  "unat (case handle_metadata fs p of Inl _ \<Rightarrow> 0 | Inr m \<Rightarrow> node_size m) =
     (case file_bytes fs p of Some b \<Rightarrow> length b | None \<Rightarrow> 0)"
  if "env_fault fs Sys_Stat p = None" "file_bytes fs p = Some b" "length b < 2 ^ 64"
  using that by (auto simp: handle_metadata_def handle_fault_def existing_def file_bytes_def node_size_def u64_simps
      split: option.splits Kind.splits)

lemma open_fresh_spec:
  assumes o: "open_fresh p w = (Inr opened, w')" and p: "names_ok p" "plain (w_fs w) p" "p \<noteq> []" and t: "tree_fs (w_fs w)"
  shows "opened = (p, 0, 0, None) \<and> file_bytes (w_fs w') p = Some [] \<and> file_set p (w_fs w) (w_fs w') \<and> tree_fs (w_fs w') \<and>
    (\<exists>stale. w_user w' = (if stale > 0 then (w_user w)\<lparr>u_used_bytes := sat_sub (u_used_bytes (w_user w)) stale\<rparr> else w_user w) \<and>
      (env_fault (w_fs w) Sys_Stat p = None \<longrightarrow>
        (\<forall>b. file_bytes (w_fs w) p = Some b \<longrightarrow> length b < 2 ^ 64 \<longrightarrow> unat stale = length b) \<and>
        (lookup_node (w_fs w) p = None \<longrightarrow> stale = 0)) \<and>
      (lookup_node (w_fs w) p = None \<or> file_bytes (w_fs w) p \<noteq> None))"
proof -
  let ?opts = "apply_owner_only_no_follow (OpenOptions_new\<lparr>oo_read := True, oo_write := True, oo_create := True\<rparr>)"
  from o obtain q fs where op: "open_file (w_fs w) ?opts p = Inr (q, fs)"
    by (auto simp: open_fresh_def open_temp_def Let_def split: sum.splits)
  have nf: "oo_no_follow ?opts" by (simp add: apply_owner_only_no_follow_def apply_secure_open_def)
  note eff = open_file_effect [OF op p(1,2) nf]
  have q: "q = p" using eff by blast
  define stale where "stale = (case handle_metadata fs p of Inl _ \<Rightarrow> 0 | Inr m \<Rightarrow> node_size m)"
  from o op q obtain fs1 where tr: "handle_set_len fs p 0 = Inr fs1" "handle_set_permissions fs1 p 0x180 = Inr (w_fs w')"
    "opened = (p, 0, 0, None)"
    "w_user w' = (if stale > 0 then (w_user w)\<lparr>u_used_bytes := sat_sub (u_used_bytes (w_user w)) stale\<rparr> else w_user w)"
    unfolding stale_def open_fresh_def open_temp_def Let_def by (auto split: sum.splits)
  have "lookup_node fs p \<noteq> None" using eff p(3) by (auto simp: fs_simps)
  then obtain b where b: "file_bytes fs p = Some b"
    using tr(1) by (auto simp: handle_set_len_def bindR_Inr_conv file_bytes_def split: option.splits if_splits elim: is_file_kind.elims)
  have fs1: "fs1 = update_file fs p (\<lambda>b. take 0 b @ replicate (0 - length b) 0)"
    using tr(1) \<open>lookup_node fs p \<noteq> None\<close> by (auto simp: handle_set_len_def bindR_Inr_conv split: if_splits)
  then have b1: "file_bytes fs1 p = Some []" using b by (simp add: file_bytes_update)
  then obtain n where n: "lookup_node fs1 p = Some n" "n_kind n = KFile []"
    by (auto simp: file_bytes_def split: option.splits Kind.splits)
  have w': "w_fs w' = set_node fs1 p (n\<lparr>n_perm := 0x180 AND 0xFFF\<rparr>)"
    using tr(2) n(1) by (auto simp: handle_set_permissions_def bindR_Inr_conv)
  have fset: "file_set p (w_fs w) fs" using eff by (auto simp: file_set_def)
  have "file_set p fs fs1" "file_set p fs1 (w_fs w')" using w' unfolding fs1 by (simp, auto simp: file_set_def)
  with fset have all: "file_set p (w_fs w) (w_fs w')" using file_set_trans by blast
  have old: "lookup_node (w_fs w) p = None \<and> file_bytes (w_fs w) p = None \<or> file_bytes (w_fs w) p = Some b \<and> fs = w_fs w"
    using eff b by (auto simp: file_bytes_def)
  have tree: "tree_fs (w_fs w')"
  proof (rule file_set_tree [OF all t p(3)])
    show "\<not> is_dir_at (w_fs w) p" using old by (auto simp: is_dir_at_def file_bytes_def split: option.splits)
    show "is_dir_at (w_fs w) (butlast p)" by (rule open_file_parent [OF op p(1,2) nf t p(3)])
  qed
  have new: "b = []" if "lookup_node (w_fs w) p = None"
    using that eff b p(3) by (auto simp: file_bytes_def fs_simps new_node_def)
  have st: "unat stale = length b" if "env_fault (w_fs w) Sys_Stat p = None" "length b < 2 ^ 64"
    using handle_metadata_len [of fs p b] that b file_set_env [OF fset] by (simp add: stale_def)
  have "file_bytes (w_fs w') p = Some []" using w' n p(3) by (simp add: file_bytes_def fs_simps)
  then show ?thesis using tr(3,4) all tree old st new
    by (intro conjI exI [of _ stale]) (auto simp: unat_eq_0 [symmetric] simp del: unat_eq_0)
qed

subsection \<open>A resumed upload\<close>

lemma open_resume_spec:
  assumes o: "open_resume p off w = (Inr opened, w')" and p: "names_ok p" "plain (w_fs w) p"
    and small: "\<And>b. file_bytes (w_fs w) p = Some b \<Longrightarrow> length b < 2 ^ 64" and ok: "off \<noteq> - 1"
  shows "w' = w \<and> (\<exists>b. file_bytes (w_fs w) p = Some b \<and> length b = unat off \<and>
    opened = (p, unat off, off, Some \<lparr>rr_reader = \<lparr>fr_place = p, fr_pos = 0\<rparr>, rr_remaining = off, rr_pending_body = []\<rparr>))"
proof -
  let ?opts = "apply_no_follow (OpenOptions_new\<lparr>oo_read := True, oo_write := True\<rparr>)"
  have nf: "oo_no_follow ?opts" "\<not> oo_create ?opts"
    by (simp_all add: apply_no_follow_def apply_secure_open_def OpenOptions_new_def)
  have ot: "q = p \<and> fs = w_fs w \<and> (\<exists>b. file_bytes (w_fs w) p = Some b)" if "open_temp (w_fs w) p True = Inr (q, fs)" for q fs
  proof -
    have r: "require_regular_file (w_fs w) p = Inr ()" "open_file (w_fs w) ?opts p = Inr (q, fs)"
      using that by (auto simp: open_temp_def Let_def bindR_Inr_conv)
    from r(1) obtain m where m: "symlink_metadata (w_fs w) p = Inr m" "is_file_kind (n_kind m)"
      by (auto simp: require_regular_file_def bindR_Inr_conv split: if_splits)
    then have "\<exists>b. file_bytes (w_fs w) p = Some b"
      using metadata_Inr [OF m(1) p] by (auto simp: file_bytes_def elim: is_file_kind.elims)
    then show ?thesis using open_file_effect [OF r(2) p nf(1)] nf(2) by auto
  qed
  from o obtain q fs where t: "open_temp (w_fs w) p True = Inr (q, fs)" by (auto simp: open_resume_def split: sum.splits)
  with ot have e: "q = p" "fs = w_fs w" by auto
  obtain b where b: "file_bytes (w_fs w) p = Some b" using ot [OF t] by blast
  have "handle_metadata (w_fs w) p = Inl x \<or> node_size m = of_nat (length b)" if "handle_metadata (w_fs w) p = Inr m" for m x
    using that b by (auto simp: handle_metadata_def bindR_Inr_conv file_bytes_def node_size_def split: option.splits Kind.splits)
  then have len: "off = of_nat (length b)"
    using o t ok unfolding e open_resume_def by (auto simp: Let_def split: sum.splits if_splits)
  then have "length b = unat off" using small [OF b] by (simp add: u64_simps)
  then show ?thesis using o t b ot unfolding e open_resume_def
    by (auto simp: Let_def handle_seek_def bindR_Inr_conv split: sum.splits if_splits)
qed

section \<open>The new upload\<close>

lemma fresh_held:
  assumes "opened = (temp_path_for final, 0, 0, None)" "file_bytes fs (temp_path_for final) = Some []"
  shows "held (new_upload req final (temp_path_for final) opened enc claim) fs []"
  using assms by (auto simp: held_def new_upload_def bw_holds_def BufWriter_with_capacity_def)

lemma resume_held:
  assumes "opened = (temp_path_for final, unat off, off,
      Some \<lparr>rr_reader = \<lparr>fr_place = temp_path_for final, fr_pos = 0\<rparr>, rr_remaining = off, rr_pending_body = []\<rparr>)"
    "file_bytes fs (temp_path_for final) = Some b" "length b = unat off" "off > 0" "unat off + unat (pr_size req) < 2 ^ 64"
  shows "held (new_upload req final (temp_path_for final) opened enc claim) fs b"
  using assms by (auto simp: held_def new_upload_def bw_holds_def BufWriter_with_capacity_def)

lemma put_precheck_size:
  assumes "put_precheck req = None"
  shows "unat (pr_offset req) + unat (pr_size req) \<le> unat MAX_FILE_SIZE"
proof -
  have "sat_add (pr_offset req) (pr_size req) \<le> MAX_FILE_SIZE"
    using assms by (auto simp: put_precheck_def Let_def split: if_splits)
  then have "min (unat (pr_offset req) + unat (pr_size req)) (2 ^ 64 - 1) \<le> unat MAX_FILE_SIZE"
    unfolding word_le_nat_alt by (simp only: u64_simps)
  then show ?thesis by (simp add: MAX_FILE_SIZE_def min_def split: if_splits)
qed

lemma max_file_size_small: "unat MAX_FILE_SIZE < 2 ^ 63"
  by (simp add: MAX_FILE_SIZE_def)

text \<open>What opening the temp file of either kind leaves.\<close>

lemma open_upload:
  assumes o: "(if pr_offset req = 0 then open_fresh (temp_path_for final) w else open_resume (temp_path_for final) (pr_offset req) w) = (Inr opened, w')"
    and pre: "put_precheck req = None" and p: "names_ok final" "plain (w_fs w) final" "strict_prefix (u_home (w_user w)) final"
    and t: "tree_fs (w_fs w)" and d: "distinct_fs (w_fs w)" and c: "counter_ok (w_user w) (w_fs w)"
    and stat: "env_fault (w_fs w) Sys_Stat (temp_path_for final) = None"
  shows "\<exists>b used. held (new_upload req final (temp_path_for final) opened enc claim) (w_fs w') b \<and>
    accounted (new_upload req final (temp_path_for final) opened enc claim) w' \<and>
    file_set (temp_path_for final) (w_fs w) (w_fs w') \<and> tree_fs (w_fs w') \<and> w_user w' = (w_user w)\<lparr>u_used_bytes := used\<rparr>"
proof -
  let ?p = "temp_path_for final" and ?h = "u_home (w_user w)"
  have ne: "final \<noteq> []" using p(3) by auto
  have tp: "names_ok ?p" "plain (w_fs w) ?p" "?p \<noteq> []" "prefix ?h ?p"
    using names_ok_temp [OF ne p(1)] plain_temp [OF ne] p(2) temp_path_facts(1) [OF ne] inside_temp [OF p(3)] by (auto simp: inside_def)
  have use: "length b \<le> usage (w_fs w) ?h" if "file_bytes (w_fs w) ?p = Some b" for b
    using that file_len_usage [OF _ tp(3,4) d] by (force simp: file_bytes_def file_len_def split: option.splits Kind.splits)
  have small: "length b < 2 ^ 64" if "file_bytes (w_fs w) ?p = Some b" for b using use [OF that] counter_bound [OF c] by simp
  show ?thesis
  proof (cases "pr_offset req = 0")
    case True
    then have "open_fresh ?p w = (Inr opened, w')" using o by simp
    note spec = open_fresh_spec [OF this tp(1-3) t]
    then have f: "opened = (?p, 0, 0, None)" "file_bytes (w_fs w') ?p = Some []"
      "file_set ?p (w_fs w) (w_fs w')" "tree_fs (w_fs w')" by (simp_all only:)
    from spec obtain stale where g:
      "w_user w' = (if stale > 0 then (w_user w)\<lparr>u_used_bytes := sat_sub (u_used_bytes (w_user w)) stale\<rparr> else w_user w)"
      "env_fault (w_fs w) Sys_Stat ?p = None \<longrightarrow>
        (\<forall>b. file_bytes (w_fs w) ?p = Some b \<longrightarrow> length b < 2 ^ 64 \<longrightarrow> unat stale = length b) \<and>
        (lookup_node (w_fs w) ?p = None \<longrightarrow> stale = 0)"
      "lookup_node (w_fs w) ?p = None \<or> file_bytes (w_fs w) ?p \<noteq> None"
      by (elim conjE exE)
    have g2: "unat stale = length b" if "file_bytes (w_fs w) ?p = Some b" for b using that g(2) stat small [OF that] by metis
    have g3: "lookup_node (w_fs w) ?p = None \<Longrightarrow> stale = 0" using g(2) stat by metis
    let ?st = "new_upload req final ?p opened enc claim"
    have old: "(case lookup_node (w_fs w) ?p of None \<Rightarrow> 0 | Some m \<Rightarrow> file_len m) = unat stale"
      using g(3) g2 g3 by (auto simp: file_bytes_def file_len_def split: option.splits Kind.splits)
    have now: "(case lookup_node (w_fs w') ?p of None \<Rightarrow> 0 | Some m \<Rightarrow> file_len m) = 0"
      using f(2) by (auto simp: file_bytes_def file_len_def split: option.splits Kind.splits)
    have u: "usage (w_fs w') ?h + unat stale = usage (w_fs w) ?h" using file_set_usage [OF f(3) tp(3,4)] old now by simp
    have user: "w_user w' = (w_user w)\<lparr>u_used_bytes := sat_sub (u_used_bytes (w_user w)) stale\<rparr>" using g(1) by (auto simp: word_gt_0)
    have "accounted ?st w'"
      using f(1,2) file_set_distinct [OF f(3) d] u c user
      by (auto simp: accounted_def new_upload_def counter_ok_def u64_simps)
    then show ?thesis using fresh_held [OF f(1,2)] f(3,4) user by blast
  next
    case False
    then have "open_resume ?p (pr_offset req) w = (Inr opened, w')" using o by simp
    moreover have sz: "unat (pr_offset req) + unat (pr_size req) < 2 ^ 64" "pr_offset req \<noteq> - 1"
      using put_precheck_size [OF pre] max_file_size_small by (auto simp: unat_minus_one_u64)
    ultimately obtain b where b: "w' = w" "file_bytes (w_fs w) ?p = Some b" "length b = unat (pr_offset req)"
      "opened = (?p, unat (pr_offset req), pr_offset req,
        Some \<lparr>rr_reader = \<lparr>fr_place = ?p, fr_pos = 0\<rparr>, rr_remaining = pr_offset req, rr_pending_body = []\<rparr>)"
      using open_resume_spec [OF _ tp(1,2) small] by blast
    have pos: "pr_offset req > 0" using False by (simp add: word_gt_0)
    let ?st = "new_upload req final ?p opened enc claim"
    have "accounted ?st w'" using b d c by (auto simp: accounted_def new_upload_def counter_ok_def)
    then show ?thesis using resume_held [OF b(4,2,3) pos sz(1)] b(1) t
      by (intro exI [of _ b] exI [of _ "u_used_bytes (w_user w)"]) (simp add: file_set_def)
  qed
qed

lemma put_leftover_step:
  assumes h: "held st (w_fs w) c" and p: "put_leftover P left st w = (r, st', w')"
  shows "ends_or_goes_on st w r st' w'"
proof -
  have refl: "upload_step st w st w" by (rule upload_step_refl [OF h])
  have pend: "upload_step st w (st\<lparr>rf_trailer_buf := tb, rf_rehash := Some (rh\<lparr>rr_pending_body := body\<rparr>)\<rparr>) w"
    if "rf_rehash st = Some rh" "tb = None \<longleftrightarrow> rf_trailer_buf st = None" for tb rh body
    using that h by (auto simp: upload_step_def same_upload_def held_def)
  show ?thesis
  proof (cases "left = [] \<or> (\<exists>ov. rf_recv_encoding st = Recv_Identity \<and>
      classify_put_chunk (length left) (rf_remaining st) (rf_trailer_buf st \<noteq> None) (trailer_space (rf_trailer_buf st)) = Inl ov)")
    case True
    then show ?thesis using p refl
      by (cases "left = []") (auto simp: put_leftover_def ends_or_goes_on_def simp del: not_None_eq)
  next
    case False
    show ?thesis
    proof (cases "rf_recv_encoding st")
      case Recv_Identity
      obtain split where sp: "classify_put_chunk (length left) (rf_remaining st) (rf_trailer_buf st \<noteq> None)
          (trailer_space (rf_trailer_buf st)) = Inr split"
        using False Recv_Identity by (cases "classify_put_chunk (length left) (rf_remaining st) (rf_trailer_buf st \<noteq> None)
          (trailer_space (rf_trailer_buf st))") auto
      define tb where "tb = (if to_trailer split > 0
          then extend_trailer (take (to_trailer split) (drop (to_body split) left)) (rf_trailer_buf st) else rf_trailer_buf st)"
      have tb: "tb = None \<longleftrightarrow> rf_trailer_buf st = None" by (simp add: tb_def extend_trailer_def)
      let ?st = "st\<lparr>rf_trailer_buf := tb\<rparr>" and ?body = "take (to_body split) left"
      have s: "upload_step st w ?st w" by (rule upload_step_trailer [OF refl tb])
      have p': "(case rf_rehash st of
             Some rh \<Rightarrow> (None, ?st\<lparr>rf_rehash := Some (rh\<lparr>rr_pending_body := ?body\<rparr>)\<rparr>, w)
           | None \<Rightarrow> (if ?body = [] then (None, ?st, w)
                else (case write_body ?body ?st w of (Inl resp, st', w') \<Rightarrow> (Some resp, st', w') | (Inr _, st', w') \<Rightarrow> (None, st', w')))) = (r, st', w')"
        using p False Recv_Identity sp by (simp add: put_leftover_def tb_def Let_def cong: option.case_cong split: if_splits)
      show ?thesis
      proof (cases "rf_rehash st")
        case None
        obtain r0 st0 w0 where wb: "write_body ?body ?st w = (r0, st0, w0)" using prod_cases3 by blast
        have "length ?body \<le> unat (rf_remaining ?st)" using classify_to_body [OF sp] by simp
        from held_write [OF _ _ this wb] h None have hw: "upload_step ?st w st0 w0" "case r0 of Inr _ \<Rightarrow> True | Inl resp \<Rightarrow> is_err resp"
          by (auto split: sum.splits)
        then have "ends_or_goes_on st w r st' w'" using p' None wb s upload_step_trans [OF s hw(1)]
          by (auto simp: ends_or_goes_on_def split: if_splits sum.splits)
        then show ?thesis .
      next
        case (Some rh)
        then show ?thesis using p' pend [OF Some tb] by (auto simp: ends_or_goes_on_def)
      qed
    next
      case (Recv_Zstd z)
      show ?thesis
      proof (cases "rf_rehash st")
        case (Some rh)
        have "st\<lparr>rf_trailer_buf := rf_trailer_buf st, rf_rehash := x\<rparr> = st\<lparr>rf_rehash := x\<rparr>" for x by simp
        then show ?thesis using p False Recv_Zstd Some pend [OF Some HOL.refl]
          by (auto simp: put_leftover_def ends_or_goes_on_def)
      next
        case None
        obtain r0 st0 w0 where f: "feed_zstd_put_chunk P left z st w = (r0, st0, w0)" using prod_cases3 by blast
        note s = feed_zstd_step [OF h None f]
        show ?thesis using p False Recv_Zstd None f s fail_rejected_ends [of st0 w0 _ r st' w' st w]
          by (cases r0) (auto simp: put_leftover_def ends_or_goes_on_def)
      qed
    qed
  qed
qed

section \<open>What an upload holds and gives back\<close>

lemma drop_in_flight:
  "u_in_flight_bytes (w_user (drop_upload st w)) =
     (if rf_completed st then u_in_flight_bytes (w_user w) else u_in_flight_bytes (w_user w) - rf_reserved_bytes st)"
  by (auto simp: drop_upload_def upload_drop_def claim_drop_def Let_def split: prod.splits)

lemma upload_ended:
  assumes "ends_or_goes_on st w (Some resp) st' w' \<or> committed P st w st' w'"
  shows "u_in_flight_bytes (w_user (drop_upload st' w')) = u_in_flight_bytes (w_user w) - rf_reserved_bytes st"
    "u_active_uploads (w_user (drop_upload st' w')) = u_active_uploads (w_user w) - {uc_path (rf_claim st)}"
proof -
  consider "upload_step st w st' w'" | "rejected st w st' w'" | "committed P st w st' w'"
    using assms by (auto simp: ends_or_goes_on_def)
  then have "u_in_flight_bytes (w_user (drop_upload st' w')) = u_in_flight_bytes (w_user w) - rf_reserved_bytes st \<and>
    u_active_uploads (w_user (drop_upload st' w')) = u_active_uploads (w_user w) - {uc_path (rf_claim st)}"
  proof cases
    case 1
    then show ?thesis by (auto simp: drop_in_flight upload_step_def same_upload_def held_def)
  next
    case 2
    then obtain st1 w1 where s: "upload_step st w st1 w1" and c: "cleanup_rejected_upload st1 w1 = (st', w')"
      unfolding rejected_def by metis
    have "u_in_flight_bytes (w_user w') = u_in_flight_bytes (w_user w1) - rf_reserved_bytes st1"
      using c by (auto simp: cleanup_rejected_upload_def Let_def split: if_splits)
    then show ?thesis using cleanup_fields [OF c] s by (auto simp: drop_in_flight upload_step_def same_upload_def)
  next
    case 3
    then show ?thesis by (auto simp: committed_def drop_in_flight commit_user_def upload_step_def same_upload_def)
  qed
  then show "u_in_flight_bytes (w_user (drop_upload st' w')) = u_in_flight_bytes (w_user w) - rf_reserved_bytes st"
    "u_active_uploads (w_user (drop_upload st' w')) = u_active_uploads (w_user w) - {uc_path (rf_claim st)}" by simp_all
qed

lemma drop_requests_failed: "w_user (drop_upload st (requests_failed w)) = w_user (drop_upload st w)"
  by (simp add: drop_upload_def requests_failed_def Let_def case_prod_unfold)

lemma requests_failed_user [simp]: "w_user (requests_failed w) = w_user w" "w_fs (requests_failed w) = w_fs w"
  by (simp_all add: requests_failed_def)

text \<open>The request is not in the state yet: a claim or reservation that it takes is new.\<close>

definition same_holdings :: "World \<Rightarrow> World \<Rightarrow> bool" where
  "same_holdings w w' \<longleftrightarrow> u_in_flight_bytes (w_user w') = u_in_flight_bytes (w_user w) \<and>
     u_active_uploads (w_user w') = u_active_uploads (w_user w)"

lemma put_reserve_spec:
  "put_reserve req temp w = (r, w') \<Longrightarrow>
     (case r of
        Inl resp \<Rightarrow> is_err resp \<and> w_user w' = w_user w
      | Inr g \<Rightarrow> g = \<lparr>ifr_bytes = pr_size req, ifr_armed = True\<rparr> \<and>
          w' = w\<lparr>w_user := (w_user w)\<lparr>u_in_flight_bytes := u_in_flight_bytes (w_user w) + pr_size req\<rparr>\<rparr> \<and>
          (\<forall>limit. u_quota_bytes (w_user w) = Some limit \<longrightarrow> sat_add (u_used_bytes (w_user w')) (u_in_flight_bytes (w_user w')) \<le> limit))"
  by (auto simp: put_reserve_def ifr_reserve_def ifr_drop_def Let_def split: option.splits if_splits)

lemma open_user:
  assumes "(if pr_offset req = 0 then open_fresh temp w else open_resume temp (pr_offset req) w) = (r, w')"
  shows "w_user w' = (w_user w)\<lparr>u_used_bytes := u_used_bytes (w_user w')\<rparr>"
  using assms by (auto simp: open_fresh_def open_resume_def Let_def split: if_splits sum.splits)

text \<open>
  The upload that \<open>accept_put\<close> sets up, before the first byte is taken, and what becomes of it.
\<close>

definition upload_started :: "PutRequest \<Rightarrow> path \<Rightarrow> UploadClaim \<Rightarrow> World \<Rightarrow> 'd ReadingFile \<Rightarrow> World \<Rightarrow> bool" where
  "upload_started req final claim w st w' \<longleftrightarrow>
     (\<exists>c. held st (w_fs w') c) \<and> accounted st w' \<and> tree_fs (w_fs w') \<and> file_set (temp_path_for final) (w_fs w) (w_fs w') \<and>
     rf_final_path st = final \<and> rf_temp_path st = temp_path_for final \<and> rf_claim st = claim \<and>
     rf_reserved_bytes st = pr_size req \<and> rf_prior_bytes st = pr_offset req \<and>
     u_in_flight_bytes (w_user w') = u_in_flight_bytes (w_user w) + pr_size req \<and>
     u_active_uploads (w_user w') = u_active_uploads (w_user w) \<and> u_home (w_user w') = u_home (w_user w) \<and>
     u_quota_bytes (w_user w') = u_quota_bytes (w_user w) \<and>
     (\<forall>limit. u_quota_bytes (w_user w) = Some limit \<longrightarrow> sat_add (u_used_bytes (w_user w')) (u_in_flight_bytes (w_user w')) \<le> limit)"

lemma accept_put_cases:
  fixes P :: "'d Prims"
  assumes a: "accept_put P tmp_len req final claim rs w = (r, s, rs', w')"
    and pre: "put_precheck req = None" and p: "names_ok final" "plain (w_fs w) final" "strict_prefix (u_home (w_user w)) final"
    and t: "tree_fs (w_fs w)" and d: "distinct_fs (w_fs w)" and c: "counter_ok (w_user w) (w_fs w)"
    and stat: "env_fault (w_fs w) Sys_Stat (temp_path_for final) = None"
  obtains (refused) resp used where "r = Some resp" "is_err resp" "s = Done"
      "w_user w' = claim_drop claim ((w_user w)\<lparr>u_used_bytes := used\<rparr>)"
    | (leftover) resp w1 w2 and st st1 :: "'d ReadingFile" where "upload_started req final claim w st w1" "ends_or_goes_on st w1 (Some resp) st1 w2"
      "r = Some resp" "s = Done" "w_user w' = w_user (drop_upload st1 w2)"
    | (driven) w1 w2 and st st1 :: "'d ReadingFile" where "upload_started req final claim w st w1" "upload_step st w1 st1 w2"
      "settle_put (drive_put P tmp_len rs st1 w2) = (r, s, rs', w')"
proof -
  let ?temp = "temp_path_for final"
  obtain o1 w1 where o: "(if pr_offset req = 0 then open_fresh ?temp w else open_resume ?temp (pr_offset req) w) = (o1, w1)" by fastforce
  note u1 = open_user [OF o]
  have err_open: "is_err resp" if "o1 = Inl resp" for resp
    using o that by (auto simp: open_fresh_def open_resume_def Let_def split: if_splits sum.splits)
  show thesis
  proof (cases o1)
    case (Inl resp)
    then show thesis using a o err_open [OF Inl] u1
      by (intro refused [of resp "u_used_bytes (w_user w1)"]) (auto simp: accept_put_def open_put_def put_outcome_def Let_def fail_put_def)
  next
    case opened: (Inr opened)
    obtain r2 w2 where res: "put_reserve req ?temp w1 = (r2, w2)" by fastforce
    note rsv = put_reserve_spec [OF res]
    show thesis
    proof (cases r2)
      case (Inl resp)
      then show thesis using a o opened res rsv u1
        by (intro refused [of resp "u_used_bytes (w_user w1)"]) (auto simp: accept_put_def open_put_def put_outcome_def Let_def fail_put_def)
    next
      case r2: (Inr g)
      show thesis
      proof (cases "recv_encoding_for P req")
        case (Inl e)
        then show thesis using a o opened res r2 rsv u1
          by (intro refused [of _ "u_used_bytes (w_user w1)"]) (auto simp: accept_put_def open_put_def put_outcome_def Let_def fail_put_def ifr_drop_def)
      next
        case enc: (Inr enc)
        let ?st = "new_upload req final ?temp opened enc claim"
        from open_upload [OF o [unfolded opened] pre p t d c stat, of enc claim] obtain b used where
          h: "held ?st (w_fs w1) b" "accounted ?st w1" "file_set ?temp (w_fs w) (w_fs w1)" "tree_fs (w_fs w1)"
            "w_user w1 = (w_user w)\<lparr>u_used_bytes := used\<rparr>" by blast
        have prior: "rf_prior_bytes ?st = pr_offset req"
          using o opened by (auto simp: new_upload_def open_fresh_def open_resume_def Let_def split: if_splits sum.splits)
        have w2: "w_fs w2 = w_fs w1" using rsv r2 by simp
        have start: "upload_started req final claim w ?st w2"
          unfolding upload_started_def using h rsv r2 prior w2
          by (auto simp: new_upload_def accounted_def split: prod.splits)
        obtain r3 st3 w3 where lo: "put_leftover P (pr_leftover req) ?st w2 = (r3, st3, w3)" using prod_cases3 by blast
        have step: "ends_or_goes_on ?st w2 r3 st3 w3" by (rule put_leftover_step [OF _ lo]) (use h(1) w2 in simp)
        show thesis
        proof (cases r3)
          case (Some resp)
          then show thesis using a o opened res r2 enc lo start step
            by (intro leftover [OF start]) (auto simp: accept_put_def open_put_def put_outcome_def Let_def fail_put_def)
        next
          case None
          then show thesis using a o opened res r2 enc lo start step
            by (intro driven [OF start]) (auto simp: accept_put_def open_put_def put_outcome_def Let_def ends_or_goes_on_def)
        qed
      qed
    qed
  qed
qed

lemma upload_started_after:
  assumes "upload_started req final claim w st w1" "upload_step st w1 st2 w2"
    and "names_ok final" "strict_prefix (u_home (w_user w)) final"
  shows "(\<exists>c. held st2 (w_fs w2) c) \<and> accounted st2 w2 \<and> upload_at (u_home (w_user w)) st2 \<and> tree_fs (w_fs w2) \<and>
    rf_final_path st2 = final \<and> rf_claim st2 = claim \<and> rf_reserved_bytes st2 = pr_size req \<and>
    rf_prior_bytes st2 = pr_offset req \<and> w_user w2 = w_user w1 \<and> same_outside (u_home (w_user w)) (w_fs w) (w_fs w2)"
proof -
  have at: "upload_at (u_home (w_user w1)) st" using assms(1,3,4) by (simp add: upload_started_def upload_at_def)
  have home: "u_home (w_user w1) = u_home (w_user w)" using assms(1) by (simp add: upload_started_def)
  have "same_outside (u_home (w_user w)) (w_fs w) (w_fs w1)"
    using assms(1) file_set_outside inside_temp [OF assms(4)] by (auto simp: upload_started_def)
  then have "same_outside (u_home (w_user w)) (w_fs w) (w_fs w2)"
    using upload_step_confined [OF assms(2) at] same_outside_trans home by metis
  moreover have "accounted st2 w2" by (rule accounted_step [OF assms(2) _ at]) (use assms(1) in \<open>simp add: upload_started_def\<close>)
  moreover have "upload_at (u_home (w_user w)) st2" using upload_step_at [OF assms(2) at] home by simp
  moreover have "tree_fs (w_fs w2)" using upload_step_tree [OF assms(2)] assms(1) by (simp add: upload_started_def)
  ultimately show ?thesis using assms(1,2) by (auto simp: upload_started_def upload_step_def same_upload_def)
qed

lemma start_put_claimed:
  assumes s: "start_put P tmp_len fs0 cwd req rs w = (r, s, rs', w')"
    and root: "real_root (w_fs w) (u_home (w_user w))" and n: "names_ok cwd"
  obtains (failed) resp where "r = Some resp" "is_err resp" "s = Done" "w' = requests_failed w"
    | (claimed) final where "put_precheck req = None" "names_ok final" "plain (w_fs w) final"
      "strict_prefix (u_home (w_user w)) final" "final \<notin> u_active_uploads (w_user w)"
      "accept_put P tmp_len req final \<lparr>uc_path = final\<rparr> rs
         (w\<lparr>w_user := (w_user w)\<lparr>u_active_uploads := insert final (u_active_uploads (w_user w))\<rparr>\<rparr>) = (r, s, rs', w')"
proof (cases "\<exists>resp. fail_put resp rs w = (r, s, rs', w') \<and> is_err resp")
  case True
  then show thesis using failed by (auto simp: fail_put_def)
next
  case False
  have pc: "put_precheck req = None"
    using s False by (auto simp: start_put_def begin_put_def put_precheck_def Let_def split: option.splits if_splits)
  from s False pc obtain final where f: "resolve_parent fs0 cwd (u_home (w_user w)) (pr_path req) = Inr final" "final \<noteq> []"
    "recheck_ancestors_no_symlinks (w_fs w) final (u_home (w_user w)) = Inr ()" "final \<notin> u_active_uploads (w_user w)"
    "accept_put P tmp_len req final \<lparr>uc_path = final\<rparr> rs
       (w\<lparr>w_user := (w_user w)\<lparr>u_active_uploads := insert final (u_active_uploads (w_user w))\<rparr>\<rparr>) = (r, s, rs', w')"
    by (auto simp: start_put_def begin_put_def accept_put_def try_claim_def split: sum.splits if_splits)
  have pr: "prefix (u_home (w_user w)) final" "names_ok final"
    using resolve_parent_result [OF f(1) real_rootD(1) [OF root] n] by auto
  from recheck_ancestors_plain [OF f(3) root pr(2,1)] show thesis using claimed [OF pc pr(2)] f by (auto simp: inside_def)
qed

lemma settle_ended:
  assumes d: "settle_put (drive_put P tmp_len rs st w) = (Some resp, s, rs', w')" and h: "held st (w_fs w) c"
  shows "s = Done \<and> u_in_flight_bytes (w_user w') = u_in_flight_bytes (w_user w) - rf_reserved_bytes st \<and>
    u_active_uploads (w_user w') = u_active_uploads (w_user w) - {uc_path (rf_claim st)}"
proof -
  obtain st' w1 where e: "drive_put P tmp_len rs st w = (Some resp, st', rs', w1)" "s = Done"
    "w_user w' = w_user (drop_upload st' w1)"
    using d by (cases "drive_put P tmp_len rs st w" rule: prod_cases4)
      (auto simp: settle_put_def drop_requests_failed split: option.splits)
  have "ends_or_goes_on st w (Some resp) st' w1 \<or> committed P st w st' w1" using drive_put_cases [OF h e(1)] by auto
  then show ?thesis using upload_ended e by metis
qed

section \<open>Properties of an accepted upload\<close>

text \<open>
  C30: what the server promises when it accepts an upload, that is when \<open>start_put\<close> answers nothing
  yet. The destination is a name strictly inside the user's home that no other upload had claimed
  and that is claimed now; the declared bytes are reserved and the used and reserved bytes
  together fit in the quota; the whole file fits in the size limit; the state satisfies the
  invariants that the properties of \<open>drive_put\<close> assume; nothing outside the home has changed.
\<close>

theorem put_accept_reserves:
  assumes "start_put P tmp_len fs0 cwd req rs w = (None, s, rs', w')"
    and "real_root (w_fs w) (u_home (w_user w))" "names_ok cwd" "tree_fs (w_fs w)" "distinct_fs (w_fs w)"
    and "unat (u_used_bytes (w_user w)) = usage (w_fs w) (u_home (w_user w))" "\<And>p. env_fault (w_fs w) Sys_Stat p = None"
  shows "\<exists>st c. s = ReadingFileData st \<and> held st (w_fs w') c \<and> accounted st w' \<and> upload_at (u_home (w_user w)) st \<and>
    tree_fs (w_fs w') \<and> uc_path (rf_claim st) = rf_final_path st \<and>
    rf_final_path st \<notin> u_active_uploads (w_user w) \<and>
    u_active_uploads (w_user w') = insert (rf_final_path st) (u_active_uploads (w_user w)) \<and>
    rf_reserved_bytes st = pr_size req \<and> u_in_flight_bytes (w_user w') = u_in_flight_bytes (w_user w) + pr_size req \<and>
    (\<forall>limit. u_quota_bytes (w_user w') = Some limit \<longrightarrow>
       sat_add (u_used_bytes (w_user w')) (u_in_flight_bytes (w_user w')) \<le> limit) \<and>
    unat (rf_prior_bytes st) + unat (rf_reserved_bytes st) \<le> unat MAX_FILE_SIZE \<and>
    same_outside (u_home (w_user w)) (w_fs w) (w_fs w')"
proof (cases rule: start_put_claimed [OF assms(1-3)])
  case (2 final)
  let ?w = "w\<lparr>w_user := (w_user w)\<lparr>u_active_uploads := insert final (u_active_uploads (w_user w))\<rparr>\<rparr>"
  have c: "counter_ok (w_user ?w) (w_fs ?w)" using assms(6) by (simp add: counter_ok_def)
  show ?thesis
  proof (rule accept_put_cases [OF 2(6,1,2) _ _ _ _ c])
    fix w1 w2 st st1
    assume start: "upload_started req final \<lparr>uc_path = final\<rparr> ?w st w1" and step: "upload_step st w1 st1 w2"
      and settle: "settle_put (drive_put P tmp_len rs st1 w2) = (None, s, rs', w')"
    obtain st2 where d: "drive_put P tmp_len rs st1 w2 = (None, st2, rs', w')" "s = ReadingFileData st2"
      using settle by (cases "drive_put P tmp_len rs st1 w2" rule: prod_cases4) (auto simp: settle_put_def split: option.splits)
    obtain c1 where "held st1 (w_fs w2) c1" using step by (auto simp: upload_step_def)
    from drive_put_cases [OF this d(1)] have "upload_step st1 w2 st2 w'" by (auto simp: ends_or_goes_on_def)
    with step have all: "upload_step st w1 st2 w'" using upload_step_trans by blast
    from upload_started_after [OF start all 2(2)] 2(4)
    obtain c2 where k: "held st2 (w_fs w') c2" "accounted st2 w'" "upload_at (u_home (w_user w)) st2" "tree_fs (w_fs w')"
      "rf_final_path st2 = final" "rf_claim st2 = \<lparr>uc_path = final\<rparr>" "rf_reserved_bytes st2 = pr_size req"
      "rf_prior_bytes st2 = pr_offset req" "w_user w' = w_user w1" "same_outside (u_home (w_user w)) (w_fs w) (w_fs w')" by auto
    show ?thesis
      using k d(2) 2(5) start put_precheck_size [OF 2(1)]
      by (intro exI [of _ st2] exI [of _ c2]) (auto simp: upload_started_def)
  qed (use 2 assms in auto)
qed (use assms in auto)

definition demo_put :: PutRequest where
  "demo_put = \<lparr>pr_path = ''d/n'', pr_size = 3, pr_mode = 0x1A4, pr_offset = 0, pr_expected_checksum = None,
     pr_no_clobber = True, pr_checksum_trailer = True, pr_encoding = Encoding_Identity, pr_plaintext_size = 0, pr_leftover = []\<rparr>"

type_synonym demo_result = "Response option \<times> (unit, unit) StreamState \<times> stream_recvs \<times> World"

text \<open>The capacity of the writer stays folded while these requests are evaluated.\<close>

declare FILE_CHUNK_SIZE_def [code del]

lemma demo_put_accepted: "fst (start_put demo_prims 4 demo_fs demo_root demo_put [] demo_world :: demo_result) = None"
  by code_simp

lemma demo_put_refused:
  "map_option is_err (fst (start_put demo_prims 4 demo_fs demo_root (demo_put\<lparr>pr_path := ''b''\<rparr>) [] demo_world :: demo_result)) = Some True"
  by code_simp

declare FILE_CHUNK_SIZE_def [code]

lemma demo_start_ok:
  "real_root (w_fs demo_world) (u_home (w_user demo_world))" "names_ok demo_root" "tree_fs (w_fs demo_world)"
  "distinct_fs (w_fs demo_world)" "unat (u_used_bytes (w_user demo_world)) = usage (w_fs demo_world) (u_home (w_user demo_world))"
  "env_fault (w_fs demo_world) Sys_Stat p = None"
  using demo_upload_ok demo_user_ok demo_accounted(3) by (simp_all add: demo_world_def)

theorem put_accept_reserves_witness:
  "\<exists>s rs' w'. (start_put demo_prims 4 demo_fs demo_root demo_put [] demo_world :: demo_result) = (None, s, rs', w') \<and>
     u_in_flight_bytes (w_user w') = 3 \<and> card (u_active_uploads (w_user w')) = 1"
proof -
  obtain s rs' w' where s: "(start_put demo_prims 4 demo_fs demo_root demo_put [] demo_world :: demo_result) = (None, s, rs', w')"
    using demo_put_accepted by (metis prod.collapse)
  from put_accept_reserves [OF s demo_start_ok] s show ?thesis
    by (auto simp: demo_world_def demo_user_def demo_put_def)
qed

text \<open>
  A request that is answered at once keeps nothing. Whether \<open>start_put\<close> refuses the upload at
  any of its checks, fails to open or reserve, rejects the bytes that came with the request or
  finishes the whole upload, the bytes in flight and the set of claimed destinations are those
  from before the request.
\<close>

lemma put_answer_releases:
  assumes "start_put P tmp_len fs0 cwd req rs w = (Some resp, s, rs', w')"
    and "real_root (w_fs w) (u_home (w_user w))" "names_ok cwd" "tree_fs (w_fs w)" "distinct_fs (w_fs w)"
    and "unat (u_used_bytes (w_user w)) = usage (w_fs w) (u_home (w_user w))" "\<And>p. env_fault (w_fs w) Sys_Stat p = None"
  shows "s = Done \<and> u_in_flight_bytes (w_user w') = u_in_flight_bytes (w_user w) \<and>
    u_active_uploads (w_user w') = u_active_uploads (w_user w)"
proof (cases rule: start_put_claimed [OF assms(1-3)])
  case (2 final)
  let ?w = "w\<lparr>w_user := (w_user w)\<lparr>u_active_uploads := insert final (u_active_uploads (w_user w))\<rparr>\<rparr>"
  have c: "counter_ok (w_user ?w) (w_fs ?w)" using assms(6) by (simp add: counter_ok_def)
  have st: "u_in_flight_bytes (w_user w1) - rf_reserved_bytes st = u_in_flight_bytes (w_user w)"
    "u_active_uploads (w_user w1) - {uc_path (rf_claim st)} = u_active_uploads (w_user w)"
    if "upload_started req final \<lparr>uc_path = final\<rparr> ?w st w1" for st w1
    using that 2(5) by (auto simp: upload_started_def)
  show ?thesis
  proof (rule accept_put_cases [OF 2(6,1,2) _ _ _ _ c])
    fix w1 w2 st st1
    assume start: "upload_started req final \<lparr>uc_path = final\<rparr> ?w st w1" and step: "upload_step st w1 st1 w2"
      and settle: "settle_put (drive_put P tmp_len rs st1 w2) = (Some resp, s, rs', w')"
    obtain c1 where "held st1 (w_fs w2) c1" using step by (auto simp: upload_step_def)
    from settle_ended [OF settle this] show ?thesis using st [OF start] step
      by (auto simp: upload_step_def same_upload_def)
  next
    fix resp' w1 w2 st st1
    assume start: "upload_started req final \<lparr>uc_path = final\<rparr> ?w st w1" and e: "ends_or_goes_on st w1 (Some resp') st1 w2"
      "s = Done" "w_user w' = w_user (drop_upload st1 w2)"
    show ?thesis using upload_ended [OF disjI1 [OF e(1)]] e(2,3) st [OF start] by simp
  next
    fix resp' used assume "s = Done" "w_user w' = claim_drop \<lparr>uc_path = final\<rparr> ((w_user ?w)\<lparr>u_used_bytes := used\<rparr>)"
    then show ?thesis using 2(5) by (simp add: claim_drop_def)
  qed (use 2 assms in auto)
qed simp

lemma put_answer_releases_witness:
  "\<exists>resp s rs' w'. (start_put demo_prims 4 demo_fs demo_root (demo_put\<lparr>pr_path := ''b''\<rparr>) [] demo_world :: demo_result) = (Some resp, s, rs', w') \<and>
     is_err resp \<and> u_active_uploads (w_user w') = {}"
proof -
  obtain resp s rs' w' where s: "(start_put demo_prims 4 demo_fs demo_root (demo_put\<lparr>pr_path := ''b''\<rparr>) [] demo_world :: demo_result) = (Some resp, s, rs', w')"
    "is_err resp"
    using demo_put_refused by (cases "start_put demo_prims 4 demo_fs demo_root (demo_put\<lparr>pr_path := ''b''\<rparr>) [] demo_world :: demo_result" rule: prod_cases4) auto
  from put_answer_releases [OF s(1) demo_start_ok] s show ?thesis by (auto simp: demo_world_def demo_user_def)
qed

end
