(* ===== verification/Get_Props.thy ===== *)
theory Get_Props
  imports Transfer_Get Put_Start
begin

text \<open>
  Correctness of downloads: which file is served, and which bytes the client receives over all the
  calls that a download takes, however much the stream accepts in each.
\<close>

section \<open>The invariant of a download\<close>

text \<open>
  \<open>b\<close> is the content of the file, \<open>off\<close> and \<open>sz\<close> the range that was asked for, \<open>base\<close> what was on
  the stream before and \<open>s\<close> what is on it now.
\<close>

definition trailer_part :: "'e SendingFile \<Rightarrow> bytes" where
  "trailer_part st = (case sf_trailer st of None \<Rightarrow> [] | Some t \<Rightarrow> take (sf_trailer_offset st) t)"

definition get_inv :: "'e GetPrims \<Rightarrow> bytes \<Rightarrow> nat \<Rightarrow> nat \<Rightarrow> bytes \<Rightarrow> 'e SendingFile \<Rightarrow> bytes \<Rightarrow> bool" where
  "get_inv P b off sz base st s \<longleftrightarrow>
     off + sz \<le> length b \<and> unat (sf_total_size st) = sz \<and> unat (sf_sent st) \<le> sz \<and> unat (sf_prefix_remaining st) \<le> off \<and>
     (sf_prefix_remaining st > 0 \<longrightarrow> sf_sent st = 0 \<and> sf_trailer st = None) \<and> \<not> sf_finished st \<and>
     (case sf_trailer st of
        None \<Rightarrow> fr_pos (sf_reader st) = off - unat (sf_prefix_remaining st) + unat (sf_sent st) \<and>
          sf_hasher st = take (fr_pos (sf_reader st)) b
      | Some t \<Rightarrow> t = g_blake3 P (take (off + sz) b) \<and> unat (sf_sent st) = sz \<and> sf_trailer_offset st \<le> length t) \<and>
     (\<exists>body. s = base @ body @ trailer_part st \<and> (sf_encoding st = Send_Identity \<longrightarrow> body = take (unat (sf_sent st)) (drop off b)))"

definition reader_on :: "FS \<Rightarrow> 'e SendingFile \<Rightarrow> bytes \<Rightarrow> bool" where
  "reader_on fs st b \<longleftrightarrow> file_bytes fs (fr_place (sf_reader st)) = Some b"

lemma handle_read_file:
  "handle_read fs p pos want = Inr data \<Longrightarrow> file_bytes fs p = Some b \<Longrightarrow> data = take want (drop pos b)"
  by (auto simp: handle_read_def bindR_Inr_conv file_bytes_def split: option.splits Kind.splits)

lemma read_exact_spec:
  assumes "read_exact fs rd want = (Inr data, rd')" "file_bytes fs (fr_place rd) = Some b"
  shows "data = take want (drop (fr_pos rd) b)" "length data = want" "rd' = rd\<lparr>fr_pos := fr_pos rd + want\<rparr>"
proof -
  obtain d where d: "handle_read fs (fr_place rd) (fr_pos rd) want = Inr d"
    using assms(1) by (cases "handle_read fs (fr_place rd) (fr_pos rd) want") (auto simp: read_exact_def)
  have t: "d = take want (drop (fr_pos rd) b)" by (rule handle_read_file [OF d assms(2)])
  then show "data = take want (drop (fr_pos rd) b)" "length data = want" "rd' = rd\<lparr>fr_pos := fr_pos rd + want\<rparr>"
    using assms(1) d by (auto simp: read_exact_def min_def split: if_splits)
qed

lemma read_exact_place: "read_exact fs rd want = (r, rd') \<Longrightarrow> fr_place rd' = fr_place rd"
  by (auto simp: read_exact_def split: sum.splits)

lemma seek_back_spec:
  "seek_back fs rd n = (r, rd') \<Longrightarrow> fr_place rd' = fr_place rd \<and> (\<forall>u. r = Inr u \<longrightarrow> rd' = rd\<lparr>fr_pos := fr_pos rd - n\<rparr>)"
  by (auto simp: seek_back_def handle_seek_def bindR_Inr_conv split: sum.splits)

section \<open>Each phase\<close>

lemma prefix_step:
  assumes "send_phase_prefix_rehash stream_send fs sid k st c = (r, st', c')" "r \<noteq> Some Failed"
    and i: "get_inv P b off sz base st (sent c sid)" "reader_on fs st b"
  shows "get_inv P b off sz base st' (sent c' sid) \<and> reader_on fs st' b \<and> (r = None \<longrightarrow> sf_prefix_remaining st' = 0)"
proof (cases "sf_prefix_remaining st > 0")
  case False
  then show ?thesis using assms by (auto simp: send_phase_prefix_rehash_def word_gt_0)
next
  case True
  let ?want = "min (unat (sf_prefix_remaining st)) k" and ?pos = "fr_pos (sf_reader st)"
  have j: "sf_sent st = 0" "sf_trailer st = None" "?pos = off - unat (sf_prefix_remaining st)" "sf_hasher st = take ?pos b"
    "unat (sf_prefix_remaining st) \<le> off"
    using i(1) True by (auto simp: get_inv_def)
  obtain data rd where rd: "read_exact fs (sf_reader st) ?want = (Inr data, rd)"
    using assms(1,2) True by (cases "read_exact fs (sf_reader st) ?want"; cases "fst (read_exact fs (sf_reader st) ?want)")
      (auto simp: send_phase_prefix_rehash_def)
  note x = read_exact_spec [OF rd i(2) [unfolded reader_on_def]]
  have rem: "unat (sf_prefix_remaining st - of_nat ?want) = unat (sf_prefix_remaining st) - ?want"
    by (rule remaining_minus) simp
  define st1 where "st1 = st\<lparr>sf_reader := rd, sf_hasher := sf_hasher st @ data,
      sf_prefix_remaining := sf_prefix_remaining st - of_nat ?want\<rparr>"
  have e: "st' = st1" "c' = c" "r = (if sf_prefix_remaining st1 > 0 then Some Blocked else None)"
    using assms(1) True rd by (auto simp: send_phase_prefix_rehash_def st1_def Let_def)
  have pos: "fr_pos rd = off - unat (sf_prefix_remaining st1)" using x(3) j(3,5) rem by (simp add: st1_def)
  have "sf_hasher st @ data = take (?pos + ?want) b" using x(1) j(4) by (simp add: take_add)
  then have "get_inv P b off sz base st1 (sent c sid)"
    using i(1) j pos rem x(3) by (auto simp: get_inv_def st1_def trailer_part_def)
  then show ?thesis using e i(2) x(3) by (auto simp: reader_on_def st1_def word_gt_0 split: if_splits)
qed

lemma send_blocked_inv:
  assumes "send_blocked fs n st c m = (r, st', c', m')" "r \<noteq> Some Failed"
    and "get_inv P b off sz base (st\<lparr>sf_reader := (sf_reader st)\<lparr>fr_pos := fr_pos (sf_reader st) - n\<rparr>\<rparr>) s" "reader_on fs st b"
  shows "get_inv P b off sz base st' s \<and> reader_on fs st' b \<and> sf_prefix_remaining st' = sf_prefix_remaining st \<and>
    sf_encoding st' = sf_encoding st \<and> c' = c \<and> r = Some Blocked"
proof -
  obtain r0 rd where k: "seek_back fs (sf_reader st) n = (r0, rd)" by fastforce
  then obtain u where "r0 = Inr u" using assms(1,2) by (cases r0) (auto simp: send_blocked_def)
  then show ?thesis using assms k seek_back_spec [OF k] by (auto simp: send_blocked_def reader_on_def)
qed

lemma get_inv_advance:
  assumes i: "get_inv P b off sz base st s" "sf_prefix_remaining st = 0" "sf_encoding st = Send_Identity" "sf_trailer st = None"
    and n: "n \<le> unat (sf_total_size st - sf_sent st)" and d: "data = take want (drop (fr_pos (sf_reader st)) b)" "n \<le> want" "length data = want"
    and st': "st' = st\<lparr>sf_reader := rd, sf_hasher := sf_hasher st @ take n data, sf_sent := sf_sent st + of_nat n\<rparr>"
    and rd: "rd = (sf_reader st)\<lparr>fr_pos := fr_pos (sf_reader st) + n\<rparr>"
  shows "get_inv P b off sz base st' (s @ take n data)"
proof -
  let ?pos = "fr_pos (sf_reader st)"
  have j: "unat (sf_total_size st) = sz" "unat (sf_sent st) \<le> sz" "?pos = off + unat (sf_sent st)" "sf_hasher st = take ?pos b"
    "s = base @ take (unat (sf_sent st)) (drop off b)"
    using i by (auto simp: get_inv_def trailer_part_def)
  have room: "unat (sf_sent st) + n \<le> sz"
    using n j(1,2) by (simp add: unat_sub word_le_nat_alt)
  have "sz < 2 ^ 64" using unat_less_u64 [of "sf_total_size st"] j(1) by simp
  then have sn: "unat (sf_sent st + of_nat n) = unat (sf_sent st) + n" using room by (simp add: unat_word_ariths u64_simps)
  have tk: "take n data = take n (drop ?pos b)" using d by simp
  have "take (unat (sf_sent st)) (drop off b) @ take n data = take (unat (sf_sent st) + n) (drop off b)"
    unfolding tk j(3) using take_add [of "unat (sf_sent st)" n "drop off b"] by (simp add: add.commute)
  moreover have "sf_hasher st @ take n data = take (?pos + n) b" unfolding tk j(4) by (simp add: take_add)
  ultimately show ?thesis using i j(1-3,5) sn room by (auto simp: get_inv_def st' rd trailer_part_def)
qed

lemma body_identity_step:
  "send_phase_body_identity stream_send fs sid k st c m = (r, st', c', m') \<Longrightarrow> send_delivers stream_send sent \<Longrightarrow> r \<noteq> Some Failed \<Longrightarrow>
     get_inv P b off sz base st (sent c sid) \<Longrightarrow> reader_on fs st b \<Longrightarrow> sf_prefix_remaining st = 0 \<Longrightarrow> sf_encoding st = Send_Identity \<Longrightarrow>
     get_inv P b off sz base st' (sent c' sid) \<and> reader_on fs st' b \<and> sf_prefix_remaining st' = 0 \<and>
     (r = None \<longrightarrow> sf_trailer st' \<noteq> None \<or> unat (sf_sent st') = sz) \<and> sf_encoding st' = Send_Identity \<and> r \<noteq> Some Finished"
proof (induction stream_send fs sid k st c m rule: send_phase_body_identity.induct)
  case (1 stream_send fs sid k st c m)
  note inv = "1.prems"(4) and on = "1.prems"(5)
  show ?case
  proof (cases "sf_sent st < sf_total_size st \<and> sf_trailer st = None")
    case False
    then show ?thesis using "1.prems" by (auto simp: send_phase_body_identity.simps get_inv_def word_less_nat_alt)
  next
    case more: True
    define want where "want = min (unat (sf_total_size st - sf_sent st)) k"
    have eq: "(case read_exact fs (sf_reader st) want of
                 (Inl e, rd) \<Rightarrow> (Some Failed, st\<lparr>sf_reader := rd\<rparr>, snd (stream_send c sid [] True), m)
               | (Inr data, rd) \<Rightarrow>
                   (case stream_send c sid data False of
                      (Inl e, c') \<Rightarrow>
                        (if e = Quic_Done then send_blocked fs want (st\<lparr>sf_reader := rd\<rparr>) c' m
                         else (Some Failed, st\<lparr>sf_reader := rd\<rparr>, c', m))
                    | (Inr n0, c') \<Rightarrow>
                        (let n = min n0 want
                         in if n = 0 then send_blocked fs want (st\<lparr>sf_reader := rd\<rparr>) c' m
                            else (let st' = st\<lparr>sf_reader := rd, sf_hasher := sf_hasher st @ take n data,
                                             sf_sent := sf_sent st + of_nat n\<rparr>;
                                      m' = add_bytes_sent (of_nat n) m
                                  in if n < want then send_blocked fs (want - n) st' c' m'
                                     else send_phase_body_identity stream_send fs sid k st' c' m')))) = (r, st', c', m')"
      using "1.prems"(1) more unfolding want_def by (subst (asm) send_phase_body_identity.simps) (simp only: Let_def simp_thms if_False)
    obtain data rd where rd: "read_exact fs (sf_reader st) want = (Inr data, rd)"
      using eq "1.prems"(3) by (cases "read_exact fs (sf_reader st) want"; cases "fst (read_exact fs (sf_reader st) want)") auto
    note x = read_exact_spec [OF rd on [unfolded reader_on_def]]
    have on': "reader_on fs (st\<lparr>sf_reader := rd\<rparr>) b" using on x(3) by (simp add: reader_on_def)
    have undo: "st\<lparr>sf_reader := rd, sf_reader := rd\<lparr>fr_pos := fr_pos rd - want\<rparr>\<rparr> = st" using x(3) by simp
    obtain sr c1 where sr: "stream_send c sid data False = (sr, c1)" by fastforce
    show ?thesis
    proof (cases "sr = Inl Quic_Done \<or> (\<exists>n0. sr = Inr n0 \<and> min n0 want = 0)")
      case True
      then have bl: "send_blocked fs want (st\<lparr>sf_reader := rd\<rparr>) c1 m = (r, st', c', m')" using eq rd sr by auto
      have "sent c1 sid = sent c sid" using True sr send_deliversD [OF "1.prems"(2)] x(2) by fastforce
      then show ?thesis using send_blocked_inv [OF bl "1.prems"(3), of P b off sz base "sent c sid"] inv on' undo "1.prems"(6,7) by simp
    next
      case False
      then obtain n0 where n0: "sr = Inr n0" "min n0 want \<noteq> 0" using eq rd sr "1.prems"(3) by (cases sr) auto
      define n where "n = min n0 want"
      have dl: "n0 \<le> want" "sent c1 sid = sent c sid @ take n0 data"
        using send_deliversD(1) [OF "1.prems"(2) sr [unfolded n0(1)]] x(2) by auto
      then have nn: "n = n0" by (simp add: n_def)
      define st1 where "st1 = st\<lparr>sf_reader := rd, sf_hasher := sf_hasher st @ take n data, sf_sent := sf_sent st + of_nat n\<rparr>"
      have eq1: "(if n < want then send_blocked fs (want - n) st1 c1 (add_bytes_sent (of_nat n) m)
          else send_phase_body_identity stream_send fs sid k st1 c1 (add_bytes_sent (of_nat n) m)) = (r, st', c', m')"
        using eq rd sr n0 unfolding st1_def n_def by (simp add: Let_def)
      have nle: "n \<le> unat (sf_total_size st - sf_sent st)" "n \<le> want" by (auto simp: n_def want_def)
      let ?rd = "(sf_reader st)\<lparr>fr_pos := fr_pos (sf_reader st) + n\<rparr>"
      have adv: "get_inv P b off sz base (st1\<lparr>sf_reader := ?rd\<rparr>) (sent c1 sid)"
      proof -
        have "st1\<lparr>sf_reader := ?rd\<rparr> = st\<lparr>sf_reader := ?rd, sf_hasher := sf_hasher st @ take n data, sf_sent := sf_sent st + of_nat n\<rparr>"
          by (cases st) (simp add: st1_def)
        then show ?thesis using get_inv_advance [OF inv "1.prems"(6,7) _ nle(1) x(1) nle(2) x(2) refl refl] more dl nn by simp
      qed
      have on1: "reader_on fs st1 b" "sf_prefix_remaining st1 = 0" "sf_encoding st1 = Send_Identity"
        using on' "1.prems"(6,7) by (simp_all add: reader_on_def st1_def)
      show ?thesis
      proof (cases "n < want")
        case True
        have "sf_reader st1\<lparr>fr_pos := fr_pos (sf_reader st1) - (want - n)\<rparr> = ?rd" using x(3) True by (simp add: st1_def)
        then show ?thesis using send_blocked_inv [of fs "want - n" st1 c1 "add_bytes_sent (of_nat n) m" r st' c' m' P b off sz base "sent c1 sid"] eq1 True adv on1 "1.prems"(3)
          by simp
      next
        case F: False
        then have "?rd = sf_reader st1" using x(3) nle by (simp add: st1_def)
        then have "get_inv P b off sz base st1 (sent c1 sid)" using adv by simp
        moreover have "send_phase_body_identity stream_send fs sid k st1 c1 (add_bytes_sent (of_nat n) m) = (r, st', c', m')" using eq1 F by simp
        moreover have "\<not> \<not> (sf_sent st < sf_total_size st \<and> sf_trailer st = None)" using more by simp
        note IH = "1.IH" [OF this want_def rd [symmetric] refl sr [symmetric] n0(1) n_def _ st1_def refl F]
        have "n \<noteq> 0" using n0(2) by (simp add: n_def)
        ultimately show ?thesis using IH "1.prems"(2,3) on1 by simp
      qed
    qed
  qed
qed

text \<open>Of the compressed body only the range that was read and hashed matters here.\<close>

lemma encoder_pending_sent:
  assumes S: "send_delivers stream_send sent" and i: "get_inv P b off sz base st (sent c sid)" "sf_trailer st = None"
    "sf_encoding st = Send_Zstd z ff" and "zstd_send_pending stream_send sid z ff st c m = (r, st', c', m')"
  shows "get_inv P b off sz base st' (sent c' sid) \<and> sf_reader st' = sf_reader st \<and> sf_prefix_remaining st' = sf_prefix_remaining st \<and>
    (\<exists>z'. sf_encoding st' = Send_Zstd z' ff)"
proof -
  obtain sr c1 where sr: "stream_send c sid (encoder_pending z) False = (sr, c1)" by fastforce
  have "\<exists>k. sent c1 sid = sent c sid @ take k (encoder_pending z)"
    using send_deliversD [OF S, of c sid "encoder_pending z" False] sr by (cases sr) (auto intro: exI [of _ 0])
  then obtain x where x: "sent c1 sid = sent c sid @ x" by blast
  have c1: "c' = c1" and st': "st' = st \<or> (\<exists>z'. st' = st\<lparr>sf_encoding := Send_Zstd z' ff\<rparr>)"
    using assms(5) sr by (auto simp: zstd_send_pending_def Let_def split: sum.splits if_splits)
  have "get_inv P b off sz base (st\<lparr>sf_encoding := Send_Zstd z' ff\<rparr>) (sent c sid @ x)"
    "get_inv P b off sz base st (sent c sid @ x)" for z'
    using i by (auto simp: get_inv_def trailer_part_def)
  then show ?thesis using x c1 st' i(3) by auto
qed

lemma zstd_read_step:
  assumes i: "get_inv P b off sz base st (sent c sid)" "sf_trailer st = None" "sf_encoding st = Send_Zstd z ff" "reader_on fs st b"
    "sf_prefix_remaining st = 0" "sf_sent st < sf_total_size st"
    and r: "zstd_read_more Q stream_send fs sid k z ff st c m = Some (r, st', c', m')" "r \<noteq> Some Failed"
  shows "get_inv P b off sz base st' (sent c' sid) \<and> reader_on fs st' b \<and> sf_prefix_remaining st' = 0 \<and> (\<exists>z'. sf_encoding st' = Send_Zstd z' ff)"
proof -
  define want where "want = min (unat (sf_total_size st - sf_sent st)) k"
  obtain data rd where rd: "read_exact fs (sf_reader st) want = (Inr data, rd)"
    using r by (cases "read_exact fs (sf_reader st) want"; cases "fst (read_exact fs (sf_reader st) want)")
      (auto simp: zstd_read_more_def want_def)
  note x = read_exact_spec [OF rd i(4) [unfolded reader_on_def]]
  define st1 where "st1 = st\<lparr>sf_reader := rd, sf_hasher := sf_hasher st @ data\<rparr>"
  have eq: "zstd_read_more Q stream_send fs sid k z ff st c m = map_option (\<lambda>(r, z').
      case r of Inl e \<Rightarrow> (Some Failed, st1\<lparr>sf_encoding := Send_Zstd z' ff\<rparr>, snd (stream_send c sid [] True), m)
      | Inr _ \<Rightarrow> (None, st1\<lparr>sf_encoding := Send_Zstd z' ff, sf_sent := sf_sent st1 + of_nat want\<rparr>, c, m)) (encoder_push (g_encoder_run Q) z data)"
    using rd unfolding zstd_read_more_def want_def st1_def Let_def by simp
  from r obtain z' where z': "st' = st1\<lparr>sf_encoding := Send_Zstd z' ff, sf_sent := sf_sent st1 + of_nat want\<rparr>" "c' = c"
    unfolding eq by (cases "encoder_push (g_encoder_run Q) z data") (force split: sum.splits)+
  have j: "unat (sf_total_size st) = sz" "unat (sf_sent st) \<le> sz" "fr_pos (sf_reader st) = off + unat (sf_sent st)"
    "sf_hasher st = take (fr_pos (sf_reader st)) b" using i(1,2,5) by (auto simp: get_inv_def)
  have room: "unat (sf_sent st) + want \<le> sz" using j(1,2) by (auto simp: want_def unat_sub word_le_nat_alt)
  have "sz < 2 ^ 64" using unat_less_u64 [of "sf_total_size st"] j(1) by simp
  then have sn: "unat (sf_sent st + of_nat want) = unat (sf_sent st) + want" using room by (simp add: unat_word_ariths u64_simps)
  have "sf_hasher st @ data = take (fr_pos (sf_reader st) + want) b" using x(1) j(4) by (simp add: take_add)
  then have "get_inv P b off sz base st' (sent c' sid)"
    using i(1,2,5) j(1-3) sn room x(3) by (auto simp: get_inv_def z' st1_def trailer_part_def)
  then show ?thesis using i(4,5) x(3) by (simp add: reader_on_def z' st1_def)
qed

lemma zstd_round_step:
  assumes S: "send_delivers stream_send sent" and i: "get_inv P b off sz base st (sent c sid)" "zstd_more st z ff"
    "sf_encoding st = Send_Zstd z ff" "reader_on fs st b" "sf_prefix_remaining st = 0"
    and r: "zstd_round Q stream_send fs sid k z ff st c m = Some (r, st', c', m')" "r \<noteq> Some Failed"
  shows "get_inv P b off sz base st' (sent c' sid) \<and> reader_on fs st' b \<and> sf_prefix_remaining st' = 0 \<and>
    (\<exists>z' ff'. sf_encoding st' = Send_Zstd z' ff')"
proof -
  have t: "sf_trailer st = None" using i(2) by (simp add: zstd_more_def)
  consider "encoder_pending z \<noteq> []" | "encoder_pending z = []" "sf_sent st < sf_total_size st"
    | "encoder_pending z = []" "\<not> sf_sent st < sf_total_size st" by blast
  then show ?thesis
  proof cases
    case 1
    then show ?thesis using encoder_pending_sent [OF S i(1) t i(3)] r i(4,5) by (fastforce simp: zstd_round_def reader_on_def)
  next
    case 2
    then show ?thesis using zstd_read_step [where sent = sent, OF i(1) t i(3-5) 2(2)] r by (fastforce simp: zstd_round_def)
  next
    case 3
    have e: "get_inv P b off sz base (st\<lparr>sf_encoding := Send_Zstd z' f'\<rparr>) (sent c sid)" for z' f'
      using i(1) t by (auto simp: get_inv_def trailer_part_def)
    show ?thesis
    proof (cases ff)
      case True
      then show ?thesis using 3 r i by (auto simp: zstd_round_def zstd_finish_frame_def)
    next
      case False
      then obtain r0 z' where "encoder_finish (g_encoder_finish Q) z = Some (r0, z')"
        using 3 r by (auto simp: zstd_round_def zstd_finish_frame_def)
      then show ?thesis using False 3 r i e by (cases r0) (auto simp: zstd_round_def zstd_finish_frame_def reader_on_def)
    qed
  qed
qed

lemma zstd_round_not_finished:
  "zstd_round Q stream_send fs sid k z ff st c m = Some (r, st', c', m') \<Longrightarrow> r \<noteq> Some Finished"
  by (auto simp: zstd_round_def zstd_send_pending_def zstd_read_more_def zstd_finish_frame_def Let_def
      split: if_splits sum.splits prod.splits option.splits) (metis old.unit.exhaust sum.exhaust)+

lemma body_zstd_step:
  assumes z: "send_phase_body_zstd Q stream_send fs sid k st c m = Some (r, st', c', m')" and S: "send_delivers stream_send sent"
    and i: "r \<noteq> Some Failed" "get_inv P b off sz base st (sent c sid)" "reader_on fs st b" "sf_prefix_remaining st = 0"
      "\<exists>z ff. sf_encoding st = Send_Zstd z ff"
  shows "get_inv P b off sz base st' (sent c' sid) \<and> reader_on fs st' b \<and> sf_prefix_remaining st' = 0 \<and>
     (r = None \<longrightarrow> sf_trailer st' \<noteq> None \<or> unat (sf_sent st') = sz) \<and> r \<noteq> Some Finished"
proof -
  define good where "good = (\<lambda>(st :: 'a SendingFile) c. get_inv P b off sz base st (sent c sid) \<and> reader_on fs st b \<and>
    sf_prefix_remaining st = 0 \<and> (\<exists>z ff. sf_encoding st = Send_Zstd z ff))"
  define ok where "ok = (\<lambda>a (r, st', c', m' :: Metrics). case a of (((((((Q' :: 'a GetPrims, ss), fs'), sid'), k' :: nat), st), c), m :: Metrics) \<Rightarrow>
    ss = stream_send \<longrightarrow> fs' = fs \<longrightarrow> sid' = sid \<longrightarrow> r \<noteq> Some Failed \<longrightarrow> good st c \<longrightarrow>
    good st' c' \<and> (r = None \<longrightarrow> sf_trailer st' \<noteq> None \<or> unat (sf_sent st') = sz) \<and> r \<noteq> Some Finished)"
  have "ok (((((((Q, stream_send), fs), sid), k), st), c), m) (r, st', c', m')"
  proof (rule send_phase_body_zstd.raw_induct [OF _ z])
    fix body and Q :: "'a GetPrims" and ss fs' sid' k st c m y
    assume IH: "\<And>Q ss fs' sid' k st c m y. body Q ss fs' sid' k st c m = Some y \<Longrightarrow> ok (((((((Q, ss), fs'), sid'), k), st), c), m) y"
      and eq: "(case sf_encoding st of Send_Identity \<Rightarrow> Some (None, st, c, m)
        | Send_Zstd z ff \<Rightarrow> if \<not> zstd_more st z ff then Some (None, st, c, m)
            else Option.bind (zstd_round Q ss fs' sid' k z ff st c m) (\<lambda>(r, st', c', m').
              case r of None \<Rightarrow> body Q ss fs' sid' k st' c' m' | Some outcome \<Rightarrow> Some (Some outcome, st', c', m'))) = Some y"
    obtain r st' c' m' where y: "y = (r, st', c', m')" using prod_cases4 by blast
    show "ok (((((((Q, ss), fs'), sid'), k), st), c), m) y"
      unfolding ok_def y prod.case
    proof (intro impI)
      assume e: "ss = stream_send" "fs' = fs" "sid' = sid" and r: "r \<noteq> Some Failed" and g: "good st c"
      obtain z ff where enc: "sf_encoding st = Send_Zstd z ff" using g by (auto simp: good_def)
      show "good st' c' \<and> (r = None \<longrightarrow> sf_trailer st' \<noteq> None \<or> unat (sf_sent st') = sz) \<and> r \<noteq> Some Finished"
      proof (cases "zstd_more st z ff")
        case False
        then show ?thesis using eq enc y g by (auto simp: good_def zstd_more_def get_inv_def word_less_nat_alt)
      next
        case True
        then obtain r1 st1 c1 m1 where rd: "zstd_round Q ss fs' sid' k z ff st c m = Some (r1, st1, c1, m1)"
          and res: "(case r1 of None \<Rightarrow> body Q ss fs' sid' k st1 c1 m1 | Some outcome \<Rightarrow> Some (Some outcome, st1, c1, m1)) = Some (r, st', c', m')"
          using eq enc y by (auto split: Option.bind_splits)
        have "r1 \<noteq> Some Failed" using res r by auto
        then have g1: "good st1 c1" using zstd_round_step [OF S _ True enc _ _ rd [unfolded e], of P b off sz base] g unfolding good_def by blast
        show ?thesis
        proof (cases r1)
          case None
          then show ?thesis using IH [of Q ss fs' sid' k st1 c1 m1] res e r g1 by (auto simp: ok_def)
        next
          case (Some outcome)
          then show ?thesis using res g1 zstd_round_not_finished [OF rd] by auto
        qed
      qed
    qed
  qed
  then show ?thesis using i by (auto simp: ok_def good_def)
qed

subsection \<open>The trailer\<close>

lemma send_trailer_bytes_sent:
  "send_trailer_bytes stream_send sid bs off c m = (r, off', c', m') \<Longrightarrow> send_delivers stream_send sent \<Longrightarrow> off \<le> length bs \<Longrightarrow>
     sent c sid = pre @ take off bs \<Longrightarrow>
     off' \<le> length bs \<and> sent c' sid = pre @ take off' bs \<and> (r = None \<longrightarrow> off' = length bs) \<and> r \<noteq> Some Finished"
proof (induction stream_send sid bs off c m arbitrary: r rule: send_trailer_bytes.induct)
  case (1 stream_send sid bs off c m)
  note eq = "1.prems"(1) [unfolded send_trailer_bytes.simps [of stream_send sid bs off c m]]
  show ?case
  proof (cases "off < length bs")
    case False
    then show ?thesis using eq "1.prems"(2-) by auto
  next
    case True
    obtain sr c1 where sr: "stream_send c sid (drop off bs) False = (sr, c1)" by fastforce
    show ?thesis
    proof (cases sr)
      case (Inl e)
      then have "sent c1 sid = sent c sid" using sr send_deliversD(2) [OF "1.prems"(2)] by blast
      then show ?thesis using eq "1.prems"(3,4) True sr Inl by (auto split: if_splits)
    next
      case (Inr n0)
      note d = send_deliversD(1) [OF "1.prems"(2) sr [unfolded Inr]]
      have mn: "min n0 (length bs - off) = n0" using d by simp
      show ?thesis
      proof (cases "n0 = 0")
        case True
        then show ?thesis using eq "1.prems"(3,4) \<open>off < length bs\<close> sr Inr d by auto
      next
        case False
        have "send_trailer_bytes stream_send sid bs (off + n0) c1 (add_bytes_sent (of_nat n0) m) = (r, off', c', m')"
          using eq True sr Inr mn False by simp
        moreover have le: "off + n0 \<le> length bs" using d True by auto
        moreover have "sent c1 sid = pre @ take (off + n0) bs" using d "1.prems"(4) by (simp add: take_add)
        ultimately show ?thesis
          using "1.IH" [OF _ sr [symmetric] Inr refl _] True False mn d "1.prems"(2,3) le by simp
      qed
    qed
  qed
qed

lemma trailer_step:
  assumes S: "send_delivers stream_send sent" and i: "get_inv P b off sz base st (sent c sid)" "sf_prefix_remaining st = 0"
    "sf_trailer st \<noteq> None \<or> unat (sf_sent st) = sz" and t: "send_phase_trailer P stream_send sid st c m = (r, st', c', m')"
  shows "(r = Blocked \<longrightarrow> get_inv P b off sz base st' (sent c' sid) \<and> sf_reader st' = sf_reader st \<and> sf_encoding st' = sf_encoding st) \<and>
    (r = Finished \<longrightarrow> (\<exists>body. sent c' sid = base @ body @ g_blake3 P (take (off + sz) b) \<and>
       (sf_encoding st = Send_Identity \<longrightarrow> body = take sz (drop off b))))"
proof -
  define st1 where "st1 = (case sf_trailer st of
      None \<Rightarrow> st\<lparr>sf_trailer := Some (g_blake3 P (sf_hasher st)), sf_trailer_offset := 0\<rparr> | Some _ \<Rightarrow> st)"
  let ?t = "g_blake3 P (take (off + sz) b)"
  have full: "unat (sf_sent st) = sz" using i(1,3) by (auto simp: get_inv_def split: option.splits)
  have st1: "sf_trailer st1 = Some ?t" "sf_encoding st1 = sf_encoding st" "sf_reader st1 = sf_reader st" "sf_sent st1 = sf_sent st"
    using i(1,2) full by (auto simp: st1_def get_inv_def split: option.splits)
  have inv1: "get_inv P b off sz base st1 (sent c sid)"
    using i(1,2) full by (auto simp: st1_def get_inv_def trailer_part_def split: option.splits)
  then obtain body where body: "sent c sid = base @ body @ take (sf_trailer_offset st1) ?t"
    "sf_encoding st = Send_Identity \<longrightarrow> body = take sz (drop off b)" "sf_trailer_offset st1 \<le> length ?t"
    using st1 full by (auto simp: get_inv_def trailer_part_def)
  obtain r1 off1 c1 m1 where tb: "send_trailer_bytes stream_send sid ?t (sf_trailer_offset st1) c m = (r1, off1, c1, m1)"
    using prod_cases4 by blast
  have s1: "off1 \<le> length ?t" "sent c1 sid = (base @ body) @ take off1 ?t" "r1 = None \<longrightarrow> off1 = length ?t" "r1 \<noteq> Some Finished"
    using send_trailer_bytes_sent [OF tb S body(3), of "base @ body"] body(1) by auto
  have inv2: "get_inv P b off sz base (st1\<lparr>sf_trailer_offset := off1\<rparr>) (sent c1 sid)"
    using inv1 s1(1,2) st1 body(2) full by (auto simp: get_inv_def trailer_part_def)
  have eq: "(case (r1, off1, c1, m1) of
         (Some outcome, off, c', m') \<Rightarrow> (outcome, st1\<lparr>sf_trailer_offset := off\<rparr>, c', m')
       | (None, off, c', m') \<Rightarrow>
           (let st = st1\<lparr>sf_trailer_offset := off\<rparr>
            in case stream_send c' sid [] True of
                 (Inl e, c'') \<Rightarrow>
                   (if e = Quic_Done then (Finished, st\<lparr>sf_finished := True\<rparr>, c'', inc_downloads_completed m')
                    else (Failed, st, c'', m'))
               | (Inr _, c'') \<Rightarrow> (Finished, st\<lparr>sf_finished := True\<rparr>, c'', inc_downloads_completed m'))) = (r, st', c', m')"
    using t st1(1) tb unfolding send_phase_trailer_def st1_def [symmetric] Let_def by simp
  show ?thesis
  proof (cases r1)
    case (Some outcome)
    then show ?thesis using eq inv2 st1(2,3) s1(4) by auto
  next
    case None
    have fin: "sent c'' sid = sent c1 sid" if "stream_send c1 sid [] True = (x, c'')" for x c''
      using that send_deliversD [OF S, of c1 sid "[]" True] by (cases x) auto
    have "\<exists>x. stream_send c1 sid [] True = (x, c')" "r \<noteq> Blocked"
      using eq None by (auto simp: Let_def split: sum.splits prod.splits if_splits)
    then show ?thesis using fin s1 None body(2) by auto
  qed
qed

section \<open>A whole download\<close>

lemma drive_one_sender_step:
  assumes S: "send_delivers stream_send sent" and i: "get_inv P b off sz base st (sent c sid)" "reader_on fs st b"
    and d: "drive_one_sender P stream_send fs sid k st c m = Some (r, st', c', m')"
  shows "(r = Blocked \<longrightarrow> get_inv P b off sz base st' (sent c' sid) \<and> reader_on fs st' b \<and>
      (sf_encoding st = Send_Identity \<longrightarrow> sf_encoding st' = Send_Identity)) \<and>
    (r = Finished \<longrightarrow> (\<exists>body. sent c' sid = base @ body @ g_blake3 P (take (off + sz) b) \<and>
       (sf_encoding st = Send_Identity \<longrightarrow> body = take sz (drop off b))))"
proof (cases "r = Failed")
  case False
  obtain r1 st1 c1 where p: "send_phase_prefix_rehash stream_send fs sid k st c = (r1, st1, c1)" using prod_cases3 by blast
  have nf: "\<not> sf_finished st" using i(1) by (simp add: get_inv_def)
  have enc1: "sf_encoding st1 = sf_encoding st"
    using p by (auto simp: send_phase_prefix_rehash_def Let_def split: if_splits sum.splits prod.splits)
  show ?thesis
  proof (cases r1)
    case (Some outcome)
    then have e: "outcome = r" "st1 = st'" "c1 = c'" using d nf p by (auto simp: drive_one_sender_def)
    have "outcome \<noteq> Finished" using p Some
      by (auto simp: send_phase_prefix_rehash_def Let_def split: if_splits sum.splits prod.splits)
    then show ?thesis using prefix_step [where sent = sent and P = P, OF p _ i] Some e False enc1 by simp
  next
    case None
    then have q: "get_inv P b off sz base st1 (sent c1 sid)" "reader_on fs st1 b" "sf_prefix_remaining st1 = 0"
      using prefix_step [where sent = sent and P = P, OF p _ i] by auto
    obtain r2 st2 c2 m2 where bd: "send_phase_body P stream_send fs sid k st1 c1 m = Some (r2, st2, c2, m2)"
      and res: "(case r2 of Some outcome \<Rightarrow> (outcome, st2, c2, m2) | None \<Rightarrow> send_phase_trailer P stream_send sid st2 c2 m2) = (r, st', c', m')"
      using d nf p None by (auto simp: drive_one_sender_def)
    have r2: "r2 \<noteq> Some Failed" using res False by auto
    have b2: "get_inv P b off sz base st2 (sent c2 sid) \<and> reader_on fs st2 b \<and> sf_prefix_remaining st2 = 0 \<and>
        (r2 = None \<longrightarrow> sf_trailer st2 \<noteq> None \<or> unat (sf_sent st2) = sz) \<and> r2 \<noteq> Some Finished \<and>
        (sf_encoding st1 = Send_Identity \<longrightarrow> sf_encoding st2 = Send_Identity)"
    proof (cases "sf_encoding st1")
      case Send_Identity
      then have "send_phase_body_identity stream_send fs sid k st1 c1 m = (r2, st2, c2, m2)" using bd by (simp add: send_phase_body_def)
      from body_identity_step [OF this S r2 q Send_Identity] show ?thesis by simp
    next
      case (Send_Zstd z ff)
      then have "send_phase_body_zstd P stream_send fs sid k st1 c1 m = Some (r2, st2, c2, m2)" using bd by (simp add: send_phase_body_def)
      from body_zstd_step [OF this S r2 q] Send_Zstd show ?thesis by simp
    qed
    show ?thesis
    proof (cases r2)
      case (Some outcome)
      then show ?thesis using res b2 enc1 by auto
    next
      case None
      then have t: "send_phase_trailer P stream_send sid st2 c2 m2 = (r, st', c', m')" using res by simp
      show ?thesis using trailer_step [OF S _ _ _ t, of b off sz base] b2 None enc1 by (auto simp: reader_on_def)
    qed
  qed
qed simp

text \<open>
  The calls of one download. Between two of them the connection serves other streams and the
  network, and the file system may change, but for the file that is being sent.
\<close>

inductive sender_run ::
  "'e GetPrims \<Rightarrow> 'c stream_send \<Rightarrow> ('c \<Rightarrow> u64 \<Rightarrow> bytes) \<Rightarrow> u64 \<Rightarrow> bytes \<Rightarrow> 'e SendingFile \<Rightarrow> 'c \<Rightarrow> 'e SendingFile \<Rightarrow> 'c \<Rightarrow> bool"
  for P stream_send sent sid b st0 c0 where
  run_start: "sender_run P stream_send sent sid b st0 c0 st0 c0"
| run_drive: "sender_run P stream_send sent sid b st0 c0 st c \<Longrightarrow> reader_on fs st b \<Longrightarrow>
    drive_one_sender P stream_send fs sid k st c m = Some (Blocked, st', c', m') \<Longrightarrow> sender_run P stream_send sent sid b st0 c0 st' c'"
| run_other: "sender_run P stream_send sent sid b st0 c0 st c \<Longrightarrow> sent c' sid = sent c sid \<Longrightarrow> sender_run P stream_send sent sid b st0 c0 st c'"

lemma sender_run_inv:
  "sender_run P stream_send sent sid b st0 c0 st c \<Longrightarrow> send_delivers stream_send sent \<Longrightarrow> get_inv P b off sz base st0 (sent c0 sid) \<Longrightarrow>
     get_inv P b off sz base st (sent c sid) \<and> (sf_encoding st0 = Send_Identity \<longrightarrow> sf_encoding st = Send_Identity)"
proof (induction rule: sender_run.induct)
  case (run_drive st c fs k m st' c' m')
  have i: "get_inv P b off sz base st (sent c sid)" "sf_encoding st0 = Send_Identity \<longrightarrow> sf_encoding st = Send_Identity"
    using run_drive.IH [OF run_drive.prems] by auto
  show ?case using drive_one_sender_step [OF run_drive.prems(1) i(1) run_drive.hyps(2,3)] i(2) by simp
qed simp_all

lemma start_get_accepted:
  assumes "start_get P fs0 cwd req w = (Resp_FileReady fr, s, w')"
  shows "\<exists>p enc meta. resolve fs0 cwd (u_home (w_user w)) (gr_path req) = Inr p \<and> w' = w \<and>
    recheck_ancestors_no_symlinks (w_fs w) p (u_home (w_user w)) = Inr () \<and>
    (\<exists>place. open_get_file (w_fs w) p = Inr (place, meta) \<and> is_file_kind (n_kind meta) \<and> node_size meta \<le> MAX_FILE_SIZE \<and>
       gr_offset req \<le> node_size meta \<and> fr_total_size fr = node_size meta \<and>
       fr_size fr = (case gr_length req of Some n \<Rightarrow> min n (node_size meta - gr_offset req) | None \<Rightarrow> node_size meta - gr_offset req) \<and>
       (enc = Send_Identity \<longleftrightarrow> fr_encoding fr = Encoding_Identity) \<and>
       s = SendingFileData \<lparr>sf_reader = \<lparr>fr_place = place, fr_pos = 0\<rparr>, sf_total_size = fr_size fr,
             sf_encoding = enc, sf_sent = 0, sf_hasher = [], sf_trailer = None, sf_trailer_offset = 0,
             sf_finished = False, sf_prefix_remaining = gr_offset req\<rparr>)"
  using assms
  by (auto simp: start_get_def Let_def err_def get_encoding_def split: if_splits sum.splits prod.splits)

lemma open_get_file_spec:
  assumes "open_get_file fs p = Inr (place, meta)" "names_ok p" "plain fs p"
  shows "place = p \<and> lookup_node fs p = Some meta"
proof -
  let ?opts = "apply_no_follow_nonblock (OpenOptions_new\<lparr>oo_read := True\<rparr>)"
  from assms(1) obtain fs' where o: "open_file fs ?opts p = Inr (place, fs')" "handle_metadata fs place = Inr meta"
    by (auto simp: open_get_file_def bindR_Inr_conv)
  have "place = p" using open_file_effect [OF o(1) assms(2,3)] by (simp add: apply_no_follow_nonblock_def)
  then show ?thesis using o(2) by (auto simp: handle_metadata_def bindR_Inr_conv)
qed

lemma start_get_inv:
  assumes g: "start_get P fs0 cwd req w = (Resp_FileReady fr, SendingFileData st, w')"
    and b: "file_bytes (w_fs w) (fr_place (sf_reader st)) = Some b" "length b < 2 ^ 64"
    and p: "real_root (w_fs w) (u_home (w_user w))" "names_ok cwd"
  shows "get_inv P b (unat (gr_offset req)) (unat (fr_size fr)) base st base \<and>
    (sf_encoding st = Send_Identity \<longleftrightarrow> fr_encoding fr = Encoding_Identity)"
proof -
  from start_get_accepted [OF g] obtain p enc meta place where
    a: "resolve fs0 cwd (u_home (w_user w)) (gr_path req) = Inr p"
      "recheck_ancestors_no_symlinks (w_fs w) p (u_home (w_user w)) = Inr ()"
      "open_get_file (w_fs w) p = Inr (place, meta)" "is_file_kind (n_kind meta)" "gr_offset req \<le> node_size meta"
      "fr_size fr = (case gr_length req of Some n \<Rightarrow> min n (node_size meta - gr_offset req) | None \<Rightarrow> node_size meta - gr_offset req)"
      "enc = Send_Identity \<longleftrightarrow> fr_encoding fr = Encoding_Identity"
      "st = \<lparr>sf_reader = \<lparr>fr_place = place, fr_pos = 0\<rparr>, sf_total_size = fr_size fr,
             sf_encoding = enc, sf_sent = 0, sf_hasher = [], sf_trailer = None, sf_trailer_offset = 0,
             sf_finished = False, sf_prefix_remaining = gr_offset req\<rparr>" by auto
  have r: "prefix (u_home (w_user w)) p" "names_ok p" using resolve_result [OF a(1) real_rootD(1) [OF p(1)] p(2)] by auto
  have pl: "plain (w_fs w) p" using recheck_ancestors_plain [OF a(2) p(1) r(2,1)] by blast
  have n: "place = p" "lookup_node (w_fs w) p = Some meta" using open_get_file_spec [OF a(3) r(2) pl] by auto
  have "n_kind meta = KFile b" using b(1) a(4) n by (auto simp: a(8) file_bytes_def split: Kind.splits)
  then have sz: "unat (node_size meta) = length b" using b(2) by (simp add: node_size_def u64_simps)
  have "fr_size fr \<le> node_size meta - gr_offset req" using a(6) by (auto split: option.splits)
  then have "unat (fr_size fr) \<le> length b - unat (gr_offset req)" using a(5) sz by (simp add: word_le_nat_alt unat_sub)
  then show ?thesis using a(5,7) sz by (auto simp: a(8) get_inv_def trailer_part_def word_le_nat_alt)
qed

section \<open>Properties\<close>

text \<open>A sum in place of BLAKE3, and an encoder that fails.\<close>

definition demo_get_prims :: "unit GetPrims" where
  "demo_get_prims = \<lparr>g_blake3 = (\<lambda>b. replicate 32 (sum_list b)), g_encoder_new = Inl EIO,
     g_encoder_run = (\<lambda>e input. Inl EIO), g_encoder_finish = (\<lambda>e. Inl EIO)\<rparr>"

definition demo_get :: GetRequest where
  "demo_get = \<lparr>gr_path = ''d/f'', gr_offset = 1, gr_length = None, gr_accept_encoding = [Encoding_Zstd]\<rparr>"

definition demo_sender :: "unit SendingFile" where
  "demo_sender = \<lparr>sf_reader = \<lparr>fr_place = [''srv'', ''d'', ''f''], fr_pos = 0\<rparr>, sf_total_size = 2, sf_encoding = Send_Identity,
     sf_sent = 0, sf_hasher = [], sf_trailer = None, sf_trailer_offset = 0, sf_finished = False, sf_prefix_remaining = 1\<rparr>"

definition demo_file_ready :: FileReady where
  "demo_file_ready = \<lparr>fr_size = 2, fr_total_size = 3, fr_checksum_follows = True, fr_hash_algorithm = HashAlgorithm_Blake3,
     fr_encoding = Encoding_Identity, fr_plaintext_size = 0\<rparr>"

lemma demo_get_starts:
  obtains w' where "start_get demo_get_prims demo_fs demo_root demo_get demo_world =
    (Resp_FileReady demo_file_ready, SendingFileData demo_sender :: (unit, unit) StreamState, w')"
proof -
  let ?g = "start_get demo_get_prims demo_fs demo_root demo_get demo_world :: Response \<times> (unit, unit) StreamState \<times> World"
  have "fst ?g = Resp_FileReady demo_file_ready" "(case fst (snd ?g) of SendingFileData s \<Rightarrow> s = demo_sender | _ \<Rightarrow> False)"
    by code_simp+
  then show thesis using that by (cases ?g rule: prod_cases3) (auto split: StreamState.splits)
qed



lemma get_delivered:
  assumes "start_get P fs0 cwd req w = (Resp_FileReady fr, SendingFileData st0, w')"
    and "file_bytes (w_fs w) (fr_place (sf_reader st0)) = Some b" "length b < 2 ^ 64"
    and "real_root (w_fs w) (u_home (w_user w))" "names_ok cwd" "send_delivers stream_send sent"
    and "sender_run P stream_send sent sid b st0 c0 st c" "reader_on fs st b"
    and "drive_one_sender P stream_send fs sid k st c m = Some (Finished, st', c', m')"
  shows "\<exists>body. sent c' sid = sent c0 sid @ body @ g_blake3 P (take (unat (gr_offset req) + unat (fr_size fr)) b) \<and>
    (fr_encoding fr = Encoding_Identity \<longrightarrow> body = take (unat (fr_size fr)) (drop (unat (gr_offset req)) b))"
proof -
  have i0: "get_inv P b (unat (gr_offset req)) (unat (fr_size fr)) (sent c0 sid) st0 (sent c0 sid)"
    and e: "sf_encoding st0 = Send_Identity \<longleftrightarrow> fr_encoding fr = Encoding_Identity"
    using start_get_inv [OF assms(1-5)] by blast+
  have i: "get_inv P b (unat (gr_offset req)) (unat (fr_size fr)) (sent c0 sid) st (sent c sid)"
    "sf_encoding st0 = Send_Identity \<longrightarrow> sf_encoding st = Send_Identity"
    using sender_run_inv [OF assms(7,6) i0] by auto
  show ?thesis using drive_one_sender_step [OF assms(6) i(1) assms(8,9)] i(2) e by auto
qed

text \<open>
  C8: a download delivers the file. However many calls of \<open>drive_one_sender\<close> a download takes,
  however little the stream accepts in each and whatever the connection does in between: once the
  sender reports that it has finished, the stream holds, after what was on it at the start, a body
  followed by the BLAKE3 digest of the file up to the end of the range; a body that was announced
  as plain is exactly the range.
\<close>

theorem get_delivers:
  assumes "start_get P fs0 cwd req w = (Resp_FileReady fr, SendingFileData st0, w')"
    and "file_bytes (w_fs w) (fr_place (sf_reader st0)) = Some b" "length b < 2 ^ 64"
    and "real_root (w_fs w) (u_home (w_user w))" "names_ok cwd" "send_delivers stream_send sent"
    and "sender_run P stream_send sent sid b st0 c0 st c" "reader_on fs st b"
    and "drive_one_sender P stream_send fs sid k st c m = Some (Finished, st', c', m')"
  shows "\<exists>body. sent c' sid = sent c0 sid @ body @ g_blake3 P (take (unat (gr_offset req) + unat (fr_size fr)) b) \<and>
    (fr_encoding fr = Encoding_Identity \<longrightarrow> body = take (unat (fr_size fr)) (drop (unat (gr_offset req)) b))"
  using assms by (rule get_delivered)

lemma five_send_delivers: "send_delivers five_send (\<lambda>c sid. c)"
  by (auto simp: send_delivers_def five_send_def min_def)

lemma demo_sender_finishes:
  obtains st' c' m' where "drive_one_sender demo_get_prims five_send demo_fs 0 4 demo_sender [] Metrics_default = Some (Finished, st', c', m')"
proof -
  have "map_option fst (drive_one_sender demo_get_prims five_send demo_fs 0 4 demo_sender [] Metrics_default) = Some Finished" by code_simp
  then show thesis using that by auto
qed

theorem get_delivers_witness:
  "\<exists>st' c' m'. drive_one_sender demo_get_prims five_send demo_fs 0 4 demo_sender [] Metrics_default = Some (Finished, st', c', m') \<and>
     c' = [2, 3] @ replicate 32 6"
proof -
  obtain w' where g: "start_get demo_get_prims demo_fs demo_root demo_get demo_world =
    (Resp_FileReady demo_file_ready, SendingFileData demo_sender :: (unit, unit) StreamState, w')" by (rule demo_get_starts)
  obtain st' c' m' where d: "drive_one_sender demo_get_prims five_send demo_fs 0 4 demo_sender [] Metrics_default = Some (Finished, st', c', m')"
    by (rule demo_sender_finishes)
  have b: "file_bytes (w_fs demo_world) (fr_place (sf_reader demo_sender)) = Some [1, 2, 3]" by code_simp
  then have on: "reader_on demo_fs demo_sender [1, 2, 3]" by (simp add: reader_on_def demo_world_def)
  have "length ([1, 2, 3] :: bytes) < 2 ^ 64" by simp
  from get_delivers [OF g b this demo_start_ok(1,2) five_send_delivers run_start on d] d show ?thesis
    by (auto simp: demo_get_def demo_file_ready_def demo_get_prims_def)
qed

end
