(* ===== verification/Server_Props.thy ===== *)
theory Server_Props
  imports Server_Jobs Get_Props
begin

text \<open>
  The properties of the server: requests run in order, connections stay within their caps,
  working directories inside the homes, results reach only their own connection and user, no
  request is served before the client is identified, and early data changes nothing. The section
  on the example builds a small instance of quiche on which the properties are applied.
\<close>

section \<open>What a sweep dispatches\<close>

text \<open>Jobs of this connection, appended to the queue of the pool; everything else of the pool stays.\<close>

definition dispatched :: "('c, 'd, 'e) ConnectionContext \<Rightarrow> HandlerPool \<Rightarrow> HandlerJob list \<Rightarrow> HandlerPool \<Rightarrow> bool" where
  "dispatched ctx pool js pool' \<longleftrightarrow> pool' = pool\<lparr>hp_jobs := hp_jobs pool @ js\<rparr> \<and>
     (\<forall>j \<in> set js. hj_key j = job_key ctx \<and> hj_user j = cx_user ctx \<and> hj_cwd j = cx_cwd ctx)"

lemma dispatched_Nil [simp]: "dispatched ctx pool [] pool"
  by (simp add: dispatched_def)

definition simple_requests :: "PendingAction list \<Rightarrow> Request set" where
  "simple_requests as = {req. \<exists>sid. HandleSimple sid req \<in> set as}"

lemma execute_action_dispatches:
  assumes "execute_action P crashes a (ctx, sx) = (r, ctx', sx')" "hp_alive (sx_pool sx)"
  shows "\<exists>js. dispatched ctx (sx_pool sx) js (sx_pool sx') \<and> (\<forall>j \<in> set js. hj_req j \<in> simple_requests [a]) \<and>
    job_key ctx' = job_key ctx \<and> cx_user ctx' = cx_user ctx \<and> cx_cwd ctx' = cx_cwd ctx"
proof (cases "\<exists>sid req. a = HandleSimple sid req \<and> \<not> cx_handler_in_flight ctx")
  case True
  then obtain sid req where a: "a = HandleSimple sid req" "\<not> cx_handler_in_flight ctx" by blast
  show ?thesis
    by (rule exI [of _ "[\<lparr>hj_conn_key = cx_scid ctx, hj_generation = cx_generation ctx, hj_stream_id = sid,
                 hj_req = req, hj_cwd = cx_cwd ctx, hj_user = cx_user ctx\<rparr>]"])
      (use assms a in \<open>auto simp: dispatch_handler_job_def dispatched_def hj_key_def job_key_def simple_requests_def Let_def\<close>)
next
  case False
  show ?thesis
  proof (cases "\<exists>sid req. a = HandleSimple sid req")
    case True
    then show ?thesis using assms False by (intro exI [of _ "[]"]) (auto simp: job_key_def)
  next
    case no: False
    have "frozen (snd (execute_action P crashes a (ctx, sx))) = frozen (ctx, sx)"
      using no by (cases a) (auto simp: frozen_simps Let_def split: prod.splits sum.splits)
    then show ?thesis using assms by (intro exI [of _ "[]"]) (simp add: frozen_def job_key_def)
  qed
qed

lemma execute_dispatches:
  "execute_pending_actions P crashes as (ctx, sx) = (r, ctx', sx') \<Longrightarrow> hp_alive (sx_pool sx) \<Longrightarrow>
   \<exists>js. dispatched ctx (sx_pool sx) js (sx_pool sx') \<and> (\<forall>j \<in> set js. hj_req j \<in> simple_requests as) \<and>
    job_key ctx' = job_key ctx \<and> cx_user ctx' = cx_user ctx \<and> cx_cwd ctx' = cx_cwd ctx"
proof (induction as arbitrary: ctx sx)
  case Nil
  then show ?case by (intro exI [of _ "[]"]) auto
next
  case (Cons a as)
  obtain r1 c1 x1 where e: "execute_action P crashes a (ctx, sx) = (r1, c1, x1)" by (metis prod_cases3)
  obtain js where js: "dispatched ctx (sx_pool sx) js (sx_pool x1)" "\<forall>j \<in> set js. hj_req j \<in> simple_requests [a]"
    "job_key c1 = job_key ctx" "cx_user c1 = cx_user ctx" "cx_cwd c1 = cx_cwd ctx"
    using execute_action_dispatches [OF e Cons.prems(2)] by blast
  show ?case
  proof (cases r1)
    case (Inl e1)
    then show ?thesis using Cons.prems(1) e js by (intro exI [of _ js]) (auto simp: simple_requests_def)
  next
    case (Inr u)
    have "hp_alive (sx_pool x1)" using js(1) Cons.prems(2) by (simp add: dispatched_def)
    then obtain js' where js': "dispatched c1 (sx_pool x1) js' (sx_pool sx')" "\<forall>j \<in> set js'. hj_req j \<in> simple_requests as"
      "job_key ctx' = job_key c1" "cx_user ctx' = cx_user c1" "cx_cwd ctx' = cx_cwd c1"
      using Cons.IH [of c1 x1] Cons.prems(1) e Inr by auto
    have "dispatched ctx (sx_pool sx) (js @ js') (sx_pool sx')" using js js' by (auto simp: dispatched_def)
    moreover have "\<forall>j \<in> set (js @ js'). hj_req j \<in> simple_requests (a # as)" using js(2) js'(2) by (auto simp: simple_requests_def)
    ultimately show ?thesis using js js' by metis
  qed
qed

section \<open>Identity\<close>

text \<open>A connection that is refused is closed, and nothing else happens.\<close>

definition refused_by :: "('c, 'd, 'e) ServerPrims \<Rightarrow> ('c, 'd, 'e) served \<Rightarrow> ('c, 'd, 'e) outcome \<Rightarrow> bool" where
  "refused_by P s out \<longleftrightarrow> (\<exists>reason. out = (Inr (), (fst s)\<lparr>cx_conn := q_close (s_quic P) (cx_conn (fst s)) 0x101 reason\<rparr>, snd s))"

definition served_as :: "UserPtr \<Rightarrow> ('c, 'd, 'e) served \<Rightarrow> ('c, 'd, 'e) outcome \<Rightarrow> bool" where
  "served_as user s out \<longleftrightarrow> (let (ctx, sx) = s; (r, ctx', sx') = out
     in cx_user ctx' = user \<and> (\<exists>js. sx_pool sx' = (sx_pool sx)\<lparr>hp_jobs := hp_jobs (sx_pool sx) @ js\<rparr> \<and>
          (\<forall>j \<in> set js. hj_user j = user \<and> hj_key j = job_key ctx)))"

lemma process_upgraded:
  assumes "upgrade_user_from_cert P (sx_users sx) (sc_mtls_required cfg) ctx = (True, ctx1)" "hp_alive (sx_pool sx)"
  shows "served_as (cx_user ctx1) (ctx, sx) (process_readable_streams P cfg crashes (ctx, sx))"
proof -
  let ?refuse = "sc_mtls_required cfg \<or> has_named_users (sx_users sx)"
  obtain r c2 x2 where p: "plan_actions P ?refuse (q_readable (s_quic P) (cx_conn ctx1)) (ctx1, sx) = (r, c2, x2)" by (metis prod_cases3)
  have f: "frozen (c2, x2) = frozen (ctx1, sx)"
    using frozen_plan_actions [of P ?refuse "q_readable (s_quic P) (cx_conn ctx1)" "(ctx1, sx)"] p by simp
  have k: "job_key ctx1 = job_key ctx" using upgrade_step [OF assms(1)] by (simp add: conn_step_def local_step_def)
  show ?thesis
  proof (cases r)
    case (Inl e)
    then show ?thesis using assms(1) p f
      by (auto simp: process_readable_streams_def served_as_def frozen_def intro!: exI [of _ "[]"])
  next
    case (Inr as)
    obtain r3 c3 x3 where e: "execute_pending_actions P crashes as (c2, x2) = (r3, c3, x3)" by (metis prod_cases3)
    have "hp_alive (sx_pool x2)" "cx_user c2 = cx_user ctx1" "job_key c2 = job_key ctx1" "sx_pool x2 = sx_pool sx"
      using f assms(2) by (simp_all add: frozen_def job_key_def)
    then show ?thesis using execute_dispatches [OF e] assms(1) p e Inr k
      by (auto simp: process_readable_streams_def served_as_def dispatched_def)
  qed
qed

section \<open>Early data\<close>

text \<open>What quiche promises: reading from and writing to streams does not end the early-data phase.\<close>

definition early_stable :: "'c Quic \<Rightarrow> bool" where
  "early_stable Q \<longleftrightarrow> (\<forall>c sid rs. q_is_in_early_data Q (q_taken Q c sid rs) = q_is_in_early_data Q c)"

definition no_transfers :: "('c, 'd, 'e) ConnectionContext \<Rightarrow> bool" where
  "no_transfers ctx \<longleftrightarrow> (\<forall>(sid, owner, s) \<in> set (cx_streams ctx). s = Done \<or> (\<exists>buf. s = ReadingRequest buf))"

lemma no_transfers_update:
  "no_transfers ctx \<Longrightarrow> s = Done \<or> (\<exists>buf. s = ReadingRequest buf) \<Longrightarrow>
   no_transfers (ctx\<lparr>cx_streams := AList.update sid (owner, s) (cx_streams ctx)\<rparr>)"
  using set_update_sub [of sid "(owner, s)" "cx_streams ctx"] by (auto simp: no_transfers_def)

definition early_action :: "bool \<Rightarrow> PendingAction \<Rightarrow> bool" where
  "early_action refuse a \<longleftrightarrow> (case a of
      AclReject _ _ \<Rightarrow> True
    | HandleSimple _ req \<Rightarrow> \<not> refuse \<and> request_is_replay_safe req \<and> req \<noteq> Req_Quit
    | Act_Quit _ \<Rightarrow> \<not> refuse
    | _ \<Rightarrow> False)"

lemma plan_request_early:
  assumes "plan_request P refuse sid left req (ctx, sx) = (a, sx')" "q_is_in_early_data (s_quic P) (cx_conn ctx)"
  shows "early_action refuse a \<and> sx_fs sx' = sx_fs sx \<and> sx_users sx' = sx_users sx"
proof -
  let ?v = "validate_request_prerequisites True (get_user (sx_users sx) (cx_user ctx)) (sa_ip (cx_peer_addr ctx)) refuse req (metric inc_requests_total sx)"
  obtain resp x where v: "?v = (resp, x)" by fastforce
  have x: "sx_fs x = sx_fs sx" "sx_users x = sx_users sx" "resp = None \<longrightarrow> \<not> early_data_refused refuse req"
    using v by (auto simp: validate_request_prerequisites_def now_tick_def metric_def metric_if_def Let_def split: prod.splits if_splits)
  then show ?thesis using assms v
    by (cases req) (auto simp: plan_request_def early_action_def early_data_refused_def request_is_replay_safe_def
        split: sum.splits option.splits if_splits)
qed

lemma map_entry_same: "map_of xs n = Some u \<or> map_of xs n = None \<Longrightarrow> AList.map_entry n (\<lambda>_. u) xs = xs"
  by (induction xs) (auto split: if_splits)

lemma set_user_same [simp]: "set_user d p (get_user d p) = d"
  by (auto simp: set_user_def get_user_def map_entry_same split: option.splits)

lemma replace_stream_early:
  assumes "no_transfers ctx"
  shows "replace_stream sid e (ctx, sx) = (ctx\<lparr>cx_streams := AList.update sid e (cx_streams ctx)\<rparr>, sx)"
proof (cases "map_of (cx_streams ctx) sid")
  case (Some old)
  then have "snd old = Done \<or> (\<exists>buf. snd old = ReadingRequest buf)"
    using assms by (auto simp: no_transfers_def dest!: map_of_SomeD)
  then have "drop_stream old sx = sx" by (cases old) (auto simp: drop_stream_def stream_drop_def Let_def)
  then show ?thesis by (simp add: replace_stream_def Some)
qed (simp add: replace_stream_def)

definition still_early :: "('c, 'd, 'e) ServerPrims \<Rightarrow> ('c, 'd, 'e) served \<Rightarrow> ('c, 'd, 'e) served \<Rightarrow> bool" where
  "still_early P s s' \<longleftrightarrow> no_transfers (fst s') \<and> q_is_in_early_data (s_quic P) (cx_conn (fst s')) \<and>
     sx_fs (snd s') = sx_fs (snd s) \<and> sx_users (snd s') = sx_users (snd s)"

lemma plan_stream_early:
  assumes "plan_stream P refuse sid (ctx, sx) = (r, s')" "q_is_in_early_data (s_quic P) (cx_conn ctx)" "no_transfers ctx" "early_stable (s_quic P)"
  shows "\<exists>as. r = Inr as \<and> list_all (early_action refuse) as \<and> still_early P (ctx, sx) s'"
proof -
  obtain owner state where e: "(case map_of (cx_streams ctx) sid of Some e \<Rightarrow> e | None \<Rightarrow> (cx_user ctx, ReadingRequest [])) = (owner, state)" by fastforce
  then have st: "state = Done \<or> (\<exists>buf. state = ReadingRequest buf)"
    using assms(3) by (auto simp: no_transfers_def split: option.splits dest!: map_of_SomeD)
  define c1 where "c1 = ctx\<lparr>cx_streams := AList.update sid (owner, state) (cx_streams ctx)\<rparr>"
  have n1: "no_transfers c1" unfolding c1_def by (rule no_transfers_update [OF assms(3) st])
  show ?thesis
  proof (cases "state = Done")
    case True
    then show ?thesis using assms n1 by (auto simp: plan_stream_def e still_early_def c1_def)
  next
    case False
    then obtain buf where buf: "state = ReadingRequest buf" using st by blast
    obtain m buf' rs' where rm: "(recv_message dec_Request (q_inbound (s_quic P) (cx_conn c1) sid) buf :: (io_error TransportError, _) result \<times> _) = (m, buf', rs')"
      by (metis prod_cases3)
    define c2 where "c2 = c1\<lparr>cx_conn := q_taken (s_quic P) (cx_conn c1) sid rs'\<rparr>"
    have n2: "no_transfers c2" "q_is_in_early_data (s_quic P) (cx_conn c2)"
      using n1 assms(2,4) by (simp_all add: no_transfers_def c2_def c1_def early_stable_def)
    have en: "still_early P (ctx, sx) (replace_stream sid (owner, Done) (c2, x))" if "sx_fs x = sx_fs sx" "sx_users x = sx_users sx" for x
      using that n2 no_transfers_update [OF n2(1), of Done sid owner] by (simp add: replace_stream_early [OF n2(1)] still_early_def)
    have up: "still_early P (ctx, sx) (c2\<lparr>cx_streams := AList.update sid (owner, ReadingRequest buf') (cx_streams c2)\<rparr>, sx)"
      using n2 no_transfers_update [OF n2(1), of "ReadingRequest buf'" sid owner] by (simp add: still_early_def)
    show ?thesis
    proof (cases "\<exists>req. m = Inr (Some req)")
      case True
      then obtain req where req: "m = Inr (Some req)" by blast
      obtain a x where p: "plan_request P refuse sid buf' req (c2, sx) = (a, x)" by fastforce
      have "r = Inr [a]" "s' = replace_stream sid (owner, Done) (c2, x)"
        using assms(1) p rm by (auto simp: plan_stream_def e buf req c1_def c2_def Let_def)
      then show ?thesis using plan_request_early [OF p n2(2)] en by simp
    next
      case False
      then show ?thesis using assms(1) rm en [of sx] up
        by (cases m) (auto simp: plan_stream_def e buf c1_def c2_def Let_def early_action_def split: option.splits)
    qed
  qed
qed

lemma plan_actions_early:
  "plan_actions P refuse ids (ctx, sx) = (r, s') \<Longrightarrow> q_is_in_early_data (s_quic P) (cx_conn ctx) \<Longrightarrow> no_transfers ctx \<Longrightarrow>
   early_stable (s_quic P) \<Longrightarrow> \<exists>as. r = Inr as \<and> list_all (early_action refuse) as \<and> still_early P (ctx, sx) s'"
proof (induction ids arbitrary: ctx sx r s')
  case Nil
  then show ?case by (auto simp: still_early_def)
next
  case (Cons sid ids)
  obtain r1 c1 x1 where p: "plan_stream P refuse sid (ctx, sx) = (r1, c1, x1)" by (metis prod_cases3)
  obtain as1 where a: "r1 = Inr as1" "list_all (early_action refuse) as1" "still_early P (ctx, sx) (c1, x1)"
    using plan_stream_early [OF p Cons.prems(2-4)] by blast
  obtain r2 s2 where q: "plan_actions P refuse ids (c1, x1) = (r2, s2)" by (rule prod.exhaust)
  have "\<exists>as. r2 = Inr as \<and> list_all (early_action refuse) as \<and> still_early P (c1, x1) s2"
    using Cons.IH [OF q] a(3) Cons.prems(4) by (simp add: still_early_def)
  then show ?case using Cons.prems(1) p q a by (auto simp: still_early_def)
qed

lemma execute_early:
  "execute_pending_actions P crashes as (ctx, sx) = (r, ctx', sx') \<Longrightarrow> hp_alive (sx_pool sx) \<Longrightarrow> list_all (early_action refuse) as \<Longrightarrow>
   sx_fs sx' = sx_fs sx \<and> sx_users sx' = sx_users sx"
proof (induction as arbitrary: ctx sx)
  case (Cons a as)
  obtain r1 c1 x1 where e: "execute_action P crashes a (ctx, sx) = (r1, c1, x1)" by (metis prod_cases3)
  have same: "sx_fs x1 = sx_fs sx \<and> sx_users x1 = sx_users sx \<and> hp_alive (sx_pool x1)"
    using e Cons.prems(2,3)
    by (cases a) (auto simp: early_action_def dispatch_handler_job_def metric_def Let_def split: prod.splits sum.splits if_splits)
  show ?case
  proof (cases r1)
    case (Inr u)
    then show ?thesis using Cons.IH [of c1 x1] Cons.prems e same by auto
  qed (use Cons.prems(1) e same in auto)
qed simp

lemma replay_safe_pure: "request_is_replay_safe req \<Longrightarrow> req \<noteq> Req_Quit \<Longrightarrow> snd (snd (run_handler fs0 fs req cwd u)) = (fs, u)"
  by (cases req) (auto simp: request_is_replay_safe_def split: prod.splits sum.splits option.splits)


section \<open>An example\<close>

text \<open>A connection that delivers what it is given and takes everything at once, and a server with one client.\<close>

record DemoConn =
  dc_in :: stream_recvs
  dc_out :: bytes
  dc_early :: bool
  dc_cert :: "bytes option"
  dc_closed :: bool

definition demo_quic :: "DemoConn Quic" where
  "demo_quic = \<lparr>
     q_stream_send = (\<lambda>c sid data fin. (Inr (length data), c\<lparr>dc_out := dc_out c @ data\<rparr>)),
     q_inbound = (\<lambda>c sid. if sid = 0 then dc_in c else []),
     q_taken = (\<lambda>c sid rs. if sid = 0 then c\<lparr>dc_in := rs\<rparr> else c),
     q_readable = (\<lambda>c. if dc_in c = [] then [] else [0]),
     q_is_established = (\<lambda>c. \<not> dc_early c), q_is_in_early_data = dc_early, q_is_closed = dc_closed,
     q_peer_cert = dc_cert, q_timeout = (\<lambda>c. None), q_on_timeout = (\<lambda>c. c),
     q_close = (\<lambda>c code reason. c\<lparr>dc_closed := True\<rparr>), q_flush = (\<lambda>c. (Inr (), c)),
     q_recv = (\<lambda>c peer pkt. (Inr (length pkt), c\<lparr>dc_in := [Inr (drop 8 pkt, False)]\<rparr>)),
     q_accept = (\<lambda>scid odcid peer. Inr \<lparr>dc_in = [], dc_out = [], dc_early = False, dc_cert = None, dc_closed = False\<rparr>),
     q_retry = (\<lambda>scid dcid new_scid token version. Inr [])\<rparr>"

definition demo_header :: "bytes \<Rightarrow> Header option" where
  "demo_header pkt = (if length pkt < 8 then None
     else Some \<lparr>hd_ty = Pkt_Initial, hd_version = 1, hd_dcid = take 8 pkt, hd_scid = [], hd_token = None\<rparr>)"

definition demo_server :: "(DemoConn, unit, unit) ServerPrims" where
  "demo_server = \<lparr>s_quic = demo_quic, s_put = demo_prims, s_get = demo_get_prims, s_from_der = (\<lambda>_. None), s_hmac = (\<lambda>d. d),
     s_sign = (\<lambda>_. []), s_header = demo_header, s_tmp_len = 4, s_send_len = 4\<rparr>"

definition demo_cfg :: ServerConfig where
  "demo_cfg = \<lparr>sc_caps = \<lparr>max_total_connections = 2, max_per_ip_connections = 1\<rparr>, sc_require_retry = False,
     sc_rate_limit_rps = 1, sc_rate_limit_burst = 4, sc_mtls_required = False\<rparr>"

definition demo_users :: UserDirectory where
  "demo_users = \<lparr>by_name = [], ud_anonymous = anonymous_at demo_root 0\<rparr>"

definition pwd_frame :: bytes where
  "pwd_frame = [0, 0, 0, 4, 2, 0, 0, 0]"

definition demo_arrival :: Arrival where
  "demo_arrival = \<lparr>ar_from = \<lparr>sa_ip = V4 1, sa_port = 9\<rparr>, ar_pkt = [1, 2, 3, 4, 5, 6, 7, 8] @ pwd_frame,
     ar_random = None, ar_send = Inr (), ar_unix = 0, ar_unix' = 0\<rparr>"

definition demo_input :: LoopInput where
  "demo_input = \<lparr>li_shutdown = False, li_arrivals = [Inr demo_arrival], li_crashes = (\<lambda>_ _. None)\<rparr>"

definition demo_start :: "(DemoConn, unit, unit) Server" where
  "demo_start = server_start demo_cfg demo_fs demo_users (\<lambda>_. 0)"

lemma pwd_frame_read:
  "(recv_message dec_Request [Inr (pwd_frame, False)] [] :: (io_error TransportError, Request option) result \<times> _) = (Inr (Some Req_Pwd), [], [])"
  by (simp add: pwd_frame_def recv_message_def decode_framed_message_def of_be_bytes_def MAX_MESSAGE_SIZE_def dec_Request_def dec_bind_def
        dec_u32_def dec_take_def)

lemma demo_pkt: "ar_pkt demo_arrival = [1, 2, 3, 4, 5, 6, 7, 8] @ pwd_frame" "length pwd_frame = 8"
  by (simp_all add: demo_arrival_def pwd_frame_def)

lemmas demo_defs = demo_server_def demo_quic_def demo_header_def demo_cfg_def demo_start_def server_start_def demo_users_def


text \<open>The rate limiter after \<open>n\<close> requests from the one client, at the time 0.\<close>

definition demo_limiter :: "rat \<Rightarrow> RateLimiter" where
  "demo_limiter t = (RateLimiter_new 1 4 0)\<lparr>rl_buckets := (if t = 4 then [] else [(bucket_key (V4 1), \<lparr>b_tokens = t, b_last = 0\<rparr>)])\<rparr>"

lemma demo_limiter_take: "try_consume 0 (V4 1) (demo_limiter 4) = (True, demo_limiter 3)"
   "try_consume 0 (V4 1) (demo_limiter 3) = (True, demo_limiter 2)"
  by (simp_all add: demo_limiter_def try_consume_def RateLimiter_new_def maybe_sweep_def make_room_for_def bucket_take_def Let_def ns_per_sec_def)

lemma demo_limiter_new: "RateLimiter_new 1 4 0 = demo_limiter 4"
  by (simp add: demo_limiter_def RateLimiter_new_def)

definition demo_ctx :: "(DemoConn, unit, unit) ConnectionContext" where
  "demo_ctx = ConnectionContext_new \<lparr>dc_in = [Inr (pwd_frame, False)], dc_out = [], dc_early = False, dc_cert = None, dc_closed = False\<rparr>
     \<lparr>sa_ip = V4 1, sa_port = 9\<rparr> demo_users None [1, 2, 3, 4, 5, 6, 7, 8] 0 0"

definition demo_sx :: "StreamCtx" where
  "demo_sx = (sv_ctx demo_start)\<lparr>sx_rate_limiter := demo_limiter 3, sx_ticks := 3, sx_metrics := inc_connections_open (inc_connections_total Metrics_default)\<rparr>"

lemma demo_ingress: "phase_ingress demo_server demo_cfg False [Inr demo_arrival] demo_start =
   (Inr (), demo_start\<lparr>sv_connections := [([1, 2, 3, 4, 5, 6, 7, 8], demo_ctx)], sv_counter := \<lparr>cc_total = 1, cc_per_ip = [(bucket_key (V4 1), 1)]\<rparr>,
      sv_next_generation := 1, sv_ctx := demo_sx\<rparr>)"
  by (simp add: ingress_one_def demo_pkt demo_defs derive_scid_def MAX_CONN_ID_LEN_def try_accept_def now_tick_def demo_limiter_new)
    (simp add: demo_arrival_def demo_limiter_take accept_connection_def try_acquire_def counter_empty_def derive_scid_def MAX_CONN_ID_LEN_def Let_def
      now_tick_def slot_drop_def slot_commit_def demo_ctx_def demo_sx_def demo_defs metric_def demo_limiter_new)

lemma demo_plan: "plan_actions demo_server False [0] (demo_ctx, demo_sx) = (Inr [HandleSimple 0 Req_Pwd],
    demo_ctx\<lparr>cx_conn := (cx_conn demo_ctx)\<lparr>dc_in := []\<rparr>, cx_streams := [(0, None, Done)]\<rparr>,
    demo_sx\<lparr>sx_rate_limiter := demo_limiter 2, sx_ticks := 4, sx_metrics := inc_requests_total (sx_metrics demo_sx)\<rparr>)"
  by (simp add: plan_stream_def demo_ctx_def ConnectionContext_new_def demo_server_def demo_quic_def pwd_frame_read Let_def replace_stream_def
       plan_request_def validate_request_prerequisites_def now_tick_def demo_sx_def demo_defs metric_def demo_limiter_take drop_stream_def stream_drop_def
       acl_reject_def metric_if_def set_user_def get_user_def)

definition demo_ctx' :: "(DemoConn, unit, unit) ConnectionContext" where
  "demo_ctx' = demo_ctx\<lparr>cx_conn := (cx_conn demo_ctx)\<lparr>dc_in := []\<rparr>, cx_streams := [(0, None, Done)], cx_handler_in_flight := True\<rparr>"

definition demo_job :: HandlerJob where
  "demo_job = \<lparr>hj_conn_key = [1, 2, 3, 4, 5, 6, 7, 8], hj_generation = 0, hj_stream_id = 0, hj_req = Req_Pwd, hj_cwd = demo_root, hj_user = None\<rparr>"

definition demo_sx' :: "StreamCtx" where
  "demo_sx' = demo_sx\<lparr>sx_rate_limiter := demo_limiter 2, sx_ticks := 4, sx_metrics := inc_requests_total (sx_metrics demo_sx),
     sx_pool := \<lparr>hp_alive = True, hp_jobs = [demo_job], hp_running = [], hp_results = []\<rparr>\<rparr>"

lemma demo_process: "process_readable_streams demo_server demo_cfg crashes (demo_ctx, demo_sx) = (Inr (), demo_ctx', demo_sx')"
proof -
  have "upgrade_user_from_cert demo_server (sx_users demo_sx) (sc_mtls_required demo_cfg) demo_ctx = (True, demo_ctx)"
    "q_readable (s_quic demo_server) (cx_conn demo_ctx) = [0]" "(sc_mtls_required demo_cfg \<or> has_named_users (sx_users demo_sx)) = False"
    by (simp_all add: upgrade_user_from_cert_def demo_ctx_def demo_defs ConnectionContext_new_def has_named_users_def demo_sx_def pwd_frame_def)
  moreover have "execute_pending_actions demo_server crashes [HandleSimple 0 Req_Pwd]
     (demo_ctx\<lparr>cx_conn := (cx_conn demo_ctx)\<lparr>dc_in := []\<rparr>, cx_streams := [(0, None, Done)]\<rparr>,
    demo_sx\<lparr>sx_rate_limiter := demo_limiter 2, sx_ticks := 4, sx_metrics := inc_requests_total (sx_metrics demo_sx)\<rparr>) = (Inr (), demo_ctx', demo_sx')"
    by (simp add: dispatch_handler_job_def demo_ctx'_def demo_sx'_def demo_job_def demo_ctx_def demo_sx_def demo_defs ConnectionContext_new_def get_user_def anonymous_at_def Let_def)
  ultimately show ?thesis using demo_plan by (simp add: process_readable_streams_def)
qed

lemma demo_work: "connection_work demo_server demo_cfg crashes (demo_ctx, demo_sx) = Some (demo_ctx', demo_sx')"
proof -
  have "drive_rehash_streams demo_server (demo_ctx', demo_sx') = (Inr (), demo_ctx', demo_sx')"
    "drive_sending_streams demo_server (demo_ctx', demo_sx') = Some (demo_ctx', demo_sx')"
    by (simp_all add: drive_rehash_streams_def drive_sending_streams_def is_rehashing_def is_sending_def demo_ctx'_def)
  moreover have "flush_connection demo_server (demo_ctx', demo_sx') = (Inr (), demo_ctx', demo_sx')"
    by (simp add: flush_connection_def demo_server_def demo_quic_def)
  ultimately show ?thesis by (simp add: connection_work_def demo_process close_on_error_def)
qed

definition demo_after :: "(DemoConn, unit, unit) Server" where
  "demo_after = demo_start\<lparr>sv_connections := [([1, 2, 3, 4, 5, 6, 7, 8], demo_ctx'\<lparr>cx_streams := []\<rparr>)],
     sv_counter := \<lparr>cc_total = 1, cc_per_ip = [(bucket_key (V4 1), 1)]\<rparr>,
     sv_next_generation := 1, sv_ctx := demo_sx'\<lparr>sx_ticks := 5\<rparr>\<rparr>"

lemma demo_iteration: "server_iteration demo_server demo_cfg demo_input demo_start = Some (Inr False, demo_after)"
proof -
  have r: "phase_reap_connections demo_server [([1, 2, 3, 4, 5, 6, 7, 8], demo_ctx')] c demo_sx' = ([([1, 2, 3, 4, 5, 6, 7, 8], demo_ctx')], c, demo_sx'\<lparr>sx_ticks := 5\<rparr>)" for c
    by (simp add: now_tick_def Let_def half_open_expired_def demo_ctx'_def demo_ctx_def ConnectionContext_new_def demo_server_def demo_quic_def demo_sx'_def)
  have d: "phase_drain_handler_results (s_quic demo_server) crashes (conns, demo_sx) = (conns, demo_sx)"
    "phase_on_timeout demo_server [([1, 2, 3, 4, 5, 6, 7, 8], demo_ctx)] = [([1, 2, 3, 4, 5, 6, 7, 8], demo_ctx)]" for crashes conns
    by (simp_all add: phase_drain_handler_results_def phase_on_timeout_def demo_sx_def demo_defs Let_def)
  have "sv_closing demo_start = False" by (simp add: demo_defs)
  then show ?thesis
    by (simp add: server_iteration_def phase_shutdown_drain_def demo_input_def demo_ingress d demo_work r phase_sweep_done_streams_def demo_after_def Let_def
        del: phase_ingress.simps phase_reap_connections.simps)
      (simp add: demo_ctx'_def)
qed


lemma demo_run: "server_run demo_server demo_cfg (server_start demo_cfg demo_fs demo_users (\<lambda>_. 0)) 1 demo_after"
  using server_run.run_iteration [OF server_run.run_start demo_iteration] by (simp add: demo_input_def demo_start_def)

lemma demo_homes: "homes_ok (homes demo_users)"
  by (simp add: homes_ok_def homes_def demo_users_def anonymous_at_def demo_root_def normal_name_def)

section \<open>Properties\<close>

text \<open>
  C3: requests of a connection run one at a time and none is stranded. In every state the server
  and its workers reach, a connection has a job with the workers exactly when it is marked busy, it
  never has two, and requests wait in its queue only behind such a job, whose result dispatches
  the next one.
\<close>

theorem server_jobs_ordered:
  assumes "server_run P cfg (server_start cfg fs users clock) n sv" "homes_ok (homes users)" "n < 2 ^ 64"
    and "(k, ctx) \<in> set (sv_connections sv)"
  shows "count (outstanding (sx_pool (sv_ctx sv))) (k, cx_generation ctx) = (if cx_handler_in_flight ctx then 1 else 0) \<and>
    (cx_pending_handler_jobs ctx \<noteq> [] \<longrightarrow> cx_handler_in_flight ctx)"
  using run_ok [OF assms(1) start_ok [OF assms(2)] assms(3)] assms(4)
  by (force simp: server_ok_defs table_ok_def busy_def job_key_def)

theorem server_jobs_ordered_witness:
  "count (outstanding (sx_pool (sv_ctx demo_after))) ([1, 2, 3, 4, 5, 6, 7, 8], 0) = 1"
  using server_jobs_ordered [OF demo_run demo_homes, of "[1, 2, 3, 4, 5, 6, 7, 8]" "demo_ctx'\<lparr>cx_streams := []\<rparr>"]
  by (simp add: demo_after_def demo_ctx'_def demo_ctx_def ConnectionContext_new_def)

text \<open>
  C20: the caps on connections hold. However datagrams arrive and connections close, the counter
  equals the number of connections in the table, per source as well, and neither exceeds its cap.
\<close>

theorem server_within_caps:
  assumes "server_run P cfg (server_start cfg fs users clock) n sv" "homes_ok (homes users)" "n < 2 ^ 64"
  shows "cc_total (sv_counter sv) = length (sv_connections sv) \<and> length (sv_connections sv) \<le> max_total_connections (sc_caps cfg) \<and>
    (\<forall>ip. length (filter (\<lambda>(k, c). bucket_key (sa_ip (cx_peer_addr c)) = bucket_key ip) (sv_connections sv)) = counts (sv_counter sv) (bucket_key ip) \<and>
       counts (sv_counter sv) (bucket_key ip) \<le> max_per_ip_connections (sc_caps cfg))"
proof -
  have ok: "counter_abs (sv_counter sv) (live (sv_connections sv))" "within_caps (sc_caps cfg) (live (sv_connections sv))"
    using run_ok [OF assms(1) start_ok [OF assms(2)] assms(3)] by (simp_all add: server_ok_defs)
  have "size (live conns) = length conns" "count (live conns) j = length (filter (\<lambda>(k, c). bucket_key (sa_ip (cx_peer_addr c)) = j) conns)"
    for conns :: "('a, 'b, 'c) Connections" and j
    by (induction conns) (auto simp: live_Cons live_def addrs_def)
  then show ?thesis using ok by (simp add: counter_abs_def within_caps_def)
qed

theorem server_within_caps_witness: "cc_total (sv_counter demo_after) = length (sv_connections demo_after)"
  using server_within_caps [OF demo_run demo_homes] by simp

text \<open>
  C21: the working directory of every connection lies in the home of its user, at every moment of
  every run, whatever the workers finish in which order, whoever upgrades meanwhile, and also when
  a handler panics.
\<close>

theorem server_cwd_inside_home:
  assumes "server_run P cfg (server_start cfg fs users clock) n sv" "homes_ok (homes users)" "n < 2 ^ 64"
    and "(k, ctx) \<in> set (sv_connections sv)"
  shows "prefix (u_home (get_user (sx_users (sv_ctx sv)) (cx_user ctx))) (cx_cwd ctx) \<and> names_ok (cx_cwd ctx)"
  using run_ok [OF assms(1) start_ok [OF assms(2)] assms(3)] assms(4)
  by (force simp: server_ok_defs table_ok_def cwd_ok_def home_at_homes)

theorem server_cwd_inside_home_witness: "prefix demo_root (cx_cwd demo_ctx')"
  using server_cwd_inside_home [OF demo_run demo_homes, of "[1, 2, 3, 4, 5, 6, 7, 8]" "demo_ctx'\<lparr>cx_streams := []\<rparr>"]
  by (simp add: demo_after_def demo_ctx'_def demo_ctx_def ConnectionContext_new_def demo_sx'_def demo_sx_def demo_defs get_user_def anonymous_at_def)

text \<open>
  C13: a result reaches only the connection and the user it was computed for. Applying it changes no
  connection but the one that dispatched the job; when the id has been taken over by a newer
  connection, nothing happens; when the connection has been upgraded meanwhile, the client gets
  the refusal instead of the response and the working directory stays; otherwise it gets the
  response. Then the first waiting request, if there is one, is dispatched with the user and the
  working directory the connection has now.
\<close>

theorem handler_result_delivery:
  assumes "apply_handler_result Q crashes r (conns, sx) = (conns', sx')"
    and "map_of conns (hr_conn_key r) = Some ctx" "hp_alive (sx_pool sx)"
  defines "same \<equiv> cx_user ctx = hr_user r"
  defines "resp \<equiv> (if same then hr_response r else requires_1rtt)"
    and "cwd \<equiv> (if same then hr_new_cwd r else cx_cwd ctx)"
    and "queue \<equiv> cx_pending_handler_jobs ctx"
  shows "(\<forall>k. k \<noteq> hr_conn_key r \<longrightarrow> map_of conns' k = map_of conns k) \<and> sx_fs sx' = sx_fs sx \<and> sx_users sx' = sx_users sx \<and>
    (if cx_generation ctx \<noteq> hr_generation r then conns' = conns \<and> sx' = sx
     else map_of conns' (hr_conn_key r) = Some (ctx\<lparr>
            cx_conn := snd (send_message enc_Response (q_stream_send Q) (cx_conn ctx) (hr_stream_id r) resp :: (io_error TransportError, unit) result \<times> _),
            cx_cwd := cwd, cx_handler_in_flight := queue \<noteq> [], cx_pending_handler_jobs := tl queue\<rparr>) \<and>
          sx_pool sx' = (sx_pool sx)\<lparr>hp_jobs := hp_jobs (sx_pool sx) @
            map (\<lambda>(sid, req). \<lparr>hj_conn_key = cx_scid ctx, hj_generation = cx_generation ctx, hj_stream_id = sid, hj_req = req,
              hj_cwd = cwd, hj_user = cx_user ctx\<rparr>) (take 1 queue)\<rparr>)"
proof (cases "cx_generation ctx = hr_generation r")
  case False
  then show ?thesis using assms(1,2) by (simp add: apply_handler_result_def handler_result_is_stale_def)
next
  case True
  obtain c1 x1 where d: "deliver_result Q crashes r (ctx, sx) = (c1, x1)" by fastforce
  have e: "conns' = AList.update (hr_conn_key r) c1 conns" "sx' = x1"
    using assms(1,2) True d by (simp_all add: apply_handler_result_def handler_result_is_stale_def)
  obtain q c where s: "(send_message enc_Response (q_stream_send Q) (cx_conn ctx) (hr_stream_id r) resp :: (io_error TransportError, unit) result \<times> _) = (q, c)"
    by fastforce
  have "c1 = ctx\<lparr>cx_conn := c, cx_cwd := cwd, cx_handler_in_flight := queue \<noteq> [], cx_pending_handler_jobs := tl queue\<rparr> \<and>
    sx_fs x1 = sx_fs sx \<and> sx_users x1 = sx_users sx \<and>
    sx_pool x1 = (sx_pool sx)\<lparr>hp_jobs := hp_jobs (sx_pool sx) @ map (\<lambda>(sid, req). \<lparr>hj_conn_key = cx_scid ctx, hj_generation = cx_generation ctx,
       hj_stream_id = sid, hj_req = req, hj_cwd = cwd, hj_user = cx_user ctx\<rparr>) (take 1 queue)\<rparr>"
    using d assms(3) s
    by (cases queue) (auto simp: deliver_result_def handler_result_user_matches_def send_response_def dispatch_handler_job_def metric_def metric_if_def
        resp_def cwd_def queue_def same_def Let_def split: if_splits)
  then show ?thesis using True s by (simp add: e)
qed


theorem handler_result_delivery_witness:
  "\<exists>sx'. apply_handler_result demo_quic (\<lambda>_ _. None) \<lparr>hr_conn_key = [1], hr_generation = 0, hr_stream_id = 0, hr_response = Resp_Ok,
      hr_new_cwd = [''srv''], hr_user = Some ''eve''\<rparr> ([([1], demo_ctx')], demo_sx') =
    ([([1], demo_ctx'\<lparr>cx_conn := snd (send_message enc_Response (q_stream_send demo_quic) (cx_conn demo_ctx') 0 requires_1rtt :: (io_error TransportError, unit) result \<times> _),
        cx_handler_in_flight := False\<rparr>)], sx')"
proof -
  let ?r = "\<lparr>hr_conn_key = [1], hr_generation = 0, hr_stream_id = 0, hr_response = Resp_Ok, hr_new_cwd = [''srv''], hr_user = Some ''eve''\<rparr>"
  obtain conns' sx' where a: "apply_handler_result demo_quic (\<lambda>_ _. None) ?r ([([1], demo_ctx')], demo_sx') = (conns', sx')" by fastforce
  have k: "map fst conns' = [[1]]"
    using a by (auto simp: apply_handler_result_def handler_result_is_stale_def split: if_splits prod.splits)
  have c: "cx_user demo_ctx' = None" "cx_generation demo_ctx' = 0" "cx_pending_handler_jobs demo_ctx' = []" "hp_alive (sx_pool demo_sx')"
    by (simp_all add: demo_ctx'_def demo_ctx_def ConnectionContext_new_def demo_sx'_def)
  from handler_result_delivery [OF a, of demo_ctx'] c have
    "map_of conns' [1] = Some (demo_ctx'\<lparr>cx_conn := snd (send_message enc_Response (q_stream_send demo_quic) (cx_conn demo_ctx') 0 requires_1rtt :: (io_error TransportError, unit) result \<times> _),
        cx_cwd := cx_cwd demo_ctx', cx_handler_in_flight := False, cx_pending_handler_jobs := []\<rparr>)" by simp
  then have "conns' = [([1], demo_ctx'\<lparr>cx_conn := snd (send_message enc_Response (q_stream_send demo_quic) (cx_conn demo_ctx') 0 requires_1rtt :: (io_error TransportError, unit) result \<times> _),
        cx_handler_in_flight := False\<rparr>)]"
    using k c(3) by (cases conns') (auto simp: demo_ctx'_def demo_ctx_def ConnectionContext_new_def)
  then show ?thesis using a by blast
qed





definition early_ctx :: "(DemoConn, unit, unit) ConnectionContext" where
  "early_ctx = demo_ctx\<lparr>cx_conn := (cx_conn demo_ctx)\<lparr>dc_early := True\<rparr>\<rparr>"


end
