(* ===== verification/Client_Session.thy ===== *)
theory Client_Session
  imports Transfer_Get
begin

text \<open>
  The client's protocol pump: \<open>crates/qftp-client/src/proto.rs\<close> and the counters of \<open>stats.rs\<close>.

  The connection with its socket, poller and clock is a parameter, the record \<open>Link\<close> of the calls
  that the client makes; its state \<open>'c\<close> also stands for the network. \<open>l_flush\<close> is
  \<open>flush_egress\<close> and \<open>l_ingress\<close> is \<open>handle_ingress\<close> on the client's socket. As on the server,
  \<open>l_inbound\<close> is what the calls of \<open>stream_recv\<close> on a stream will return until no more is
  available, and \<open>l_taken\<close> the connection in which only the given outcomes are left of them.

  The client waits for as long as the connection stays open, so its loops are partial functions:
  \<open>None\<close> stands for waiting forever, and \<open>Some\<close> carries the result and the state.
\<close>

section \<open>State\<close>

record 'c Link =
  l_stream_send :: "'c stream_send"
  l_inbound :: "'c \<Rightarrow> u64 \<Rightarrow> stream_recvs"
  l_taken :: "'c \<Rightarrow> u64 \<Rightarrow> stream_recvs \<Rightarrow> 'c"
  l_is_closed :: "'c \<Rightarrow> bool"
  l_timeout :: "'c \<Rightarrow> nat option"
  l_on_timeout :: "'c \<Rightarrow> 'c"
  l_flush :: "'c \<Rightarrow> (io_error TransportError, unit) result \<times> 'c"
  l_ingress :: "'c \<Rightarrow> (io_error TransportError, unit) result \<times> 'c"
  l_poll :: "'c \<Rightarrow> nat \<Rightarrow> (io_error, unit) result \<times> 'c"
  l_now :: "'c \<Rightarrow> nat \<times> 'c"
  l_sleep :: "nat \<Rightarrow> 'c \<Rightarrow> 'c"

record Stats =
  bytes_uploaded :: u64
  bytes_downloaded :: u64
  files_uploaded :: u64
  files_downloaded :: u64
  transfers_failed :: u64

definition record_upload :: "u64 \<Rightarrow> Stats \<Rightarrow> Stats" where
  "record_upload n s = s\<lparr>bytes_uploaded := bytes_uploaded s + n, files_uploaded := files_uploaded s + 1\<rparr>"

definition record_download :: "u64 \<Rightarrow> Stats \<Rightarrow> Stats" where
  "record_download n s = s\<lparr>bytes_downloaded := bytes_downloaded s + n, files_downloaded := files_downloaded s + 1\<rparr>"

definition record_failure :: "Stats \<Rightarrow> Stats" where
  "record_failure s = s\<lparr>transfers_failed := transfers_failed s + 1\<rparr>"

text \<open>The \<open>Session\<close>, with the client's file system and the process-wide counters.\<close>

record 'c Client =
  cl_conn :: 'c
  cl_next_stream_id :: u64
  cl_fs :: FS
  cl_stats :: Stats

text \<open>The errors, an \<open>anyhow::Error\<close> in the code; the two last are signals that callers look for.\<close>

datatype ClientError =
    CE_Transport "io_error TransportError"
  | CE_Io string io_error
  | CE_Quic string QuicError
  | CE_Codec string CompressionError
  | CE_InvalidResponse ValidationError
  | CE_Refused string ErrorResponse
  | CE_Unexpected string Response
  | CE_Message string
  | StalePartial
  | UnsupportedEncoding

type_synonym ('c, 'a) run = "((ClientError, 'a) result \<times> 'c Client) option"

section \<open>Sequencing\<close>

text \<open>The \<open>?\<close> operator on a step that may wait forever.\<close>

definition andThen :: "('c, 'a) run \<Rightarrow> ('a \<Rightarrow> 'c Client \<Rightarrow> ('c, 'b) run) \<Rightarrow> ('c, 'b) run" where
  "andThen m f =
     Option.bind m (\<lambda>(r, s). case r of Inl e \<Rightarrow> Some (Inl e, s) | Inr x \<Rightarrow> f x s)"

lemma andThen_mono [partial_function_mono]:
  assumes "mono_option B" and "\<And>x s. mono_option (\<lambda>f. C x s f)"
  shows "mono_option (\<lambda>f. andThen (B f) (\<lambda>x s. C x s f))"
proof -
  have "mono_option (\<lambda>f. case y of (r, s) \<Rightarrow> (case r of Inl e \<Rightarrow> Some (Inl e, s) | Inr x \<Rightarrow> C x s f))" for y
    using assms(2) by (cases y; cases "fst y") (auto intro: option.const_mono)
  then show ?thesis unfolding andThen_def by (rule bind_mono [OF assms(1)])
qed

lemma andThen_simps [simp]:
  "andThen None f = None" "andThen (Some (Inl e, s)) f = Some (Inl e, s)" "andThen (Some (Inr x, s)) f = f x s"
  by (simp_all add: andThen_def)

lemma andThen_Ok:
  "andThen m f = Some (Inr y, s') \<longleftrightarrow> (\<exists>x s. m = Some (Inr x, s) \<and> f x s = Some (Inr y, s'))"
  by (cases m; cases "fst (the m)") auto

lemma andThen_OkE:
  assumes "andThen m f = Some (Inr y, s')"
  obtains x s where "m = Some (Inr x, s)" "f x s = Some (Inr y, s')"
  using assms unfolding andThen_Ok by blast

lemma andThen_Err:
  "andThen m f = Some (Inl e, s') \<longleftrightarrow> m = Some (Inl e, s') \<or> (\<exists>x s. m = Some (Inr x, s) \<and> f x s = Some (Inl e, s'))"
  by (cases m; cases "fst (the m)") auto

text \<open>Raising an error, returning, a call on the connection, and the wait for the next event or timer.\<close>

definition bail :: "ClientError \<Rightarrow> 'c Client \<Rightarrow> ('c, 'a) run" where
  "bail e s = Some (Inl e, s)"

definition ret :: "'a \<Rightarrow> 'c Client \<Rightarrow> ('c, 'a) run" where
  "ret x s = Some (Inr x, s)"

lemma bail_ret_simps [simp]:
  "bail e s \<noteq> Some (Inr x, s')" "ret x s = Some (Inr y, s') \<longleftrightarrow> x = y \<and> s = s'" "ret x s \<noteq> Some (Inl e, s')"
  "bail e s = Some (Inl e', s') \<longleftrightarrow> e = e' \<and> s = s'"
  by (auto simp: bail_def ret_def)

definition net :: "('c \<Rightarrow> (io_error TransportError, unit) result \<times> 'c) \<Rightarrow> 'c Client \<Rightarrow> ('c, unit) run" where
  "net call s =
     (case call (cl_conn s) of
        (Inl e, c) \<Rightarrow> bail (CE_Transport e) (s\<lparr>cl_conn := c\<rparr>)
      | (Inr _, c) \<Rightarrow> ret () (s\<lparr>cl_conn := c\<rparr>))"

definition wait_event :: "'c Link \<Rightarrow> nat \<Rightarrow> 'c Client \<Rightarrow> ('c, unit) run" where
  "wait_event L default_ms s =
     (case l_poll L (cl_conn s) (opt_or (l_timeout L (cl_conn s)) (default_ms * 1000000)) of
        (Inl e, c) \<Rightarrow> bail (CE_Io [] e) (s\<lparr>cl_conn := c\<rparr>)
      | (Inr _, c) \<Rightarrow> ret () (s\<lparr>cl_conn := l_on_timeout L c\<rparr>))"

section \<open>Loops\<close>

text \<open>
  A \<open>loop\<close> of the source: the body either goes on with new values of the loop's variables
  (\<open>Inl\<close>) or leaves it with a result (\<open>Inr\<close>). \<open>loop_ends\<close> is the rule for total correctness.
\<close>

partial_function (option) loop :: "('x \<Rightarrow> 'c Client \<Rightarrow> ('c, 'x + 'a) run) \<Rightarrow> 'x \<Rightarrow> 'c Client \<Rightarrow> ('c, 'a) run" where
  "loop body x s = andThen (body x s) (\<lambda>next s. case next of Inl x' \<Rightarrow> loop body x' s | Inr a \<Rightarrow> ret a s)"

lemma loop_cases:
  assumes "body x s = Some (r, s1)"
  shows "loop body x s =
    (case r of Inl e \<Rightarrow> Some (Inl e, s1) | Inr (Inl x') \<Rightarrow> loop body x' s1 | Inr (Inr a) \<Rightarrow> Some (Inr a, s1))"
  by (subst loop.simps) (simp add: assms ret_def split: sum.splits)

lemma loop_rule:
  assumes "loop body x s = Some (r, s')" "I x s"
    and step: "\<And>x s x1 s1. I x s \<Longrightarrow> body x s = Some (Inr (Inl x1), s1) \<Longrightarrow> I x1 s1"
    and stop: "\<And>x s a s1. I x s \<Longrightarrow> body x s = Some (Inr (Inr a), s1) \<Longrightarrow> Q (Inr a) s1"
    and fail: "\<And>x s e s1. I x s \<Longrightarrow> body x s = Some (Inl e, s1) \<Longrightarrow> Q (Inl e) s1"
  shows "Q r s'"
proof -
  let ?ok = "\<lambda>b x s (r, s'). b = body \<longrightarrow> I x s \<longrightarrow> Q r s'"
  have step': "?ok b x s y"
    if IH: "\<And>b x s y. self b x s = Some y \<Longrightarrow> ?ok b x s y"
      and eq: "andThen (b x s) (\<lambda>next s. case next of Inl x' \<Rightarrow> self b x' s | Inr a \<Rightarrow> ret a s) = Some y" for self b x s y
  proof -
    obtain r s' where y: "y = (r, s')" by (cases y)
    have "Q r s'" if b: "b = body" and i: "I x s"
    proof -
      obtain r1 s1 where r1: "body x s = Some (r1, s1)" using eq b by (cases "body x s") auto
      show ?thesis
      proof (cases r1)
        case (Inl e)
        then show ?thesis using eq b r1 y fail [OF i] by simp
      next
        case (Inr n)
        then show ?thesis using eq b r1 y stop [OF i] step [OF i] IH [of body _ s1 y] by (cases n) (auto simp: ret_def)
      qed
    qed
    then show ?thesis by (simp add: y)
  qed
  have "(case ((body, x), s) of (p, s) \<Rightarrow> (case p of (b, x) \<Rightarrow> ?ok b x) s) (r, s')"
    by (rule loop.raw_induct) (rule step', assumption+, simp add: assms(1))
  then show ?thesis using assms(2) by simp
qed

lemma loop_ends:
  fixes m :: "'x \<Rightarrow> 'c Client \<Rightarrow> nat"
  assumes "I x s"
    and body: "\<And>x s. I x s \<Longrightarrow> \<exists>r s1. body x s = Some (r, s1) \<and> (\<forall>x1. r = Inr (Inl x1) \<longrightarrow> I x1 s1 \<and> m x1 s1 < m x s)"
  shows "\<exists>r s'. loop body x s = Some (r, s')"
  using assms(1)
proof (induction "m x s" arbitrary: x s rule: less_induct)
  case less
  obtain r s1 where r: "body x s = Some (r, s1)" "\<forall>x1. r = Inr (Inl x1) \<longrightarrow> I x1 s1 \<and> m x1 s1 < m x s"
    using body [OF less.prems] by blast
  show ?case
  proof (cases "\<exists>x1. r = Inr (Inl x1)")
    case True
    then obtain x1 where x1: "r = Inr (Inl x1)" ..
    then show ?thesis using less.hyps [of x1 s1] r by (simp add: loop_cases [of body x s r s1, OF r(1)])
  next
    case False
    then show ?thesis by (auto simp: loop_cases [of body x s r s1, OF r(1)] split: sum.splits)
  qed
qed

section \<open>Requests and responses\<close>

definition MAX_DIRS :: nat where "MAX_DIRS = 10000"

definition take_stream :: "'c Client \<Rightarrow> u64 \<times> 'c Client" where
  "take_stream s = (cl_next_stream_id s, s\<lparr>cl_next_stream_id := cl_next_stream_id s + 4\<rparr>)"

definition poll_response_round ::
  "'c Link \<Rightarrow> u64 \<Rightarrow> bytes \<Rightarrow> 'c Client \<Rightarrow> ('c, bytes + (Response \<times> bytes)) run" where
  "poll_response_round L sid buf s =
     (let (r, buf, rs) = recv_message dec_Response (l_inbound L (cl_conn s) sid) buf;
          s = s\<lparr>cl_conn := l_taken L (cl_conn s) sid rs\<rparr>
      in case r of
           Inl e \<Rightarrow> bail (CE_Transport e) s
         | Inr (Some resp) \<Rightarrow>
             (case validate_response resp of
                Inl v \<Rightarrow> bail (CE_InvalidResponse v) s
              | Inr _ \<Rightarrow> andThen (net (l_flush L) s) (\<lambda>_ s. ret (Inr (resp, buf)) s))
         | Inr None \<Rightarrow>
             (if l_is_closed L (cl_conn s) then bail (CE_Message ''connection closed'') s
              else andThen (wait_event L 100 s) (\<lambda>_ s.
                   andThen (net (l_ingress L) s) (\<lambda>_ s.
                   andThen (net (l_flush L) s) (\<lambda>_ s. ret (Inl buf) s)))))"

definition poll_response_with_buf :: "'c Link \<Rightarrow> u64 \<Rightarrow> bytes \<Rightarrow> 'c Client \<Rightarrow> ('c, Response \<times> bytes) run" where
  "poll_response_with_buf L sid buf s = loop (poll_response_round L sid) buf s"

definition poll_response :: "'c Link \<Rightarrow> u64 \<Rightarrow> 'c Client \<Rightarrow> ('c, Response) run" where
  "poll_response L sid s = andThen (poll_response_with_buf L sid [] s) (\<lambda>(resp, _) s. ret resp s)"

definition send_request :: "'c Link \<Rightarrow> u64 \<Rightarrow> Request \<Rightarrow> 'c Client \<Rightarrow> ('c, unit) run" where
  "send_request L sid req s = net (\<lambda>c. send_message enc_Request (l_stream_send L) c sid req) s"

definition send_fin :: "'c Link \<Rightarrow> u64 \<Rightarrow> 'c Client \<Rightarrow> ('c, unit) run" where
  "send_fin L sid s = net (\<lambda>c. stream_send_all (l_stream_send L) c sid [] True) s"

definition request_response :: "'c Link \<Rightarrow> Request \<Rightarrow> 'c Client \<Rightarrow> ('c, Response) run" where
  "request_response L req s =
     (let (sid, s) = take_stream s
      in andThen (send_request L sid req s) (\<lambda>_ s.
         andThen (send_fin L sid s) (\<lambda>_ s.
         andThen (net (l_flush L) s) (\<lambda>_ s. poll_response L sid s))))"

text \<open>\<open>rel\<close> is the text of a relative path.\<close>

definition join_remote :: "string \<Rightarrow> string \<Rightarrow> string" where
  "join_remote pre rel =
     (let rel_str = map (\<lambda>c. if c = CHR 0x5C then CHR ''/'' else c) (to_string_lossy rel)
      in if pre = [] \<or> pre = ''/'' then ''/'' @ rel_str
         else if last pre = CHR ''/'' then pre @ rel_str
         else pre @ ''/'' @ rel_str)"

section \<open>Reading in order\<close>

text \<open>
  What the client relies on of QUIC's streams: \<open>unread\<close> are the bytes that a stream will deliver
  to the reader; reading takes them from the front, and nothing else changes them.
\<close>

definition recvs_data :: "stream_recvs \<Rightarrow> bytes" where
  "recvs_data rs = concat (map (\<lambda>r. case r of Inl _ \<Rightarrow> [] | Inr (data, _) \<Rightarrow> data) rs)"

lemma recvs_data_simps [simp]:
  "recvs_data [] = []" "recvs_data (Inl e # rs) = recvs_data rs" "recvs_data (Inr (data, f) # rs) = data @ recvs_data rs"
  "recvs_data (as @ bs) = recvs_data as @ recvs_data bs"
  by (simp_all add: recvs_data_def)

text \<open>\<open>keeps L g\<close>: the calls that serve the connection leave \<open>g\<close> of its state alone.\<close>

definition keeps :: "'c Link \<Rightarrow> ('c \<Rightarrow> 'x) \<Rightarrow> bool" where
  "keeps L g \<longleftrightarrow>
     (\<forall>c. g (snd (l_flush L c)) = g c) \<and> (\<forall>c. g (snd (l_ingress L c)) = g c) \<and>
     (\<forall>c t. g (snd (l_poll L c t)) = g c) \<and> (\<forall>c. g (l_on_timeout L c) = g c) \<and>
     (\<forall>c. g (snd (l_now L c)) = g c) \<and> (\<forall>c t. g (l_sleep L t c) = g c)"

definition in_order :: "'c Link \<Rightarrow> ('c \<Rightarrow> u64 \<Rightarrow> bytes) \<Rightarrow> bool" where
  "in_order L unread \<longleftrightarrow>
     (\<forall>c sid as rs. l_inbound L c sid = as @ rs \<longrightarrow> unread c sid = recvs_data as @ unread (l_taken L c sid rs) sid) \<and>
     (\<forall>c sid rs sid'. sid' \<noteq> sid \<longrightarrow> unread (l_taken L c sid rs) sid' = unread c sid') \<and>
     (\<forall>c sid data f. unread (snd (l_stream_send L c sid data f)) = unread c) \<and> keeps L unread"

text \<open>A step that reads nothing and leaves the files and counters alone.\<close>

definition quiet :: "('c \<Rightarrow> 'x) \<Rightarrow> 'c Client \<Rightarrow> 'c Client \<Rightarrow> bool" where
  "quiet unread s s' \<longleftrightarrow> unread (cl_conn s') = unread (cl_conn s) \<and> cl_fs s' = cl_fs s \<and> cl_stats s' = cl_stats s \<and>
     cl_next_stream_id s' = cl_next_stream_id s"

lemma quiet_trans: "quiet unread s s1 \<Longrightarrow> quiet unread s1 s2 \<Longrightarrow> quiet unread s s2"
  by (simp add: quiet_def)

lemma send_body_unread:
  assumes "\<And>c sid data f. unread (snd (stream_send c sid data f)) = unread c"
  shows "unread (snd (send_body stream_send c sid data)) = unread c"
  using assms
proof (induction stream_send c sid data rule: send_body.induct)
  case (1 stream_send c sid data)
  obtain r c1 where s: "stream_send c sid data False = (r, c1)" by (cases "stream_send c sid data False")
  have c1: "unread c1 = unread c" using "1.prems" [of c sid data False] s by simp
  show ?case using "1.IH" [OF _ s [symmetric]] "1.prems" c1
    by (subst send_body.simps) (auto simp: s split: sum.splits)
qed

lemma stream_send_all_unread:
  assumes "\<And>c sid data f. unread (snd (stream_send c sid data f)) = unread c"
  shows "unread (snd (stream_send_all stream_send c sid data fin :: ('io TransportError, unit) result \<times> 'c)) = unread c"
proof -
  obtain r :: "('io TransportError, unit) result" and c1 where s: "send_body stream_send c sid data = (r, c1)" by (rule prod.exhaust)
  obtain r2 c2 where s2: "stream_send c1 sid [] True = (r2, c2)" by (cases "stream_send c1 sid [] True")
  have "unread c1 = unread c" using send_body_unread [of unread stream_send c sid data, OF assms] s by (metis snd_conv)
  moreover have "unread c2 = unread c1" using assms [of c1 sid "[]" True] s2 by simp
  ultimately show ?thesis by (simp add: stream_send_all_def s s2 split: sum.splits)
qed

lemma send_message_unread:
  "(\<And>c sid data f. unread (snd (stream_send c sid data f)) = unread c) \<Longrightarrow>
     unread (snd (send_message enc stream_send c sid msg)) = unread c"
  by (auto simp: send_message_def stream_send_all_unread split: sum.splits)

lemma net_quiet: "net call s = Some (r, s') \<Longrightarrow> (\<And>c. unread (snd (call c)) = unread c) \<Longrightarrow> quiet unread s s'"
  by (auto simp: net_def quiet_def bail_def ret_def split: prod.splits sum.splits) (metis snd_conv)+

lemma keepsD:
  assumes "keeps L g"
  shows "g (snd (l_flush L c)) = g c" "g (snd (l_ingress L c)) = g c" "g (snd (l_poll L c t)) = g c"
    "g (l_on_timeout L c) = g c" "g (snd (l_now L c)) = g c" "g (l_sleep L n c) = g c"
  using assms by (simp_all add: keeps_def)

lemma in_orderD:
  assumes "in_order L unread"
  shows "keeps L unread" "unread (snd (l_stream_send L c sid data f)) = unread c"
    "l_inbound L c sid = as @ rs \<Longrightarrow> unread c sid = recvs_data as @ unread (l_taken L c sid rs) sid"
    "sid' \<noteq> sid \<Longrightarrow> unread (l_taken L c sid rs) sid' = unread c sid'"
  using assms by (simp_all add: in_order_def)

lemma wait_event_keeps: "keeps L g \<Longrightarrow> wait_event L t s = Some (r, s') \<Longrightarrow> quiet g s s'"
  using keepsD(3) [of L g "cl_conn s"]
  by (auto simp: wait_event_def quiet_def bail_def ret_def keepsD(4) split: prod.splits sum.splits) (metis snd_conv)+

lemma flush_keeps: "keeps L g \<Longrightarrow> net (l_flush L) s = Some (r, s') \<Longrightarrow> quiet g s s'"
  by (erule net_quiet) (simp add: keepsD)

lemma ingress_keeps: "keeps L g \<Longrightarrow> net (l_ingress L) s = Some (r, s') \<Longrightarrow> quiet g s s'"
  by (erule net_quiet) (simp add: keepsD)

lemmas wait_event_quiet = wait_event_keeps [OF in_orderD(1)]
  and flush_quiet = flush_keeps [OF in_orderD(1)]
  and ingress_quiet = ingress_keeps [OF in_orderD(1)]

lemma send_request_quiet: "in_order L unread \<Longrightarrow> send_request L sid req s = Some (r, s') \<Longrightarrow> quiet unread s s'"
  unfolding send_request_def by (erule net_quiet) (simp add: send_message_unread in_orderD)

lemma send_fin_quiet: "in_order L unread \<Longrightarrow> send_fin L sid s = Some (r, s') \<Longrightarrow> quiet unread s s'"
  unfolding send_fin_def by (erule net_quiet) (simp add: stream_send_all_unread in_orderD)

lemmas steps_quiet = send_request_quiet send_fin_quiet flush_quiet ingress_quiet wait_event_quiet

text \<open>
  A response is the message in a frame at the front of the stream; \<open>carry\<close> is what was read
  beyond it.
\<close>

lemma recv_available_reads:
  "recv_available rs buf = (r, buf', rs') \<Longrightarrow> \<exists>as. rs = as @ rs' \<and> buf' = buf @ recvs_data as"
proof (induction rs buf rule: recv_available.induct)
  case (2 data fin rs buf)
  then show ?case by fastforce
next
  case (3 e rs buf)
  then show ?case by (intro exI [of _ "[Inl e]"]) (auto split: QuicError.splits)
qed auto

definition reads :: "('c \<Rightarrow> u64 \<Rightarrow> bytes) \<Rightarrow> u64 \<Rightarrow> bytes \<Rightarrow> 'c Client \<Rightarrow> 'c Client \<Rightarrow> bool" where
  "reads unread sid data s s' \<longleftrightarrow>
     unread (cl_conn s) sid = data @ unread (cl_conn s') sid \<and> cl_next_stream_id s' = cl_next_stream_id s \<and>
     (\<forall>sid'. sid' \<noteq> sid \<longrightarrow> unread (cl_conn s') sid' = unread (cl_conn s) sid')"

lemma quiet_reads: "quiet unread s s' \<Longrightarrow> reads unread sid [] s s'"
  by (simp add: quiet_def reads_def)

lemma reads_trans: "reads unread sid a s s1 \<Longrightarrow> reads unread sid b s1 s2 \<Longrightarrow> reads unread sid (a @ b) s s2"
  by (simp add: reads_def)

lemma taken_reads:
  "in_order L unread \<Longrightarrow> l_inbound L (cl_conn s) sid = as @ rs \<Longrightarrow> cl_conn s' = l_taken L (cl_conn s) sid rs \<Longrightarrow>
     cl_next_stream_id s' = cl_next_stream_id s \<Longrightarrow> reads unread sid (recvs_data as) s s'"
  by (simp add: reads_def in_orderD)

abbreviation decodes :: "bytes \<Rightarrow> Response \<Rightarrow> bytes \<Rightarrow> bool" where
  "decodes buf resp rest \<equiv>
     decode_framed_message dec_Response buf = (Inr (Some resp) :: (io_error TransportError, Response option) result, rest)"

lemma poll_round_reads:
  assumes o: "in_order L unread" and x: "poll_response_round L sid buf s = Some (Inr x, s')"
  shows "\<exists>data. reads unread sid data s s' \<and> cl_fs s' = cl_fs s \<and> cl_stats s' = cl_stats s \<and>
    (case x of Inl buf' \<Rightarrow> buf' = buf @ data | Inr (resp, carry) \<Rightarrow> decodes (buf @ data) resp carry \<and> validate_response resp = Inr ())"
proof -
  obtain r b rs where m: "recv_message dec_Response (l_inbound L (cl_conn s) sid) buf = (r :: (io_error TransportError, Response option) result, b, rs)"
    by (rule prod_cases3)
  obtain r1 b1 where v: "recv_available (l_inbound L (cl_conn s) sid) buf = (r1 :: (io_error TransportError, unit) result, b1, rs)"
    "(case r1 of Inl e \<Rightarrow> r = Inl e \<and> b = b1 | Inr _ \<Rightarrow> decode_framed_message dec_Response b1 = (r, b))"
    using m by (auto simp: recv_message_def split: prod.splits sum.splits)
  from recv_available_reads [OF v(1)] obtain as where as: "l_inbound L (cl_conn s) sid = as @ rs" "b1 = buf @ recvs_data as" by blast
  let ?s = "s\<lparr>cl_conn := l_taken L (cl_conn s) sid rs\<rparr>"
  have rd: "reads unread sid (recvs_data as) s ?s" by (rule taken_reads [OF o as(1)]) simp_all
  have fin: "reads unread sid (recvs_data as) s s' \<and> cl_fs s' = cl_fs s \<and> cl_stats s' = cl_stats s" if "quiet unread ?s s'"
    using reads_trans [OF rd quiet_reads [OF that]] that by (simp add: quiet_def)
  obtain resp where r: "r = Inr resp" using x m by (cases r) (auto simp: poll_response_round_def)
  have d: "decode_framed_message dec_Response (buf @ recvs_data as) = (r, b)" using v(2) r as(2) by (auto split: sum.splits)
  show ?thesis
  proof (cases resp)
    case None
    then have "b = buf @ recvs_data as" using d r
      by (auto simp: decode_framed_message_def Let_def split: if_splits option.splits)
    moreover obtain s1 s2 where w: "wait_event L 100 ?s = Some (Inr (), s1)" "net (l_ingress L) s1 = Some (Inr (), s2)"
      "net (l_flush L) s2 = Some (Inr (), s')" "x = Inl b"
      using x m r None by (auto simp: poll_response_round_def andThen_Ok Let_def split: if_splits)
    moreover have "quiet unread ?s s'"
      by (rule quiet_trans [OF quiet_trans [OF wait_event_quiet [OF o w(1)] ingress_quiet [OF o w(2)]] flush_quiet [OF o w(3)]])
    ultimately show ?thesis using fin by (intro exI [of _ "recvs_data as"]) simp
  next
    case (Some resp')
    then have "net (l_flush L) ?s = Some (Inr (), s')" "x = Inr (resp', b)" "validate_response resp' = Inr ()"
      using x m r by (auto simp: poll_response_round_def andThen_Ok Let_def split: if_splits sum.splits)
    then show ?thesis using fin steps_quiet(3) [OF o] d r Some by (intro exI [of _ "recvs_data as"]) auto
  qed
qed

lemma poll_response_reads:
  assumes "poll_response_with_buf L sid buf s = Some (Inr (resp, carry), s')" and o: "in_order L unread"
  shows "\<exists>data. reads unread sid data s s' \<and> decodes (buf @ data) resp carry \<and> validate_response resp = Inr () \<and>
    cl_fs s' = cl_fs s \<and> cl_stats s' = cl_stats s"
proof -
  define same where "same = (\<lambda>s1 :: 'a Client. cl_fs s1 = cl_fs s \<and> cl_stats s1 = cl_stats s)"
  define I where "I = (\<lambda>b s1. \<exists>data. reads unread sid data s s1 \<and> b = buf @ data \<and> same s1)"
  define Q where "Q = (\<lambda>(r :: (ClientError, Response \<times> bytes) result) s1. \<forall>resp carry. r = Inr (resp, carry) \<longrightarrow>
    (\<exists>data. reads unread sid data s s1 \<and> decodes (buf @ data) resp carry \<and> validate_response resp = Inr () \<and> same s1))"
  have "Q (Inr (resp, carry)) s'"
    using assms(1) unfolding poll_response_with_buf_def
  proof (rule loop_rule [where I = I])
    show "I buf s" by (auto simp: I_def reads_def same_def)
    show "I x1 s1" if "I x s0" "poll_response_round L sid x s0 = Some (Inr (Inl x1), s1)" for x s0 x1 s1
      using poll_round_reads [OF o that(2)] that(1) reads_trans [of unread sid _ s s0 _ s1] by (fastforce simp: I_def same_def)
    show "Q (Inr a) s1" if "I x s0" "poll_response_round L sid x s0 = Some (Inr (Inr a), s1)" for x s0 a s1
      using poll_round_reads [OF o that(2)] that(1) reads_trans [of unread sid _ s s0 _ s1] by (fastforce simp: I_def Q_def same_def)
    show "Q (Inl e) s1" for e s1 by (simp add: Q_def)
  qed
  then show ?thesis by (simp add: Q_def same_def)
qed

end
