(* ===== verification/Client_Get.thy ===== *)
theory Client_Get
  imports Client_Session
begin

text \<open>
  Downloads on the client: \<open>do_get\<close> of \<open>crates/qftp-client/src/transfer.rs\<close>. An existing local
  file is taken for the beginning of the remote one and the rest is asked for; the digest that
  follows the body covers the whole file, so it checks the old bytes too.

  The local path is absolute, as theory Filesystem has paths. BLAKE3 and the zstd codec are
  parameters. The progress bar is left out.
\<close>

section \<open>Parameters\<close>

record ('d, 'e) ClientPrims =
  k_blake3 :: "bytes \<Rightarrow> bytes"
  k_decoder_new :: "(io_error, 'd) result"
  k_decoder_run :: "'d decoder_run"
  k_encoder_new :: "(io_error, 'e) result"
  k_encoder_run :: "'e encoder_run"
  k_encoder_finish :: "'e encoder_finish"

text \<open>The process-wide settings, fixed when the client starts.\<close>

record Settings =
  bw_limit_bps :: u64
  compression_disabled :: bool

section \<open>The body\<close>

datatype 'd DownloadBody = Body_Identity u64 u64 | Body_Zstd "'d ZstdDecoder"

fun is_complete :: "'d DownloadBody \<Rightarrow> bool" where
  "is_complete (Body_Identity received bound) \<longleftrightarrow> received \<ge> bound"
| "is_complete (Body_Zstd decoder) \<longleftrightarrow> zd_frame_complete decoder"

fun plaintext_received :: "'d DownloadBody \<Rightarrow> u64" where
  "plaintext_received (Body_Identity received bound) = received"
| "plaintext_received (Body_Zstd decoder) = zd_decoded decoder"

text \<open>
  The local variables of a download: the file, with the position of its handle, the hasher, which
  is the bytes fed to it, and the bytes received after the body.
\<close>

record 'd Download =
  dl_file :: FileReader
  dl_body :: "'d DownloadBody"
  dl_hasher :: bytes
  dl_trailer :: bytes

text \<open>Writing to the file and feeding the hasher. The file system is returned on failure too.\<close>

type_synonym 'd accepted = "(ClientError, 'd Download) result \<times> FS"

definition write_chunk :: "string \<Rightarrow> bytes \<Rightarrow> 'd Download \<Rightarrow> FS \<Rightarrow> 'd accepted" where
  "write_chunk ctx data d fs =
     (case handle_write fs (fr_place (dl_file d)) (fr_pos (dl_file d)) data of
        Inl e \<Rightarrow> (Inl (CE_Io ctx e), fs)
      | Inr fs' \<Rightarrow>
          (Inr (d\<lparr>dl_file := (dl_file d)\<lparr>fr_pos := fr_pos (dl_file d) + length data\<rparr>,
                  dl_hasher := dl_hasher d @ data\<rparr>), fs'))"

text \<open>The loop runs at most once: everything pending is written and consumed.\<close>

definition drain_decoded_plaintext :: "'d ZstdDecoder \<Rightarrow> 'd Download \<Rightarrow> FS \<Rightarrow> 'd accepted" where
  "drain_decoded_plaintext z d fs =
     (if decoder_pending z = [] then (Inr (d\<lparr>dl_body := Body_Zstd z\<rparr>), fs)
      else (case write_chunk ''writing decoded zstd body chunk'' (decoder_pending z) d fs of
          (Inl e, fs') \<Rightarrow> (Inl e, fs')
        | (Inr d', fs') \<Rightarrow> (Inr (d'\<lparr>dl_body := Body_Zstd (decoder_consume z (length (decoder_pending z)))\<rparr>), fs')))"

definition to_trailer :: "bytes \<Rightarrow> 'd Download \<Rightarrow> 'd Download" where
  "to_trailer data d = d\<lparr>dl_trailer := dl_trailer d @ data\<rparr>"

definition accept_download_bytes :: "('d, 'e) ClientPrims \<Rightarrow> bytes \<Rightarrow> 'd Download \<Rightarrow> FS \<Rightarrow> 'd accepted" where
  "accept_download_bytes K input d fs =
     (case dl_body d of
        Body_Identity received bound \<Rightarrow>
          (if received < bound
           then (let body_room = unat (bound - received);
                     body_take = min body_room (length input)
                 in case (if body_take > 0 then write_chunk ''writing body chunk'' (take body_take input) d fs else (Inr d, fs)) of
                      (Inl e, fs') \<Rightarrow> (Inl e, fs')
                    | (Inr d', fs') \<Rightarrow>
                        (Inr (to_trailer (drop body_take input) (d'\<lparr>dl_body := Body_Identity (received + of_nat body_take) bound\<rparr>)), fs'))
           else (Inr (to_trailer input d), fs))
      | Body_Zstd z \<Rightarrow>
          (if zd_frame_complete z then (Inr (to_trailer input d), fs)
           else (case decoder_push (k_decoder_run K) z input of
               (Inl e, _) \<Rightarrow> (Inl (CE_Codec ''decoding zstd body chunk'' e), fs)
             | (Inr progress, z') \<Rightarrow>
                 (case drain_decoded_plaintext z' d fs of
                    (Inl e, fs') \<Rightarrow> (Inl e, fs')
                  | (Inr d', fs') \<Rightarrow>
                      (if dp_frame_complete progress then (Inr (to_trailer (drop (dp_consumed progress) input) d'), fs')
                       else if dp_consumed progress < length input
                       then (Inl (CE_Message ''zstd decoder stopped before consuming the compressed chunk''), fs')
                       else (Inr d', fs'))))))"

section \<open>Starting\<close>

definition resume_offset :: "FS \<Rightarrow> path \<Rightarrow> u64" where
  "resume_offset fs local =
     (case fs_metadata fs local of Inr m \<Rightarrow> (if is_file_kind (n_kind m) then node_size m else 0) | Inl _ \<Rightarrow> 0)"

definition get_request :: "Settings \<Rightarrow> string \<Rightarrow> u64 \<Rightarrow> Request" where
  "get_request opts remote offset =
     Req_Get remote offset None (if compression_disabled opts then [] else [Encoding_Zstd])"

text \<open>The checks on the announced sizes; the result is the length of the plain body.\<close>

definition check_ready :: "u64 \<Rightarrow> FileReady \<Rightarrow> (ClientError, u64) result" where
  "check_ready offset fr =
     bindR (case fr_encoding fr of
              Encoding_Identity \<Rightarrow> Inr (fr_size fr)
            | Encoding_Zstd \<Rightarrow>
                (if fr_size fr \<noteq> fr_plaintext_size fr
                 then Inl (CE_Message (''server returned inconsistent zstd sizes: size ('' @ show_u64 (fr_size fr) @
                        '') != plaintext_size ('' @ show_u64 (fr_plaintext_size fr) @ '')''))
                 else Inr (fr_plaintext_size fr))
            | Encoding_Unknown n \<Rightarrow> Inl (CE_Message (''server selected unsupported transfer encoding '' @ show_u64 n)))
       (\<lambda>logical_size.
          if fr_encoding fr = Encoding_Zstd \<and> fr_plaintext_size fr > MAX_FILE_SIZE
          then Inl (CE_Message (''server announced zstd plaintext size '' @ show_u64 (fr_plaintext_size fr) @ '' above max '' @ show_u64 MAX_FILE_SIZE))
          else if \<not> (unat offset + unat logical_size < 2 ^ 64 \<and> offset + logical_size = fr_total_size fr)
          then Inl (CE_Message (''server returned inconsistent sizes: resume_offset ('' @ show_u64 offset @ '') + size ('' @
                 show_u64 logical_size @ '') != total_size ('' @ show_u64 (fr_total_size fr) @ '')''))
          else Inr logical_size)"

text \<open>Opening the local file, with \<open>O_TRUNC\<close> unless a prefix is kept.\<close>

definition open_local :: "FS \<Rightarrow> path \<Rightarrow> u64 \<Rightarrow> (ClientError, path \<times> FS) result" where
  "open_local fs local offset =
     (case open_file fs (apply_no_follow (OpenOptions_new\<lparr>oo_read := True, oo_write := True, oo_create := True\<rparr>)) local of
        Inl e \<Rightarrow> Inl (CE_Io (''opening '' @ display_path local @ '' for write'') e)
      | Inr (place, fs') \<Rightarrow> Inr (place, if offset = 0 then update_file fs' place (\<lambda>_. []) else fs'))"

text \<open>Hash the first \<open>left\<close> bytes in reads of at most \<open>chunk\<close>.\<close>

function hash_prefix :: "nat \<Rightarrow> string \<Rightarrow> FS \<Rightarrow> FileReader \<Rightarrow> nat \<Rightarrow> bytes \<Rightarrow> (ClientError, FileReader \<times> bytes) result" where
  "hash_prefix chunk ctx fs rd left hasher =
     (if left = 0 \<or> chunk = 0 then Inr (rd, hasher)
      else (let want = min left chunk
            in case read_exact fs rd want of
                 (Inl e, _) \<Rightarrow> Inl (CE_Io ctx e)
               | (Inr data, rd') \<Rightarrow> hash_prefix chunk ctx fs rd' (left - want) (hasher @ data)))"
  by pat_completeness auto

termination
  by (relation "measure (\<lambda>(k, ctx, fs, rd, left, h). left)") auto

declare hash_prefix.simps [simp del]

definition start_hasher :: "FS \<Rightarrow> path \<Rightarrow> u64 \<Rightarrow> (ClientError, FileReader \<times> bytes) result" where
  "start_hasher fs place offset =
     (if offset > 0
      then (case handle_seek fs place 0 of
              Inl e \<Rightarrow> Inl (CE_Io ''seeking to start of local prefix'' e)
            | Inr pos \<Rightarrow>
                bindR (hash_prefix FILE_CHUNK_SIZE ''reading local prefix for hash'' fs \<lparr>fr_place = place, fr_pos = pos\<rparr> (unat offset) [])
                  (\<lambda>(rd, hasher).
                     case handle_seek fs place (unat offset) of
                       Inl e \<Rightarrow> Inl (CE_Io (''seeking to '' @ show_u64 offset) e)
                     | Inr pos \<Rightarrow> Inr (\<lparr>fr_place = place, fr_pos = pos\<rparr>, hasher)))
      else Inr (\<lparr>fr_place = place, fr_pos = 0\<rparr>, []))"

definition start_body :: "('d, 'e) ClientPrims \<Rightarrow> FileReady \<Rightarrow> (ClientError, 'd DownloadBody) result" where
  "start_body K fr =
     (if fr_encoding fr = Encoding_Zstd
      then (case ZstdDecoder_new (k_decoder_new K) (min (fr_plaintext_size fr) MAX_FILE_SIZE) of
              Inl e \<Rightarrow> Inl (CE_Codec ''initializing zstd decoder'' e)
            | Inr z \<Rightarrow> Inr (Body_Zstd z))
      else Inr (Body_Identity 0 (fr_size fr)))"

section \<open>Receiving\<close>

definition received_all :: "nat \<Rightarrow> 'd Download \<Rightarrow> bool" where
  "received_all want_trailer d \<longleftrightarrow> is_complete (dl_body d) \<and> length (dl_trailer d) \<ge> want_trailer"

text \<open>
  The inner loop: read what the stream holds. The results are whether anything was read, whether
  the stream has ended, and the outcomes that are left; a failure keeps what was written so far.
\<close>

fun drain_stream ::
  "('d, 'e) ClientPrims \<Rightarrow> stream_recvs \<Rightarrow> bool \<Rightarrow> bool \<Rightarrow> 'd Download \<Rightarrow> FS
     \<Rightarrow> (ClientError, bool \<times> bool \<times> 'd Download) result \<times> stream_recvs \<times> FS" where
  "drain_stream K [] drained fin d fs = (Inr (drained, fin, d), [], fs)"
| "drain_stream K (Inl e # rs) drained fin d fs =
     (case e of
        Quic_Done \<Rightarrow> (Inr (drained, fin, d), rs, fs)
      | Quic_InvalidStreamState _ \<Rightarrow> (Inr (drained, True, d), rs, fs)
      | _ \<Rightarrow> (Inl (CE_Quic ''stream_recv'' e), rs, fs))"
| "drain_stream K (Inr (data, f) # rs) drained fin d fs =
     (case (if data \<noteq> [] then accept_download_bytes K data d fs else (Inr d, fs)) of
        (Inl e, fs') \<Rightarrow> (Inl e, rs, fs')
      | (Inr d', fs') \<Rightarrow> drain_stream K rs True (fin \<or> f) d' fs')"

definition remove_local :: "path \<Rightarrow> 'c Client \<Rightarrow> 'c Client" where
  "remove_local local s = (case remove_file (cl_fs s) local of Inl _ \<Rightarrow> s | Inr fs \<Rightarrow> s\<lparr>cl_fs := fs\<rparr>)"

text \<open>One \<open>stream_recv\<close> without waiting, made when everything arrived together with the response.\<close>

definition look_for_fin ::
  "'c Link \<Rightarrow> ('d, 'e) ClientPrims \<Rightarrow> u64 \<Rightarrow> 'd Download \<Rightarrow> 'c Client \<Rightarrow> ('c, bool \<times> 'd Download) run" where
  "look_for_fin L K sid d s =
     andThen (net (l_ingress L) s) (\<lambda>_ s.
       (let (r, rs, fs) = drain_stream K (take 1 (l_inbound L (cl_conn s) sid)) False False d (cl_fs s);
            s = s\<lparr>cl_conn := l_taken L (cl_conn s) sid (drop 1 (l_inbound L (cl_conn s) sid)), cl_fs := fs\<rparr>
        in case r of
             Inl e \<Rightarrow> bail e s
           | Inr (_, fin, d) \<Rightarrow> andThen (net (l_flush L) s) (\<lambda>_ s. ret (fin, d) s)))"

definition early_close :: "'d Download \<Rightarrow> u64 \<Rightarrow> nat \<Rightarrow> ClientError" where
  "early_close d logical_size want_trailer =
     CE_Message (''server closed stream early: got '' @ show_u64 (plaintext_received (dl_body d)) @ ''/'' @ show_u64 logical_size @
       '' body bytes and '' @ show_nat (length (dl_trailer d)) @ ''/'' @ show_nat want_trailer @ '' trailer bytes'')"

definition receive_round ::
  "'c Link \<Rightarrow> ('d, 'e) ClientPrims \<Rightarrow> u64 \<Rightarrow> path \<Rightarrow> u64 \<Rightarrow> nat \<Rightarrow> bool \<times> 'd Download \<Rightarrow> 'c Client
     \<Rightarrow> ('c, (bool \<times> 'd Download) + 'd Download) run" where
  "receive_round L K sid local logical_size want_trailer x s =
     (let (finished, d) = x
      in if received_all want_trailer d then ret (Inr d) s
         else andThen (net (l_ingress L) s) (\<lambda>_ s.
           (let (r, rs, fs) = drain_stream K (l_inbound L (cl_conn s) sid) False finished d (cl_fs s);
                s = s\<lparr>cl_conn := l_taken L (cl_conn s) sid rs, cl_fs := fs\<rparr>
            in case r of
                 Inl e \<Rightarrow> bail e s
               | Inr (drained, finished, d) \<Rightarrow>
                   andThen (net (l_flush L) s) (\<lambda>_ s.
                     if finished \<and> \<not> received_all want_trailer d
                     then bail (early_close d logical_size want_trailer) (remove_local local s)
                     else if l_is_closed L (cl_conn s) \<and> \<not> received_all want_trailer d
                     then bail (CE_Message ''connection closed during download'') s
                     else andThen (if drained then ret () s else wait_event L 100 s) (\<lambda>_ s.
                            ret (Inl (finished, d)) s)))))"

definition receive_loop ::
  "'c Link \<Rightarrow> ('d, 'e) ClientPrims \<Rightarrow> u64 \<Rightarrow> path \<Rightarrow> u64 \<Rightarrow> nat \<Rightarrow> bool \<Rightarrow> 'd Download \<Rightarrow> 'c Client \<Rightarrow> ('c, 'd Download) run" where
  "receive_loop L K sid local logical_size want_trailer finished d s =
     loop (receive_round L K sid local logical_size want_trailer) (finished, d) s"

text \<open>
  What follows the loop: the frame must be complete and of the announced length, and the digest
  must be that of the local file. \<open>File::flush\<close> does nothing and cannot fail.
\<close>

definition finish_download ::
  "('d, 'e) ClientPrims \<Rightarrow> path \<Rightarrow> FileReady \<Rightarrow> u64 \<Rightarrow> 'd Download \<Rightarrow> 'c Client \<Rightarrow> ('c, unit) run" where
  "finish_download K local fr logical_size d s =
     andThen (case dl_body d of
                Body_Zstd z \<Rightarrow>
                  (case decoder_finish z of
                     Inl e \<Rightarrow> bail (CE_Codec ''zstd frame did not complete'' e) s
                   | Inr _ \<Rightarrow>
                       (if zd_decoded z \<noteq> fr_plaintext_size fr
                        then bail (CE_Message (''zstd plaintext size mismatch: decoded '' @ show_u64 (zd_decoded z) @
                               '' bytes, expected '' @ show_u64 (fr_plaintext_size fr))) (remove_local local s)
                        else ret () s))
              | Body_Identity _ _ \<Rightarrow> ret () s) (\<lambda>_ s.
       if fr_checksum_follows fr \<and> k_blake3 K (dl_hasher d) \<noteq> take 32 (dl_trailer d)
       then bail (CE_Message (''BLAKE3 checksum mismatch after download (expected '' @ show_u64 logical_size @
              '' bytes, hash didn't match)'')) (remove_local local s)
       else ret () (s\<lparr>cl_stats := record_download logical_size (cl_stats s)\<rparr>))"

section \<open>The download\<close>

text \<open>From the announcement on; \<open>carryover\<close> is what was read of the stream beyond it.\<close>

definition receive_file ::
  "'c Link \<Rightarrow> ('d, 'e) ClientPrims \<Rightarrow> u64 \<Rightarrow> path \<Rightarrow> u64 \<Rightarrow> FileReady \<Rightarrow> bytes \<Rightarrow> 'c Client \<Rightarrow> ('c, unit) run" where
  "receive_file L K sid local offset fr carryover s =
     (case bindR (check_ready offset fr) (\<lambda>logical_size. bindR (open_local (cl_fs s) local offset) (\<lambda>(place, fs). Inr (logical_size, place, fs))) of
        Inl e \<Rightarrow> bail e s
      | Inr (logical_size, place, fs) \<Rightarrow>
          (let s = s\<lparr>cl_fs := fs\<rparr>; want_trailer = (if fr_checksum_follows fr then 32 else 0)
           in case bindR (start_hasher fs place offset) (\<lambda>(rd, hasher). bindR (start_body K fr) (\<lambda>body.
                    Inr \<lparr>dl_file = rd, dl_body = body, dl_hasher = hasher, dl_trailer = []\<rparr>)) of
                Inl e \<Rightarrow> bail e s
              | Inr d \<Rightarrow>
                  (case (if carryover \<noteq> [] then accept_download_bytes K carryover d fs else (Inr d, fs)) of
                     (Inl e, fs) \<Rightarrow> bail e (s\<lparr>cl_fs := fs\<rparr>)
                   | (Inr d, fs) \<Rightarrow>
                       (let s = s\<lparr>cl_fs := fs\<rparr>
                        in andThen (if received_all want_trailer d then look_for_fin L K sid d s else ret (False, d) s)
                             (\<lambda>(finished, d) s.
                             andThen (receive_loop L K sid local logical_size want_trailer finished d s) (\<lambda>d s.
                               finish_download K local fr logical_size d s))))))"

definition get_answered ::
  "'c Link \<Rightarrow> ('d, 'e) ClientPrims \<Rightarrow> u64 \<Rightarrow> path \<Rightarrow> u64 \<Rightarrow> Response \<times> bytes \<Rightarrow> 'c Client \<Rightarrow> ('c, unit) run" where
  "get_answered L K sid local offset answer s =
     (let (resp, carryover) = answer
      in case resp of
           Resp_FileReady fr \<Rightarrow> receive_file L K sid local offset fr carryover s
         | Resp_Err e \<Rightarrow>
             (if er_code e = InvalidRange \<and> offset > 0 then bail StalePartial (remove_local local s)
              else bail (CE_Refused ''Get'' e) s)
         | _ \<Rightarrow> bail (CE_Unexpected ''Get'' resp) s)"

definition do_get_inner ::
  "'c Link \<Rightarrow> ('d, 'e) ClientPrims \<Rightarrow> Settings \<Rightarrow> u64 \<Rightarrow> string \<Rightarrow> path \<Rightarrow> 'c Client \<Rightarrow> ('c, unit) run" where
  "do_get_inner L K opts sid remote local s =
     (let offset = resume_offset (cl_fs s) local
      in andThen (send_request L sid (get_request opts remote offset) s) (\<lambda>_ s.
         andThen (send_fin L sid s) (\<lambda>_ s.
         andThen (net (l_flush L) s) (\<lambda>_ s.
         andThen (poll_response_with_buf L sid [] s) (get_answered L K sid local offset)))))"

text \<open>A failure is counted, except for the signal.\<close>

definition count_failure :: "('c, 'a) run \<Rightarrow> ('c, 'a) run" where
  "count_failure m =
     map_option (\<lambda>(r, s). (r, case r of
        Inl e \<Rightarrow> (if e \<noteq> StalePartial then s\<lparr>cl_stats := record_failure (cl_stats s)\<rparr> else s) | Inr _ \<Rightarrow> s)) m"

definition do_get ::
  "'c Link \<Rightarrow> ('d, 'e) ClientPrims \<Rightarrow> Settings \<Rightarrow> string \<Rightarrow> path \<Rightarrow> 'c Client \<Rightarrow> ('c, unit) run" where
  "do_get L K opts remote local s =
     (let (sid, s) = take_stream s
      in count_failure (case do_get_inner L K opts sid remote local s of
           Some (Inl StalePartial, s) \<Rightarrow>
             (let (sid, s) = take_stream s in do_get_inner L K opts sid remote local s)
         | r \<Rightarrow> r))"

end
