(* ===== verification/Client_Put.thy ===== *)
theory Client_Put
  imports Client_Get Complex_Main
begin

text \<open>
  Uploads on the client: \<open>do_put\<close> of \<open>crates/qftp-client/src/transfer.rs\<close>, with the bandwidth
  limiter \<open>Pacer\<close> and the probe for a resumable partial upload. As in theory Rate_Limits, an
  \<open>Instant\<close> and a \<open>Duration\<close> are nanoseconds and the tokens, an \<open>f64\<close> in the code, are rationals.
\<close>

section \<open>Pacing\<close>

record Pacer =
  pc_last :: nat
  pc_tokens :: rat
  pc_rate :: rat
  pc_burst :: rat

definition Pacer_with_rate :: "u64 \<Rightarrow> nat \<Rightarrow> Pacer" where
  "Pacer_with_rate rate now =
     (let r = of_nat (unat rate) in \<lparr>pc_last = now, pc_tokens = r, pc_rate = r, pc_burst = max r (64 * 1024)\<rparr>)"

definition refill_tokens :: "nat \<Rightarrow> Pacer \<Rightarrow> Pacer" where
  "refill_tokens now p =
     (let elapsed = of_nat (now - pc_last p) / 1000000000
      in p\<lparr>pc_tokens := min (pc_tokens p + elapsed * pc_rate p) (pc_burst p), pc_last := now\<rparr>)"

definition check_capacity :: "nat \<Rightarrow> Pacer \<Rightarrow> bool" where
  "check_capacity n p \<longleftrightarrow> of_nat n \<le> pc_tokens p"

definition calculate_wait :: "nat \<Rightarrow> Pacer \<Rightarrow> nat" where
  "calculate_wait n p = nat (round ((of_nat n - pc_tokens p) / pc_rate p * 1000000000))"

definition consume :: "nat \<Rightarrow> nat \<Rightarrow> Pacer \<Rightarrow> nat \<times> Pacer" where
  "consume now n p =
     (if pc_rate p \<le> 0 then (0, p)
      else (let p = refill_tokens now p
            in if check_capacity n p then (0, p\<lparr>pc_tokens := pc_tokens p - of_nat n\<rparr>)
               else (let wait = calculate_wait n p
                     in (wait, p\<lparr>pc_last := now + wait, pc_tokens := 0\<rparr>))))"

definition read_clock :: "'c Link \<Rightarrow> 'c Client \<Rightarrow> nat \<times> 'c Client" where
  "read_clock L s = (let (t, c) = l_now L (cl_conn s) in (t, s\<lparr>cl_conn := c\<rparr>))"

text \<open>The wait, in slices of at most 50 ms with the connection served in between.\<close>

definition pace_round :: "'c Link \<Rightarrow> nat \<Rightarrow> unit \<Rightarrow> 'c Client \<Rightarrow> ('c, unit + unit) run" where
  "pace_round L deadline x s =
     (let (now, s) = read_clock L s
      in if \<not> now < deadline then ret (Inr ()) s
         else andThen (net (l_ingress L) s) (\<lambda>_ s.
              andThen (net (l_flush L) s) (\<lambda>_ s.
                (let s = s\<lparr>cl_conn := l_on_timeout L (cl_conn s)\<rparr>
                 in if l_is_closed L (cl_conn s) then bail (CE_Message ''connection closed during bandwidth-limit wait'') s
                    else (let (now, s) = read_clock L s;
                              slice = min (deadline - now) (min 50000000 (opt_or (l_timeout L (cl_conn s)) 50000000))
                          in ret (Inl ()) (if slice \<noteq> 0 then s\<lparr>cl_conn := l_sleep L slice (cl_conn s)\<rparr> else s))))))"

definition pace :: "'c Link \<Rightarrow> Pacer \<Rightarrow> nat \<Rightarrow> 'c Client \<Rightarrow> ('c, Pacer) run" where
  "pace L p n s =
     (if pc_rate p \<le> 0 then ret p s
      else (let (now, s) = read_clock L s; (wait, p) = consume now n p
            in if wait = 0 then ret p s
               else (let (now, s) = read_clock L s
                     in andThen (loop (pace_round L (now + wait)) () s) (\<lambda>_ s. ret p s))))"

section \<open>Sending\<close>

definition send_upload_wait :: "'c Link \<Rightarrow> bytes \<Rightarrow> 'c Client \<Rightarrow> ('c, bytes + unit) run" where
  "send_upload_wait L bs s =
     andThen (net (l_flush L) s) (\<lambda>_ s.
     andThen (wait_event L 20 s) (\<lambda>_ s.
     andThen (net (l_ingress L) s) (\<lambda>_ s.
       if l_is_closed L (cl_conn s) then bail (CE_Message ''connection closed during upload'') s else ret (Inl bs) s)))"

text \<open>The loop variable is what is left to send.\<close>

definition send_upload_round :: "'c Link \<Rightarrow> u64 \<Rightarrow> bool \<Rightarrow> bytes \<Rightarrow> 'c Client \<Rightarrow> ('c, bytes + unit) run" where
  "send_upload_round L sid fin bs s =
     (if bs = [] then ret (Inr ()) s
      else (case l_stream_send L (cl_conn s) sid bs fin of
          (Inr n, c) \<Rightarrow>
            (let s = s\<lparr>cl_conn := c\<rparr> in if n = 0 then send_upload_wait L bs s else ret (Inl (drop n bs)) s)
        | (Inl e, c) \<Rightarrow>
            (let s = s\<lparr>cl_conn := c\<rparr> in if e = Quic_Done then send_upload_wait L bs s else bail (CE_Quic ''stream_send failed'' e) s)))"

definition send_upload_bytes :: "'c Link \<Rightarrow> u64 \<Rightarrow> bytes \<Rightarrow> bool \<Rightarrow> 'c Client \<Rightarrow> ('c, unit) run" where
  "send_upload_bytes L sid bs fin s = loop (send_upload_round L sid fin) bs s"

text \<open>Sending takes everything that is pending, so the loop of the source runs at most once.\<close>

definition drain_zstd_encoder_to_wire :: "'c Link \<Rightarrow> u64 \<Rightarrow> 'e ZstdEncoder \<Rightarrow> 'c Client \<Rightarrow> ('c, 'e ZstdEncoder) run" where
  "drain_zstd_encoder_to_wire L sid z s =
     (if encoder_pending z = [] then ret z s
      else andThen (send_upload_bytes L sid (encoder_pending z) False s) (\<lambda>_ s.
             ret (encoder_consume z (length (encoder_pending z))) s))"

text \<open>A step of the encoder, which may not return.\<close>

definition encode :: "string \<Rightarrow> ((CompressionError, unit) result \<times> 'e ZstdEncoder) option \<Rightarrow> 'c Client \<Rightarrow> ('c, 'e ZstdEncoder) run" where
  "encode ctx m s = Option.bind m (\<lambda>(r, z). case r of Inl e \<Rightarrow> bail (CE_Codec ctx e) s | Inr _ \<Rightarrow> ret z s)"

definition send_chunk ::
  "'c Link \<Rightarrow> ('d, 'e) ClientPrims \<Rightarrow> u64 \<Rightarrow> bytes \<Rightarrow> 'e ZstdEncoder option \<Rightarrow> 'c Client \<Rightarrow> ('c, 'e ZstdEncoder option) run" where
  "send_chunk L K sid data encoder s =
     (case encoder of
        Some z \<Rightarrow>
          andThen (encode ''compressing upload chunk'' (encoder_push (k_encoder_run K) z data) s) (\<lambda>z s.
          andThen (drain_zstd_encoder_to_wire L sid z s) (\<lambda>z s. ret (Some z) s))
      | None \<Rightarrow> andThen (send_upload_bytes L sid data False s) (\<lambda>_ s. ret None s))"

definition finish_encoder ::
  "'c Link \<Rightarrow> ('d, 'e) ClientPrims \<Rightarrow> u64 \<Rightarrow> 'e ZstdEncoder option \<Rightarrow> 'c Client \<Rightarrow> ('c, unit) run" where
  "finish_encoder L K sid encoder s =
     (case encoder of
        Some z \<Rightarrow>
          andThen (encode ''finalizing zstd upload frame'' (encoder_finish (k_encoder_finish K) z) s) (\<lambda>z s.
          andThen (drain_zstd_encoder_to_wire L sid z s) (\<lambda>_ s. ret () s))
      | None \<Rightarrow> ret () s)"

section \<open>The body\<close>

definition UPLOAD_CHUNK :: nat where "UPLOAD_CHUNK = 1024 * 1024"

record 'e Upload =
  up_file :: FileReader
  up_sent :: u64
  up_hasher :: bytes
  up_pacer :: Pacer
  up_encoder :: "'e ZstdEncoder option"

definition upload_round ::
  "'c Link \<Rightarrow> ('d, 'e) ClientPrims \<Rightarrow> nat \<Rightarrow> u64 \<Rightarrow> u64 \<Rightarrow> 'e Upload \<Rightarrow> 'c Client \<Rightarrow> ('c, 'e Upload + 'e Upload) run" where
  "upload_round L K chunk sid bytes_to_send u s =
     (if \<not> up_sent u < bytes_to_send then ret (Inr u) s
      else (let want = min (unat (bytes_to_send - up_sent u)) chunk
            in case read_exact (cl_fs s) (up_file u) want of
                 (Inl e, _) \<Rightarrow> bail (CE_Io ''reading local chunk'' e) s
               | (Inr data, rd) \<Rightarrow>
                   andThen (pace L (up_pacer u) want s) (\<lambda>p s.
                   andThen (send_chunk L K sid data (up_encoder u) s) (\<lambda>encoder s.
                   andThen (net (l_flush L) s) (\<lambda>_ s.
                   andThen (net (l_ingress L) s) (\<lambda>_ s.
                   andThen (net (l_flush L) s) (\<lambda>_ s.
                     ret (Inl (u\<lparr>up_file := rd, up_sent := up_sent u + of_nat want, up_hasher := up_hasher u @ data,
                                 up_pacer := p, up_encoder := encoder\<rparr>)) s)))))))"

section \<open>The upload\<close>

definition is_stale_partial :: "u64 \<Rightarrow> ErrorCode \<Rightarrow> bool" where
  "is_stale_partial offset code \<longleftrightarrow> offset > 0 \<and> (code = ChecksumMismatch \<or> code = InvalidRange)"

definition put_encoding_for :: "Settings \<Rightarrow> bool \<Rightarrow> path \<Rightarrow> u64 \<Rightarrow> Encoding" where
  "put_encoding_for opts compression_enabled local bytes_to_send =
     (if compression_enabled \<and> \<not> compression_disabled opts \<and> bytes_to_send \<ge> 1024 \<and> \<not> is_likely_incompressible local
      then Encoding_Zstd else Encoding_Identity)"

definition put_args :: "string \<Rightarrow> u64 \<Rightarrow> u32 \<Rightarrow> u64 \<Rightarrow> bool \<Rightarrow> Encoding \<Rightarrow> PutArgs" where
  "put_args remote bytes_to_send mode offset no_clobber encoding =
     \<lparr>put_path = remote, put_size = bytes_to_send, put_mode = mode, put_offset = offset,
      put_hash_algorithm = HashAlgorithm_Blake3, put_checksum = None, put_no_clobber = no_clobber,
      put_checksum_trailer = True, put_encoding = encoding,
      put_plaintext_size = (if encoding = Encoding_Zstd then bytes_to_send else 0)\<rparr>"

text \<open>Opening the file, hashing the prefix that is not sent, and starting the encoder.\<close>

definition start_upload ::
  "'c Link \<Rightarrow> ('d, 'e) ClientPrims \<Rightarrow> Settings \<Rightarrow> path \<Rightarrow> u64 \<Rightarrow> Encoding \<Rightarrow> 'c Client \<Rightarrow> ('c, 'e Upload) run" where
  "start_upload L K opts local offset encoding s =
     (case open_file (cl_fs s) (OpenOptions_new\<lparr>oo_read := True\<rparr>) local of
        Inl e \<Rightarrow> bail (CE_Io ''opening local for send'' e) s
      | Inr (place, _) \<Rightarrow>
          (case (if offset > 0
                 then hash_prefix FILE_CHUNK_SIZE ''reading local resume prefix for hash'' (cl_fs s) \<lparr>fr_place = place, fr_pos = 0\<rparr> (unat offset) []
                 else Inr (\<lparr>fr_place = place, fr_pos = 0\<rparr>, [])) of
             Inl e \<Rightarrow> bail e s
           | Inr (rd, hasher) \<Rightarrow>
               (let (now, s) = read_clock L s;
                    u = \<lparr>up_file = rd, up_sent = 0, up_hasher = hasher, up_pacer = Pacer_with_rate (bw_limit_bps opts) now, up_encoder = None\<rparr>
                in if encoding = Encoding_Zstd
                   then (case ZstdEncoder_new (k_encoder_new K) of
                           Inl e \<Rightarrow> bail (CE_Codec ''initializing zstd encoder'' e) s
                         | Inr z \<Rightarrow> ret (u\<lparr>up_encoder := Some z\<rparr>) s)
                   else ret u s)))"

definition put_answered :: "u64 \<Rightarrow> u64 \<Rightarrow> Encoding \<Rightarrow> Response \<Rightarrow> 'c Client \<Rightarrow> ('c, unit) run" where
  "put_answered offset bytes_to_send encoding resp s =
     (case resp of
        Resp_Ok \<Rightarrow> ret () (s\<lparr>cl_stats := record_upload bytes_to_send (cl_stats s)\<rparr>)
      | Resp_Err e \<Rightarrow>
          (if is_stale_partial offset (er_code e) then bail StalePartial s
           else if encoding = Encoding_Zstd \<and> er_code e = Unsupported then bail UnsupportedEncoding s
           else bail (CE_Refused ''Put'' e) s)
      | _ \<Rightarrow> bail (CE_Unexpected ''Put'' resp) s)"

definition do_put_inner ::
  "'c Link \<Rightarrow> ('d, 'e) ClientPrims \<Rightarrow> Settings \<Rightarrow> u64 \<Rightarrow> path \<Rightarrow> string \<Rightarrow> u64 \<Rightarrow> bool \<Rightarrow> bool \<Rightarrow> 'c Client \<Rightarrow> ('c, unit) run" where
  "do_put_inner L K opts sid local remote offset no_clobber compression_enabled s =
     (case fs_metadata (cl_fs s) local of
        Inl e \<Rightarrow> bail (CE_Io (''stat '' @ display_path local @ '' for upload'') e) s
      | Inr meta \<Rightarrow>
          (let file_size = node_size meta;
               offset = (if offset > file_size then 0 else offset);
               bytes_to_send = file_size - offset;
               encoding = put_encoding_for opts compression_enabled local bytes_to_send
           in andThen (send_request L sid (Req_Put (put_args remote bytes_to_send (node_mode meta) offset no_clobber encoding)) s) (\<lambda>_ s.
              andThen (net (l_flush L) s) (\<lambda>_ s.
              andThen (start_upload L K opts local offset encoding s) (\<lambda>u s.
              andThen (loop (upload_round L K UPLOAD_CHUNK sid bytes_to_send) u s) (\<lambda>u s.
              andThen (finish_encoder L K sid (up_encoder u) s) (\<lambda>_ s.
              andThen (send_upload_bytes L sid (k_blake3 K (up_hasher u)) True s) (\<lambda>_ s.
              andThen (net (l_flush L) s) (\<lambda>_ s.
              andThen (poll_response L sid s) (put_answered offset bytes_to_send encoding))))))))))"

definition do_put ::
  "'c Link \<Rightarrow> ('d, 'e) ClientPrims \<Rightarrow> Settings \<Rightarrow> u64 \<Rightarrow> path \<Rightarrow> string \<Rightarrow> u64 \<Rightarrow> bool \<Rightarrow> 'c Client \<Rightarrow> ('c, unit) run" where
  "do_put L K opts sid local remote offset no_clobber s =
     count_failure (case do_put_inner L K opts sid local remote offset no_clobber True s of
        Some (Inl UnsupportedEncoding, s) \<Rightarrow>
          (let (sid, s) = take_stream s in do_put_inner L K opts sid local remote offset no_clobber False s)
      | r \<Rightarrow> r)"

section \<open>Probing for a partial upload\<close>

text \<open>
  \<open>temp_path_for\<close> on the text of a remote path: \<open>Path::parent\<close> and \<open>Path::file_name\<close> drop
  trailing separators and \<open>.\<close> pieces.
\<close>

fun trim_pieces :: "string list \<Rightarrow> string list" where
  "trim_pieces (p # q # ps) = (if p = [] \<or> p = ''.'' then trim_pieces (q # ps) else p # q # ps)"
| "trim_pieces ps = ps"

fun join_slash :: "string list \<Rightarrow> string" where
  "join_slash [] = []"
| "join_slash [p] = p"
| "join_slash (p # ps) = p @ ''/'' @ join_slash ps"

definition temp_text_for :: "string \<Rightarrow> string" where
  "temp_text_for remote =
     (case trim_pieces (rev (split_slash remote)) of
        [] \<Rightarrow> ''./'' @ partial_suffix
      | p # ps \<Rightarrow>
          (if ps = [] \<and> p = [] then ''./'' @ partial_suffix
           else (let name = (if p = ''.'' \<or> p = ''..'' then [] else p) @ partial_suffix;
                     parent = rev (trim_pieces ps)
                 in if ps = [] then name
                    else if parent = [[]] then ''/'' @ name
                    else join_slash parent @ ''/'' @ name)))"

definition acceptable_resume_offset :: "u64 \<Rightarrow> u64 \<Rightarrow> u64" where
  "acceptable_resume_offset partial_size local_size =
     (if partial_size > 0 \<and> partial_size \<le> local_size then partial_size else 0)"

definition probe_put_resume_offset :: "'c Link \<Rightarrow> string \<Rightarrow> u64 \<Rightarrow> 'c Client \<Rightarrow> (u64 \<times> 'c Client) option" where
  "probe_put_resume_offset L remote local_size s =
     map_option (\<lambda>(r, s).
       (case r of
          Inr (Resp_FileStat st) \<Rightarrow> (if \<not> FileStat_is_dir st then acceptable_resume_offset (st_size st) local_size else 0)
        | _ \<Rightarrow> 0, s)) (request_response L (Req_Stat (to_string_lossy (temp_text_for remote))) s)"

end
