(* ===== verification/Client_Get_Props.thy ===== *)
theory Client_Get_Props
  imports Client_Get
begin

text \<open>
  Properties of downloads on the client.
\<close>

section \<open>The body\<close>

text \<open>
  \<open>R\<close> are the bytes of the stream that were accepted so far, \<open>old\<close> the kept prefix. The file
  always holds what the hasher was fed; a plain body is split from the trailer at its length,
  which \<open>tag\<close> records; \<open>None\<close> marks a compressed body.
\<close>

definition dl_inv :: "u64 option \<Rightarrow> path \<Rightarrow> bytes \<Rightarrow> bytes \<Rightarrow> 'd Download \<Rightarrow> FS \<Rightarrow> bool" where
  "dl_inv tag place old R d fs \<longleftrightarrow>
     fr_place (dl_file d) = place \<and> file_bytes fs place = Some (dl_hasher d) \<and> fr_pos (dl_file d) = length (dl_hasher d) \<and>
     (case dl_body d of
        Body_Identity received bound \<Rightarrow>
          tag = Some bound \<and> dl_hasher d = old @ take (unat bound) R \<and> unat received = min (length R) (unat bound) \<and> dl_trailer d = drop (unat bound) R
      | Body_Zstd z \<Rightarrow>
          tag = None \<and> decoder_ok z \<and> zd_pending z = [] \<and> zd_pending_pos z = 0 \<and>
          (\<exists>plain comp. dl_hasher d = old @ plain \<and> length plain = unat (zd_decoded z) \<and> R = comp @ dl_trailer d \<and>
             (\<not> zd_frame_complete z \<longrightarrow> dl_trailer d = [])))"

lemma write_chunk_Inr:
  assumes "write_chunk ctx data d fs = (Inr d', fs')" "file_bytes fs (fr_place (dl_file d)) = Some (dl_hasher d)"
    "fr_pos (dl_file d) = length (dl_hasher d)"
  shows "file_bytes fs' (fr_place (dl_file d)) = Some (dl_hasher d @ data) \<and>
    d' = d\<lparr>dl_file := (dl_file d)\<lparr>fr_pos := length (dl_hasher d @ data)\<rparr>, dl_hasher := dl_hasher d @ data\<rparr>"
  using assms by (auto simp: write_chunk_def handle_write_def bindR_Inr_conv file_bytes_update split: sum.splits)

lemma accept_identity_inv:
  assumes a: "accept_download_bytes K input d fs = (Inr d', fs')" and i: "dl_inv tag place old R d fs"
    and b: "dl_body d = Body_Identity received bound"
  shows "dl_inv tag place old (R @ input) d' fs'"
proof (cases "received < bound")
  case False
  then have "unat bound \<le> length R" using i b by (auto simp: dl_inv_def word_less_nat_alt min_def split: if_splits)
  then show ?thesis using a i b False by (auto simp: accept_download_bytes_def dl_inv_def to_trailer_def)
next
  case True
  then have r: "unat received < unat bound" by (simp add: word_less_nat_alt)
  then have R: "length R = unat received" "dl_hasher d = old @ R" "dl_trailer d = []"
    using i b by (auto simp: dl_inv_def min_def split: if_splits)
  let ?n = "min (unat (bound - received)) (length input)"
  have n: "unat (bound - received) = unat bound - unat received" using r by (intro unat_minus_u64) simp
  have "?n \<le> unat bound - unat received" using n by simp
  then have lt: "unat received + ?n < 18446744073709551616" "?n < 18446744073709551616" using r unat_less_u64 [of bound] by linarith+
  have s: "unat (received + of_nat ?n) = unat received + ?n"
    using lt by (subst unat_plus_u64) (simp_all add: unat_of_nat_u64)
  have place: "fr_place (dl_file d) = place" "fr_pos (dl_file d) = length (dl_hasher d)" "file_bytes fs place = Some (dl_hasher d)"
    using i by (simp_all add: dl_inv_def)
  obtain d1 fs1 where w: "(if ?n > 0 then write_chunk ''writing body chunk'' (take ?n input) d fs else (Inr d, fs)) = (Inr d1, fs1)"
    and d': "d' = to_trailer (drop ?n input) (d1\<lparr>dl_body := Body_Identity (received + of_nat ?n) bound\<rparr>)" "fs' = fs1"
    using a b True by (auto simp: accept_download_bytes_def Let_def split: prod.splits sum.splits)
  have d1: "file_bytes fs1 place = Some (dl_hasher d @ take ?n input) \<and> dl_hasher d1 = dl_hasher d @ take ?n input \<and> dl_trailer d1 = dl_trailer d \<and>
     fr_place (dl_file d1) = place \<and> fr_pos (dl_file d1) = length (dl_hasher d1)"
    using w write_chunk_Inr [of "''writing body chunk''" "take ?n input" d fs d1 fs1] place by (auto split: if_splits)
  have "take (unat bound) (R @ input) = R @ take ?n input" "drop (unat bound) (R @ input) = drop ?n input"
    using R(1) n r by (auto simp: min_def)
  moreover have "tag = Some bound" using i b by (simp add: dl_inv_def)
  ultimately show ?thesis using d1 d' R n r s by (auto simp: dl_inv_def to_trailer_def min_def)
qed

lemma accept_zstd_inv:
  assumes a: "accept_download_bytes K input d fs = (Inr d', fs')" and i: "dl_inv tag place old R d fs"
    and b: "dl_body d = Body_Zstd z"
  shows "dl_inv tag place old (R @ input) d' fs'"
proof (cases "zd_frame_complete z")
  case True
  then show ?thesis using a i b by (auto simp: accept_download_bytes_def dl_inv_def to_trailer_def)
next
  case False
  have z: "decoder_ok z" "decoder_pending z = []" "dl_trailer d = []"
    using i b False by (auto simp: dl_inv_def decoder_pending_def)
  obtain plain where plain: "dl_hasher d = old @ plain" "length plain = unat (zd_decoded z)" using i b by (auto simp: dl_inv_def)
  have place: "fr_place (dl_file d) = place" "fr_pos (dl_file d) = length (dl_hasher d)" "file_bytes fs place = Some (dl_hasher d)"
    using i by (simp_all add: dl_inv_def)
  obtain p z' d1 where p: "decoder_push (k_decoder_run K) z input = (Inr p, z')" "drain_decoded_plaintext z' d fs = (Inr d1, fs')"
    "d' = (if dp_frame_complete p then to_trailer (drop (dp_consumed p) input) d1 else d1)" "\<not> dp_frame_complete p \<longrightarrow> length input \<le> dp_consumed p"
    using a b False by (auto simp: accept_download_bytes_def split: prod.splits sum.splits if_splits)
  have "zd_pending z = []" "zd_pending_pos z = 0" using i b by (simp_all add: dl_inv_def)
  with decoder_push_loop_spec [of "k_decoder_run K" z input 0 p z'] p(1) z(1) False
  have o: "decoder_ok z'" "dp_consumed p \<le> length input" "zd_pending_pos z' = 0"
    "unat (zd_decoded z') = unat (zd_decoded z) + length (zd_pending z')" "dp_frame_complete p = zd_frame_complete z'"
    by (auto simp: decoder_push_def)
  have d1: "file_bytes fs' place = Some (dl_hasher d1) \<and> dl_hasher d1 = dl_hasher d @ zd_pending z' \<and> dl_trailer d1 = [] \<and>
      fr_place (dl_file d1) = place \<and> fr_pos (dl_file d1) = length (dl_hasher d1) \<and> dl_body d1 = Body_Zstd (z'\<lparr>zd_pending := []\<rparr>)"
    using p(2) place z(3) o(3) write_chunk_Inr [of "''writing decoded zstd body chunk''" "zd_pending z'" d fs]
    by (auto simp: drain_decoded_plaintext_def decoder_pending_def decoder_consume_def split: if_splits prod.splits sum.splits)
  have ok: "decoder_ok (z'\<lparr>zd_pending := []\<rparr>)" using o(1,3) by (simp add: decoder_ok_def)
  have h: "dl_hasher d1 = old @ plain @ zd_pending z'" using d1 plain by simp
  have t: "tag = None" using i b by (simp add: dl_inv_def)
  show ?thesis
    using d1 ok h o plain p(3,4) z(3) t append_take_drop_id [of "dp_consumed p" input]
    by (auto simp: dl_inv_def to_trailer_def intro!: exI [of _ "plain @ zd_pending z'"] exI [of _ "R @ take (dp_consumed p) input"])
qed

lemma accept_inv:
  "accept_download_bytes K input d fs = (Inr d', fs') \<Longrightarrow> dl_inv tag place old R d fs \<Longrightarrow> dl_inv tag place old (R @ input) d' fs'"
  using accept_identity_inv accept_zstd_inv by (cases "dl_body d") blast+

section \<open>Receiving\<close>

lemma drain_stream_inv:
  "drain_stream K rs drained fin d fs = (Inr (drained', fin', d'), rs', fs') \<Longrightarrow> dl_inv tag place old R d fs \<Longrightarrow>
     \<exists>as. rs = as @ rs' \<and> dl_inv tag place old (R @ recvs_data as) d' fs'"
proof (induction K rs drained fin d fs arbitrary: R rule: drain_stream.induct)
  case (2 K e rs drained fin d fs)
  then show ?case by (intro exI [of _ "[Inl e]"]) (auto split: QuicError.splits)
next
  case (3 K data f rs drained fin d fs)
  obtain d1 fs1 where a: "(if data \<noteq> [] then accept_download_bytes K data d fs else (Inr d, fs)) = (Inr d1, fs1)"
    and r: "drain_stream K rs True (fin \<or> f) d1 fs1 = (Inr (drained', fin', d'), rs', fs')"
    using "3.prems"(1) by (auto split: prod.splits sum.splits)
  have "dl_inv tag place old (R @ data) d1 fs1" using a accept_inv [of K data d fs d1 fs1] "3.prems"(2) by (auto split: if_splits)
  from "3.IH" [OF _ _ r this] a show ?case by fastforce
qed auto

lemma drain_stream_one: "drain_stream K (take 1 rs) drained fin d fs = (Inr v, rs', fs') \<Longrightarrow> rs' = []"
  by (cases rs; cases "hd rs") (auto split: QuicError.splits if_splits prod.splits sum.splits)

lemma look_for_fin_inv:
  assumes "look_for_fin L K sid d s = Some (Inr (fin, d'), s')" and o: "in_order L unread" and i: "dl_inv tag place old R d (cl_fs s)"
  shows "\<exists>data. reads unread sid data s s' \<and> dl_inv tag place old (R @ data) d' (cl_fs s') \<and> cl_stats s' = cl_stats s"
proof -
  obtain u s1 where g1: "net (l_ingress L) s = Some (Inr u, s1)" and rest:
    "(let (r, rs, fs) = drain_stream K (take 1 (l_inbound L (cl_conn s1) sid)) False False d (cl_fs s1);
          s = s1\<lparr>cl_conn := l_taken L (cl_conn s1) sid (drop 1 (l_inbound L (cl_conn s1) sid)), cl_fs := fs\<rparr>
      in case r of Inl e \<Rightarrow> bail e s | Inr (_, fin, d) \<Rightarrow> andThen (net (l_flush L) s) (\<lambda>_ s. ret (fin, d) s)) = Some (Inr (fin, d'), s')"
    by (rule andThen_OkE [OF assms(1) [unfolded look_for_fin_def]])
  let ?i = "l_inbound L (cl_conn s1) sid"
  obtain r rs fs where dr: "drain_stream K (take 1 ?i) False False d (cl_fs s1) = (r, rs, fs)" by (rule prod_cases3)
  obtain v where v: "r = Inr v" using rest [unfolded dr Let_def prod.case] by (cases r) simp_all
  obtain drained fin' d1 where v': "v = (drained, fin', d1)" by (rule prod_cases3)
  obtain u' where g3: "net (l_flush L) (s1\<lparr>cl_conn := l_taken L (cl_conn s1) sid (drop 1 ?i), cl_fs := fs\<rparr>) = Some (Inr u', s')"
    and e: "fin' = fin" "d1 = d'"
    using rest [unfolded dr Let_def prod.case v v' sum.case] by (elim andThen_OkE) simp
  note g2 = dr [unfolded v v' e]
  let ?s = "s1\<lparr>cl_conn := l_taken L (cl_conn s1) sid (drop 1 ?i), cl_fs := fs\<rparr>"
  have q: "quiet unread s s1" by (rule ingress_quiet [OF o g1])
  then have "dl_inv tag place old R d (cl_fs s1)" using i by (simp add: quiet_def)
  from drain_stream_inv [OF g2 this] drain_stream_one [OF g2]
  have as: "dl_inv tag place old (R @ recvs_data (take 1 ?i)) d' fs" by auto
  have rd: "reads unread sid (recvs_data (take 1 ?i)) s1 ?s" by (rule taken_reads [OF o, of _ _ _ "drop 1 ?i"]) simp_all
  have q2: "quiet unread ?s s'" by (rule flush_quiet [OF o g3])
  have "reads unread sid (recvs_data (take 1 ?i)) s s'"
    using reads_trans [OF quiet_reads [OF q] reads_trans [OF rd quiet_reads [OF q2]]] by simp
  then show ?thesis using as q q2 by (auto simp: quiet_def)
qed

lemma receive_round_inv:
  assumes x: "receive_round L K sid local n want (fin, d) s = Some (Inr y, s')" and o: "in_order L unread"
    and i: "dl_inv tag place old R d (cl_fs s)"
  shows "\<exists>data. reads unread sid data s s' \<and> cl_stats s' = cl_stats s \<and>
    (case y of Inl (_, d') \<Rightarrow> dl_inv tag place old (R @ data) d' (cl_fs s')
     | Inr d' \<Rightarrow> dl_inv tag place old (R @ data) d' (cl_fs s') \<and> received_all want d')"
proof (cases "received_all want d")
  case True
  then show ?thesis using x i by (auto simp: receive_round_def reads_def intro!: exI [of _ "[]"])
next
  case False
  obtain u s1 where g1: "net (l_ingress L) s = Some (Inr u, s1)" and rest:
    "(let (r, rs, fs) = drain_stream K (l_inbound L (cl_conn s1) sid) False fin d (cl_fs s1);
          s = s1\<lparr>cl_conn := l_taken L (cl_conn s1) sid rs, cl_fs := fs\<rparr>
      in case r of Inl e \<Rightarrow> bail e s
         | Inr (drained, finished, d) \<Rightarrow> andThen (net (l_flush L) s) (\<lambda>_ s.
             if finished \<and> \<not> received_all want d then bail (early_close d n want) (remove_local local s)
             else if l_is_closed L (cl_conn s) \<and> \<not> received_all want d then bail (CE_Message ''connection closed during download'') s
             else andThen (if drained then ret () s else wait_event L 100 s) (\<lambda>_ s. ret (Inl (finished, d)) s))) = Some (Inr y, s')"
    by (rule andThen_OkE [OF x [unfolded receive_round_def Let_def [of "(fin, d)"] prod.case if_not_P [OF False]]])
  obtain r rs fs where dr: "drain_stream K (l_inbound L (cl_conn s1) sid) False fin d (cl_fs s1) = (r, rs, fs)" by (rule prod_cases3)
  obtain drained fin' d' s2 where r: "r = Inr (drained, fin', d')" and
    g3: "net (l_flush L) (s1\<lparr>cl_conn := l_taken L (cl_conn s1) sid rs, cl_fs := fs\<rparr>) = Some (Inr (), s2)"
    and g4: "(if drained then ret () s2 else wait_event L 100 s2) = Some (Inr (), s')" and y: "y = Inl (fin', d')"
    using rest [unfolded dr Let_def prod.case] by (cases r) (auto simp: andThen_Ok split: if_splits)
  note g2 = dr [unfolded r]
  let ?s = "s1\<lparr>cl_conn := l_taken L (cl_conn s1) sid rs, cl_fs := fs\<rparr>"
  have q: "quiet unread s s1" by (rule ingress_quiet [OF o g1])
  then have "dl_inv tag place old R d (cl_fs s1)" using i by (simp add: quiet_def)
  from drain_stream_inv [OF g2 this] obtain as where as: "l_inbound L (cl_conn s1) sid = as @ rs" "dl_inv tag place old (R @ recvs_data as) d' fs" by blast
  have r: "reads unread sid (recvs_data as) s1 ?s" by (rule taken_reads [OF o as(1)]) simp_all
  have q2: "quiet unread ?s s'"
    using quiet_trans [OF flush_quiet [OF o g3]] g4 wait_event_quiet [OF o, of 100 s2] flush_quiet [OF o g3] by (auto split: if_splits)
  have "reads unread sid (recvs_data as) s s'"
    using reads_trans [OF quiet_reads [OF q] reads_trans [OF r quiet_reads [OF q2]]] by simp
  then show ?thesis using as(2) q q2 y by (auto simp: quiet_def)
qed

lemma receive_loop_inv:
  fixes d' :: "'d Download"
  assumes "receive_loop L K sid local n want fin d s = Some (Inr d', s')" and o: "in_order L unread"
    and i: "dl_inv tag place old R d (cl_fs s)"
  shows "\<exists>data. reads unread sid data s s' \<and> dl_inv tag place old (R @ data) d' (cl_fs s') \<and> received_all want d' \<and> cl_stats s' = cl_stats s"
proof -
  define I where "I = (\<lambda>(x :: bool \<times> 'd Download) s1. \<exists>data. reads unread sid data s s1 \<and> dl_inv tag place old (R @ data) (snd x) (cl_fs s1) \<and> cl_stats s1 = cl_stats s)"
  define Q where "Q = (\<lambda>(r :: (ClientError, 'd Download) result) s1. \<forall>d'. r = Inr d' \<longrightarrow>
    (\<exists>data. reads unread sid data s s1 \<and> dl_inv tag place old (R @ data) d' (cl_fs s1) \<and> received_all want d' \<and> cl_stats s1 = cl_stats s))"
  have "Q (Inr d') s'"
    using assms(1) unfolding receive_loop_def
  proof (rule loop_rule [where I = I])
    show "I (fin, d) s" using i by (auto simp: I_def reads_def)
    show "I x1 s1" if ix: "I x s0" and rr: "receive_round L K sid local n want x s0 = Some (Inr (Inl x1), s1)" for x s0 x1 s1
    proof -
      obtain data where d: "reads unread sid data s s0" "dl_inv tag place old (R @ data) (snd x) (cl_fs s0)" "cl_stats s0 = cl_stats s"
        using ix by (auto simp: I_def)
      from receive_round_inv [OF _ o d(2), of K sid local n want "fst x" "Inl x1" s1] rr reads_trans [OF d(1)] d(3)
      show ?thesis by (cases x1) (fastforce simp: I_def)
    qed
    show "Q (Inr a) s1" if ix: "I x s0" and rr: "receive_round L K sid local n want x s0 = Some (Inr (Inr a), s1)" for x s0 a s1
    proof -
      obtain data where d: "reads unread sid data s s0" "dl_inv tag place old (R @ data) (snd x) (cl_fs s0)" "cl_stats s0 = cl_stats s"
        using ix by (auto simp: I_def)
      from receive_round_inv [OF _ o d(2), of K sid local n want "fst x" "Inr a" s1] rr reads_trans [OF d(1)] d(3)
      show ?thesis by (fastforce simp: Q_def)
    qed
    show "Q (Inl e) s1" for e s1 by (simp add: Q_def)
  qed
  then show ?thesis by (simp add: Q_def)
qed

section \<open>The local file\<close>

text \<open>The files on the client's disk are regular ones, directories or links, and not too long for a \<open>u64\<close>.\<close>

definition plain_disk :: "FS \<Rightarrow> bool" where
  "plain_disk fs \<longleftrightarrow> (\<forall>p n. lookup_node fs p = Some n \<longrightarrow> n_kind n \<noteq> KOther) \<and>
     (\<forall>p b. file_bytes fs p = Some b \<longrightarrow> length b < 2 ^ 64)"

lemma namei_no_link:
  "namei links fs cur rest follow = Inr q \<Longrightarrow> no_link fs q \<Longrightarrow> namei links fs cur rest True = Inr q"
proof (induction links fs cur rest follow rule: namei.induct)
  case (2 links fs cur c rest follow)
  have d: "is_dir_at fs cur" using "2.prems"(1) by (auto split: if_splits)
  show ?case
  proof (cases "\<exists>n t. c \<noteq> ''.'' \<and> c \<noteq> ''..'' \<and> lookup_node fs (cur @ [c]) = Some n \<and> n_kind n = KSymlink t")
    case True
    then obtain n t where c: "c \<noteq> ''.''" "c \<noteq> ''..''" "lookup_node fs (cur @ [c]) = Some n" "n_kind n = KSymlink t" by blast
    have "\<not> (rest = [] \<and> \<not> follow)" using "2.prems" c d by (cases follow) (auto simp: no_link_def)
    then obtain l where l: "links = Suc l" "namei l fs (if is_absolute t then [] else cur) (link_components t @ rest) follow = Inr q"
      using "2.prems"(1) c d by (auto simp del: namei.simps simp: namei.simps(2) split: nat.splits if_split_asm)
    then have "namei l fs (if is_absolute t then [] else cur) (link_components t @ rest) True = Inr q"
      using "2.IH" "2.prems"(2) c d \<open>\<not> (rest = [] \<and> \<not> follow)\<close> by blast
    then show ?thesis using c d l(1) by simp
  next
    case False
    then show ?thesis using "2.prems" "2.IH" d by (auto split: if_splits option.splits Kind.splits)
  qed
qed simp

definition local_place :: "FS \<Rightarrow> path \<Rightarrow> path \<Rightarrow> bool" where
  "local_place fs local place \<longleftrightarrow> namei MAXSYMLINKS fs [] local False = Inr place"

lemma open_local_Inr:
  assumes o: "open_local fs local off = Inr (place, fs')" and off: "off = resume_offset fs local" and pd: "plain_disk fs"
  shows "local_place fs local place \<and> (\<exists>old. file_bytes fs' place = Some old \<and> length old = unat off \<and>
    (off > 0 \<longrightarrow> file_bytes fs place = Some old))"
proof -
  let ?opts = "apply_no_follow (OpenOptions_new\<lparr>oo_read := True, oo_write := True, oo_create := True\<rparr>)"
  have flags: "oo_no_follow ?opts" "oo_write ?opts" "oo_create ?opts"
    by (simp_all add: apply_no_follow_def apply_secure_open_def OpenOptions_new_def)
  obtain fs1 where op: "open_file fs ?opts local = Inr (place, fs1)"
    and fs': "fs' = (if off = 0 then update_file fs1 place (\<lambda>_. []) else fs1)"
    using o by (auto simp: open_local_def split: sum.splits)
  obtain q where q: "syscall_path fs Sys_Open (\<not> oo_no_follow ?opts) local = Inr q"
    "(case lookup_node fs q of
        None \<Rightarrow> (if oo_create ?opts then Inr (q, set_node fs q (new_node fs (KFile []) (oo_mode ?opts))) else Inl ENOENT)
      | Some n \<Rightarrow> (case n_kind n of KSymlink t \<Rightarrow> Inl ELOOP
          | KDir \<Rightarrow> (if oo_write ?opts \<or> oo_create ?opts then Inl EISDIR else Inr (q, fs)) | _ \<Rightarrow> Inr (q, fs))) = Inr (place, fs1)"
    using op unfolding open_file_def bindR_Inr_conv by blast
  then have "q = place" by (auto split: option.splits Kind.splits if_splits)
  then have sp: "syscall_path fs Sys_Open False local = Inr place" using q(1) flags by simp
  then have nm: "namei MAXSYMLINKS fs [] local False = Inr place" "\<not> has_nul local" by (auto simp: syscall_path_def split: if_splits option.splits)
  show ?thesis
  proof (cases "lookup_node fs place")
    case None
    then have fs1: "fs1 = set_node fs place (new_node fs (KFile []) (oo_mode ?opts))" using op sp flags by (simp add: open_file_def)
    have p: "place \<noteq> []" using None by auto
    have "no_link fs place" using None by (simp add: no_link_def)
    have "off = 0" using namei_no_link [OF nm(1)] None off
      by (auto simp: resume_offset_def fs_metadata_def syscall_path_def bindR_Inr_conv no_link_def nm split: sum.splits if_splits option.splits)
    moreover have "file_bytes fs1 place = Some []" using p by (simp add: fs1 file_bytes_def fs_simps new_node_def)
    ultimately show ?thesis using nm fs' by (auto simp: local_place_def file_bytes_update)
  next
    case (Some n)
    then have "\<exists>b. n_kind n = KFile b" and fs1: "fs1 = fs" using op sp flags pd by (auto simp: open_file_def plain_disk_def split: Kind.splits)
    then obtain b where b: "n_kind n = KFile b" by blast
    then have fb: "file_bytes fs place = Some b" using Some by (simp add: file_bytes_def)
    have "no_link fs place" using Some b by (simp add: no_link_def)
    from namei_no_link [OF nm(1) this] have "off = 0 \<or> off = of_nat (length b)"
      using Some b off by (auto simp: resume_offset_def fs_metadata_def syscall_path_def bindR_Inr_conv node_size_def nm split: sum.splits if_splits option.splits)
    moreover have "length b < 2 ^ 64" using pd fb by (auto simp: plain_disk_def)
    ultimately show ?thesis using nm fs' fs1 fb
      by (auto simp: local_place_def file_bytes_update u64_simps)
  qed
qed

lemma hash_prefix_Inr:
  "hash_prefix k ctx fs rd left h = Inr (rd', h') \<Longrightarrow> 0 < k \<Longrightarrow> file_bytes fs (fr_place rd) = Some b \<Longrightarrow>
     h' = h @ take left (drop (fr_pos rd) b) \<and> (left \<le> length b - fr_pos rd)"
proof (induction k ctx fs rd left h rule: hash_prefix.induct)
  case (1 k ctx fs rd left h)
  show ?case
  proof (cases "left = 0")
    case True
    then show ?thesis using "1.prems" by (auto simp: hash_prefix.simps [of k ctx fs rd 0 h])
  next
    case False
    obtain n where n: "lookup_node fs (fr_place rd) = Some n" "n_kind n = KFile b"
      using "1.prems"(3) by (auto simp: file_bytes_def split: option.splits Kind.splits)
    let ?w = "min left k" and ?data = "take (min left k) (drop (fr_pos rd) b)"
    obtain rd1 where r: "read_exact fs rd ?w = (Inr ?data, rd1)" "hash_prefix k ctx fs rd1 (left - ?w) (h @ ?data) = Inr (rd', h')"
        "length ?data = ?w" "rd1 = rd\<lparr>fr_pos := fr_pos rd + ?w\<rparr>"
      using "1.prems"(1,2) False n
      by (subst (asm) hash_prefix.simps)
        (auto simp: Let_def read_exact_def handle_read_def handle_fault_def split: sum.splits option.splits if_splits)
    from "1.IH" [OF _ refl r(1) [symmetric] refl r(2) "1.prems"(2)] False "1.prems"(2,3) r(4)
    have IH: "h' = (h @ ?data) @ take (left - ?w) (drop (fr_pos rd + ?w) b)" "left - ?w \<le> length b - (fr_pos rd + ?w)" by simp_all
    have "take (min left k) (drop (fr_pos rd) b) @ take (left - min left k) (drop (fr_pos rd + min left k) b) = take left (drop (fr_pos rd) b)"
      by (metis add.commute drop_drop le_add_diff_inverse min.cobounded1 take_add)
    then show ?thesis using IH r(3) by auto
  qed
qed

lemma start_hasher_Inr:
  assumes "start_hasher fs place off = Inr (rd, h)" "file_bytes fs place = Some old" "length old = unat off"
  shows "rd = \<lparr>fr_place = place, fr_pos = length old\<rparr> \<and> h = old"
proof (cases "off > 0")
  case True
  obtain rd1 where "hash_prefix FILE_CHUNK_SIZE ''reading local prefix for hash'' fs \<lparr>fr_place = place, fr_pos = 0\<rparr> (unat off) [] = Inr (rd1, h)"
    "rd = \<lparr>fr_place = place, fr_pos = unat off\<rparr>"
    using assms(1) True by (auto simp: start_hasher_def handle_seek_def bindR_Inr_conv split: sum.splits)
  then show ?thesis using hash_prefix_Inr [of FILE_CHUNK_SIZE _ fs "\<lparr>fr_place = place, fr_pos = 0\<rparr>" "unat off" "[]" rd1 h old] assms(2,3)
    by (simp add: FILE_CHUNK_SIZE_def)
next
  case False
  then show ?thesis using assms by (auto simp: start_hasher_def word_gt_0)
qed

section \<open>A download\<close>

definition tag_of :: "FileReady \<Rightarrow> u64 option" where
  "tag_of fr = (if fr_encoding fr = Encoding_Zstd then None else Some (fr_size fr))"

lemma start_download_inv:
  assumes "start_body K fr = Inr body" "file_bytes fs place = Some old"
  shows "dl_inv (tag_of fr) place old [] \<lparr>dl_file = \<lparr>fr_place = place, fr_pos = length old\<rparr>, dl_body = body, dl_hasher = old, dl_trailer = []\<rparr> fs"
  using assms by (auto simp: start_body_def dl_inv_def tag_of_def ZstdDecoder_new_def decoder_ok_def word_le_nat_alt split: if_splits sum.splits)

lemma check_ready_Inr:
  assumes "check_ready off fr = Inr n"
  shows "unat (fr_total_size fr) = unat off + unat n \<and> (fr_encoding fr = Encoding_Zstd \<longrightarrow> n = fr_plaintext_size fr) \<and>
    (fr_encoding fr \<noteq> Encoding_Zstd \<longrightarrow> fr_encoding fr = Encoding_Identity \<and> n = fr_size fr)"
proof -
  have "unat off + unat n < 2 ^ 64" "fr_total_size fr = off + n" "fr_encoding fr = Encoding_Zstd \<longrightarrow> n = fr_plaintext_size fr"
    "fr_encoding fr \<noteq> Encoding_Zstd \<longrightarrow> fr_encoding fr = Encoding_Identity \<and> n = fr_size fr"
    using assms by (auto simp: check_ready_def bindR_Inr_conv split: Encoding.splits if_splits)
  then show ?thesis by (simp only: unat_plus_u64)
qed

text \<open>The bytes of the file, split from what followed them on the stream.\<close>

lemma received_inv:
  assumes i: "dl_inv (tag_of fr) place old R d fs" and all: "received_all want d" and n: "check_ready off fr = Inr n"
    and old: "length old = unat off" and z: "\<And>z. dl_body d = Body_Zstd z \<Longrightarrow> zd_decoded z = fr_plaintext_size fr"
  shows "\<exists>body. R = body @ dl_trailer d \<and> file_bytes fs place = Some (dl_hasher d) \<and> prefix old (dl_hasher d) \<and>
    length (dl_hasher d) = unat (fr_total_size fr) \<and> (fr_encoding fr = Encoding_Identity \<longrightarrow> body = drop (unat off) (dl_hasher d))"
proof (cases "dl_body d")
  case (Body_Identity received bound)
  then have "fr_encoding fr \<noteq> Encoding_Zstd" "bound = fr_size fr" using i by (auto simp: dl_inv_def tag_of_def split: if_splits)
  moreover have "unat bound \<le> length R" using i all Body_Identity
    by (auto simp: dl_inv_def received_all_def word_le_nat_alt min_def split: if_splits)
  ultimately show ?thesis using i check_ready_Inr [OF n] old Body_Identity
    by (intro exI [of _ "take (unat bound) R"]) (auto simp: dl_inv_def)
next
  case (Body_Zstd z)
  then have e: "fr_encoding fr = Encoding_Zstd" using i by (auto simp: dl_inv_def tag_of_def split: if_splits)
  obtain plain comp where p: "dl_hasher d = old @ plain" "length plain = unat (zd_decoded z)" "R = comp @ dl_trailer d"
    using i Body_Zstd by (auto simp: dl_inv_def)
  then show ?thesis using i Body_Zstd check_ready_Inr [OF n] old z [OF Body_Zstd] e by (auto simp: dl_inv_def)
qed

lemma finish_download_Ok:
  assumes "finish_download K local fr n d s = Some (Inr (), s')"
  shows "cl_conn s' = cl_conn s \<and> cl_fs s' = cl_fs s \<and> cl_stats s' = record_download n (cl_stats s) \<and> cl_next_stream_id s' = cl_next_stream_id s \<and>
    (\<forall>z. dl_body d = Body_Zstd z \<longrightarrow> zd_decoded z = fr_plaintext_size fr) \<and>
    (fr_checksum_follows fr \<longrightarrow> k_blake3 K (dl_hasher d) = take 32 (dl_trailer d))"
  using assms
  by (cases "dl_body d") (auto simp: finish_download_def andThen_Ok split: if_splits sum.splits)

text \<open>
  What a finished download leaves: \<open>wire\<close> are the bytes that followed the announcement \<open>fr\<close> on
  the stream.
\<close>

definition downloaded :: "(bytes \<Rightarrow> bytes) \<Rightarrow> path \<Rightarrow> FS \<Rightarrow> FileReady \<Rightarrow> bytes \<Rightarrow> FS \<Rightarrow> bool" where
  "downloaded blake3 local fs fr wire fs' \<longleftrightarrow>
     (\<exists>place b body rest. local_place fs local place \<and> file_bytes fs' place = Some b \<and> length b = unat (fr_total_size fr) \<and>
        wire = body @ rest \<and> (fr_checksum_follows fr \<longrightarrow> 32 \<le> length rest \<and> take 32 rest = blake3 b) \<and>
        (fr_encoding fr = Encoding_Identity \<longrightarrow> body = drop (unat (resume_offset fs local)) b) \<and>
        (resume_offset fs local > 0 \<longrightarrow> (\<exists>old. file_bytes fs place = Some old \<and> length old = unat (resume_offset fs local) \<and> prefix old b)))"

lemma receive_file_downloaded:
  assumes r: "receive_file L K sid local (resume_offset (cl_fs s) local) fr carry s = Some (Inr (), s')"
    and o: "in_order L unread" and pd: "plain_disk (cl_fs s)"
  shows "\<exists>data n. reads unread sid data s s' \<and> downloaded (k_blake3 K) local (cl_fs s) fr (carry @ data) (cl_fs s') \<and>
    cl_stats s' = record_download n (cl_stats s)"
proof -
  let ?off = "resume_offset (cl_fs s) local" and ?want = "if fr_checksum_follows fr then 32 else 0 :: nat"
  obtain n place fs where n: "check_ready ?off fr = Inr n" and op: "open_local (cl_fs s) local ?off = Inr (place, fs)"
    using r by (cases "check_ready ?off fr"; cases "open_local (cl_fs s) local ?off") (auto simp: receive_file_def)
  from open_local_Inr [OF op refl pd] obtain old where old: "local_place (cl_fs s) local place" "file_bytes fs place = Some old"
    "length old = unat ?off" "?off > 0 \<longrightarrow> file_bytes (cl_fs s) place = Some old" by blast
  obtain rd h body where h: "start_hasher fs place ?off = Inr (rd, h)" and body: "start_body K fr = Inr body"
    using r n op by (cases "start_hasher fs place ?off"; cases "start_body K fr") (auto simp: receive_file_def Let_def)
  note rd = start_hasher_Inr [OF h old(2,3)]
  let ?d = "\<lparr>dl_file = rd, dl_body = body, dl_hasher = h, dl_trailer = []\<rparr>"
  have i0: "dl_inv (tag_of fr) place old [] ?d fs" using start_download_inv [OF body old(2)] rd by simp
  obtain a fs1 where ac: "(if carry \<noteq> [] then accept_download_bytes K carry ?d fs else (Inr ?d, fs)) = (a, fs1)" by (rule prod.exhaust)
  then obtain d1 where a: "a = Inr d1" using r n op h body by (cases a) (auto simp: receive_file_def Let_def)
  have i1: "dl_inv (tag_of fr) place old carry d1 fs1"
    using ac a i0 accept_inv [of K carry ?d fs d1 fs1 "tag_of fr" place old "[]"] by (auto split: if_splits)
  let ?s1 = "s\<lparr>cl_fs := fs1\<rparr>"
  obtain fin d2 s2 where l: "(if received_all ?want d1 then look_for_fin L K sid d1 ?s1 else ret (False, d1) ?s1) = Some (Inr (fin, d2), s2)"
    and rest: "andThen (receive_loop L K sid local n ?want fin d2 s2) (\<lambda>d s. finish_download K local fr n d s) = Some (Inr (), s')"
    using r n op h body ac a by (auto simp: receive_file_def Let_def andThen_Ok)
  obtain data1 where d1: "reads unread sid data1 ?s1 s2" "dl_inv (tag_of fr) place old (carry @ data1) d2 (cl_fs s2)" "cl_stats s2 = cl_stats s"
    using l look_for_fin_inv [OF _ o, of K sid d1 ?s1 fin d2 s2 "tag_of fr" place old carry] i1
    by (auto split: if_splits simp: reads_def)
  obtain d3 s3 where lo: "receive_loop L K sid local n ?want fin d2 s2 = Some (Inr d3, s3)" and fi: "finish_download K local fr n d3 s3 = Some (Inr (), s')"
    using rest by (rule andThen_OkE)
  from receive_loop_inv [OF lo o d1(2)] obtain data2 where
    d2: "reads unread sid data2 s2 s3" "dl_inv (tag_of fr) place old (carry @ data1 @ data2) d3 (cl_fs s3)" "received_all ?want d3" "cl_stats s3 = cl_stats s2"
    by auto
  note f = finish_download_Ok [OF fi]
  have rr: "reads unread sid (data1 @ data2) s s'" using reads_trans [OF d1(1) d2(1)] f by (simp add: reads_def)
  from received_inv [OF d2(2,3) n old(3)] f obtain b where b: "carry @ data1 @ data2 = b @ dl_trailer d3" "file_bytes (cl_fs s') place = Some (dl_hasher d3)"
    "prefix old (dl_hasher d3)" "length (dl_hasher d3) = unat (fr_total_size fr)" "fr_encoding fr = Encoding_Identity \<longrightarrow> b = drop (unat ?off) (dl_hasher d3)"
    by auto
  have "downloaded (k_blake3 K) local (cl_fs s) fr (carry @ data1 @ data2) (cl_fs s')"
    unfolding downloaded_def
    using b old f d2(3) by (intro exI [of _ place] exI [of _ "dl_hasher d3"] exI [of _ b] exI [of _ "dl_trailer d3"])
      (auto simp: received_all_def)
  then show ?thesis using rr f d1(3) d2(4) by (intro exI [of _ "data1 @ data2"] exI [of _ n]) simp
qed

section \<open>Stale partial files\<close>

text \<open>The signal to start over is raised only for the answer \<open>InvalidRange\<close>.\<close>

lemma accept_not_stale: "accept_download_bytes K input d fs \<noteq> (Inl StalePartial, fs')"
  by (auto simp: accept_download_bytes_def write_chunk_def drain_decoded_plaintext_def Let_def
      split: DownloadBody.splits prod.splits sum.splits if_splits)

lemma drain_stream_not_stale: "drain_stream K rs drained fin d fs \<noteq> (Inl StalePartial, rs', fs')"
proof (induction K rs drained fin d fs rule: drain_stream.induct)
  case (3 K data f rs drained fin d fs)
  obtain r fs1 where a: "(if data \<noteq> [] then accept_download_bytes K data d fs else (Inr d, fs)) = (r, fs1)" by (rule prod.exhaust)
  show ?case
  proof (cases r)
    case (Inl e)
    then have "e \<noteq> StalePartial" using a accept_not_stale [of K data d fs fs1] by (auto split: if_splits)
    then show ?thesis using a Inl by simp
  next
    case (Inr d1)
    then show ?thesis using a "3.IH" [OF a [symmetric] Inr] by simp
  qed
qed (auto split: QuicError.splits)

lemma net_not_stale: "net call s \<noteq> Some (Inl StalePartial, s')"
  by (auto simp: net_def split: prod.splits sum.splits)

lemma wait_not_stale: "wait_event L t s \<noteq> Some (Inl StalePartial, s')"
  by (auto simp: wait_event_def split: prod.splits sum.splits)

lemma look_for_fin_not_stale: "look_for_fin L K sid d s \<noteq> Some (Inl StalePartial, s')"
  by (auto simp: look_for_fin_def andThen_Err net_not_stale drain_stream_not_stale Let_def split: prod.splits sum.splits)

lemma receive_round_not_stale: "receive_round L K sid local n want x s \<noteq> Some (Inl StalePartial, s')"
  by (auto simp: receive_round_def andThen_Err net_not_stale wait_not_stale drain_stream_not_stale early_close_def Let_def split: prod.splits sum.splits if_splits)

lemma receive_loop_not_stale: "receive_loop L K sid local n want fin d s \<noteq> Some (Inl StalePartial, s')"
proof
  assume "receive_loop L K sid local n want fin d s = Some (Inl StalePartial, s')"
  then have "(Inl StalePartial :: (ClientError, 'a Download) result) \<noteq> Inl StalePartial"
    unfolding receive_loop_def
    by (rule loop_rule [where I = "\<lambda>x s. True" and Q = "\<lambda>r s. r \<noteq> Inl StalePartial"]) (auto simp: receive_round_not_stale)
  then show False by simp
qed

lemma finish_not_stale: "finish_download K local fr n d s \<noteq> Some (Inl StalePartial, s')"
  by (cases "dl_body d") (auto simp: finish_download_def andThen_Err split: sum.splits if_splits)

lemma hash_prefix_not_stale: "hash_prefix k ctx fs rd left h \<noteq> Inl StalePartial"
  by (induction k ctx fs rd left h rule: hash_prefix.induct, subst hash_prefix.simps) (auto simp: Let_def split: prod.splits sum.splits)

lemma start_not_stale:
  "check_ready off fr \<noteq> Inl StalePartial" "open_local fs local off \<noteq> Inl StalePartial" "start_hasher fs place off \<noteq> Inl StalePartial"
  "start_body K fr \<noteq> Inl StalePartial"
  by (auto simp: check_ready_def open_local_def start_hasher_def start_body_def bindR_Inl_conv hash_prefix_not_stale
      split: Encoding.splits sum.splits prod.splits if_splits)

lemma receive_file_not_stale: "receive_file L K sid local off fr carry s \<noteq> Some (Inl StalePartial, s')"
proof
  assume r: "receive_file L K sid local off fr carry s = Some (Inl StalePartial, s')"
  obtain n place fs where n: "check_ready off fr = Inr n" and op: "open_local (cl_fs s) local off = Inr (place, fs)"
    using r by (cases "check_ready off fr"; cases "open_local (cl_fs s) local off") (auto simp: receive_file_def start_not_stale)
  obtain rd h body where h: "start_hasher fs place off = Inr (rd, h)" and body: "start_body K fr = Inr body"
    using r n op by (cases "start_hasher fs place off"; cases "start_body K fr") (auto simp: receive_file_def Let_def start_not_stale)
  let ?d = "\<lparr>dl_file = rd, dl_body = body, dl_hasher = h, dl_trailer = []\<rparr>"
  obtain a fs1 where ac: "(if carry \<noteq> [] then accept_download_bytes K carry ?d fs else (Inr ?d, fs)) = (a, fs1)" by (rule prod.exhaust)
  have "a \<noteq> Inl StalePartial" using ac accept_not_stale [of K carry ?d fs fs1] by (auto split: if_splits)
  then obtain d1 where a: "a = Inr d1" using r n op h body ac by (cases a) (auto simp: receive_file_def Let_def)
  from r n op h body ac a show False
    by (auto simp: receive_file_def Let_def andThen_Err look_for_fin_not_stale receive_loop_not_stale finish_not_stale split: if_splits)
qed

lemma poll_round_not_stale: "poll_response_round L sid buf s \<noteq> Some (Inl StalePartial, s')"
  by (auto simp: poll_response_round_def andThen_Err net_not_stale wait_not_stale Let_def split: prod.splits sum.splits option.splits if_splits)

lemma poll_response_not_stale: "poll_response_with_buf L sid buf s \<noteq> Some (Inl StalePartial, s')"
proof
  assume "poll_response_with_buf L sid buf s = Some (Inl StalePartial, s')"
  then have "(Inl StalePartial :: (ClientError, Response \<times> bytes) result) \<noteq> Inl StalePartial"
    unfolding poll_response_with_buf_def
    by (rule loop_rule [where I = "\<lambda>x s. True" and Q = "\<lambda>r s. r \<noteq> Inl StalePartial"]) (auto simp: poll_round_not_stale)
  then show False by simp
qed

text \<open>The steps that both outcomes share: the request is sent and a response is read.\<close>

lemma do_get_inner_answer:
  assumes g: "do_get_inner L K opts sid remote local s = Some (r, s')" and r: "r = Inr () \<or> r = Inl StalePartial" and o: "in_order L unread"
  obtains resp carry data s1 where "reads unread sid data s s1" "decodes data resp carry" "cl_fs s1 = cl_fs s" "cl_stats s1 = cl_stats s"
    "get_answered L K sid local (resume_offset (cl_fs s) local) (resp, carry) s1 = Some (r, s')"
proof -
  let ?req = "get_request opts remote (resume_offset (cl_fs s) local)" and ?k = "get_answered L K sid local (resume_offset (cl_fs s) local)"
  obtain u1 u2 u3 a b c x d where st: "send_request L sid ?req s = Some (Inr u1, a)" "send_fin L sid a = Some (Inr u2, b)"
      "net (l_flush L) b = Some (Inr u3, c)" "poll_response_with_buf L sid [] c = Some (Inr x, d)" "?k x d = Some (r, s')"
  proof (cases r)
    case (Inl e)
    then show thesis using that g r unfolding do_get_inner_def Let_def send_request_def send_fin_def
      by (auto simp: andThen_Err net_not_stale poll_response_not_stale)
  next
    case (Inr u)
    from g [unfolded Inr do_get_inner_def Let_def] show thesis by (elim andThen_OkE) (rule that, simp_all add: Inr)
  qed
  obtain resp carry where x: "x = (resp, carry)" by (cases x)
  have q: "quiet unread s c"
    by (rule quiet_trans [OF quiet_trans [OF send_request_quiet [OF o st(1)] send_fin_quiet [OF o st(2)]] flush_quiet [OF o st(3)]])
  from poll_response_reads [OF st(4) [unfolded x] o] obtain data where p: "reads unread sid data c d" "decodes data resp carry"
    "cl_fs d = cl_fs c" "cl_stats d = cl_stats c" by auto
  have "reads unread sid data s d" using reads_trans [OF quiet_reads [OF q] p(1)] by simp
  then show thesis using that p q st(5) x by (simp add: quiet_def)
qed

lemma do_get_inner_downloaded:
  assumes g: "do_get_inner L K opts sid remote local s = Some (Inr (), s')" and o: "in_order L unread" and pd: "plain_disk (cl_fs s)"
  shows "\<exists>p fr carry data n. reads unread sid (p @ data) s s' \<and> decodes p (Resp_FileReady fr) carry \<and>
    downloaded (k_blake3 K) local (cl_fs s) fr (carry @ data) (cl_fs s') \<and> cl_stats s' = record_download n (cl_stats s)"
proof (rule do_get_inner_answer [OF g _ o])
  fix resp carry p s1
  assume a: "reads unread sid p s s1" "decodes p resp carry" "cl_fs s1 = cl_fs s" "cl_stats s1 = cl_stats s"
    and r: "get_answered L K sid local (resume_offset (cl_fs s) local) (resp, carry) s1 = Some (Inr (), s')"
  obtain fr where fr: "resp = Resp_FileReady fr" using r by (cases resp) (auto simp: get_answered_def split: if_splits)
  have "receive_file L K sid local (resume_offset (cl_fs s1) local) fr carry s1 = Some (Inr (), s')" using r fr a(3) by (simp add: get_answered_def)
  from receive_file_downloaded [OF this o] pd a(3,4) obtain data n where
    d: "reads unread sid data s1 s'" "downloaded (k_blake3 K) local (cl_fs s) fr (carry @ data) (cl_fs s')" "cl_stats s' = record_download n (cl_stats s)"
    by auto
  then show ?thesis using reads_trans [OF a(1) d(1)] a(2) fr by metis
qed simp

lemma do_get_inner_stale:
  assumes g: "do_get_inner L K opts sid remote local s = Some (Inl StalePartial, s')" and o: "in_order L unread"
  shows "(\<exists>p. reads unread sid p s s') \<and> (cl_fs s' = cl_fs s \<or> remove_file (cl_fs s) local = Inr (cl_fs s')) \<and> cl_stats s' = cl_stats s"
proof (rule do_get_inner_answer [OF g _ o])
  fix resp carry p s1
  assume a: "reads unread sid p s s1" "cl_fs s1 = cl_fs s" "cl_stats s1 = cl_stats s"
    and r: "get_answered L K sid local (resume_offset (cl_fs s) local) (resp, carry) s1 = Some (Inl StalePartial, s')"
  have "s' = remove_local local s1" using r by (cases resp) (auto simp: get_answered_def receive_file_not_stale split: if_splits)
  then show ?thesis using a by (auto simp: remove_local_def reads_def split: sum.splits)
qed simp

lemma plain_disk_remove: "plain_disk fs \<Longrightarrow> remove_file fs p = Inr fs' \<Longrightarrow> plain_disk fs'"
  by (auto simp: plain_disk_def remove_file_def bindR_Inr_conv file_bytes_def fs_simps split: if_splits option.splits)

section \<open>The property\<close>

text \<open>
  C4: a download that reports success is verified. When \<open>do_get\<close> returns \<open>Ok\<close>, one of the two streams
  it may have opened carried an announcement \<open>fr\<close> followed by a body and a trailer; the local file
  has exactly the announced total length, its BLAKE3 digest is the 32 bytes after the body unless
  the server announced that no digest follows, a plain body is the part of it after the kept
  prefix, and the prefix is the file that was there before (or nothing, if that was refused as
  stale and removed). One download is counted, and no failure.
\<close>

theorem download_verified:
  assumes g: "do_get L K opts remote local s = Some (Inr (), s')" and o: "in_order L unread" and pd: "plain_disk (cl_fs s)"
  shows "\<exists>sid fs0 p fr carry data n. sid \<in> {cl_next_stream_id s, cl_next_stream_id s + 4} \<and>
    (fs0 = cl_fs s \<or> remove_file (cl_fs s) local = Inr fs0) \<and>
    unread (cl_conn s) sid = p @ data @ unread (cl_conn s') sid \<and> decodes p (Resp_FileReady fr) carry \<and>
    downloaded (k_blake3 K) local fs0 fr (carry @ data) (cl_fs s') \<and> cl_stats s' = record_download n (cl_stats s)"
proof -
  let ?sid = "cl_next_stream_id s" and ?s0 = "s\<lparr>cl_next_stream_id := cl_next_stream_id s + 4\<rparr>"
  show ?thesis
  proof (cases "\<exists>s1. do_get_inner L K opts ?sid remote local ?s0 = Some (Inl StalePartial, s1)")
    case False
    then have "do_get_inner L K opts ?sid remote local ?s0 = Some (Inr (), s')"
      using g by (cases "do_get_inner L K opts ?sid remote local ?s0")
        (auto simp: do_get_def take_stream_def count_failure_def split: sum.splits ClientError.splits)
    from do_get_inner_downloaded [OF this o] pd obtain p fr carry data n where
      d: "reads unread ?sid (p @ data) ?s0 s'" "decodes p (Resp_FileReady fr) carry"
        "downloaded (k_blake3 K) local (cl_fs s) fr (carry @ data) (cl_fs s')" "cl_stats s' = record_download n (cl_stats s)" by auto
    show ?thesis
      by (rule exI [of _ ?sid], rule exI [of _ "cl_fs s"], rule exI [of _ p], rule exI [of _ fr], rule exI [of _ carry],
          rule exI [of _ data], rule exI [of _ n]) (use d in \<open>simp add: reads_def\<close>)
  next
    case True
    then obtain s1 where s1: "do_get_inner L K opts ?sid remote local ?s0 = Some (Inl StalePartial, s1)" ..
    let ?s1 = "s1\<lparr>cl_next_stream_id := cl_next_stream_id s1 + 4\<rparr>"
    have g2: "do_get_inner L K opts (cl_next_stream_id s1) remote local ?s1 = Some (Inr (), s')"
      using g s1 by (auto simp: do_get_def take_stream_def count_failure_def split: sum.splits)
    from do_get_inner_stale [OF s1 o] obtain q where st: "reads unread ?sid q ?s0 s1"
      "cl_fs s1 = cl_fs s \<or> remove_file (cl_fs s) local = Inr (cl_fs s1)" "cl_stats s1 = cl_stats s" by auto
    then have "plain_disk (cl_fs ?s1)" and id: "cl_next_stream_id s1 = ?sid + 4" using pd plain_disk_remove by (auto simp: reads_def)
    from do_get_inner_downloaded [OF g2 o this(1)] obtain p fr carry data n where
      d: "reads unread (?sid + 4) (p @ data) ?s1 s'" "decodes p (Resp_FileReady fr) carry"
        "downloaded (k_blake3 K) local (cl_fs s1) fr (carry @ data) (cl_fs s')" "cl_stats s' = record_download n (cl_stats s1)" by (auto simp: id)
    have "?sid + 4 \<noteq> ?sid" by simp
    then have "unread (cl_conn s) (?sid + 4) = p @ data @ unread (cl_conn s') (?sid + 4)" using st(1) d(1) by (simp add: reads_def)
    then show ?thesis
      by (intro exI [of _ "?sid + 4"] exI [of _ "cl_fs s1"] exI [of _ p] exI [of _ fr] exI [of _ carry] exI [of _ data] exI [of _ n])
        (use d st in simp)
  qed
qed

end
