(* ===== verification/Client_Put_Props.thy ===== *)
theory Client_Put_Props
  imports Client_Put Client_Get_Props Get_Props
begin

text \<open>
  Properties of uploads on the client: what is on the stream when \<open>do_put\<close> reports success.
\<close>

section \<open>What a step adds to the stream\<close>

text \<open>
  \<open>sent\<close> are the bytes that were given to a stream: sending appends what was accepted, and
  reading and serving the connection leave them alone.
\<close>

definition sends :: "'c Link \<Rightarrow> ('c \<Rightarrow> u64 \<Rightarrow> bytes) \<Rightarrow> ('c \<Rightarrow> u64 \<Rightarrow> bytes) \<Rightarrow> bool" where
  "sends L unread sent \<longleftrightarrow>
     in_order L unread \<and> send_delivers (l_stream_send L) sent \<and> keeps L sent \<and> (\<forall>c sid rs. sent (l_taken L c sid rs) = sent c)"

lemma sendsD:
  assumes "sends L unread sent"
  shows "send_delivers (l_stream_send L) sent" "keeps L (\<lambda>c. (unread c, sent c))" "sent (l_taken L c sid rs) = sent c" "in_order L unread"
    "keeps L sent"
  using assms by (auto simp: sends_def in_order_def keeps_def)

definition grows :: "('c \<Rightarrow> u64 \<Rightarrow> bytes) \<Rightarrow> ('c \<Rightarrow> u64 \<Rightarrow> bytes) \<Rightarrow> u64 \<Rightarrow> bytes \<Rightarrow> 'c Client \<Rightarrow> 'c Client \<Rightarrow> bool" where
  "grows unread sent sid data s s' \<longleftrightarrow>
     sent (cl_conn s') sid = sent (cl_conn s) sid @ data \<and> unread (cl_conn s') = unread (cl_conn s) \<and>
     cl_fs s' = cl_fs s \<and> cl_stats s' = cl_stats s"

lemma grows_trans: "grows unread sent sid a s s1 \<Longrightarrow> grows unread sent sid b s1 s2 \<Longrightarrow> grows unread sent sid (a @ b) s s2"
  by (simp add: grows_def)

lemma grows_refl: "grows unread sent sid [] s s"
  by (simp add: grows_def)

lemma quiet_grows: "quiet (\<lambda>c. (unread c, sent c)) s s' \<Longrightarrow> grows unread sent sid [] s s'"
  by (simp add: quiet_def grows_def)

lemma quiet_refl: "quiet g s s"
  by (simp add: quiet_def)

lemma grows_quiet: "grows unread sent sid a s s1 \<Longrightarrow> quiet (\<lambda>c. (unread c, sent c)) s1 s2 \<Longrightarrow> grows unread sent sid a s s2"
  by (simp add: quiet_def grows_def)

lemma read_clock_keeps: "keeps L g \<Longrightarrow> read_clock L s = (t, s') \<Longrightarrow> quiet g s s'"
  using keepsD(5) [of L g "cl_conn s"] by (auto simp: read_clock_def quiet_def split: prod.splits)

lemmas serve_keeps = flush_keeps ingress_keeps wait_event_keeps read_clock_keeps

lemma pace_round_keeps:
  assumes k: "keeps L g" and r: "pace_round L deadline x s = Some (Inr y, s')"
  shows "quiet g s s'"
proof -
  obtain t s1 where t: "read_clock L s = (t, s1)" by (cases "read_clock L s")
  have q1: "quiet g s s1" by (rule read_clock_keeps [OF k t])
  show ?thesis
  proof (cases "t < deadline")
    case False
    then show ?thesis using r t q1 by (simp add: pace_round_def)
  next
    case True
    then obtain s2 s3 where n: "net (l_ingress L) s1 = Some (Inr (), s2)" "net (l_flush L) s2 = Some (Inr (), s3)"
      and e: "(let s = s3\<lparr>cl_conn := l_on_timeout L (cl_conn s3)\<rparr>
               in if l_is_closed L (cl_conn s) then bail (CE_Message ''connection closed during bandwidth-limit wait'') s
                  else (let (now, s) = read_clock L s;
                            slice = min (deadline - now) (min 50000000 (opt_or (l_timeout L (cl_conn s)) 50000000))
                        in ret (Inl ()) (if slice \<noteq> 0 then s\<lparr>cl_conn := l_sleep L slice (cl_conn s)\<rparr> else s))) = Some (Inr y, s')"
      using r t by (auto simp: pace_round_def elim!: andThen_OkE)
    let ?s = "s3\<lparr>cl_conn := l_on_timeout L (cl_conn s3)\<rparr>"
    obtain t' s4 where t': "read_clock L ?s = (t', s4)" by (cases "read_clock L ?s")
    have "quiet g s4 s'" using e t' k by (auto simp: Let_def quiet_def keepsD split: if_splits)
    moreover have "quiet g s3 ?s" using k by (simp add: quiet_def keepsD)
    ultimately show ?thesis
      using quiet_trans q1 serve_keeps(1,2) [OF k] n read_clock_keeps [OF k t'] by meson
  qed
qed

lemma pace_keeps:
  assumes k: "keeps L g" and r: "pace L p n s = Some (Inr p', s')"
  shows "quiet g s s'"
proof (cases "pc_rate p \<le> 0")
  case True
  then show ?thesis using r by (simp add: pace_def quiet_refl)
next
  case False
  obtain t s1 where t: "read_clock L s = (t, s1)" by (cases "read_clock L s")
  obtain w p1 where w: "consume t n p = (w, p1)" by (cases "consume t n p")
  obtain t' s2 where t': "read_clock L s1 = (t', s2)" by (cases "read_clock L s1")
  note q = read_clock_keeps [OF k t] read_clock_keeps [OF k t']
  show ?thesis
  proof (cases "w = 0")
    case True
    then show ?thesis using r False t w q(1) by (simp add: pace_def)
  next
    case w0: False
    then obtain x where "loop (pace_round L (t' + w)) () s2 = Some (Inr x, s')"
      using r False t w t' by (auto simp: pace_def elim!: andThen_OkE)
    then have "(\<lambda>r s1. is_ok r \<longrightarrow> quiet g s2 s1) (Inr x :: (ClientError, unit) result) s'"
    proof (rule loop_rule [where I = "\<lambda>_. quiet g s2"])
      show "quiet g s2 s2" by (rule quiet_refl)
      show "quiet g s2 s1" if "quiet g s2 s0" "pace_round L (t' + w) x0 s0 = Some (Inr (Inl x1), s1)" for x0 s0 x1 s1
        using pace_round_keeps [OF k that(2)] quiet_trans that(1) by blast
      show "is_ok (Inr a) \<longrightarrow> quiet g s2 s1" if "quiet g s2 s0" "pace_round L (t' + w) x0 s0 = Some (Inr (Inr a), s1)" for x0 s0 a s1
        using pace_round_keeps [OF k that(2)] quiet_trans that(1) by blast
    qed (simp add: is_ok_def)
    then show ?thesis using quiet_trans [OF quiet_trans [OF q]] by (simp add: is_ok_def)
  qed
qed

section \<open>Sending\<close>

lemma send_request_grows:
  assumes S: "sends L unread sent" and r: "send_request L sid req s = Some (Inr x, s')"
  shows "\<exists>frame. encode_framed_message enc_Request req = (Inr frame :: (io_error TransportError, bytes) result) \<and> grows unread sent sid frame s s'"
proof -
  obtain c where c: "send_message enc_Request (l_stream_send L) (cl_conn s) sid req = (Inr () :: (io_error TransportError, unit) result, c)"
    and s': "s' = s\<lparr>cl_conn := c\<rparr>"
    using r by (auto simp: send_request_def net_def split: prod.splits sum.splits)
  then obtain frame where "encode_framed_message enc_Request req = (Inr frame :: (io_error TransportError, bytes) result)"
    "stream_send_all (l_stream_send L) (cl_conn s) sid frame False = (Inr () :: (io_error TransportError, unit) result, c)"
    by (auto simp: send_message_def split: sum.splits)
  then show ?thesis using send_all_sent [OF sendsD(1) [OF S]] send_request_quiet [OF sendsD(4) [OF S] r] s' by (auto simp: grows_def quiet_def)
qed

lemma send_wait_keeps:
  "keeps L g \<Longrightarrow> send_upload_wait L bs s = Some (Inr x, s') \<Longrightarrow> quiet g s s' \<and> x = Inl bs"
  unfolding send_upload_wait_def by (auto elim!: andThen_OkE split: if_splits) (meson quiet_trans serve_keeps(1,2,3))

lemma send_upload_round_grows:
  assumes S: "sends L unread sent" and r: "send_upload_round L sid fin bs s = Some (Inr x, s')"
  shows "case x of Inl bs' \<Rightarrow> (\<exists>d. bs = d @ bs' \<and> grows unread sent sid d s s') | Inr _ \<Rightarrow> bs = [] \<and> s' = s"
proof (cases "bs = []")
  case True
  then show ?thesis using r by (auto simp: send_upload_round_def)
next
  case False
  obtain a c where a: "l_stream_send L (cl_conn s) sid bs fin = (a, c)" by (cases "l_stream_send L (cl_conn s) sid bs fin")
  let ?s = "s\<lparr>cl_conn := c\<rparr>"
  note D = send_deliversD [OF sendsD(1) [OF S]] and W = send_wait_keeps [OF sendsD(2) [OF S]]
  have un: "unread c = unread (cl_conn s)" using in_orderD(2) [OF sendsD(4) [OF S], of "cl_conn s" sid bs fin] a by simp
  have wait: ?thesis if "sent c sid = sent (cl_conn s) sid" "send_upload_wait L bs ?s = Some (Inr x, s')"
  proof -
    have "grows unread sent sid [] s ?s" using that(1) un by (simp add: grows_def)
    then have "grows unread sent sid [] s s'" "x = Inl bs" using W [OF that(2)] grows_quiet by blast+
    then show ?thesis by simp
  qed
  show ?thesis
  proof (cases a)
    case (Inl e)
    then have "send_upload_wait L bs ?s = Some (Inr x, s')" using r a False by (auto simp: send_upload_round_def Let_def split: if_splits)
    then show ?thesis by (rule wait [rotated]) (rule D(2) [OF a [unfolded Inl]])
  next
    case (Inr n)
    note d = D(1) [OF a [unfolded Inr]]
    show ?thesis
    proof (cases "n = 0")
      case True
      then have "send_upload_wait L bs ?s = Some (Inr x, s')" using r a Inr False by (auto simp: send_upload_round_def Let_def)
      then show ?thesis by (rule wait [rotated]) (use d True in simp)
    next
      case n: False
      then have "x = Inl (drop n bs)" "s' = ?s" using r a Inr False by (auto simp: send_upload_round_def Let_def)
      then show ?thesis using d un by (auto simp: grows_def intro!: exI [of _ "take n bs"])
    qed
  qed
qed

lemma send_upload_grows:
  assumes S: "sends L unread sent" and r: "send_upload_bytes L sid bs fin s = Some (Inr x, s')"
  shows "grows unread sent sid bs s s'"
proof -
  define I where "I = (\<lambda>bs' s1. \<exists>d. bs = d @ bs' \<and> grows unread sent sid d s s1)"
  have "(\<lambda>r s1. is_ok r \<longrightarrow> grows unread sent sid bs s s1) (Inr x :: (ClientError, unit) result) s'"
    using r unfolding send_upload_bytes_def
  proof (rule loop_rule [where I = I])
    show "I bs s" by (simp add: I_def grows_refl)
    show "I x1 s1" if "I x0 s0" "send_upload_round L sid fin x0 s0 = Some (Inr (Inl x1), s1)" for x0 s0 x1 s1
      using send_upload_round_grows [OF S that(2)] that(1) grows_trans [of unread sent sid _ s s0 _ s1] unfolding I_def by fastforce
    show "is_ok (Inr a :: (ClientError, unit) result) \<longrightarrow> grows unread sent sid bs s s1"
      if "I x0 s0" "send_upload_round L sid fin x0 s0 = Some (Inr (Inr a), s1)" for x0 s0 a s1
      using send_upload_round_grows [OF S that(2)] that(1) by (auto simp: I_def)
  qed (simp add: is_ok_def)
  then show ?thesis by (simp add: is_ok_def)
qed

lemma drain_grows:
  assumes "sends L unread sent" "drain_zstd_encoder_to_wire L sid z s = Some (Inr z', s')"
  shows "\<exists>d. grows unread sent sid d s s'"
proof (cases "encoder_pending z = []")
  case True
  then have "grows unread sent sid [] s s'" using assms(2) by (simp add: drain_zstd_encoder_to_wire_def grows_refl)
  then show ?thesis ..
next
  case False
  then obtain x where "send_upload_bytes L sid (encoder_pending z) False s = Some (Inr x, s')"
    using assms(2) by (auto simp: drain_zstd_encoder_to_wire_def elim!: andThen_OkE)
  then show ?thesis using send_upload_grows [OF assms(1)] by blast
qed

lemma encode_same: "encode ctx m s = Some (Inr z, s') \<Longrightarrow> s' = s"
  by (cases m) (auto simp: encode_def split: sum.splits)

lemma send_chunk_grows:
  assumes "sends L unread sent" "send_chunk L K sid data encoder s = Some (Inr encoder', s')"
  shows "\<exists>d. grows unread sent sid d s s' \<and> (encoder' = None \<longleftrightarrow> encoder = None) \<and> (encoder = None \<longrightarrow> d = data)"
proof (cases encoder)
  case None
  then show ?thesis using assms(2) send_upload_grows [OF assms(1)] by (auto simp: send_chunk_def elim!: andThen_OkE)
next
  case (Some z)
  then obtain z1 s1 z2 where "encode ''compressing upload chunk'' (encoder_push (k_encoder_run K) z data) s = Some (Inr z1, s1)"
    "drain_zstd_encoder_to_wire L sid z1 s1 = Some (Inr z2, s')" "encoder' = Some z2"
    using assms(2) by (auto simp: send_chunk_def elim!: andThen_OkE)
  then show ?thesis using drain_grows [OF assms(1)] encode_same Some by blast
qed

lemma finish_encoder_grows:
  assumes "sends L unread sent" "finish_encoder L K sid encoder s = Some (Inr x, s')"
  shows "\<exists>d. grows unread sent sid d s s' \<and> (encoder = None \<longrightarrow> d = [])"
proof (cases encoder)
  case None
  then show ?thesis using assms(2) by (auto simp: finish_encoder_def grows_refl)
next
  case (Some z)
  then obtain z1 s1 z2 where "encode ''finalizing zstd upload frame'' (encoder_finish (k_encoder_finish K) z) s = Some (Inr z1, s1)"
    "drain_zstd_encoder_to_wire L sid z1 s1 = Some (Inr z2, s')"
    using assms(2) by (auto simp: finish_encoder_def elim!: andThen_OkE)
  then show ?thesis using drain_grows [OF assms(1)] encode_same Some by blast
qed

section \<open>The body\<close>

text \<open>
  Between two rounds: the reader and the hasher have \<open>off + up_sent\<close> bytes of the file behind
  them, and without an encoder the stream has the part that was read.
\<close>

definition upload_inv :: "('c \<Rightarrow> u64 \<Rightarrow> bytes) \<Rightarrow> ('c \<Rightarrow> u64 \<Rightarrow> bytes) \<Rightarrow> u64 \<Rightarrow> path \<Rightarrow> bytes \<Rightarrow> nat \<Rightarrow> u64 \<Rightarrow> 'c Client \<Rightarrow> bool \<Rightarrow> 'e Upload \<Rightarrow> 'c Client \<Rightarrow> bool" where
  "upload_inv unread sent sid place b off n s0 idt u s \<longleftrightarrow>
     up_file u = \<lparr>fr_place = place, fr_pos = off + unat (up_sent u)\<rparr> \<and> up_sent u \<le> n \<and>
     up_hasher u = take (off + unat (up_sent u)) b \<and> (up_encoder u = None \<longleftrightarrow> idt) \<and>
     (\<exists>body. grows unread sent sid body s0 s \<and> (idt \<longrightarrow> body = take (unat (up_sent u)) (drop off b)))"

lemma upload_round_inv:
  assumes S: "sends L unread sent" and i: "upload_inv unread sent sid place b off n s0 idt u s"
    and f: "file_bytes (cl_fs s0) place = Some b"
    and r: "upload_round L K chunk sid n u s = Some (Inr x, s')"
  shows "case x of Inl u' \<Rightarrow> upload_inv unread sent sid place b off n s0 idt u' s' | Inr u' \<Rightarrow> u' = u \<and> s' = s \<and> up_sent u = n"
proof (cases "up_sent u < n")
  case False
  then show ?thesis using r i by (auto simp: upload_round_def upload_inv_def)
next
  case True
  let ?want = "min (unat (n - up_sent u)) chunk"
  obtain body where body: "grows unread sent sid body s0 s" "idt \<longrightarrow> body = take (unat (up_sent u)) (drop off b)"
    using i by (auto simp: upload_inv_def)
  have fs: "cl_fs s = cl_fs s0" using body(1) by (simp add: grows_def)
  obtain ra rd where ra: "read_exact (cl_fs s) (up_file u) ?want = (ra, rd)" by (cases "read_exact (cl_fs s) (up_file u) ?want")
  obtain data where data: "ra = Inr data" using r True ra by (cases ra) (auto simp: upload_round_def Let_def)
  have fb: "file_bytes (cl_fs s) (fr_place (up_file u)) = Some b" using f fs i by (simp add: upload_inv_def)
  note x = read_exact_spec [OF ra [unfolded data] fb]
  note r1 = r [unfolded upload_round_def Let_def, unfolded if_not_P [OF not_not [THEN iffD2, OF True]] ra data prod.case sum.case]
  from r1 show ?thesis
  proof (elim andThen_OkE)
    fix p s1 e s2 x3 s3 x4 s4 x5 s5
    let ?u = "u\<lparr>up_file := rd, up_sent := up_sent u + of_nat ?want, up_hasher := up_hasher u @ data, up_pacer := p, up_encoder := e\<rparr>"
    assume st: "pace L (up_pacer u) ?want s = Some (Inr p, s1)" "send_chunk L K sid data (up_encoder u) s1 = Some (Inr e, s2)"
      "net (l_flush L) s2 = Some (Inr x3, s3)" "net (l_ingress L) s3 = Some (Inr x4, s4)" "net (l_flush L) s4 = Some (Inr x5, s5)"
      and rt: "ret (Inl ?u) s5 = Some (Inr x, s')"
    from send_chunk_grows [OF S st(2)] obtain d where
      d': "grows unread sent sid d s1 s2 \<and> (e = None \<longleftrightarrow> up_encoder u = None) \<and> (up_encoder u = None \<longrightarrow> d = data)" ..
    note d = d' [THEN conjunct1] d' [THEN conjunct2, THEN conjunct1] d' [THEN conjunct2, THEN conjunct2]
    note k = sendsD(2) [OF S]
    have g1: "grows unread sent sid (body @ []) s0 s1" by (rule grows_trans [OF body(1) quiet_grows [OF pace_keeps [OF k st(1)]]])
    have g2: "grows unread sent sid (body @ d) s0 s2" using grows_trans [OF g1 d(1)] by simp
    have g: "grows unread sent sid (body @ d) s0 s5"
      by (rule grows_quiet [OF grows_quiet [OF grows_quiet [OF g2 flush_keeps [OF k st(3)]] ingress_keeps [OF k st(4)]] flush_keeps [OF k st(5)]])
    have un: "unat (n - up_sent u) = unat n - unat (up_sent u)" "unat (up_sent u) < unat n"
      using True by (simp_all add: unat_sub word_less_nat_alt less_imp_le)
    have w: "unat (up_sent u + of_nat ?want) = unat (up_sent u) + ?want"
      by (rule decoded_grows [of _ n]) (simp add: un(1))
    have pos: "fr_pos (up_file u) = off + unat (up_sent u)" "fr_place (up_file u) = place" "up_encoder u = None \<longleftrightarrow> idt"
      "up_hasher u = take (off + unat (up_sent u)) b" using i by (auto simp: upload_inv_def)
    have data': "data = take ?want (drop (off + unat (up_sent u)) b)" using x(1) pos by simp
    have rd: "rd = \<lparr>fr_place = place, fr_pos = off + unat (up_sent u) + ?want\<rparr>" using x(3) pos(1,2) by simp
    have "idt \<longrightarrow> body @ d = take (unat (up_sent u) + ?want) (drop off b)"
      using body(2) d(3) pos(3) data' by (auto simp: take_add add.commute)
    then have bd: "\<exists>bd. grows unread sent sid bd s0 s5 \<and> (idt \<longrightarrow> bd = take (unat (up_sent u + of_nat ?want)) (drop off b))"
      using g w by auto
    have h: "up_hasher u @ data = take (off + unat (up_sent u + of_nat ?want)) b"
      using pos(4) data' w by (simp add: take_add add.assoc [symmetric])
    have le: "up_sent u + of_nat ?want \<le> n" unfolding word_le_nat_alt w using un by simp
    have "upload_inv unread sent sid place b off n s0 idt ?u s5"
      unfolding upload_inv_def using bd h le rd w d(2) pos(3) by simp
    then show ?thesis using rt by auto
  qed
qed

lemma upload_loop_inv:
  assumes S: "sends L unread sent" and f: "file_bytes (cl_fs s0) place = Some b"
    and i: "upload_inv unread sent sid place b off n s0 idt (u :: 'e Upload) s" and r: "loop (upload_round L K chunk sid n) u s = Some (Inr u', s')"
  shows "upload_inv unread sent sid place b off n s0 idt u' s' \<and> up_sent u' = n"
proof -
  let ?I = "upload_inv unread sent sid place b off n s0 idt"
  have "(\<lambda>r s1. \<forall>u'. r = Inr u' \<longrightarrow> ?I u' s1 \<and> up_sent u' = n) (Inr u' :: (ClientError, 'e Upload) result) s'"
    using r i
  proof (rule loop_rule [where I = ?I])
    show "?I x1 s1" if "?I x s" "upload_round L K chunk sid n x s = Some (Inr (Inl x1), s1)" for x s x1 s1
      using upload_round_inv [OF S that(1) f that(2)] by simp
    show "\<forall>u'. Inr a = Inr u' \<longrightarrow> ?I u' s1 \<and> up_sent u' = n"
      if "?I x s" "upload_round L K chunk sid n x s = Some (Inr (Inr a), s1)" for x s a s1
      using upload_round_inv [OF S that(1) f that(2)] that(1) by simp
  qed simp
  then show ?thesis by simp
qed

section \<open>The upload\<close>

text \<open>The file that is sent: the one that the local path leads to, links followed.\<close>

definition local_file :: "FS \<Rightarrow> path \<Rightarrow> path \<Rightarrow> bytes \<Rightarrow> bool" where
  "local_file fs local place b \<longleftrightarrow> namei MAXSYMLINKS fs [] local True = Inr place \<and> file_bytes fs place = Some b \<and> length b < 2 ^ 64"

lemma hash_prefix_reader:
  "hash_prefix k ctx fs rd left h = Inr (rd', h') \<Longrightarrow> 0 < k \<Longrightarrow> file_bytes fs (fr_place rd) = Some b \<Longrightarrow> rd' = rd\<lparr>fr_pos := fr_pos rd + left\<rparr>"
proof (induction k ctx fs rd left h rule: hash_prefix.induct)
  case (1 k ctx fs rd left h)
  show ?case
  proof (cases "left = 0")
    case True
    then show ?thesis using "1.prems" by (auto simp: hash_prefix.simps [of k ctx fs rd 0 h])
  next
    case False
    let ?w = "min left k"
    obtain data rd1 where r: "read_exact fs rd ?w = (Inr data, rd1)" "hash_prefix k ctx fs rd1 (left - ?w) (h @ data) = Inr (rd', h')"
      using "1.prems"(1,2) False by (subst (asm) hash_prefix.simps) (auto simp: Let_def split: prod.splits sum.splits)
    have "rd1 = rd\<lparr>fr_pos := fr_pos rd + ?w\<rparr>" by (rule read_exact_spec(3) [OF r(1) "1.prems"(3)])
    then show ?thesis using "1.IH" [OF _ refl r(1) [symmetric] refl r(2)] "1.prems"(2,3) False by simp
  qed
qed

lemma metadata_local: "local_file fs local place b \<Longrightarrow> fs_metadata fs local = Inr meta \<Longrightarrow> node_size meta = of_nat (length b)"
  by (auto simp: local_file_def fs_metadata_def syscall_path_def existing_def bindR_Inr_conv file_bytes_def node_size_def
      split: if_splits option.splits Kind.splits)

lemma start_upload_inv:
  assumes S: "sends L unread sent" and f: "local_file (cl_fs s) local place b"
    and r: "start_upload L K opts local offset encoding s = Some (Inr u, s')"
  shows "upload_inv unread sent sid place b (unat offset) n s (encoding \<noteq> Encoding_Zstd) u s'"
proof -
  obtain fs1 where o: "open_file (cl_fs s) (OpenOptions_new\<lparr>oo_read := True\<rparr>) local = Inr (place, fs1)"
    using r f by (cases "open_file (cl_fs s) (OpenOptions_new\<lparr>oo_read := True\<rparr>) local")
      (auto simp: start_upload_def local_file_def open_file_def syscall_path_def OpenOptions_new_def bindR_Inr_conv split: if_splits option.splits Kind.splits)
  let ?h = "if offset > 0
    then hash_prefix FILE_CHUNK_SIZE ''reading local resume prefix for hash'' (cl_fs s) \<lparr>fr_place = place, fr_pos = 0\<rparr> (unat offset) []
    else Inr (\<lparr>fr_place = place, fr_pos = 0\<rparr>, [])"
  obtain rd h where h: "?h = Inr (rd, h)" using r o by (cases ?h) (auto simp: start_upload_def)
  have fb: "file_bytes (cl_fs s) place = Some b" using f by (simp add: local_file_def)
  have rdh: "rd = \<lparr>fr_place = place, fr_pos = unat offset\<rparr>" "h = take (unat offset) b"
    using h hash_prefix_Inr [of FILE_CHUNK_SIZE _ "cl_fs s" "\<lparr>fr_place = place, fr_pos = 0\<rparr>" _ "[]" rd h b]
      hash_prefix_reader [of FILE_CHUNK_SIZE _ "cl_fs s" "\<lparr>fr_place = place, fr_pos = 0\<rparr>" _ "[]" rd h b] fb
    by (auto simp: FILE_CHUNK_SIZE_def word_gt_0 split: if_splits)
  obtain t s1 where t: "read_clock L s = (t, s1)" by (cases "read_clock L s")
  have g: "grows unread sent sid [] s s1" by (rule quiet_grows [OF read_clock_keeps [OF sendsD(2) [OF S] t]])
  have "s' = s1 \<and> up_file u = rd \<and> up_hasher u = h \<and> up_sent u = 0 \<and> (up_encoder u = None \<longleftrightarrow> encoding \<noteq> Encoding_Zstd)"
    using r o h t by (auto simp: start_upload_def Let_def split: if_splits sum.splits)
  then show ?thesis using g rdh by (auto simp: upload_inv_def)
qed

lemma poll_round_keeps:
  assumes S: "sends L unread sent" and x: "poll_response_round L sid buf s = Some (Inr x, s')"
  shows "quiet sent s s'"
proof -
  obtain r b rs where m: "recv_message dec_Response (l_inbound L (cl_conn s) sid) buf = (r :: (io_error TransportError, Response option) result, b, rs)"
    by (rule prod_cases3)
  let ?s = "s\<lparr>cl_conn := l_taken L (cl_conn s) sid rs\<rparr>"
  note k = sendsD(5) [OF S]
  have q: "quiet sent s ?s" by (simp add: quiet_def sendsD(3) [OF S])
  obtain resp where r: "r = Inr resp" using x m by (cases r) (auto simp: poll_response_round_def)
  have "quiet sent ?s s'"
  proof (cases resp)
    case None
    then obtain s1 s2 where w: "wait_event L 100 ?s = Some (Inr (), s1)" "net (l_ingress L) s1 = Some (Inr (), s2)" "net (l_flush L) s2 = Some (Inr (), s')"
      using x m r by (auto simp: poll_response_round_def andThen_Ok Let_def split: if_splits)
    show ?thesis by (rule quiet_trans [OF quiet_trans [OF wait_event_keeps [OF k w(1)] ingress_keeps [OF k w(2)]] flush_keeps [OF k w(3)]])
  next
    case (Some resp')
    then have "net (l_flush L) ?s = Some (Inr (), s')"
      using x m r by (auto simp: poll_response_round_def andThen_Ok Let_def split: if_splits sum.splits)
    then show ?thesis by (rule flush_keeps [OF k])
  qed
  with q show ?thesis by (rule quiet_trans)
qed

lemma poll_response_keeps:
  assumes S: "sends L unread sent" and r: "poll_response_with_buf L sid buf s = Some (Inr x, s')"
  shows "quiet sent s s'"
proof -
  have "(\<lambda>r s1. is_ok r \<longrightarrow> quiet sent s s1) (Inr x :: (ClientError, Response \<times> bytes) result) s'"
    using r unfolding poll_response_with_buf_def
  proof (rule loop_rule [where I = "\<lambda>_. quiet sent s"])
    show "quiet sent s s" by (rule quiet_refl)
    show "quiet sent s s1" if "quiet sent s s0" "poll_response_round L sid b s0 = Some (Inr (Inl b1), s1)" for b s0 b1 s1
      using poll_round_keeps [OF S that(2)] quiet_trans that(1) by blast
    show "is_ok (Inr a) \<longrightarrow> quiet sent s s1" if "quiet sent s s0" "poll_response_round L sid b s0 = Some (Inr (Inr a), s1)" for b s0 a s1
      using poll_round_keeps [OF S that(2)] quiet_trans that(1) by blast
  qed (simp add: is_ok_def)
  then show ?thesis by (simp add: is_ok_def)
qed

text \<open>What a successful upload leaves on its stream and in the counters, and the answer it was given.\<close>

definition uploaded :: "('c \<Rightarrow> u64 \<Rightarrow> bytes) \<Rightarrow> ('c \<Rightarrow> u64 \<Rightarrow> bytes) \<Rightarrow> u64 \<Rightarrow> (bytes \<Rightarrow> bytes) \<Rightarrow> bytes \<Rightarrow> PutArgs \<Rightarrow> 'c Client \<Rightarrow> 'c Client \<Rightarrow> bool" where
  "uploaded unread sent sid blake3 b args s s' \<longleftrightarrow>
     (\<exists>frame body data carry.
        encode_framed_message enc_Request (Req_Put args) = (Inr frame :: (io_error TransportError, bytes) result) \<and>
        sent (cl_conn s') sid = sent (cl_conn s) sid @ frame @ body @ blake3 b \<and>
        (put_encoding args = Encoding_Identity \<longrightarrow> body = drop (unat (put_offset args)) b) \<and>
        unread (cl_conn s) sid = data @ unread (cl_conn s') sid \<and> decodes data Resp_Ok carry \<and>
        cl_fs s' = cl_fs s \<and> cl_stats s' = record_upload (put_size args) (cl_stats s))"

definition sent_offset :: "u64 \<Rightarrow> bytes \<Rightarrow> u64" where
  "sent_offset offset b = (if length b < unat offset then 0 else offset)"

lemma sent_offset_facts:
  assumes "length b < 2 ^ 64"
  shows "(if offset > of_nat (length b) then 0 else offset) = sent_offset offset b"
    "unat (of_nat (length b) - sent_offset offset b :: u64) = length b - unat (sent_offset offset b)" "unat (sent_offset offset b) \<le> length b"
proof -
  have u: "unat (of_nat (length b) :: u64) = length b" using assms by (simp add: unat_of_nat_u64)
  show "(if offset > of_nat (length b) then 0 else offset) = sent_offset offset b"
    by (simp add: sent_offset_def word_less_nat_alt u)
  show le: "unat (sent_offset offset b) \<le> length b" by (simp add: sent_offset_def)
  show "unat (of_nat (length b) - sent_offset offset b :: u64) = length b - unat (sent_offset offset b)"
    using le u by (subst unat_sub) (simp_all add: word_le_nat_alt)
qed

lemma do_put_inner_uploaded:
  assumes S: "sends L unread sent" and f: "local_file (cl_fs s) local place b" and m: "fs_metadata (cl_fs s) local = Inr meta"
    and r: "do_put_inner L K opts sid local remote offset no_clobber ce s = Some (Inr (), s')"
  shows "uploaded unread sent sid (k_blake3 K) b
    (put_args remote (of_nat (length b) - sent_offset offset b) (node_mode meta) (sent_offset offset b) no_clobber
       (put_encoding_for opts ce local (of_nat (length b) - sent_offset offset b))) s s'"
proof -
  have lb: "length b < 2 ^ 64" using f by (simp add: local_file_def)
  let ?off = "sent_offset offset b"
  let ?n = "of_nat (length b) - ?off :: u64"
  define enc where "enc = put_encoding_for opts ce local ?n"
  let ?args = "put_args remote ?n (node_mode meta) ?off no_clobber enc"
  note r1 = r [unfolded do_put_inner_def Let_def, unfolded m sum.case metadata_local [OF f m] sent_offset_facts(1) [OF lb], folded enc_def]
  from r1 have "uploaded unread sent sid (k_blake3 K) b ?args s s'"
  proof (elim andThen_OkE)
    fix x1 s1 x2 s2 u s3 u' s4 x5 s5 x6 s6 x7 s7 resp s8
    assume st: "send_request L sid (Req_Put ?args) s = Some (Inr x1, s1)" "net (l_flush L) s1 = Some (Inr x2, s2)"
      "start_upload L K opts local ?off enc s2 = Some (Inr u, s3)" "loop (upload_round L K UPLOAD_CHUNK sid ?n) u s3 = Some (Inr u', s4)"
      "finish_encoder L K sid (up_encoder u') s4 = Some (Inr x5, s5)" "send_upload_bytes L sid (k_blake3 K (up_hasher u')) True s5 = Some (Inr x6, s6)"
      "net (l_flush L) s6 = Some (Inr x7, s7)" "poll_response L sid s7 = Some (Inr resp, s8)"
      and a: "put_answered ?off ?n enc resp s8 = Some (Inr (), s')"
    from send_request_grows [OF S st(1)] obtain frame where
      fr: "encode_framed_message enc_Request (Req_Put ?args) = (Inr frame :: (io_error TransportError, bytes) result)" "grows unread sent sid frame s s1" by blast
    note k = sendsD(2) [OF S]
    have g2: "grows unread sent sid frame s s2" by (rule grows_quiet [OF fr(2) flush_keeps [OF k st(2)]])
    have f2: "local_file (cl_fs s2) local place b" "file_bytes (cl_fs s2) place = Some b" using f g2 by (simp_all add: grows_def local_file_def)
    from upload_loop_inv [OF S f2(2) start_upload_inv [OF S f2(1) st(3)] st(4)]
    have i: "upload_inv unread sent sid place b (unat ?off) ?n s2 (enc \<noteq> Encoding_Zstd) u' s4" "up_sent u' = ?n" by blast+
    have len: "unat ?off + unat ?n = length b" using sent_offset_facts [OF lb] by simp
    obtain body where body: "grows unread sent sid body s2 s4" "enc \<noteq> Encoding_Zstd \<longrightarrow> body = drop (unat ?off) b"
      "up_hasher u' = b" "up_encoder u' = None \<longleftrightarrow> enc \<noteq> Encoding_Zstd"
      using i len by (auto simp: upload_inv_def)
    from finish_encoder_grows [OF S st(5)] obtain d where
      d': "grows unread sent sid d s4 s5 \<and> (up_encoder u' = None \<longrightarrow> d = [])" ..
    note d = d' [THEN conjunct1] d' [THEN conjunct2]
    have "grows unread sent sid (frame @ body @ d @ k_blake3 K b) s s6"
      using grows_trans [OF grows_trans [OF grows_trans [OF g2 body(1)] d(1)] send_upload_grows [OF S st(6)]] body(3) by simp
    then have g7: "grows unread sent sid (frame @ (body @ d) @ k_blake3 K b) s s7" using grows_quiet [OF _ flush_keeps [OF k st(7)]] by simp
    obtain carry where p: "poll_response_with_buf L sid [] s7 = Some (Inr (resp, carry), s8)"
      using st(8) by (auto simp: poll_response_def elim!: andThen_OkE)
    from poll_response_reads [OF p sendsD(4) [OF S]] obtain data where
      rd: "reads unread sid data s7 s8" "decodes data resp carry" "cl_fs s8 = cl_fs s7" "cl_stats s8 = cl_stats s7" by auto
    have q: "quiet sent s7 s8" by (rule poll_response_keeps [OF S p])
    have an: "resp = Resp_Ok" "s' = s8\<lparr>cl_stats := record_upload ?n (cl_stats s8)\<rparr>"
      using a by (auto simp: put_answered_def split: Response.splits if_splits)
    have pa: "put_encoding ?args = enc" "put_offset ?args = ?off" "put_size ?args = ?n" by (simp_all add: put_args_def)
    show ?thesis unfolding uploaded_def pa
      by (rule exI [of _ frame], rule exI [of _ "body @ d"], rule exI [of _ data], rule exI [of _ carry])
        (use fr(1) g7 rd q an body d in \<open>auto simp: grows_def quiet_def reads_def\<close>)
  qed
  then show ?thesis by (simp add: enc_def)
qed

lemma do_put_inner_stat:
  "do_put_inner L K opts sid local remote offset no_clobber ce s = Some (Inr (), s') \<Longrightarrow> \<exists>meta. fs_metadata (cl_fs s) local = Inr meta"
  by (cases "fs_metadata (cl_fs s) local") (auto simp: do_put_inner_def)

text \<open>An upload changes no local file, whatever its outcome.\<close>

definition fs_stays :: "FS \<Rightarrow> ('c, 'a) run \<Rightarrow> bool" where
  "fs_stays fs m \<longleftrightarrow> (\<forall>r s'. m = Some (r, s') \<longrightarrow> cl_fs s' = fs)"

named_theorems fs_stays_intros

lemma fs_stays_basic [fs_stays_intros]:
  "cl_fs s = fs \<Longrightarrow> fs_stays fs (ret x s)" "cl_fs s = fs \<Longrightarrow> fs_stays fs (bail e s)" "cl_fs s = fs \<Longrightarrow> fs_stays fs (net call s)"
  "cl_fs s = fs \<Longrightarrow> fs_stays fs (wait_event L t s)"
  by (auto simp: fs_stays_def ret_def bail_def net_def wait_event_def split: prod.splits sum.splits)

lemma fs_stays_encode [fs_stays_intros]: "cl_fs s = fs \<Longrightarrow> fs_stays fs (encode ctx m s)"
  by (cases m) (auto simp: fs_stays_def ret_def bail_def encode_def split: sum.splits)

lemma fs_staysD: "fs_stays fs m \<Longrightarrow> m = Some (r, s) \<Longrightarrow> cl_fs s = fs"
  by (simp add: fs_stays_def)

lemma fs_stays_andThen [fs_stays_intros]:
  assumes m: "fs_stays fs m" and f: "\<And>x s. cl_fs s = fs \<Longrightarrow> fs_stays fs (f x s)"
  shows "fs_stays fs (andThen m f)"
proof (cases m)
  case None
  then show ?thesis by (simp add: fs_stays_def)
next
  case (Some y)
  obtain r s where y: "y = (r, s)" by (cases y)
  have s: "cl_fs s = fs" by (rule fs_staysD [OF m]) (simp add: Some y)
  show ?thesis
  proof (cases r)
    case (Inl e)
    then show ?thesis using s by (simp add: Some y fs_stays_def)
  next
    case (Inr x)
    then show ?thesis using f [OF s, of x] by (simp add: Some y)
  qed
qed

lemma fs_stays_loop [fs_stays_intros]:
  assumes body: "\<And>x s. cl_fs s = fs \<Longrightarrow> fs_stays fs (body x s)" and s: "cl_fs s = fs"
  shows "fs_stays fs (loop body x s)"
  unfolding fs_stays_def
proof (intro allI impI)
  fix r s' assume "loop body x s = Some (r, s')"
  then show "cl_fs s' = fs"
    by (rule loop_rule [where I = "\<lambda>x s. cl_fs s = fs", OF _ s]) (erule fs_staysD [OF body], assumption)+
qed

lemma read_clock_fs: "read_clock L s = (t, s') \<Longrightarrow> cl_fs s' = cl_fs s"
  by (auto simp: read_clock_def split: prod.splits)

lemma fs_stays_pace [fs_stays_intros]: "cl_fs s = fs \<Longrightarrow> fs_stays fs (pace L p n s)"
  unfolding pace_def pace_round_def Let_def
  by (auto intro!: fs_stays_intros split: prod.splits dest!: read_clock_fs)

lemma fs_stays_send [fs_stays_intros]:
  "cl_fs s = fs \<Longrightarrow> fs_stays fs (send_upload_bytes L sid bs fin s)"
  unfolding send_upload_bytes_def send_upload_round_def send_upload_wait_def Let_def
  by (auto intro!: fs_stays_intros split: prod.splits sum.splits)

lemma fs_stays_drain [fs_stays_intros]: "cl_fs s = fs \<Longrightarrow> fs_stays fs (drain_zstd_encoder_to_wire L sid z s)"
  unfolding drain_zstd_encoder_to_wire_def by (auto intro!: fs_stays_intros)

lemma fs_stays_chunk [fs_stays_intros]:
  "cl_fs s = fs \<Longrightarrow> fs_stays fs (send_chunk L K sid data z s)" "cl_fs s = fs \<Longrightarrow> fs_stays fs (finish_encoder L K sid z s)"
  unfolding send_chunk_def finish_encoder_def by (auto intro!: fs_stays_intros split: option.splits)

lemma fs_stays_upload_round [fs_stays_intros]: "cl_fs s = fs \<Longrightarrow> fs_stays fs (upload_round L K chunk sid n u s)"
  unfolding upload_round_def Let_def by (auto intro!: fs_stays_intros split: prod.splits sum.splits)

lemma fs_stays_start [fs_stays_intros]: "cl_fs s = fs \<Longrightarrow> fs_stays fs (start_upload L K opts local offset encoding s)"
  unfolding start_upload_def Let_def by (auto intro!: fs_stays_intros split: prod.splits sum.splits dest!: read_clock_fs)

lemma fs_stays_poll [fs_stays_intros]: "cl_fs s = fs \<Longrightarrow> fs_stays fs (poll_response L sid s)"
  unfolding poll_response_def poll_response_with_buf_def poll_response_round_def Let_def
  by (auto intro!: fs_stays_intros split: prod.splits sum.splits option.splits)

lemma fs_stays_put: "cl_fs s = fs \<Longrightarrow> fs_stays fs (do_put_inner L K opts sid local remote offset no_clobber ce s)"
  unfolding do_put_inner_def send_request_def put_answered_def Let_def
  by (auto intro!: fs_stays_intros split: sum.splits Response.splits)

section \<open>Properties\<close>

text \<open>
  C15: an upload that succeeds was sent whole and was acknowledged. When \<open>do_put\<close> returns \<open>Ok\<close>, the
  stream of its last attempt holds exactly one request, then the body, then the BLAKE3 digest of
  the whole local file, skipped prefix included; an uncompressed body is exactly the rest of the
  file after the announced offset, which is dropped to 0 when it lies beyond the file; the answer
  that was read is \<open>Ok\<close>, the bytes announced are counted, and no local file has changed.
\<close>

theorem upload_sent_whole:
  assumes "sends L unread sent" "local_file (cl_fs s) local place b"
    and "do_put L K opts sid local remote offset no_clobber s = Some (Inr (), s')"
  shows "\<exists>sid' s1 mode encoding. cl_fs s1 = cl_fs s \<and>
    uploaded unread sent sid' (k_blake3 K) b
      (put_args remote (of_nat (length b) - sent_offset offset b) mode (sent_offset offset b) no_clobber encoding) s1 s'"
proof (cases "\<exists>s1. do_put_inner L K opts sid local remote offset no_clobber True s = Some (Inl UnsupportedEncoding, s1)")
  case True
  then obtain s1 where s1: "do_put_inner L K opts sid local remote offset no_clobber True s = Some (Inl UnsupportedEncoding, s1)" ..
  obtain sid2 s2 where s2: "take_stream s1 = (sid2, s2)" by (cases "take_stream s1")
  then have fs: "cl_fs s2 = cl_fs s"
    using fs_staysD [OF fs_stays_put [OF refl] s1] by (auto simp: take_stream_def)
  have "do_put_inner L K opts sid2 local remote offset no_clobber False s2 = Some (Inr (), s')"
    using assms(3) s1 s2 by (auto simp: do_put_def count_failure_def split: option.splits sum.splits prod.splits if_splits)
  with do_put_inner_uploaded [OF assms(1) _ _ this] do_put_inner_stat [OF this] assms(2) fs show ?thesis by metis
next
  case False
  then have "do_put_inner L K opts sid local remote offset no_clobber True s = Some (Inr (), s')"
    using assms(3) by (auto simp: do_put_def count_failure_def split: option.splits sum.splits prod.splits if_splits ClientError.splits)
  with do_put_inner_uploaded [OF assms(1,2) _ this] do_put_inner_stat [OF this] show ?thesis by blast
qed

end
