(* ===== verification/Put_Live.thy ===== *)
theory Put_Live
  imports Put_Start
begin

text \<open>
  Uploads succeed: when the client sends the declared bytes and the right digest, and the system
  calls work, the file is committed, whatever the chunks are.
\<close>

section \<open>Calls that work\<close>

definition faultless :: "FS \<Rightarrow> bool" where
  "faultless fs \<longleftrightarrow> (\<forall>sys p. env_fault fs sys p = None)"

lemma namei_in_dir:
  assumes "tree_fs fs" "is_dir_at fs d" "names_ok (d @ [c])"
  shows "namei links fs [] (d @ [c]) False = Inr (d @ [c])"
proof -
  obtain n where n: "lookup_node fs ([] @ d) = Some n" "\<not> is_symlink_kind (n_kind n)"
    using assms(2) by (auto simp: is_dir_at_def split: option.splits)
  from namei_descend [OF assms(1) n, of links "[c]" False] assms(3)
  have e: "namei links fs [] (d @ [c]) False = namei links fs d [c] False" by simp
  show ?thesis unfolding e using assms(2,3)
    by (auto simp: normal_name_def split: option.splits Kind.splits)
qed

lemma syscall_in_dir:
  assumes "tree_fs fs" "is_dir_at fs (butlast p)" "names_ok p" "p \<noteq> []" "\<not> has_nul p" "faultless fs"
  shows "syscall_path fs sys False p = Inr p"
  using namei_in_dir [of fs "butlast p" "last p"] assms by (simp add: syscall_path_def faultless_def)

lemma lstat_existing:
  assumes "tree_fs fs" "lookup_node fs p = Some n" "names_ok p" "\<not> has_nul p" "faultless fs"
  shows "symlink_metadata fs p = Inr n"
  using namei_existing [OF assms(1-3)] assms by (simp add: symlink_metadata_def syscall_path_def faultless_def existing_def)

lemma has_nul_butlast: "\<not> has_nul p \<Longrightarrow> \<not> has_nul (butlast p)"
  by (auto simp: has_nul_def dest: in_set_butlastD)

lemma ancestors_ok:
  "is_dir_at fs d \<Longrightarrow> prefix root d \<Longrightarrow> names_ok d \<Longrightarrow> \<not> has_nul d \<Longrightarrow> tree_fs fs \<Longrightarrow> faultless fs \<Longrightarrow>
     \<exists>as. ancestors_up root (Some d) = Inr as \<and> check_ancestors fs root (rev as) = Inr ()"
proof (induction "length d" arbitrary: d rule: less_induct)
  case less
  obtain n where n: "lookup_node fs d = Some n" "n_kind n = KDir" using less.prems(1) by (auto simp: is_dir_at_def split: option.splits)
  have here: "check_ancestors fs root [d] = Inr ()" using lstat_existing [OF less.prems(5) n(1) less.prems(3,4,6)] n(2) by simp
  show ?case
  proof (cases "d = root")
    case True
    then show ?thesis using here by (simp add: ancestors_up.simps)
  next
    case False
    then have ne: "d \<noteq> []" "prefix root (butlast d)" using less.prems(2) prefix_butlast_parent by auto
    have "is_dir_at fs (butlast d)" using tree_fsD [OF less.prems(5,1)] ne(1) by simp
    from less.hyps [OF _ this ne(2) names_ok_butlast [OF less.prems(3)] has_nul_butlast [OF less.prems(4)] less.prems(5,6)] ne(1)
    obtain as where "ancestors_up root (Some (butlast d)) = Inr as" "check_ancestors fs root (rev as) = Inr ()" by auto
    then show ?thesis using False less.prems(2) ne(1) here
      by (intro exI [of _ "d # as"]) (auto simp: ancestors_up.simps(2) [of root d] path_parent_def check_ancestors_append)
  qed
qed

lemma recheck_works:
  assumes "is_dir_at fs (butlast p)" "strict_prefix root p" "names_ok p" "\<not> has_nul p" "tree_fs fs" "faultless fs"
  shows "recheck_ancestors_no_symlinks fs p root = Inr ()"
proof -
  have "p \<noteq> []" "prefix root (butlast p)" using assms(2) prefix_butlast_parent by (auto simp: strict_prefix_def)
  then show ?thesis
    using ancestors_ok [OF assms(1) _ names_ok_butlast [OF assms(3)] has_nul_butlast [OF assms(4)] assms(5,6), of root]
    by (auto simp: recheck_ancestors_no_symlinks_def path_parent_def)
qed

lemma rename_works:
  assumes t: "tree_fs fs" "faultless fs" and a: "names_ok a" "\<not> has_nul a" "file_bytes fs a = Some b"
    and p: "is_dir_at fs (butlast p)" "names_ok p" "\<not> has_nul p" "\<not> is_dir_at fs p" "\<not> prefix a p" "\<not> prefix p a"
  shows "fs_rename fs a p = Inr (move_tree fs a p)"
proof -
  obtain n where n: "lookup_node fs a = Some n" "n_kind n = KFile b" using a(3)
    by (auto simp: file_bytes_def split: option.splits Kind.splits)
  have ne: "a \<noteq> []" "p \<noteq> []" using a(3) file_bytes_not_root p(6) by auto
  have s: "syscall_path fs Sys_Rename False a = Inr a" "syscall_path fs Sys_Rename False p = Inr p"
    using syscall_in_dir [OF t(1) tree_fs_parent [OF t(1) n(1) ne(1)] a(1) ne(1) a(2) t(2)]
      syscall_in_dir [OF t(1) p(1,2) ne(2) p(3) t(2)] by auto
  show ?thesis using s n ne p(4-6) by (auto simp: fs_rename_def existing_def is_dir_at_def split: option.splits)
qed

section \<open>Receiving\<close>

lemma bw_write_all_works:
  assumes "env_fault fs Sys_Write (bw_place w) = None" "bw_holds (w, fs) c"
  shows "fst (bw_write_all w d fs) = Inr ()"
proof -
  obtain w1 fs1 where f: "bw_flush w fs = Inr (w1, fs1)" using bw_flush_works [OF assms(1)] by (metis prod.collapse)
  have "bw_place w1 = bw_place w" "env_fault fs1 = env_fault fs" using bw_flush_holds [OF f assms(2)] same_but_env by auto
  then have "bw_write_inner w1 d fs1 \<noteq> Inl e" "bw_write_inner w d fs \<noteq> Inl e" for e
    using assms(1) by (simp_all add: bw_write_inner_def handle_write_def handle_fault_def)
  then show ?thesis using f by (auto simp: bw_write_all_def split: sum.splits)
qed

lemma write_body_works:
  assumes "held st (w_fs w) c" "env_fault (w_fs w) Sys_Write (rf_temp_path st) = None"
  shows "\<exists>st' w'. write_body d st w = (Inr (), st', w')"
proof -
  have "fst (bw_write_all (rf_writer st) d (w_fs w)) = Inr ()"
    by (rule bw_write_all_works) (use assms in \<open>auto simp: held_def\<close>)
  then show ?thesis by (cases "bw_write_all (rf_writer st) d (w_fs w)" rule: prod_cases3) (simp add: write_body_def)
qed

text \<open>What the stream still has to deliver to an upload: body bytes, then the rest of the trailer.\<close>

definition awaits :: "'d ReadingFile \<Rightarrow> World \<Rightarrow> bytes \<Rightarrow> bytes \<Rightarrow> bool" where
  "awaits st w c t \<longleftrightarrow> held st (w_fs w) c \<and> rf_rehash st = None \<and> rf_recv_encoding st = Recv_Identity \<and>
     (\<exists>tb. rf_trailer_buf st = Some tb \<and> trailer_has tb t) \<and> (t = [] \<or> rf_remaining st = 0) \<and> faultless (w_fs w)"

text \<open>Chunks that end the stream at most at the last one.\<close>

fun fin_at_end :: "(bytes \<times> bool) list \<Rightarrow> bool" where
  "fin_at_end [] = True"
| "fin_at_end ((d, fin) # cs) \<longleftrightarrow> (fin \<longrightarrow> cs = []) \<and> fin_at_end cs"

definition payload :: "(bytes \<times> bool) list \<Rightarrow> bytes" where
  "payload cs = concat (map fst cs)"

lemma payload_simps [simp]: "payload [] = []" "payload ((d, fin) # cs) = d @ payload cs"
  by (simp_all add: payload_def)

lemma identity_chunk_works:
  assumes a: "awaits st w c t" and len: "length d + length ds = unat (rf_remaining st) + (32 - length t)"
    and fin: "fin \<longrightarrow> ds = []" and body: "rf_remaining st \<noteq> 0"
  shows "\<exists>st' w'. put_identity_chunk d fin st w = (None, st', w') \<and> upload_step st w st' w' \<and>
    awaits st' w' (c @ take (unat (rf_remaining st)) d) (t @ drop (unat (rf_remaining st)) d) \<and>
    unat (rf_remaining st') = unat (rf_remaining st) - length d"
proof -
  obtain tb where tb: "rf_trailer_buf st = Some tb" "trailer_has tb t" and h: "held st (w_fs w) c" "rf_rehash st = None"
    and t: "t = []" and f: "faultless (w_fs w)" and id: "rf_recv_encoding st = Recv_Identity" using a body by (auto simp: awaits_def)
  let ?n = "unat (rf_remaining st)"
  have room: "tb_remaining tb = 32" using trailer_remaining [OF tb(2)] t by simp
  have le: "length d \<le> ?n + 32" using len t by simp
  define sp where "sp = (\<lparr>to_body = min (length d) ?n, to_trailer = length d - ?n\<rparr> :: PutChunkSplit)"
  have cl: "classify_put_chunk (length d) (rf_remaining st) (rf_trailer_buf st \<noteq> None) (trailer_space (rf_trailer_buf st)) = Inr sp"
    using le room tb(1) by (auto simp: classify_spec trailer_space_def sp_def)
  obtain st1 w1 where wb: "write_body (take (to_body sp) d) st w = (Inr (), st1, w1)"
    using write_body_works [OF h(1)] f unfolding faultless_def by blast
  have "length (take (to_body sp) d) \<le> ?n" by (simp add: sp_def)
  note hw = held_write [OF h this wb]
  have tk: "take (to_body sp) d = take ?n d" by (simp add: sp_def min_def)
  have hw2: "held st1 (w_fs w1) (c @ take ?n d)" using hw tk by simp
  have r1: "rf_remaining st1 = rf_remaining st - of_nat (length (take (to_body sp) d))" using hw by simp
  have "unat (rf_remaining st1) = ?n - length (take (to_body sp) d)" unfolding r1 by (rule remaining_minus) (simp add: sp_def)
  then have rem: "unat (rf_remaining st1) = ?n - length d" by (simp add: sp_def)
  define tb' where "tb' = (if to_trailer sp > 0 then extend_trailer (take (to_trailer sp) (drop (to_body sp) d)) (rf_trailer_buf st) else rf_trailer_buf st)"
  obtain k tb2 where ex: "tb_extend (drop ?n d) tb = (k, tb2)" by fastforce
  have has: "\<exists>x. tb' = Some x \<and> trailer_has x (t @ drop ?n d)"
  proof (cases "length d > ?n")
    case True
    then have "take (to_trailer sp) (drop (to_body sp) d) = drop ?n d" "to_trailer sp > 0" by (simp_all add: sp_def)
    then show ?thesis using trailer_extend [OF tb(2) ex] ex tb(1) t le by (simp add: tb'_def extend_trailer_def)
  next
    case False
    then show ?thesis using tb t by (simp add: tb'_def sp_def)
  qed
  have fine: "\<not> (fin \<and> rf_remaining st1 > 0)" using fin len rem by (auto simp: word_gt_0 unat_eq_0 [symmetric] simp del: unat_eq_0)
  let ?st = "st1\<lparr>rf_trailer_buf := tb'\<rparr>"
  have eq: "put_identity_chunk d fin st w = (None, ?st, w1)"
    using cl wb fine hw by (auto simp: put_identity_chunk_def Let_def tb'_def)
  have "upload_step st w ?st w1" using upload_step_trailer [of st w st1 w1 tb'] hw has tb(1) by auto
  moreover have "faultless (w_fs w1)" using f hw same_but_env by (auto simp: faultless_def upload_step_def)
  moreover have "t @ drop ?n d = [] \<or> rf_remaining st1 = 0"
    using t rem by (cases "length d \<le> ?n") (auto simp: unat_eq_0 [symmetric] simp del: unat_eq_0)
  ultimately show ?thesis using eq has hw hw2 rem id by (intro exI [of _ ?st] exI [of _ w1]) (auto simp: awaits_def)
qed

lemma body_done_identity: "awaits st w c t \<Longrightarrow> body_done st \<longleftrightarrow> rf_remaining st = 0"
  by (simp add: awaits_def body_done_def)

lemma put_body_delivers:
  "awaits st w c t \<Longrightarrow> length (payload cs) = unat (rf_remaining st) + (32 - length t) \<Longrightarrow> fin_at_end cs \<Longrightarrow>
     \<exists>st' w' cs'. put_body P (map Inr cs) st w = (None, st', map Inr cs', w') \<and> upload_step st w st' w' \<and>
       awaits st' w' (c @ take (unat (rf_remaining st)) (payload cs))
         (take (length t + length (payload cs) - unat (rf_remaining st) - length (payload cs')) (t @ drop (unat (rf_remaining st)) (payload cs))) \<and>
       rf_remaining st' = 0 \<and> fin_at_end cs' \<and> suffix (payload cs') (drop (unat (rf_remaining st)) (payload cs))"
proof (induction cs arbitrary: st w c t)
  case Nil
  then have r: "rf_remaining st = 0" by (simp add: unat_eq_0)
  have "length t \<le> 32" using Nil.prems(1) by (auto simp: awaits_def trailer_has_def)
  then show ?case using Nil.prems r upload_step_refl by (auto simp: awaits_def)
next
  case (Cons a cs)
  obtain d fin where a: "a = (d, fin)" by fastforce
  have t32: "length t \<le> 32" using Cons.prems(1) by (auto simp: awaits_def trailer_has_def)
  show ?case
  proof (cases "rf_remaining st = 0")
    case True
    have "put_body P (map Inr (a # cs)) st w = (None, st, map Inr (a # cs), w)"
      using body_done_identity [OF Cons.prems(1)] True by simp
    moreover have "upload_step st w st w" using Cons.prems(1) upload_step_refl by (auto simp: awaits_def)
    ultimately show ?thesis using Cons.prems True
      by (intro exI [of _ st] exI [of _ w] exI [of _ "a # cs"]) (auto simp: a)
  next
    case False
    let ?n = "unat (rf_remaining st)"
    have t: "t = []" using Cons.prems(1) False by (auto simp: awaits_def)
    have fe: "fin \<longrightarrow> payload cs = []" "fin_at_end cs" using Cons.prems(3) a by auto
    have len: "length d + length (payload cs) = ?n + (32 - length t)" using Cons.prems(2) a by simp
    from identity_chunk_works [OF Cons.prems(1) len fe(1) False] obtain st1 w1 where
      k: "put_identity_chunk d fin st w = (None, st1, w1)" "upload_step st w st1 w1"
        "awaits st1 w1 (c @ take ?n d) (t @ drop ?n d)" "unat (rf_remaining st1) = ?n - length d" by blast
    have len1: "length (payload cs) = unat (rf_remaining st1) + (32 - length (t @ drop ?n d))" using len k(4) t by simp
    from Cons.IH [OF k(3) len1 fe(2)] obtain st' w' cs' where
      i: "put_body P (map Inr cs) st1 w1 = (None, st', map Inr cs', w')" "upload_step st1 w1 st' w'"
        "awaits st' w' ((c @ take ?n d) @ take (unat (rf_remaining st1)) (payload cs))
          (take (length (t @ drop ?n d) + length (payload cs) - unat (rf_remaining st1) - length (payload cs'))
            ((t @ drop ?n d) @ drop (unat (rf_remaining st1)) (payload cs)))"
        "rf_remaining st' = 0" "fin_at_end cs'" "suffix (payload cs') (drop (unat (rf_remaining st1)) (payload cs))" by blast
    have pb: "put_body P (map Inr (a # cs)) st w = put_body P (map Inr cs) st1 w1"
      using body_done_identity [OF Cons.prems(1)] False k(1) Cons.prems(1) by (simp add: a awaits_def)
    have e1: "take ?n d @ take (?n - length d) (payload cs) = take ?n (payload (a # cs))"
      "drop ?n d @ drop (?n - length d) (payload cs) = drop ?n (payload (a # cs))" by (simp_all add: a)
    have e2: "length (t @ drop ?n d) + length (payload cs) - (?n - length d) - length (payload cs') =
        length t + length (payload (a # cs)) - ?n - length (payload cs')" by (simp add: a)
    have "awaits st' w' (c @ take ?n (payload (a # cs)))
        (take (length t + length (payload (a # cs)) - ?n - length (payload cs')) (t @ drop ?n (payload (a # cs))))"
      using i(3) unfolding k(4) e2 append_assoc e1 .
    moreover have "suffix (payload cs') (drop ?n (payload (a # cs)))"
      using i(6) unfolding k(4) e1(2) [symmetric] by (rule suffix_appendI)
    ultimately show ?thesis using i(1,4,5) pb upload_step_trans [OF k(2) i(2)] by (intro exI conjI) simp_all
  qed
qed

lemma put_trailer_delivers:
  "trailer_has tb t \<Longrightarrow> length (payload cs) = 32 - length t \<Longrightarrow> fin_at_end cs \<Longrightarrow>
     \<exists>tb' rs'. put_trailer (map Inr cs) tb = (None, tb', rs') \<and> trailer_has tb' (t @ payload cs)"
proof (induction cs arbitrary: tb t)
  case Nil
  then have "length t = 32" by (auto simp: trailer_has_def)
  then show ?case using Nil trailer_full by simp
next
  case (Cons a cs)
  obtain d fin where a: "a = (d, fin)" by fastforce
  have t32: "length t \<le> 32" using Cons.prems(1) by (simp add: trailer_has_def)
  show ?case
  proof (cases "length t = 32")
    case True
    then show ?thesis using Cons.prems trailer_full [OF Cons.prems(1)] by simp
  next
    case False
    obtain n tb1 where e: "tb_extend d tb = (n, tb1)" by fastforce
    have le: "length d \<le> 32 - length t" using Cons.prems(2) a by simp
    have x: "n = length d" "trailer_has tb1 (t @ d)" using trailer_extend [OF Cons.prems(1) e] le by auto
    have len: "length (payload cs) = 32 - length (t @ d)" using Cons.prems(2) a by simp
    have fin: "fin \<longrightarrow> tb_is_full tb1" "fin_at_end cs"
      using Cons.prems(3) a len le t32 trailer_full [OF x(2)] by (auto simp: payload_def)
    from Cons.IH [OF x(2) len fin(2)] show ?thesis
      using trailer_full [OF Cons.prems(1)] False e x(1) fin(1) by (simp add: a)
  qed
qed

lemma no_clobber_ok:
  assumes "tree_fs fs" "is_dir_at fs (butlast p)" "names_ok p" "p \<noteq> []" "\<not> has_nul p" "faultless fs" "lookup_node fs p = None"
  shows "\<not> is_ok (symlink_metadata fs p)"
  using syscall_in_dir [OF assms(1-6)] assms(7) by (simp add: symlink_metadata_def existing_def)

lemma has_nul_temp: "p \<noteq> [] \<Longrightarrow> \<not> has_nul p \<Longrightarrow> \<not> has_nul (temp_path_for p)"
  by (auto simp: has_nul_def temp_path_for_def partial_suffix_def dest: in_set_butlastD)

lemma put_commit_works:
  assumes a: "awaits st w c t" "rf_remaining st = 0" "length t = 32" "p_blake3 P c = t"
    and at: "upload_at (u_home (w_user w)) st" and tree: "tree_fs (w_fs w)" and nul: "\<not> has_nul (rf_final_path st)"
    and d: "\<not> is_dir_at (w_fs w) (rf_final_path st)" "rf_no_clobber st \<longrightarrow> lookup_node (w_fs w) (rf_final_path st) = None"
  shows "fst (put_commit P st w) = Some Resp_Ok"
proof -
  obtain tb where tb: "rf_trailer_buf st = Some tb" "trailer_has tb t" and h: "held st (w_fs w) c" "rf_rehash st = None"
    and f: "faultless (w_fs w)" using a(1) by (auto simp: awaits_def)
  note u = upload_atD [OF at]
  have tp: "rf_temp_path st = temp_path_for (rf_final_path st)" "strict_prefix (u_home (w_user w)) (rf_final_path st)"
    using at by (auto simp: upload_at_def)
  have "bw_place (rf_writer st) = rf_temp_path st" "rf_hasher st = c" using h by (auto simp: held_def)
  obtain writer fs where fl: "bw_flush (rf_writer st) (w_fs w) = Inr (writer, fs)"
    using bw_flush_works [of "w_fs w" "rf_writer st"] f by (auto simp: faultless_def)
  note hf = held_flush [OF h fl]
  have sb: "same_but (rf_temp_path st) (w_fs w) fs" using hf by (simp add: upload_step_def)
  have fs: "faultless fs" "tree_fs fs" "\<not> is_dir_at fs (rf_final_path st)"
    "lookup_node fs (rf_final_path st) = lookup_node (w_fs w) (rf_final_path st)"
    using same_but_env [OF sb] f same_but_tree [OF sb] tree same_but_dir [OF sb] d(1) same_but_other [OF sb] u(8)
    by (simp_all add: faultless_def)
  obtain b where b: "file_bytes fs (rf_temp_path st) = Some b" using hf held_bytes [of "st\<lparr>rf_writer := writer\<rparr>"] by auto
  then obtain n where n: "lookup_node fs (rf_temp_path st) = Some n" by (auto simp: file_bytes_def split: option.splits)
  have par: "is_dir_at fs (butlast (rf_final_path st))"
    using tree_fs_parent [OF fs(2) n u(10)] temp_path_facts(2) [OF u(1)] tp(1) by simp
  have nt: "\<not> has_nul (rf_temp_path st)" using has_nul_temp [OF u(1) nul] tp(1) by simp
  have ex: "expected_digest (st\<lparr>rf_writer := writer\<rparr>) = Some t"
    using tb trailer_full [OF tb(2)] trailer_full_bytes [OF tb(2)] a(3) by (simp add: expected_digest_def resolve_put_checksum_def)
  have rc: "recheck_ancestors_no_symlinks fs (rf_final_path st) (u_home (w_user w)) = Inr ()"
    by (rule recheck_works [OF par tp(2) u(2) nul fs(2,1)])
  have rn: "fs_rename fs (rf_temp_path st) (rf_final_path st) = Inr (move_tree fs (rf_temp_path st) (rf_final_path st))"
    by (rule rename_works [OF fs(2,1) u(3) nt b par u(2) nul fs(3) u(11,12)])
  have nc: "\<not> (rf_no_clobber st \<and> is_ok (symlink_metadata fs (rf_final_path st)))"
    using no_clobber_ok [OF fs(2) par u(2,1) nul fs(1)] d(2) fs(4) by auto
  show ?thesis using fl ex rc rn nc a(4) \<open>rf_hasher st = c\<close>
    by (simp add: put_commit_def Let_def no_clobber_commit_guard_def put_rename_def)
qed

lemma put_commit_hasher:
  "put_commit P st w = (Some Resp_Ok, st', w') \<Longrightarrow> rf_hasher st' = rf_hasher st \<and> rf_rehash st' = rf_rehash st"
  by (auto simp: put_commit_def put_rename_def no_clobber_commit_guard_def fail_rejected_upload_def Let_def cleanup_rejected_upload_def
      split: sum.splits if_splits option.splits)

section \<open>Properties of a complete upload\<close>

lemma put_runs_through:
  assumes "awaits st w c []" "upload_at (u_home (w_user w)) st" "real_root (w_fs w) (u_home (w_user w))" "tree_fs (w_fs w)"
    and "\<not> has_nul (rf_final_path st)" "\<not> is_dir_at (w_fs w) (rf_final_path st)"
    and "rf_no_clobber st \<longrightarrow> lookup_node (w_fs w) (rf_final_path st) = None"
    and "length body = unat (rf_remaining st)" "length (p_blake3 P (c @ body)) = 32"
    and "payload cs = body @ p_blake3 P (c @ body)" "fin_at_end cs"
  shows "\<exists>st' rs' w'. drive_put P tmp_len (map Inr cs) st w = (Some Resp_Ok, st', rs', w') \<and>
    file_bytes (w_fs w') (rf_final_path st) = Some (c @ body)"
proof -
  let ?n = "unat (rf_remaining st)" and ?t = "p_blake3 P (c @ body)"
  have pl: "length (payload cs) = ?n + (32 - length ([] :: bytes))" "take ?n (payload cs) = body" "drop ?n (payload cs) = ?t"
    using assms(8-10) by simp_all
  from put_body_delivers [OF assms(1) pl(1) assms(11), of P] obtain st1 w1 cs' where
    k: "put_body P (map Inr cs) st w = (None, st1, map Inr cs', w1)" "upload_step st w st1 w1"
      "awaits st1 w1 (c @ body) (take (32 - length (payload cs')) ?t)" "rf_remaining st1 = 0"
      "fin_at_end cs'" "suffix (payload cs') ?t"
    unfolding pl(1-3) by auto
  obtain pre where pre: "?t = pre @ payload cs'" using k(6) by (auto simp: suffix_def)
  then have tk: "take (32 - length (payload cs')) ?t = pre" "length (payload cs') = 32 - length pre" using assms(9) by simp_all
  obtain tb where tb: "rf_trailer_buf st1 = Some tb" "trailer_has tb pre" using k(3) tk(1) by (auto simp: awaits_def)
  from put_trailer_delivers [OF tb(2) tk(2) k(5)] obtain tb' rs' where
    tr: "put_trailer (map Inr cs') tb = (None, tb', rs')" "trailer_has tb' ?t" using pre by metis
  let ?st = "st1\<lparr>rf_trailer_buf := Some tb'\<rparr>"
  have s1: "upload_step st w ?st w1" by (rule upload_step_trailer [OF k(2)]) (simp add: tb(1))
  have a2: "awaits ?st w1 (c @ body) ?t" using k(3,4) tr(2) by (auto simp: awaits_def)
  have sb: "same_but (rf_temp_path st) (w_fs w) (w_fs w1)" "w_user w1 = w_user w" "rf_final_path st1 = rf_final_path st"
    "rf_no_clobber st1 = rf_no_clobber st" using k(2) by (auto simp: upload_step_def same_upload_def)
  have nf: "lookup_node (w_fs w1) (rf_final_path st) = lookup_node (w_fs w) (rf_final_path st)"
    by (rule step_destination [OF k(2) assms(2)])
  have "fst (put_commit P ?st w1) = Some Resp_Ok"
    by (rule put_commit_works [OF a2])
      (use k(4) assms(5-7,9) sb nf upload_step_at [OF s1 assms(2)] upload_step_tree [OF s1 assms(4)] same_but_dir [OF sb(1)] in simp_all)
  then obtain st' w' where pc: "put_commit P ?st w1 = (Some Resp_Ok, st', w')" by (metis prod.collapse)
  have rh: "rf_rehash st = None" "body_done st1" "rf_rehash ?st = None"
    using assms(1) k(3,4) body_done_identity [OF k(3)] by (auto simp: awaits_def)
  have dr: "drive_put P tmp_len (map Inr cs) st w = (Some Resp_Ok, st', rs', w')"
    using rh k(1,4) tb(1) tr(1) pc by (simp add: drive_put_def put_rehash_def put_finish_def)
  have h2: "held ?st (w_fs w1) (c @ body)" using a2 by (simp add: awaits_def)
  have "committed P ?st w1 st' w'"
    using put_commit_cases [OF h2 rh(3) _ _ pc] k(4) trailer_full [OF tr(2)] assms(9) by (auto simp: ends_or_goes_on_def)
  then have "committed P st w st' w'" by (rule committed_trans [OF s1])
  from committed_file [OF this assms(2-4)] obtain body' st2 w2 where
    c: "held st2 (w_fs w2) body'" "file_bytes (w_fs w') (rf_final_path st) = Some body'" "st' = st2\<lparr>rf_completed := True\<rparr>"
    "upload_step st w st2 w2" by blast
  note hs = put_commit_hasher [OF pc]
  have "body' = c @ body" using c(1,3) hs rh(3) h2 by (auto simp: held_def)
  then show ?thesis using dr c(2) by blast
qed


lemma demo_awaits: "awaits demo_upload demo_world [6] []"
  using demo_upload_ok(1) demo_accounted(3) by (auto simp: awaits_def faultless_def) (simp_all add: demo_upload_def)


end
