(* ===== verification/Client_Get_Live.thy ===== *)
theory Client_Get_Live
  imports Client_Get_Props Put_Live
begin

text \<open>
  A download ends. On a link whose calls succeed, which accepts what is sent and has something to
  read as long as the stream has unread bytes, and with a disk that does not fail, \<open>do_get_inner\<close>
  returns: its two loops read at least one byte per round until everything announced is there.
\<close>

section \<open>A responsive link\<close>

definition responsive :: "'c Link \<Rightarrow> ('c \<Rightarrow> u64 \<Rightarrow> bytes) \<Rightarrow> u64 \<Rightarrow> bool" where
  "responsive L unread sid \<longleftrightarrow>
     in_order L unread \<and> (\<forall>c. fst (l_flush L c) = Inr ()) \<and> (\<forall>c. fst (l_ingress L c) = Inr ()) \<and>
     (\<forall>c t. fst (l_poll L c t) = Inr ()) \<and> (\<forall>c. \<not> l_is_closed L c) \<and>
     (\<forall>c i data f. \<exists>n. fst (l_stream_send L c i data f) = Inr n \<and> (data \<noteq> [] \<longrightarrow> 0 < n)) \<and>
     (\<forall>c. \<exists>cs. l_inbound L c sid = map Inr cs \<and> (unread c sid \<noteq> [] \<longrightarrow> recvs_data (map Inr cs) \<noteq> []) \<and>
        (True \<in> snd ` set cs \<longrightarrow> recvs_data (map Inr cs) = unread c sid))"

lemma responsiveD:
  assumes "responsive L unread sid"
  shows "in_order L unread" "fst (l_flush L c) = Inr ()" "fst (l_ingress L c) = Inr ()" "fst (l_poll L c t) = Inr ()" "\<not> l_is_closed L c"
    "\<exists>n. fst (l_stream_send L c i data f) = Inr n \<and> (data \<noteq> [] \<longrightarrow> 0 < n)"
    "\<exists>cs. l_inbound L c sid = map Inr cs \<and> (unread c sid \<noteq> [] \<longrightarrow> recvs_data (map Inr cs) \<noteq> []) \<and>
        (True \<in> snd ` set cs \<longrightarrow> recvs_data (map Inr cs) = unread c sid)"
  using assms unfolding responsive_def by blast+

lemma net_works: "fst (call (cl_conn s)) = Inr () \<Longrightarrow> \<exists>s'. net call s = Some (Inr (), s')"
  by (auto simp: net_def ret_def split: prod.splits)

lemma wait_works: "responsive L unread sid \<Longrightarrow> \<exists>s'. wait_event L t s = Some (Inr (), s')"
  using responsiveD(4) [of L unread sid "cl_conn s" "opt_or (l_timeout L (cl_conn s)) (t * 1000000)"]
  by (auto simp: wait_event_def ret_def split: prod.splits)

lemma send_body_works:
  assumes "\<And>c data f. \<exists>n. fst (stream_send c sid data f) = Inr n \<and> (data \<noteq> [] \<longrightarrow> 0 < n)"
  shows "fst (send_body stream_send c sid data) = Inr ()"
  using assms
proof (induction stream_send c sid data rule: send_body.induct)
  case (1 stream_send c sid data)
  obtain n where n: "fst (stream_send c sid data False) = Inr n" "data \<noteq> [] \<longrightarrow> 0 < n" using "1.prems" by blast
  obtain c1 where s: "stream_send c sid data False = (Inr n, c1)" using n(1) by (cases "stream_send c sid data False") auto
  show ?case using "1.IH" [OF _ s [symmetric] refl] "1.prems" n(2) by (subst send_body.simps) (auto simp: s)
qed

lemma stream_send_all_works:
  assumes "\<And>c data f. \<exists>n. fst (stream_send c sid data f) = Inr n \<and> (data \<noteq> [] \<longrightarrow> 0 < n)"
  shows "fst (stream_send_all stream_send c sid data fin :: ('io TransportError, unit) result \<times> 'c) = Inr ()"
proof -
  obtain r :: "('io TransportError, unit) result" and c1 where b: "send_body stream_send c sid data = (r, c1)" by (rule prod.exhaust)
  have "r = Inr ()" using send_body_works [of stream_send sid c data, OF assms] b by (metis fst_conv)
  moreover obtain n where "fst (stream_send c1 sid [] True) = Inr n" using assms by blast
  ultimately show ?thesis by (cases "stream_send c1 sid [] True") (simp add: stream_send_all_def b)
qed

lemma send_request_works:
  assumes "responsive L unread sid" "length (enc_Request req) \<le> MAX_MESSAGE_SIZE"
  shows "\<exists>s'. send_request L sid req s = Some (Inr (), s')"
  unfolding send_request_def
  by (rule net_works)
    (simp add: send_message_def encode_framed_message_def Let_def assms(2) not_less stream_send_all_works responsiveD(6) [OF assms(1)])

lemma send_fin_works: "responsive L unread sid \<Longrightarrow> \<exists>s'. send_fin L sid s = Some (Inr (), s')"
  unfolding send_fin_def by (rule net_works) (simp add: stream_send_all_works responsiveD(6))

section \<open>The response\<close>

lemma recv_available_all: "recv_available (map Inr cs) buf = (Inr (), buf @ recvs_data (map Inr cs), [])"
  by (induction cs arbitrary: buf) auto

lemma poll_round_works:
  assumes r: "responsive L unread sid" and f: "Response_ok resp" "encode_framed_message enc_Response resp = (Inr frame :: (io_error TransportError, bytes) result)"
    and b: "buf @ unread (cl_conn s) sid = frame @ wire" and v: "validate_response resp = Inr ()"
  shows "\<exists>x s'. poll_response_round L sid buf s = Some (Inr x, s') \<and> cl_fs s' = cl_fs s \<and>
    (case x of Inl buf' \<Rightarrow> buf' @ unread (cl_conn s') sid = frame @ wire \<and> length (unread (cl_conn s') sid) < length (unread (cl_conn s) sid)
     | Inr (resp', carry) \<Rightarrow> resp' = resp \<and> carry @ unread (cl_conn s') sid = wire)"
proof -
  have o: "in_order L unread" by (rule responsiveD(1) [OF r])
  obtain cs where cs: "l_inbound L (cl_conn s) sid = map Inr cs" "unread (cl_conn s) sid \<noteq> [] \<longrightarrow> recvs_data (map Inr cs) \<noteq> []"
    using responsiveD(7) [OF r] by blast
  let ?d = "recvs_data (map Inr cs)" and ?s = "s\<lparr>cl_conn := l_taken L (cl_conn s) sid []\<rparr>"
  have rd: "reads unread sid ?d s ?s" by (rule taken_reads [OF o, where rs = "[]"]) (simp_all add: cs(1))
  then have u: "unread (cl_conn s) sid = ?d @ unread (cl_conn ?s) sid" by (simp add: reads_def)
  have rm: "recv_message dec_Response (l_inbound L (cl_conn s) sid) buf =
      (let (r, b) = decode_framed_message dec_Response (buf @ ?d) in (r :: (io_error TransportError, Response option) result, b, []))"
    by (simp add: recv_message_def cs(1) recv_available_all)
  have bu: "(buf @ ?d) @ unread (cl_conn ?s) sid = frame @ wire" using b u by simp
  then consider (whole) carry where "buf @ ?d = frame @ carry" "carry @ unread (cl_conn ?s) sid = wire"
    | (part) z where "frame = (buf @ ?d) @ z" "z \<noteq> []"
    unfolding append_eq_append_conv2 by (metis append_Nil append_Nil2)
  then show ?thesis
  proof cases
    case c: whole
    have dc: "decodes (frame @ carry) resp carry" by (rule Response_codec.decode_encode [OF f])
    obtain s' where fl: "net (l_flush L) ?s = Some (Inr (), s')" using net_works responsiveD(2) [OF r] by blast
    have q: "quiet unread ?s s'" by (rule flush_quiet [OF o fl])
    have "carry @ unread (cl_conn s') sid = wire" using c q by (simp add: quiet_def)
    then show ?thesis using rm c(1) dc v fl q by (simp add: poll_response_round_def ret_def quiet_def)
  next
    case z: part
    have dc: "decode_framed_message dec_Response (buf @ ?d) = (Inr None :: (io_error TransportError, Response option) result, buf @ ?d)"
      by (rule Response_codec.decode_partial [of resp _ z]) (use f(2) z in simp_all)
    obtain s1 where w: "wait_event L 100 ?s = Some (Inr (), s1)" using wait_works [OF r] by blast
    obtain s2 where i: "net (l_ingress L) s1 = Some (Inr (), s2)" using net_works responsiveD(3) [OF r] by blast
    obtain s3 where fl: "net (l_flush L) s2 = Some (Inr (), s3)" using net_works responsiveD(2) [OF r] by blast
    have q: "quiet unread ?s s3" by (rule quiet_trans [OF quiet_trans [OF wait_event_quiet [OF o w] ingress_quiet [OF o i]] flush_quiet [OF o fl]])
    have ne: "unread (cl_conn s) sid \<noteq> []" using z b u by auto
    have "poll_response_round L sid buf s = Some (Inr (Inl (buf @ ?d)), s3)"
      using dc w i fl responsiveD(5) [OF r] by (simp add: poll_response_round_def rm ret_def)
    moreover have "unread (cl_conn s3) sid = unread (cl_conn ?s) sid" "cl_fs s3 = cl_fs s" using q by (simp_all add: quiet_def)
    moreover have "length (unread (cl_conn ?s) sid) < length (unread (cl_conn s) sid)"
      using u ne cs(2) by (metis length_append length_greater_0_conv less_add_same_cancel2)
    moreover note bu
    ultimately show ?thesis by (intro exI [of _ "Inl (buf @ ?d)"] exI [of _ s3]) simp
  qed
qed

lemma poll_response_works:
  assumes r: "responsive L unread sid" and f: "Response_ok resp" "encode_framed_message enc_Response resp = (Inr frame :: (io_error TransportError, bytes) result)"
    and b: "unread (cl_conn (s :: 'a Client)) sid = frame @ wire" and v: "validate_response resp = Inr ()"
  shows "\<exists>carry s'. poll_response_with_buf L sid [] s = Some (Inr (resp, carry), s') \<and> carry @ unread (cl_conn s') sid = wire \<and> cl_fs s' = cl_fs s"
proof -
  define I where "I = (\<lambda>buf (s1 :: 'a Client). buf @ unread (cl_conn s1) sid = frame @ wire \<and> cl_fs s1 = cl_fs s)"
  have i: "I [] s" using b by (simp add: I_def)
  have "\<exists>x s'. loop (poll_response_round L sid) [] s = Some (x, s')"
  proof (rule loop_ends [where I = I and m = "\<lambda>buf s1. length (unread (cl_conn s1) sid)", OF i])
    fix buf s0 assume "I buf s0"
    then have "buf @ unread (cl_conn s0) sid = frame @ wire" "cl_fs s0 = cl_fs s" by (simp_all add: I_def)
    from poll_round_works [OF r f this(1) v] this(2)
    show "\<exists>x s1. poll_response_round L sid buf s0 = Some (x, s1) \<and>
        (\<forall>b. x = Inr (Inl b) \<longrightarrow> I b s1 \<and> length (unread (cl_conn s1) sid) < length (unread (cl_conn s0) sid))"
      by (fastforce simp: I_def)
  qed
  then obtain x s' where p: "loop (poll_response_round L sid) [] s = Some (x, s')" by blast
  have "\<exists>carry. x = Inr (resp, carry) \<and> carry @ unread (cl_conn s') sid = wire \<and> cl_fs s' = cl_fs s"
    by (rule loop_rule [where I = I and x = "[]" and s = s, OF p i, where Q = "\<lambda>x s'. \<exists>carry. x = Inr (resp, carry) \<and> carry @ unread (cl_conn s') sid = wire \<and> cl_fs s' = cl_fs s"])
      (use poll_round_works [OF r f _ v] in \<open>fastforce simp: I_def\<close>)+
  then show ?thesis using p by (auto simp: poll_response_with_buf_def)
qed

section \<open>The body\<close>

lemma accept_works:
  assumes i: "dl_inv (Some bound) place old R d fs" and f: "faultless fs"
  shows "\<exists>d' fs'. accept_download_bytes K input d fs = (Inr d', fs') \<and> dl_inv (Some bound) place old (R @ input) d' fs' \<and> faultless fs'"
proof -
  obtain received where b: "dl_body d = Body_Identity received bound" using i by (cases "dl_body d") (auto simp: dl_inv_def)
  have w: "\<exists>d1 fs1. write_chunk ctx data d fs = (Inr d1, fs1) \<and> faultless fs1" for ctx data
    using f by (auto simp: write_chunk_def handle_write_def handle_fault_def faultless_def)
  obtain d' fs' where "accept_download_bytes K input d fs = (Inr d', fs')" "faultless fs'"
    using w [of "''writing body chunk''" "take (min (unat (bound - received)) (length input)) input"] f
    by (cases "received < bound"; cases "0 < unat (bound - received) \<and> input \<noteq> []") (auto simp: accept_download_bytes_def b Let_def)
  then show ?thesis using accept_inv [OF _ i] by blast
qed

lemma drain_works:
  "dl_inv (Some bound) place old R d fs \<Longrightarrow> faultless fs \<Longrightarrow>
     \<exists>drained' d' fs'. drain_stream K (map Inr cs) drained fin d fs = (Inr (drained', fin \<or> True \<in> snd ` set cs, d'), [], fs') \<and>
       dl_inv (Some bound) place old (R @ recvs_data (map Inr cs)) d' fs' \<and> faultless fs'"
proof (induction cs arbitrary: R d fs drained fin)
  case (Cons x cs)
  obtain data f where x: "x = (data, f)" by (cases x)
  obtain d1 fs1 where a: "(if data \<noteq> [] then accept_download_bytes K data d fs else (Inr d, fs)) = (Inr d1, fs1)"
    "dl_inv (Some bound) place old (R @ data) d1 fs1" "faultless fs1"
    using accept_works [OF Cons.prems, of K data] Cons.prems by (cases "data = []") auto
  from Cons.IH [OF a(2,3), of True "fin \<or> f"] obtain drained' d' fs' where
    "drain_stream K (map Inr cs) True (fin \<or> f) d1 fs1 = (Inr (drained', (fin \<or> f) \<or> True \<in> snd ` set cs, d'), [], fs')"
    "dl_inv (Some bound) place old ((R @ data) @ recvs_data (map Inr cs)) d' fs'" "faultless fs'" by blast
  moreover have "((fin \<or> f) \<or> True \<in> snd ` set cs) = (fin \<or> True \<in> snd ` set (x # cs))" using x by auto
  ultimately show ?case using a(1) x by auto
qed auto

text \<open>What the loop keeps: the accepted bytes and the unread ones are the announced body and trailer.\<close>

definition receiving ::
  "('c \<Rightarrow> u64 \<Rightarrow> bytes) \<Rightarrow> u64 \<Rightarrow> u64 \<Rightarrow> path \<Rightarrow> bytes \<Rightarrow> bytes \<Rightarrow> bool \<times> 'd Download \<Rightarrow> 'c Client \<Rightarrow> bool" where
  "receiving unread sid bound place old wire x s \<longleftrightarrow>
     (\<exists>R. dl_inv (Some bound) place old R (snd x) (cl_fs s) \<and> R @ unread (cl_conn s) sid = wire) \<and> faultless (cl_fs s) \<and>
     (fst x \<longrightarrow> unread (cl_conn s) sid = [])"

lemma receiving_all:
  assumes "receiving unread sid bound place old wire x s" "unat bound + want \<le> length wire" "unread (cl_conn s) sid = []"
  shows "received_all want (snd x)"
  using assms by (auto simp: receiving_def dl_inv_def received_all_def word_le_nat_alt split: DownloadBody.splits)

lemma receive_round_works:
  assumes r: "responsive L unread sid" and i: "receiving unread sid bound place old wire x s" and l: "unat bound + want \<le> length wire"
  shows "\<exists>y s'. receive_round L K sid local n want x s = Some (Inr y, s') \<and>
    (case y of Inl x' \<Rightarrow> receiving unread sid bound place old wire x' s' \<and> length (unread (cl_conn s') sid) < length (unread (cl_conn s) sid)
     | Inr d \<Rightarrow> d = snd x \<and> s' = s \<and> received_all want d)"
proof (cases "received_all want (snd x)")
  case True
  then show ?thesis by (cases x) (auto simp: receive_round_def ret_def)
next
  case False
  obtain fin d where x: "x = (fin, d)" by (cases x)
  have o: "in_order L unread" by (rule responsiveD(1) [OF r])
  have ne: "unread (cl_conn s) sid \<noteq> []" using receiving_all [OF i l] False by blast
  obtain R where R: "dl_inv (Some bound) place old R d (cl_fs s)" "R @ unread (cl_conn s) sid = wire" "faultless (cl_fs s)" "\<not> fin"
    using i x ne by (auto simp: receiving_def)
  obtain s1 where s1: "net (l_ingress L) s = Some (Inr (), s1)" using net_works responsiveD(3) [OF r] by blast
  have q: "quiet unread s s1" by (rule ingress_quiet [OF o s1])
  obtain cs where cs: "l_inbound L (cl_conn s1) sid = map Inr cs" "unread (cl_conn s1) sid \<noteq> [] \<longrightarrow> recvs_data (map Inr cs) \<noteq> []"
    "True \<in> snd ` set cs \<longrightarrow> recvs_data (map Inr cs) = unread (cl_conn s1) sid" using responsiveD(7) [OF r] by blast
  from drain_works [of bound place old R d "cl_fs s1" K cs False fin] R(1,3) q obtain drained d' fs' where
    dr: "drain_stream K (map Inr cs) False fin d (cl_fs s1) = (Inr (drained, fin \<or> True \<in> snd ` set cs, d'), [], fs')"
      "dl_inv (Some bound) place old (R @ recvs_data (map Inr cs)) d' fs'" "faultless fs'" by (auto simp: quiet_def)
  let ?s = "s1\<lparr>cl_conn := l_taken L (cl_conn s1) sid [], cl_fs := fs'\<rparr>" and ?x = "(True \<in> snd ` set cs, d')"
  have rd: "reads unread sid (recvs_data (map Inr cs)) s1 ?s" by (rule taken_reads [OF o, where rs = "[]"]) (simp_all add: cs(1))
  then have u: "unread (cl_conn s) sid = recvs_data (map Inr cs) @ unread (cl_conn ?s) sid" using q by (simp add: reads_def quiet_def)
  obtain s2 where s2: "net (l_flush L) ?s = Some (Inr (), s2)" using net_works responsiveD(2) [OF r] by blast
  obtain s3 where s3: "(if drained then ret () s2 else wait_event L 100 s2) = Some (Inr (), s3)"
    using wait_works [OF r, of 100 s2] by (cases drained) (auto simp: ret_def)
  have q2: "quiet unread ?s s2" "quiet unread ?s s3"
    using flush_quiet [OF o s2] quiet_trans [OF flush_quiet [OF o s2]] s3 wait_event_quiet [OF o, of 100 s2] by (auto split: if_splits)
  have inv: "receiving unread sid bound place old wire ?x s'" if "quiet unread ?s s'" for s'
    using that dr(2,3) R(2) u cs(3) q by (auto simp: receiving_def quiet_def)
  have fin: "received_all want d'" if "True \<in> snd ` set cs"
    using receiving_all [OF inv [OF q2(1)] l] that inv [OF q2(1)] by (auto simp: receiving_def)
  have "receive_round L K sid local n want x s = Some (Inr (Inl ?x), s3)"
    using False s1 dr(1) s2 s3 fin R(4) responsiveD(5) [OF r] by (auto simp: receive_round_def x cs(1) ret_def)
  moreover have "length (unread (cl_conn s3) sid) < length (unread (cl_conn s) sid)"
    using u ne cs(2) q q2(2) unfolding quiet_def by (metis length_append length_greater_0_conv less_add_same_cancel2)
  ultimately show ?thesis using inv [OF q2(2)] by (intro exI [of _ "Inl ?x"] exI [of _ s3]) simp
qed

lemma receive_loop_works:
  fixes d :: "'d Download" and s :: "'c Client"
  assumes r: "responsive L unread sid" and i: "receiving unread sid bound place old wire (fin, d) s" and l: "unat bound + want \<le> length wire"
  shows "\<exists>d' s' fin'. receive_loop L K sid local n want fin d s = Some (Inr d', s') \<and> receiving unread sid bound place old wire (fin', d') s' \<and>
    received_all want d'"
proof -
  let ?I = "receiving unread sid bound place old wire :: bool \<times> 'd Download \<Rightarrow> 'c Client \<Rightarrow> bool"
  have "\<exists>y s'. loop (receive_round L K sid local n want) (fin, d) s = Some (y, s')"
  proof (rule loop_ends [where I = ?I and m = "\<lambda>x s1. length (unread (cl_conn s1) sid)", OF i])
    fix x s0 assume "?I x s0"
    from receive_round_works [OF r this l, of K local n]
    show "\<exists>y s1. receive_round L K sid local n want x s0 = Some (y, s1) \<and>
        (\<forall>x1. y = Inr (Inl x1) \<longrightarrow> ?I x1 s1 \<and> length (unread (cl_conn s1) sid) < length (unread (cl_conn s0) sid))"
      by fastforce
  qed
  then obtain y s' where p: "loop (receive_round L K sid local n want) (fin, d) s = Some (y, s')" by blast
  have "\<exists>d' fin'. y = Inr d' \<and> ?I (fin', d') s' \<and> received_all want d'"
  proof (rule loop_rule [where I = ?I and x = "(fin, d)" and s = s, OF p i, where Q = "\<lambda>y s'. \<exists>d' fin'. y = Inr d' \<and> ?I (fin', d') s' \<and> received_all want d'"])
    fix x s0 x1 s1 assume a: "?I x s0" "receive_round L K sid local n want x s0 = Some (Inr (Inl x1), s1)"
    then show "?I x1 s1" using receive_round_works [OF r a(1) l, of K local n] by fastforce
  next
    fix x s0 a s1 assume a: "?I x s0" "receive_round L K sid local n want x s0 = Some (Inr (Inr a), s1)"
    then have "a = snd x \<and> s1 = s0 \<and> received_all want a" using receive_round_works [OF r a(1) l, of K local n] by fastforce
    then show "\<exists>d' fin'. (Inr a :: (ClientError, 'd Download) result) = Inr d' \<and> ?I (fin', d') s1 \<and> received_all want d'"
      using a(1) by (intro exI [of _ a] exI [of _ "fst x"]) (cases x, simp)
  next
    fix x s0 e s1 assume a: "?I x s0" "receive_round L K sid local n want x s0 = Some (Inl e, s1)"
    then show "\<exists>d' fin'. (Inl e :: (ClientError, 'd Download) result) = Inr d' \<and> ?I (fin', d') s1 \<and> received_all want d'"
      using receive_round_works [OF r a(1) l, of K local n] by fastforce
  qed
  then show ?thesis using p by (auto simp: receive_loop_def)
qed

lemma received_all_iff:
  "dl_inv (Some bound) place old R d fs \<Longrightarrow> received_all want d \<longleftrightarrow> unat bound \<le> length R \<and> want \<le> length R - unat bound"
  by (auto simp: dl_inv_def received_all_def word_le_nat_alt min_def split: DownloadBody.splits if_splits)

lemma look_for_fin_works:
  assumes r: "responsive L unread sid" and i: "receiving unread sid bound place old wire (False, d) s" and all: "received_all want d"
  shows "\<exists>fin d' s'. look_for_fin L K sid d s = Some (Inr (fin, d'), s') \<and> receiving unread sid bound place old wire (False, d') s' \<and>
    received_all want d'"
proof -
  have o: "in_order L unread" by (rule responsiveD(1) [OF r])
  obtain R where R: "dl_inv (Some bound) place old R d (cl_fs s)" "R @ unread (cl_conn s) sid = wire" "faultless (cl_fs s)"
    using i by (auto simp: receiving_def)
  obtain s1 where s1: "net (l_ingress L) s = Some (Inr (), s1)" using net_works responsiveD(3) [OF r] by blast
  have q: "quiet unread s s1" by (rule ingress_quiet [OF o s1])
  obtain cs where cs: "l_inbound L (cl_conn s1) sid = map Inr cs" using responsiveD(7) [OF r] by blast
  let ?a = "take 1 cs" and ?b = "drop 1 cs"
  from drain_works [of bound place old R d "cl_fs s1" K ?a False False] R(1,3) q obtain drained d' fs' where
    dr: "drain_stream K (map Inr ?a) False False d (cl_fs s1) = (Inr (drained, True \<in> snd ` set ?a, d'), [], fs')"
      "dl_inv (Some bound) place old (R @ recvs_data (map Inr ?a)) d' fs'" "faultless fs'" by (auto simp: quiet_def)
  let ?s = "s1\<lparr>cl_conn := l_taken L (cl_conn s1) sid (map Inr ?b), cl_fs := fs'\<rparr>"
  have "l_inbound L (cl_conn s1) sid = map Inr ?a @ map Inr ?b" by (metis append_take_drop_id cs map_append)
  from taken_reads [OF o this, of ?s] have rd: "reads unread sid (recvs_data (map Inr ?a)) s1 ?s" by simp
  then have u: "unread (cl_conn s) sid = recvs_data (map Inr ?a) @ unread (cl_conn ?s) sid" using q by (simp add: reads_def quiet_def)
  obtain s2 where s2: "net (l_flush L) ?s = Some (Inr (), s2)" using net_works responsiveD(2) [OF r] by blast
  have q2: "quiet unread ?s s2" by (rule flush_quiet [OF o s2])
  have "look_for_fin L K sid d s = Some (Inr (True \<in> snd ` set ?a, d'), s2)"
    using s1 dr(1) s2 by (simp add: look_for_fin_def cs take_map drop_map ret_def)
  moreover have "receiving unread sid bound place old wire (False, d') s2"
    using q2 dr(2,3) R(2) u by (auto simp: receiving_def quiet_def)
  moreover have "received_all want d'"
    using all received_all_iff [OF R(1)] received_all_iff [OF dr(2)] by auto
  ultimately show ?thesis by blast
qed

section \<open>The download\<close>

lemma hash_prefix_works:
  "file_bytes fs (fr_place rd) = Some b \<Longrightarrow> faultless fs \<Longrightarrow> left \<le> length b - fr_pos rd \<Longrightarrow> \<exists>x. hash_prefix k ctx fs rd left h = Inr x"
proof (induction k ctx fs rd left h rule: hash_prefix.induct)
  case (1 k ctx fs rd left h)
  show ?case
  proof (cases "left = 0 \<or> k = 0")
    case True
    then show ?thesis by (subst hash_prefix.simps) simp
  next
    case False
    let ?w = "min left k"
    obtain n where n: "lookup_node fs (fr_place rd) = Some n" "n_kind n = KFile b"
      using "1.prems"(1) by (auto simp: file_bytes_def split: option.splits Kind.splits)
    have "read_exact fs rd ?w = (Inr (take ?w (drop (fr_pos rd) b)), rd\<lparr>fr_pos := fr_pos rd + ?w\<rparr>)"
      using n "1.prems"(2,3) by (simp add: read_exact_def handle_read_def handle_fault_def faultless_def)
    moreover from "1.IH" [OF False refl this [symmetric] refl] "1.prems"
    have "\<exists>x. hash_prefix k ctx fs (rd\<lparr>fr_pos := fr_pos rd + ?w\<rparr>) (left - ?w) (h @ take ?w (drop (fr_pos rd) b)) = Inr x" by simp
    ultimately show ?thesis using False by (subst hash_prefix.simps) (simp add: Let_def)
  qed
qed

lemma start_hasher_works:
  assumes "file_bytes fs place = Some old" "faultless fs" "length old = unat off"
  shows "start_hasher fs place off = Inr (\<lparr>fr_place = place, fr_pos = length old\<rparr>, old)"
proof -
  obtain x where x: "hash_prefix FILE_CHUNK_SIZE ''reading local prefix for hash'' fs \<lparr>fr_place = place, fr_pos = 0\<rparr> (unat off) [] = Inr x"
    using hash_prefix_works [of fs "\<lparr>fr_place = place, fr_pos = 0\<rparr>" old "unat off" FILE_CHUNK_SIZE "''reading local prefix for hash''" "[]"] assms
    by auto
  then obtain y where y: "start_hasher fs place off = Inr y"
    using assms(2) by (cases "off > 0"; cases x) (auto simp: start_hasher_def handle_seek_def handle_fault_def faultless_def)
  then show ?thesis using start_hasher_Inr [of fs place off "fst y" "snd y" old] assms by (cases y) simp
qed

lemma open_file_env:
  assumes "open_file fs opts p = Inr (place, fs')"
  shows "env_fault fs' = env_fault fs"
proof -
  obtain q where q: "(case lookup_node fs q of
      None \<Rightarrow> (if oo_create opts then Inr (q, set_node fs q (new_node fs (KFile []) (oo_mode opts))) else Inl ENOENT)
    | Some n \<Rightarrow> (case n_kind n of KSymlink t \<Rightarrow> Inl ELOOP
        | KDir \<Rightarrow> (if oo_write opts \<or> oo_create opts then Inl EISDIR else Inr (q, fs)) | _ \<Rightarrow> Inr (q, fs))) = Inr (place, fs')"
    using assms unfolding open_file_def bindR_Inr_conv by blast
  then show ?thesis by (cases "lookup_node fs q") (auto split: if_splits Kind.split_asm)
qed

lemma open_local_faultless: "open_local fs local off = Inr (place, fs') \<Longrightarrow> faultless fs \<Longrightarrow> faultless fs'"
  by (auto simp: open_local_def faultless_def dest!: open_file_env split: sum.splits if_splits)

lemma receive_file_works:
  fixes K :: "('d, 'e) ClientPrims"
  assumes r: "responsive L unread sid" and disk: "plain_disk (cl_fs s)" "faultless (cl_fs s)"
    and op: "open_local (cl_fs s) local off = Inr (place, fs)" "off = resume_offset (cl_fs s) local" "file_bytes fs place = Some old"
    and fr: "check_ready off fr = Inr n" "fr_encoding fr = Encoding_Identity" "fr_checksum_follows fr"
    and w: "carry @ unread (cl_conn s) sid = body @ digest" "length body = unat (fr_size fr)" "digest = k_blake3 K (old @ body)" "length digest = 32"
  shows "\<exists>s'. receive_file L K sid local off fr carry s = Some (Inr (), s') \<and> file_bytes (cl_fs s') place = Some (old @ body)"
proof -
  let ?d = "\<lparr>dl_file = \<lparr>fr_place = place, fr_pos = length old\<rparr>, dl_body = Body_Identity 0 (fr_size fr), dl_hasher = old, dl_trailer = []\<rparr> :: 'd Download"
  have old: "length old = unat off" using open_local_Inr [OF op(1,2) disk(1)] op(3) by auto
  have fl: "faultless fs" by (rule open_local_faultless [OF op(1) disk(2)])
  have sb: "start_body K fr = Inr (Body_Identity 0 (fr_size fr))" using fr(2) by (simp add: start_body_def)
  have i0: "dl_inv (Some (fr_size fr)) place old [] ?d fs" using start_download_inv [OF sb op(3)] fr(2) by (simp add: tag_of_def)
  obtain d1 fs1 where ac: "(if carry \<noteq> [] then accept_download_bytes K carry ?d fs else (Inr ?d, fs)) = (Inr d1, fs1)"
    "dl_inv (Some (fr_size fr)) place old carry d1 fs1" "faultless fs1"
    using accept_works [OF i0 fl, of K carry] i0 fl by (cases "carry = []") auto
  let ?s1 = "s\<lparr>cl_fs := fs1\<rparr>" and ?wire = "body @ digest"
  have rc: "receiving unread sid (fr_size fr) place old ?wire (False, d1) ?s1" using ac(2,3) w(1) by (auto simp: receiving_def)
  have l: "unat (fr_size fr) + 32 \<le> length ?wire" using w(2,4) by simp
  obtain fin d2 s2 d3 s3 where lk: "(if received_all 32 d1 then look_for_fin L K sid d1 ?s1 else ret (False, d1) ?s1) = Some (Inr (fin, d2), s2)"
    and lo: "receive_loop L K sid local n 32 fin d2 s2 = Some (Inr d3, s3)" and i3: "\<exists>fin. receiving unread sid (fr_size fr) place old ?wire (fin, d3) s3"
    and all: "received_all 32 d3"
  proof (cases "received_all 32 d1")
    case True
    from look_for_fin_works [OF r rc True, of K] obtain fin d2 s2 where
      f: "look_for_fin L K sid d1 ?s1 = Some (Inr (fin, d2), s2)" "receiving unread sid (fr_size fr) place old ?wire (False, d2) s2" "received_all 32 d2" by blast
    then have "receive_loop L K sid local n 32 fin d2 s2 = Some (Inr d2, s2)"
      by (simp add: receive_loop_def loop.simps receive_round_def ret_def)
    then show thesis using that [of fin d2 s2 d2 s2] f True by auto
  next
    case False
    from receive_loop_works [OF r rc l, of K local n] obtain d3 s3 fin' where
      "receive_loop L K sid local n 32 False d1 ?s1 = Some (Inr d3, s3)" "receiving unread sid (fr_size fr) place old ?wire (fin', d3) s3" "received_all 32 d3" by blast
    then show thesis using that [of False d1 ?s1 d3 s3] False by (auto simp: ret_def)
  qed
  obtain R where R: "dl_inv (Some (fr_size fr)) place old R d3 (cl_fs s3)" "R @ unread (cl_conn s3) sid = ?wire" using i3 by (auto simp: receiving_def)
  have len: "unat (fr_size fr) + 32 \<le> length R" using received_all_iff [OF R(1), of 32] all by linarith
  then have "R = ?wire" using R(2) w(2,4) by (metis add_cancel_right_right add_le_same_cancel1 append_Nil2 le_antisym length_0_conv length_append nat_le_linear add_leE)
  then have fin: "dl_hasher d3 = old @ body" "take 32 (dl_trailer d3) = digest" "file_bytes (cl_fs s3) place = Some (old @ body)" "\<exists>x y. dl_body d3 = Body_Identity x y"
    using R(1) w(2,4) by (auto simp: dl_inv_def split: DownloadBody.splits)
  have "finish_download K local fr n d3 s3 = Some (Inr (), s3\<lparr>cl_stats := record_download n (cl_stats s3)\<rparr>)"
    using fin w(3) by (auto simp: finish_download_def ret_def)
  then have "receive_file L K sid local off fr carry s = Some (Inr (), s3\<lparr>cl_stats := record_download n (cl_stats s3)\<rparr>)"
    using fr(1,3) op(1) start_hasher_works [OF op(3) fl old] sb ac(1) lk lo by (simp add: receive_file_def)
  then show ?thesis using fin(3) by simp
qed

lemma do_get_inner_works:
  assumes r: "responsive L unread sid" and disk: "plain_disk (cl_fs s)" "faultless (cl_fs s)" and off: "off = resume_offset (cl_fs s) local"
    and op: "open_local (cl_fs s) local off = Inr (place, fs)" "file_bytes fs place = Some old"
    and fr: "check_ready off fr = Inr n" "fr_encoding fr = Encoding_Identity" "fr_checksum_follows fr"
    and enc: "Response_ok (Resp_FileReady fr)" "encode_framed_message enc_Response (Resp_FileReady fr) = (Inr frame :: (io_error TransportError, bytes) result)"
    and req: "length (enc_Request (get_request opts remote off)) \<le> MAX_MESSAGE_SIZE"
    and w: "unread (cl_conn s) sid = frame @ body @ digest" "length body = unat (fr_size fr)" "digest = k_blake3 K (old @ body)" "length digest = 32"
  shows "\<exists>s'. do_get_inner L K opts sid remote local s = Some (Inr (), s') \<and> file_bytes (cl_fs s') place = Some (old @ body)"
proof -
  have o: "in_order L unread" by (rule responsiveD(1) [OF r])
  obtain a where a: "send_request L sid (get_request opts remote off) s = Some (Inr (), a)" using send_request_works [OF r req] by blast
  obtain b where b: "send_fin L sid a = Some (Inr (), b)" using send_fin_works [OF r] by blast
  obtain c where c: "net (l_flush L) b = Some (Inr (), c)" using net_works responsiveD(2) [OF r] by blast
  have q: "quiet unread s c" by (rule quiet_trans [OF quiet_trans [OF send_request_quiet [OF o a] send_fin_quiet [OF o b]] flush_quiet [OF o c]])
  have "unread (cl_conn c) sid = frame @ body @ digest" using q w(1) by (simp add: quiet_def)
  from poll_response_works [OF r enc this] obtain carry d where
    d: "poll_response_with_buf L sid [] c = Some (Inr (Resp_FileReady fr, carry), d)" "carry @ unread (cl_conn d) sid = body @ digest" "cl_fs d = cl_fs c"
    by auto
  have fs: "cl_fs d = cl_fs s" using d(3) q by (simp add: quiet_def)
  from receive_file_works [OF r, of d local off place fs old fr n carry body digest K] disk op off fr w(2-4) d(2) fs obtain s' where
    "receive_file L K sid local off fr carry d = Some (Inr (), s')" "file_bytes (cl_fs s') place = Some (old @ body)" by auto
  then have "do_get_inner L K opts sid remote local s = Some (Inr (), s')"
    using a b c d(1) off by (simp add: do_get_inner_def Let_def get_answered_def)
  then show ?thesis using \<open>file_bytes (cl_fs s') place = Some (old @ body)\<close> by blast
qed

section \<open>A concrete link\<close>

text \<open>Its streams hold everything they will ever deliver, in chunks, and it accepts and keeps every byte.\<close>

type_synonym demo_conn = "(u64 \<Rightarrow> bytes list) \<times> (u64 \<Rightarrow> bytes)"

definition demo_link :: "demo_conn Link" where
  "demo_link = \<lparr>l_stream_send = (\<lambda>(c, out) sid data f. (Inr (length data), c, out(sid := out sid @ data))),
     l_inbound = (\<lambda>(c, out) sid. map (\<lambda>d. Inr (d, False)) (c sid)),
     l_taken = (\<lambda>(c, out) sid rs. (c(sid := map (\<lambda>r. case r of Inl _ \<Rightarrow> [] | Inr (d, _) \<Rightarrow> d) rs), out)),
     l_is_closed = (\<lambda>c. False), l_timeout = (\<lambda>c. None), l_on_timeout = (\<lambda>c. c), l_flush = (\<lambda>c. (Inr (), c)),
     l_ingress = (\<lambda>c. (Inr (), c)), l_poll = (\<lambda>c t. (Inr (), c)), l_now = (\<lambda>c. (0, c)), l_sleep = (\<lambda>t c. c)\<rparr>"

definition demo_unread :: "demo_conn \<Rightarrow> u64 \<Rightarrow> bytes" where
  "demo_unread c sid = concat (fst c sid)"

definition demo_sent :: "demo_conn \<Rightarrow> u64 \<Rightarrow> bytes" where
  "demo_sent c sid = snd c sid"

lemma demo_link_in_order: "in_order demo_link demo_unread"
proof -
  have "concat (c sid) = recvs_data as @ concat (map (\<lambda>r. case r of Inl _ \<Rightarrow> [] | Inr (d, _) \<Rightarrow> d) rs)"
    if "map (\<lambda>d. Inr (d, False)) (c sid) = as @ rs" for c :: "u64 \<Rightarrow> bytes list" and sid as rs
  proof -
    have "concat (c sid) = recvs_data (map (\<lambda>d. Inr (d, False)) (c sid))" by (simp add: recvs_data_def comp_def)
    then show ?thesis unfolding that by (simp add: recvs_data_def)
  qed
  then show ?thesis by (auto simp: in_order_def keeps_def demo_link_def demo_unread_def fun_eq_iff)
qed

lemma demo_link_responsive: "responsive demo_link demo_unread sid"
proof -
  have "map (\<lambda>d. Inr (d, False)) xs = map Inr (map (\<lambda>d. (d, False)) xs)" "recvs_data (map (Inr \<circ> (\<lambda>d. (d, False))) xs) = concat xs"
    for xs :: "bytes list" by (simp_all add: recvs_data_def comp_def)
  then show ?thesis using demo_link_in_order
    by (auto simp: responsive_def demo_link_def demo_unread_def intro!: exI [of _ "map (\<lambda>d. (d, False)) (_ sid)"])
qed

definition demo_client_prims :: "(unit, unit) ClientPrims" where
  "demo_client_prims = \<lparr>k_blake3 = (\<lambda>b. replicate 32 (sum_list b)), k_decoder_new = Inl EIO, k_decoder_run = (\<lambda>d input n. Inl EIO),
     k_encoder_new = Inl EIO, k_encoder_run = (\<lambda>e input. Inl EIO), k_encoder_finish = (\<lambda>e. Inl EIO)\<rparr>"

definition demo_settings :: Settings where
  "demo_settings = \<lparr>bw_limit_bps = 0, compression_disabled = False\<rparr>"

text \<open>The disk holds the first byte of the file.\<close>

definition demo_disk :: FS where
  "demo_disk = \<lparr>nodes = [([''f''], demo_node (KFile [1]))], fs_root = demo_node KDir, env_fault = (\<lambda>sys p. None),
     fs_umask = 0, fs_uid = 0, fs_gid = 0, fs_now = (0, 0)\<rparr>"

definition demo_answer :: FileReady where
  "demo_answer = \<lparr>fr_size = 2, fr_total_size = 3, fr_checksum_follows = True, fr_hash_algorithm = HashAlgorithm_Blake3,
     fr_encoding = Encoding_Identity, fr_plaintext_size = 0\<rparr>"

definition demo_frame :: bytes where
  "demo_frame = be_bytes 4 (length (enc_Response (Resp_FileReady demo_answer))) @ enc_Response (Resp_FileReady demo_answer)"

definition demo_client :: "demo_conn Client" where
  "demo_client = \<lparr>cl_conn = (\<lambda>sid. if sid = 0 then [take 3 demo_frame, drop 3 demo_frame @ [2], [3, 6], replicate 31 6] else [], \<lambda>sid. []),
     cl_next_stream_id = 0, cl_fs = demo_disk,
     cl_stats = \<lparr>bytes_uploaded = 0, bytes_downloaded = 0, files_uploaded = 0, files_downloaded = 0, transfers_failed = 0\<rparr>\<rparr>"

lemma demo_disk_simps:
  "lookup_node demo_disk p = (if p = [] then Some (demo_node KDir) else if p = [''f''] then Some (demo_node (KFile [1])) else None)"
  "env_fault demo_disk sys p = None" "faultless demo_disk" "plain_disk demo_disk"
  "file_bytes demo_disk p = (if p = [''f''] then Some [1] else None)"
  by (auto simp: lookup_node_def demo_disk_def demo_node_def faultless_def plain_disk_def file_bytes_def split: if_splits)

lemma demo_resume: "resume_offset demo_disk [''f''] = 1" "open_local demo_disk [''f''] 1 = Inr ([''f''], demo_disk)"
proof -
  show "resume_offset demo_disk [''f''] = 1" by code_simp
  show "open_local demo_disk [''f''] 1 = Inr ([''f''], demo_disk)"
    by (simp add: open_local_def open_file_def syscall_path_def has_nul_def demo_disk_simps demo_node_def apply_no_follow_def apply_secure_open_def)
qed

lemma demo_frame_ok:
  "Response_ok (Resp_FileReady demo_answer)" "encode_framed_message enc_Response (Resp_FileReady demo_answer) = (Inr demo_frame :: (io_error TransportError, bytes) result)"
  "check_ready 1 demo_answer = Inr 2" "length (enc_Request (get_request demo_settings ''/f'' 1)) \<le> MAX_MESSAGE_SIZE"
proof -
  show "Response_ok (Resp_FileReady demo_answer)" by (simp add: demo_answer_def HashAlgorithm_canonical_def Encoding_canonical_def)
  show "encode_framed_message enc_Response (Resp_FileReady demo_answer) = (Inr demo_frame :: (io_error TransportError, bytes) result)"
    by (simp add: encode_framed_message_def demo_frame_def MAX_MESSAGE_SIZE_def Let_def demo_answer_def enc_FileReady_def enc_u64_def enc_bool_def enc_HashAlgorithm_def enc_Encoding_def enc_u32_def enc_u8_def)
  show "check_ready 1 demo_answer = Inr 2" by (simp add: check_ready_def demo_answer_def)
  show "length (enc_Request (get_request demo_settings ''/f'' 1)) \<le> MAX_MESSAGE_SIZE"
    by (simp add: get_request_def demo_settings_def MAX_MESSAGE_SIZE_def enc_string_def enc_len_def enc_u64_def enc_option_def enc_seq_def enc_Encoding_def enc_u32_def enc_u8_def)
qed

lemma demo_wire:
  "demo_unread (cl_conn demo_client) (cl_next_stream_id demo_client) = demo_frame @ [2, 3] @ k_blake3 demo_client_prims ([1] @ [2, 3])"
proof -
  have "replicate 32 (6 :: byte) = 6 # replicate 31 6" by code_simp
  then show ?thesis by (simp add: demo_client_def demo_client_prims_def demo_unread_def)
qed

lemmas demo_simps = demo_disk_simps demo_resume demo_client_def demo_client_prims_def demo_answer_def

lemma demo_get_works:
  obtains s' where "do_get demo_link demo_client_prims demo_settings ''/f'' [''f''] demo_client = Some (Inr (), s')"
proof -
  let ?s = "demo_client\<lparr>cl_next_stream_id := 4\<rparr>"
  have w: "demo_unread (cl_conn ?s) 0 = demo_frame @ [2, 3] @ k_blake3 demo_client_prims ([1] @ [2, 3])" using demo_wire by (simp add: demo_client_def)
  have "\<exists>s'. do_get_inner demo_link demo_client_prims demo_settings 0 ''/f'' [''f''] ?s = Some (Inr (), s') \<and> file_bytes (cl_fs s') [''f''] = Some ([1] @ [2, 3])"
    by (rule do_get_inner_works [where fs = demo_disk and sid = 0 and s = ?s, OF demo_link_responsive _ _ _ _ _ demo_frame_ok(3) _ _ demo_frame_ok(1,2,4) w]) (simp_all add: demo_simps)
  then obtain s' where "do_get_inner demo_link demo_client_prims demo_settings 0 ''/f'' [''f''] ?s = Some (Inr (), s')" by blast
  moreover have "take_stream demo_client = (0, ?s)" by (simp add: take_stream_def demo_client_def)
  ultimately show thesis using that by (auto simp: do_get_def count_failure_def)
qed

section \<open>Properties\<close>

text \<open>
  C16: a download ends. If the stream carries an announcement of a plain body with a digest, then the
  body and the digest of the kept local prefix followed by the body, the link is responsive and
  the disk does not fail, then \<open>do_get\<close> returns \<open>Ok\<close> (it does not wait forever and does not
  report a failure) and the local file is the prefix followed by the body.
\<close>

theorem download_completes:
  assumes "responsive L unread (cl_next_stream_id s)" and "plain_disk (cl_fs s)" "faultless (cl_fs s)"
    and "off = resume_offset (cl_fs s) local" "open_local (cl_fs s) local off = Inr (place, fs)" "file_bytes fs place = Some old"
    and "check_ready off fr = Inr n" "fr_encoding fr = Encoding_Identity" "fr_checksum_follows fr" "Response_ok (Resp_FileReady fr)"
    and "encode_framed_message enc_Response (Resp_FileReady fr) = (Inr frame :: (io_error TransportError, bytes) result)"
    and "length (enc_Request (get_request opts remote off)) \<le> MAX_MESSAGE_SIZE"
    and "unread (cl_conn s) (cl_next_stream_id s) = frame @ body @ k_blake3 K (old @ body)" "length body = unat (fr_size fr)"
      "length (k_blake3 K (old @ body)) = 32"
  shows "\<exists>s'. do_get L K opts remote local s = Some (Inr (), s') \<and> file_bytes (cl_fs s') place = Some (old @ body)"
proof -
  let ?s = "s\<lparr>cl_next_stream_id := cl_next_stream_id s + 4\<rparr>"
  have "\<exists>s'. do_get_inner L K opts (cl_next_stream_id s) remote local ?s = Some (Inr (), s') \<and> file_bytes (cl_fs s') place = Some (old @ body)"
    by (rule do_get_inner_works [OF assms(1)]) (use assms in simp_all)
  then show ?thesis by (auto simp: do_get_def take_stream_def count_failure_def)
qed

theorem download_completes_witness:
  "\<exists>s'. do_get demo_link demo_client_prims demo_settings ''/f'' [''f''] demo_client = Some (Inr (), s') \<and>
     file_bytes (cl_fs s') [''f''] = Some ([1] @ [2, 3])"
  by (rule download_completes [where fs = demo_disk, OF demo_link_responsive _ _ _ _ _ demo_frame_ok(3) _ _ demo_frame_ok(1,2,4) demo_wire]) (simp_all add: demo_simps)

theorem download_verified_witness:
  "\<exists>s' fs0 p fr carry data. do_get demo_link demo_client_prims demo_settings ''/f'' [''f''] demo_client = Some (Inr (), s') \<and>
     decodes p (Resp_FileReady fr) carry \<and> downloaded (\<lambda>b. replicate 32 (sum_list b)) [''f''] fs0 fr (carry @ data) (cl_fs s')"
proof -
  obtain s' where s': "do_get demo_link demo_client_prims demo_settings ''/f'' [''f''] demo_client = Some (Inr (), s')" by (rule demo_get_works)
  have "plain_disk (cl_fs demo_client)" by (simp add: demo_simps)
  from download_verified [OF s' demo_link_in_order this] obtain fs0 p fr carry data where
    "decodes p (Resp_FileReady fr) carry" "downloaded (k_blake3 demo_client_prims) [''f''] fs0 fr (carry @ data) (cl_fs s')" by blast
  then show ?thesis using s'
    by (intro exI [of _ s'] exI [of _ fs0] exI [of _ p] exI [of _ fr] exI [of _ carry] exI [of _ data] conjI)
      (simp_all add: demo_client_prims_def)
qed

end
