(* ===== verification/Client_Put_Live.thy ===== *)
theory Client_Put_Live
  imports Client_Put_Props Client_Get_Live
begin

text \<open>
  An upload ends: on a responsive link, without a bandwidth limit and with a disk that does not
  fail, every round of the sending loops makes progress.
\<close>

lemma send_upload_works:
  assumes r: "responsive L unread sid"
  shows "\<exists>s'. send_upload_bytes L sid bs fin s = Some (Inr (), s')"
proof (induction "length bs" arbitrary: bs s rule: less_induct)
  case less
  show ?case
  proof (cases "bs = []")
    case True
    then have "send_upload_round L sid fin bs s = Some (Inr (Inr ()), s)" by (simp add: send_upload_round_def ret_def)
    then show ?thesis by (simp add: send_upload_bytes_def loop_cases)
  next
    case False
    obtain n c where n: "l_stream_send L (cl_conn s) sid bs fin = (Inr n, c)" "0 < n"
      using responsiveD(6) [OF r, of "cl_conn s" sid bs fin] False by (metis prod.collapse)
    then have "send_upload_round L sid fin bs s = Some (Inr (Inl (drop n bs)), s\<lparr>cl_conn := c\<rparr>)"
      using False by (simp add: send_upload_round_def ret_def)
    then show ?thesis using less [of "drop n bs" "s\<lparr>cl_conn := c\<rparr>"] False n(2) by (simp add: send_upload_bytes_def loop_cases)
  qed
qed

lemma read_exact_works:
  assumes "file_bytes fs (fr_place rd) = Some b" "faultless fs" "fr_pos rd + want \<le> length b"
  shows "\<exists>data rd'. read_exact fs rd want = (Inr data, rd')"
proof -
  obtain n where n: "lookup_node fs (fr_place rd) = Some n" "n_kind n = KFile b"
    using assms(1) by (auto simp: file_bytes_def split: option.splits Kind.splits)
  then show ?thesis using assms(2,3) by (simp add: read_exact_def handle_read_def handle_fault_def faultless_def)
qed

lemma upload_round_works:
  assumes r: "responsive L unread sid" and S: "sends L unread sent"
    and i: "upload_inv unread sent sid place b off n s0 True u s" and f: "file_bytes (cl_fs s0) place = Some b" "faultless (cl_fs s0)"
    and len: "off + unat n = length b" and p: "pc_rate (up_pacer u) \<le> 0" and m: "up_sent u < n" "0 < chunk"
  shows "\<exists>u' s'. upload_round L K chunk sid n u s = Some (Inr (Inl u'), s') \<and> pc_rate (up_pacer u') \<le> 0 \<and> up_sent u < up_sent u'"
proof -
  let ?want = "min (unat (n - up_sent u)) chunk"
  have fs: "cl_fs s = cl_fs s0" using i by (auto simp: upload_inv_def grows_def)
  have enc: "up_encoder u = None" using i by (simp add: upload_inv_def)
  have un: "unat (n - up_sent u) = unat n - unat (up_sent u)" "unat (up_sent u) < unat n"
    using m(1) by (simp_all add: unat_sub word_less_nat_alt less_imp_le)
  have rdr: "up_file u = \<lparr>fr_place = place, fr_pos = off + unat (up_sent u)\<rparr>" using i by (simp add: upload_inv_def)
  have le: "fr_pos (up_file u) + ?want \<le> length b" using rdr len un by simp
  obtain data rd where x: "read_exact (cl_fs s) (up_file u) ?want = (Inr data, rd)"
    using read_exact_works [OF _ _ le, of "cl_fs s"] f fs rdr by auto
  have pc: "pace L (up_pacer u) ?want s = Some (Inr (up_pacer u), s)" using p by (simp add: pace_def ret_def)
  obtain s1 where s1: "send_upload_bytes L sid data False s = Some (Inr (), s1)" using send_upload_works [OF r] by blast
  obtain s2 where s2: "net (l_flush L) s1 = Some (Inr (), s2)" using net_works responsiveD(2) [OF r] by blast
  obtain s3 where s3: "net (l_ingress L) s2 = Some (Inr (), s3)" using net_works responsiveD(3) [OF r] by blast
  obtain s4 where s4: "net (l_flush L) s3 = Some (Inr (), s4)" using net_works responsiveD(2) [OF r] by blast
  let ?u = "u\<lparr>up_file := rd, up_sent := up_sent u + of_nat ?want, up_hasher := up_hasher u @ data, up_pacer := up_pacer u, up_encoder := None\<rparr>"
  have w: "unat (up_sent u + of_nat ?want) = unat (up_sent u) + ?want" by (rule decoded_grows [of _ n]) (simp add: un(1))
  have "upload_round L K chunk sid n u s = Some (Inr (Inl ?u), s4)"
    unfolding upload_round_def Let_def if_not_P [OF not_not [THEN iffD2, OF m(1)]] x prod.case sum.case pc andThen_simps
    by (simp add: send_chunk_def enc s1 s2 s3 s4 ret_def)
  moreover have "up_sent u < up_sent ?u" unfolding word_less_nat_alt using w un m(2) by simp
  ultimately show ?thesis using p by (intro exI [of _ ?u] exI [of _ s4]) simp
qed

lemma upload_loop_works:
  assumes r: "responsive L unread sid" and S: "sends L unread sent"
    and f: "file_bytes (cl_fs s0) place = Some b" "faultless (cl_fs s0)" and len: "off + unat n = length b" and c: "0 < chunk"
  shows "upload_inv unread sent sid place b off n s0 True u s \<Longrightarrow> pc_rate (up_pacer u) \<le> 0 \<Longrightarrow>
    \<exists>u' s'. loop (upload_round L K chunk sid n) u s = Some (Inr u', s')"
proof (induction "unat n - unat (up_sent u)" arbitrary: u s rule: less_induct)
  case less
  show ?case
  proof (cases "up_sent u < n")
    case False
    then have "upload_round L K chunk sid n u s = Some (Inr (Inr u), s)" by (simp add: upload_round_def ret_def)
    then show ?thesis by (simp add: loop_cases)
  next
    case True
    from upload_round_works [OF r S less.prems(1) f len less.prems(2) True c, of K] obtain u' s' where
      u': "upload_round L K chunk sid n u s = Some (Inr (Inl u'), s')" "pc_rate (up_pacer u') \<le> 0" "up_sent u < up_sent u'" by auto
    have i: "upload_inv unread sent sid place b off n s0 True u' s'" using upload_round_inv [OF S less.prems(1) f(1) u'(1)] by simp
    have "unat n - unat (up_sent u') < unat n - unat (up_sent u)" using u'(3) True by (simp add: word_less_nat_alt)
    then show ?thesis using less.hyps [OF _ i u'(2)] u'(1) by (simp add: loop_cases)
  qed
qed

lemma start_upload_works:
  assumes f: "local_file (cl_fs s) local place b" "faultless (cl_fs s)" "\<not> has_nul local" and off: "unat offset \<le> length b"
    and o: "bw_limit_bps opts = 0"
  shows "\<exists>u s'. start_upload L K opts local offset Encoding_Identity s = Some (Inr u, s') \<and> pc_rate (up_pacer u) \<le> 0"
proof -
  obtain n where n: "lookup_node (cl_fs s) place = Some n" "n_kind n = KFile b"
    using f(1) by (auto simp: local_file_def file_bytes_def split: option.splits Kind.splits)
  have op: "open_file (cl_fs s) (OpenOptions_new\<lparr>oo_read := True\<rparr>) local = Inr (place, cl_fs s)"
    using f n by (simp add: open_file_def syscall_path_def local_file_def faultless_def OpenOptions_new_def)
  obtain x where x: "hash_prefix FILE_CHUNK_SIZE ''reading local resume prefix for hash'' (cl_fs s) \<lparr>fr_place = place, fr_pos = 0\<rparr> (unat offset) [] = Inr x"
    using hash_prefix_works [of "cl_fs s" "\<lparr>fr_place = place, fr_pos = 0\<rparr>" b "unat offset" FILE_CHUNK_SIZE "''reading local resume prefix for hash''" "[]"] f off
    by (auto simp: local_file_def)
  obtain rd h where xh: "(if offset > 0 then hash_prefix FILE_CHUNK_SIZE ''reading local resume prefix for hash'' (cl_fs s) \<lparr>fr_place = place, fr_pos = 0\<rparr> (unat offset) []
    else Inr (\<lparr>fr_place = place, fr_pos = 0\<rparr>, [])) = Inr (rd, h)" using x by (cases x; cases "offset > 0") auto
  obtain t s1 where t: "read_clock L s = (t, s1)" by (cases "read_clock L s")
  show ?thesis
    unfolding start_upload_def op sum.case prod.case xh t Let_def by (simp add: ret_def Pacer_with_rate_def o)
qed

lemma do_put_inner_works:
  assumes r: "responsive L unread sid" and S: "sends L unread sent"
    and f: "local_file (cl_fs s) local place b" "faultless (cl_fs s)" "\<not> has_nul local"
    and o: "bw_limit_bps opts = 0" "put_encoding_for opts ce local (of_nat (length b) - sent_offset offset b) = Encoding_Identity"
    and req: "\<And>mode. length (enc_Request (Req_Put (put_args remote (of_nat (length b) - sent_offset offset b) mode (sent_offset offset b) no_clobber Encoding_Identity))) \<le> MAX_MESSAGE_SIZE"
    and w: "encode_framed_message enc_Response Resp_Ok = (Inr frame :: (io_error TransportError, bytes) result)" "unread (cl_conn s) sid = frame @ wire"
  shows "\<exists>s'. do_put_inner L K opts sid local remote offset no_clobber ce s = Some (Inr (), s')"
proof -
  have lb: "length b < 2 ^ 64" using f(1) by (simp add: local_file_def)
  let ?off = "sent_offset offset b" and ?n = "of_nat (length b) - sent_offset offset b :: u64"
  obtain meta where m: "fs_metadata (cl_fs s) local = Inr meta"
    using f by (auto simp: fs_metadata_def syscall_path_def local_file_def faultless_def existing_def file_bytes_def split: option.splits)
  let ?req = "Req_Put (put_args remote ?n (node_mode meta) ?off no_clobber Encoding_Identity)"
  obtain s1 where s1: "send_request L sid ?req s = Some (Inr (), s1)" using send_request_works [OF r req] by blast
  obtain s2 where s2: "net (l_flush L) s1 = Some (Inr (), s2)" using net_works responsiveD(2) [OF r] by blast
  from send_request_grows [OF S s1] obtain fr where "grows unread sent sid fr s s1" by blast
  note g2 = grows_quiet [OF this flush_keeps [OF sendsD(2) [OF S] s2]]
  have fs2: "cl_fs s2 = cl_fs s" using g2 by (simp add: grows_def)
  have f2: "local_file (cl_fs s2) local place b" "faultless (cl_fs s2)" using f fs2 by simp_all
  obtain u s3 where u: "start_upload L K opts local ?off Encoding_Identity s2 = Some (Inr u, s3)" "pc_rate (up_pacer u) \<le> 0"
    using start_upload_works [OF f2 f(3) sent_offset_facts(3) [OF lb] o(1)] by blast
  have i: "upload_inv unread sent sid place b (unat ?off) ?n s2 True u s3" using start_upload_inv [OF S f2(1) u(1)] by simp
  have fb: "file_bytes (cl_fs s2) place = Some b" using f2(1) by (simp add: local_file_def)
  have len: "unat ?off + unat ?n = length b" using sent_offset_facts [OF lb] by simp
  have ch: "0 < UPLOAD_CHUNK" by (simp add: UPLOAD_CHUNK_def)
  obtain u' s4 where l: "loop (upload_round L K UPLOAD_CHUNK sid ?n) u s3 = Some (Inr u', s4)"
    using upload_loop_works [OF r S fb f2(2) len ch i u(2)] by blast
  from upload_loop_inv [OF S fb i l] have i4: "upload_inv unread sent sid place b (unat ?off) ?n s2 True u' s4" ..
  then have e: "up_encoder u' = None" by (simp add: upload_inv_def)
  obtain s6 where s6: "send_upload_bytes L sid (k_blake3 K (up_hasher u')) True s4 = Some (Inr (), s6)" using send_upload_works [OF r] by blast
  obtain s7 where s7: "net (l_flush L) s6 = Some (Inr (), s7)" using net_works responsiveD(2) [OF r] by blast
  obtain body where "grows unread sent sid body s2 s4" using i4 by (auto simp: upload_inv_def)
  from grows_quiet [OF grows_trans [OF grows_trans [OF g2 this] send_upload_grows [OF S s6]] flush_keeps [OF sendsD(2) [OF S] s7]]
  have "unread (cl_conn s7) sid = frame @ wire" using w(2) by (simp add: grows_def)
  from poll_response_works [OF r _ w(1) this] obtain carry s8 where "poll_response_with_buf L sid [] s7 = Some (Inr (Resp_Ok, carry), s8)"
    by auto
  then have s8: "poll_response L sid s7 = Some (Inr Resp_Ok, s8)" by (simp add: poll_response_def ret_def)
  show ?thesis
    unfolding do_put_inner_def m sum.case Let_def metadata_local [OF f(1) m] sent_offset_facts(1) [OF lb] o(2) s1 s2 andThen_simps u(1) l e
    by (simp add: finish_encoder_def ret_def s6 s7 s8 put_answered_def)
qed

section \<open>Properties\<close>

definition demo_source :: FS where
  "demo_source = \<lparr>nodes = [([''f''], demo_node (KFile [6, 7, 8]))], fs_root = demo_node KDir, env_fault = (\<lambda>sys p. None),
     fs_umask = 0, fs_uid = 0, fs_gid = 0, fs_now = (0, 0)\<rparr>"

definition demo_ok_frame :: bytes where
  "demo_ok_frame = be_bytes 4 (length (enc_Response Resp_Ok)) @ enc_Response Resp_Ok"

definition demo_uploader :: "demo_conn Client" where
  "demo_uploader = demo_client\<lparr>cl_conn := (\<lambda>sid. if sid = 0 then [take 2 demo_ok_frame, drop 2 demo_ok_frame] else [], \<lambda>sid. []), cl_fs := demo_source\<rparr>"

lemma demo_link_sends: "sends demo_link demo_unread demo_sent"
  using demo_link_in_order by (auto simp: sends_def send_delivers_def keeps_def demo_link_def demo_sent_def fun_eq_iff)

lemma demo_source_file: "local_file demo_source [''f''] [''f''] [6, 7, 8]" "faultless demo_source" "\<not> has_nul [''f'']"
proof -
  have "namei MAXSYMLINKS demo_source [] [''f''] True = Inr [''f'']" "file_bytes demo_source [''f''] = Some [6, 7, 8]" by code_simp+
  then show "local_file demo_source [''f''] [''f''] [6, 7, 8]" by (simp add: local_file_def)
  show "faultless demo_source" by (simp add: demo_source_def faultless_def)
  show "\<not> has_nul [''f'']" by (simp add: has_nul_def)
qed

lemma demo_upload_plain: "put_encoding_for demo_settings True [''f''] (of_nat (length [6 :: byte, 7, 8]) - sent_offset 1 [6, 7, 8]) = Encoding_Identity"
  by (simp add: put_encoding_for_def sent_offset_def)

lemma demo_put_fits:
  "length (enc_Request (Req_Put (put_args ''/f'' n mode off no_clobber Encoding_Identity))) \<le> MAX_MESSAGE_SIZE"
  by (simp add: put_args_def MAX_MESSAGE_SIZE_def enc_string_def enc_len_def enc_u64_def enc_option_def enc_seq_def enc_Encoding_def
      enc_u32_def enc_u8_def enc_bool_def enc_HashAlgorithm_def enc_PutArgs_def)

lemma demo_ok_encodes: "encode_framed_message enc_Response Resp_Ok = (Inr demo_ok_frame :: (io_error TransportError, bytes) result)"
  by (simp add: encode_framed_message_def demo_ok_frame_def MAX_MESSAGE_SIZE_def Let_def enc_u32_def)

lemma demo_ok_unread: "demo_unread (cl_conn demo_uploader) 0 = demo_ok_frame @ []"
  by (simp add: demo_uploader_def demo_unread_def)

lemma demo_uploader_fs: "cl_fs demo_uploader = demo_source"
  by (simp add: demo_uploader_def)

lemmas demo_put_facts = demo_source_file [folded demo_uploader_fs] demo_upload_plain demo_put_fits demo_ok_encodes demo_ok_unread



theorem upload_sent_whole_witness:
  "\<exists>s' sid s1 mode encoding. do_put demo_link demo_client_prims demo_settings 0 [''f''] ''/f'' 1 False demo_uploader = Some (Inr (), s') \<and>
     uploaded demo_unread demo_sent sid (\<lambda>b. replicate 32 (sum_list b)) [6, 7, 8] (put_args ''/f'' 2 mode 1 False encoding) s1 s'"
proof -
  from do_put_inner_works [OF demo_link_responsive demo_link_sends demo_put_facts(1-3) _ demo_put_facts(4-7), of demo_client_prims]
  obtain s' where "do_put_inner demo_link demo_client_prims demo_settings 0 [''f''] ''/f'' 1 False True demo_uploader = Some (Inr (), s')"
    by (auto simp: demo_settings_def)
  then have d: "do_put demo_link demo_client_prims demo_settings 0 [''f''] ''/f'' 1 False demo_uploader = Some (Inr (), s')"
    by (simp add: do_put_def count_failure_def)
  have off: "sent_offset 1 [6, 7, 8] = 1" "of_nat (length [6 :: byte, 7, 8]) - (1 :: u64) = 2" by (simp_all add: sent_offset_def)
  have k: "k_blake3 demo_client_prims = (\<lambda>b. replicate 32 (sum_list b))" by (simp add: demo_client_prims_def)
  from upload_sent_whole [OF demo_link_sends demo_put_facts(1) d] show ?thesis unfolding off k using d by blast
qed

end
