(* ===== verification/End_To_End.thy ===== *)
theory End_To_End
  imports Client_Put_Live Get_Props Put_Live
begin

text \<open>
  Client and server together. The two sides meet on a stream: what one of them was able to send is
  what the other one reads.
\<close>

section \<open>Downloads\<close>

text \<open>The announcement that a client decodes at the front of a stream is the one that was framed there.\<close>

lemma decodes_front:
  assumes f: "Response_ok resp" "encode_framed_message enc_Response resp = (Inr frame :: (io_error TransportError, bytes) result)"
    and p: "p @ rest = frame @ wire" "decodes p resp' carry"
  shows "resp' = resp \<and> p = frame @ carry"
proof -
  consider (whole) z where "p = frame @ z" | (part) z where "frame = p @ z" "z \<noteq> []"
    using p(1) unfolding append_eq_append_conv2 by (metis append_Nil2)
  then show ?thesis
  proof cases
    case whole
    have "decodes (frame @ z) resp z" by (rule Response_codec.decode_encode [OF f])
    with whole show ?thesis using p(2) by simp
  next
    case part
    have "decode_framed_message dec_Response p = (Inr None :: (io_error TransportError, Response option) result, p)"
      by (rule Response_codec.decode_partial [of resp _ z]) (use f(2) part in simp_all)
    then show ?thesis using p(2) by simp
  qed
qed

text \<open>The sizes that the server announces for the rest of a file.\<close>

lemma start_get_announces:
  assumes g: "start_get P fs0 cwd req w = (Resp_FileReady fr, SendingFileData st, w')"
    and b: "file_bytes (w_fs w) (fr_place (sf_reader st)) = Some b" "length b < 2 ^ 64"
    and p: "real_root (w_fs w) (u_home (w_user w))" "names_ok cwd" and whole: "gr_length req = None"
  shows "unat (fr_total_size fr) = length b" "unat (fr_size fr) = length b - unat (gr_offset req)" "unat (gr_offset req) \<le> length b"
proof -
  from start_get_accepted [OF g] obtain q enc meta place where
    a: "resolve fs0 cwd (u_home (w_user w)) (gr_path req) = Inr q" "recheck_ancestors_no_symlinks (w_fs w) q (u_home (w_user w)) = Inr ()"
      "open_get_file (w_fs w) q = Inr (place, meta)" "is_file_kind (n_kind meta)" "gr_offset req \<le> node_size meta" "fr_total_size fr = node_size meta"
      "fr_size fr = node_size meta - gr_offset req" "fr_place (sf_reader st) = place"
    using whole by auto
  have r: "prefix (u_home (w_user w)) q" "names_ok q" using resolve_result [OF a(1) real_rootD(1) [OF p(1)] p(2)] by auto
  have pl: "plain (w_fs w) q" using recheck_ancestors_plain [OF a(2) p(1) r(2,1)] by blast
  have n: "place = q" "lookup_node (w_fs w) q = Some meta" using open_get_file_spec [OF a(3) r(2) pl] by auto
  have "n_kind meta = KFile b" using b(1) a(4,8) n by (auto simp: file_bytes_def split: Kind.splits)
  then have sz: "unat (node_size meta) = length b" using b(2) by (simp add: node_size_def u64_simps)
  show "unat (fr_total_size fr) = length b" "unat (fr_size fr) = length b - unat (gr_offset req)" "unat (gr_offset req) \<le> length b"
    using a(5-7) sz by (simp_all add: unat_sub word_le_nat_alt)
qed

lemma start_get_trailer:
  assumes "start_get P fs0 cwd req w = (Resp_FileReady fr, s, w')"
  shows "fr_checksum_follows fr \<and> Response_ok (Resp_FileReady fr)"
  using assms
  by (auto simp: start_get_def Let_def err_def get_encoding_def HashAlgorithm_canonical_def Encoding_canonical_def
      split: if_splits sum.splits prod.splits)

text \<open>
  C6: a download carries the file across. Let the server answer a request for the rest of a file of
  \<open>b\<close> from the offset that the client asks for, without compression, and drive the sender to its
  end, however many calls that takes; and let a client that reads this stream return \<open>Ok\<close>. Then the
  client's file has the length of \<open>b\<close>, is the same as \<open>b\<close> from the offset on (so it is \<open>b\<close> when it
  kept nothing) and has the BLAKE3 digest of \<open>b\<close>, kept bytes included.
\<close>

theorem download_end_to_end:
  assumes "start_get P fs0 cwd req w = (Resp_FileReady fr, SendingFileData st0, w')" "gr_length req = None" "fr_encoding fr = Encoding_Identity"
    and "file_bytes (w_fs w) (fr_place (sf_reader st0)) = Some b" "length b < 2 ^ 64"
    and "real_root (w_fs w) (u_home (w_user w))" "names_ok cwd" "send_delivers stream_send sent"
    and "encode_framed_message enc_Response (Resp_FileReady fr) = (Inr frame :: (io_error TransportError, bytes) result)" "sent c0 ssid = frame"
    and "sender_run P stream_send sent ssid b st0 c0 st c" "reader_on fs st b"
    and "drive_one_sender P stream_send fs ssid k st c m = Some (Finished, st', c', m')" "length (g_blake3 P b) = 32"
    and "do_get_inner L K opts sid remote local s = Some (Inr (), s')" "in_order L unread" "plain_disk (cl_fs s)"
    and "gr_offset req = resume_offset (cl_fs s) local" "unread (cl_conn s) sid = sent c' ssid" "k_blake3 K = g_blake3 P"
  shows "\<exists>place b'. local_place (cl_fs s) local place \<and> file_bytes (cl_fs s') place = Some b' \<and> length b' = length b \<and>
    drop (unat (gr_offset req)) b' = drop (unat (gr_offset req)) b \<and> g_blake3 P b' = g_blake3 P b"
proof -
  let ?off = "unat (gr_offset req)"
  note an = start_get_announces [OF assms(1,4-7,2)]
  have "\<exists>body. sent c' ssid = frame @ body @ g_blake3 P b \<and> body = drop ?off b"
    using get_delivered [OF assms(1,4-8,11-13)] assms(3,10) an by simp
  then have st: "unread (cl_conn s) sid = frame @ drop ?off b @ g_blake3 P b" using assms(19) by simp
  from do_get_inner_downloaded [OF assms(15-17)] obtain p fr' carry data n where
    d: "reads unread sid (p @ data) s s'" "decodes p (Resp_FileReady fr') carry"
      "downloaded (k_blake3 K) local (cl_fs s) fr' (carry @ data) (cl_fs s')" by blast
  have eq: "p @ data @ unread (cl_conn s') sid = frame @ drop ?off b @ g_blake3 P b" using d(1) st by (simp add: reads_def)
  have "Resp_FileReady fr' = Resp_FileReady fr \<and> p = frame @ carry"
    by (rule decodes_front [OF conjunct2 [OF start_get_trailer [OF assms(1)]] assms(9) eq d(2)])
  then have fr': "fr' = fr" and wire: "(carry @ data) @ unread (cl_conn s') sid = drop ?off b @ g_blake3 P b" using eq by simp_all
  from d(3) [unfolded fr' downloaded_def] start_get_trailer [OF assms(1)] assms(3) obtain place b' body rest where
    x: "local_place (cl_fs s) local place" "file_bytes (cl_fs s') place = Some b'" "length b' = length b"
      "carry @ data = body @ rest" "32 \<le> length rest" "take 32 rest = k_blake3 K b'" "body = drop ?off b'"
    by (auto simp: an assms(18))
  have "length body = length (drop ?off b)" using x(3,7) by simp
  moreover have "body @ rest @ unread (cl_conn s') sid = drop ?off b @ g_blake3 P b" using wire x(4) by simp
  ultimately have "body = drop ?off b" "rest @ unread (cl_conn s') sid = g_blake3 P b" by (simp_all add: append_eq_append_conv)
  moreover from this(2) have "rest = g_blake3 P b" using x(5) assms(14) by (metis append_Nil2 append_eq_conv_conj length_append le_add1 le_antisym)
  ultimately show ?thesis using x assms(14,20) by (intro exI [of _ place] exI [of _ b']) simp
qed

lemma demo_sender_finishes_after_frame:
  obtains st' c' m' where "drive_one_sender demo_get_prims five_send demo_fs 0 4 demo_sender demo_frame Metrics_default = Some (Finished, st', c', m')"
    "c' = demo_frame @ [2, 3] @ replicate 32 6"
proof -
  have "map_option fst (drive_one_sender demo_get_prims five_send demo_fs 0 4 demo_sender demo_frame Metrics_default) = Some Finished"
    "map_option (\<lambda>(_, _, c, _). c) (drive_one_sender demo_get_prims five_send demo_fs 0 4 demo_sender demo_frame Metrics_default) =
       Some (demo_frame @ [2, 3] @ replicate 32 6)"
    by code_simp+
  then show thesis using that by auto
qed

theorem download_end_to_end_witness:
  "\<exists>s' place b'. do_get_inner demo_link demo_client_prims demo_settings 0 ''/f'' [''f''] demo_client = Some (Inr (), s') \<and>
     file_bytes (cl_fs s') place = Some b' \<and> length b' = 3 \<and> drop 1 b' = [2, 3] \<and> replicate 32 (sum_list b') = replicate 32 (6 :: byte)"
proof -
  obtain w' where g: "start_get demo_get_prims demo_fs demo_root demo_get demo_world =
    (Resp_FileReady demo_file_ready, SendingFileData demo_sender :: (unit, unit) StreamState, w')" by (rule demo_get_starts)
  obtain st' c' m' where d: "drive_one_sender demo_get_prims five_send demo_fs 0 4 demo_sender demo_frame Metrics_default = Some (Finished, st', c', m')"
    "c' = demo_frame @ [2, 3] @ replicate 32 6" by (rule demo_sender_finishes_after_frame)
  have b: "file_bytes (w_fs demo_world) (fr_place (sf_reader demo_sender)) = Some [1, 2, 3]" by code_simp
  then have on: "reader_on demo_fs demo_sender [1, 2, 3]" by (simp add: reader_on_def demo_world_def)
  have fr: "demo_file_ready = demo_answer" by (simp add: demo_file_ready_def demo_answer_def)
  note enc = demo_frame_ok(2) [folded fr]
  have w: "demo_unread (cl_conn demo_client) 0 = demo_frame @ [2, 3] @ k_blake3 demo_client_prims ([1] @ [2, 3])"
    using demo_wire by (simp add: demo_client_def)
  have "\<exists>s'. do_get_inner demo_link demo_client_prims demo_settings 0 ''/f'' [''f''] demo_client = Some (Inr (), s') \<and> file_bytes (cl_fs s') [''f''] = Some ([1] @ [2, 3])"
    by (rule do_get_inner_works [where fs = demo_disk and sid = 0 and s = demo_client, OF demo_link_responsive _ _ _ _ _ demo_frame_ok(3) _ _ demo_frame_ok(1,2,4) w])
      (simp_all add: demo_simps)
  then obtain s' where s': "do_get_inner demo_link demo_client_prims demo_settings 0 ''/f'' [''f''] demo_client = Some (Inr (), s')" by blast
  have "\<exists>place b'. local_place (cl_fs demo_client) [''f''] place \<and> file_bytes (cl_fs s') place = Some b' \<and> length b' = length [1 :: byte, 2, 3] \<and>
    drop (unat (gr_offset demo_get)) b' = drop (unat (gr_offset demo_get)) [1, 2, 3] \<and> g_blake3 demo_get_prims b' = g_blake3 demo_get_prims [1, 2, 3]"
    by (rule download_end_to_end [OF g _ _ b _ demo_start_ok(1,2) five_send_delivers enc refl run_start on d(1) _ s' demo_link_in_order])
      (use w d(2) in \<open>simp_all add: demo_simps demo_get_def demo_file_ready_def demo_get_prims_def\<close>)
  then obtain place b' where "file_bytes (cl_fs s') place = Some b'" "length b' = 3" "drop 1 b' = [2, 3]" "replicate 32 (sum_list b') = replicate 32 (6 :: byte)"
    by (auto simp: demo_get_def demo_get_prims_def)
  then show ?thesis using s' by blast
qed

section \<open>Uploads\<close>

text \<open>
  C5: an upload carries the file across. Let a client that sends the local file of \<open>b\<close> uncompressed
  return \<open>Ok\<close>. The server that reads the stream decodes the client's request and finds exactly the
  body and the digest after it; and one that has accepted this upload, holds the part before the
  offset and does not fail in a system call answers \<open>Ok\<close> on reading them, in chunks of any sizes,
  and its destination file is \<open>b\<close>.
\<close>

theorem upload_end_to_end:
  assumes "sends L unread sent" "local_file (cl_fs s) local place b" "fs_metadata (cl_fs s) local = Inr meta"
    and "args = put_args remote (of_nat (length b) - sent_offset offset b) (node_mode meta) (sent_offset offset b) no_clobber Encoding_Identity"
    and "put_encoding_for opts ce local (put_size args) = Encoding_Identity" "Request_ok (Req_Put args)"
    and "do_put_inner L K opts sid local remote offset no_clobber ce s = Some (Inr (), s')"
    and "encode_framed_message enc_Request (Req_Put args) = (Inr frame :: (io_error TransportError, bytes) result)"
    and "sent (cl_conn s') sid = sent (cl_conn s) sid @ frame @ payload cs" "fin_at_end cs"
    and "awaits st w (take (unat (put_offset args)) b) []" "rf_remaining st = put_size args"
    and "upload_at (u_home (w_user w)) st" "real_root (w_fs w) (u_home (w_user w))" "tree_fs (w_fs w)"
    and "\<not> has_nul (rf_final_path st)" "\<not> is_dir_at (w_fs w) (rf_final_path st)"
    and "rf_no_clobber st \<longrightarrow> lookup_node (w_fs w) (rf_final_path st) = None"
    and "p_blake3 P = k_blake3 K" "length (p_blake3 P b) = 32"
  shows "decode_framed_message dec_Request (frame @ payload cs) = (Inr (Some (Req_Put args)) :: (io_error TransportError, Request option) result, payload cs) \<and>
    (\<exists>st' rs' w'. drive_put P tmp_len (map Inr cs) st w = (Some Resp_Ok, st', rs', w') \<and> file_bytes (w_fs w') (rf_final_path st) = Some b)"
proof
  show "decode_framed_message dec_Request (frame @ payload cs) = (Inr (Some (Req_Put args)) :: (io_error TransportError, Request option) result, payload cs)"
    by (rule Request_codec.decode_encode [OF assms(6,8)])
  have lb: "length b < 2 ^ 64" using assms(2) by (simp add: local_file_def)
  let ?off = "sent_offset offset b"
  have a: "put_offset args = ?off" "put_size args = of_nat (length b) - ?off" "put_encoding args = Encoding_Identity"
    using assms(4) by (simp_all add: put_args_def)
  have "uploaded unread sent sid (k_blake3 K) b args s s'"
    using do_put_inner_uploaded [OF assms(1-3,7)] assms(4,5) a(2) by simp
  then have pl: "payload cs = drop (unat ?off) b @ p_blake3 P b"
    using assms(8,9,19) a by (auto simp: uploaded_def)
  let ?c = "take (unat ?off) b" and ?d = "drop (unat ?off) b"
  have cd: "?c @ ?d = b" by simp
  have "\<exists>st' rs' w'. drive_put P tmp_len (map Inr cs) st w = (Some Resp_Ok, st', rs', w') \<and> file_bytes (w_fs w') (rf_final_path st) = Some (?c @ ?d)"
    by (rule put_runs_through [where c = ?c and body = ?d]) (use assms(10-20) a pl sent_offset_facts [OF lb] in \<open>simp_all only: cd length_drop not_False_eq_True\<close>)
  then show "\<exists>st' rs' w'. drive_put P tmp_len (map Inr cs) st w = (Some Resp_Ok, st', rs', w') \<and> file_bytes (w_fs w') (rf_final_path st) = Some b"
    by simp
qed

lemma demo_put_request:
  "put_encoding_for demo_settings True [''f''] (put_size (put_args ''/f'' 2 mode 1 False Encoding_Identity)) = Encoding_Identity"
  "Request_ok (Req_Put (put_args ''/f'' 2 mode 1 False Encoding_Identity))"
  by (simp_all add: put_encoding_for_def put_args_def PutArgs_ok_def str_ok_def utf8_string_def string_bytes_def HashAlgorithm_canonical_def Encoding_canonical_def)

theorem upload_end_to_end_witness:
  "\<exists>s' st' rs' w'. do_put_inner demo_link demo_client_prims demo_settings 0 [''f''] ''/f'' 1 False True demo_uploader = Some (Inr (), s') \<and>
     drive_put demo_prims 4 (map Inr [([7], False), (8 # replicate 32 21, True)]) demo_upload demo_world = (Some Resp_Ok, st', rs', w') \<and>
     file_bytes (w_fs w') (rf_final_path demo_upload) = Some [6, 7, 8]"
proof -
  from do_put_inner_works [OF demo_link_responsive demo_link_sends demo_put_facts(1-3) _ demo_put_facts(4-7), of demo_client_prims]
  obtain s' where d: "do_put_inner demo_link demo_client_prims demo_settings 0 [''f''] ''/f'' 1 False True demo_uploader = Some (Inr (), s')"
    by (auto simp: demo_settings_def)
  obtain meta where m: "fs_metadata (cl_fs demo_uploader) [''f''] = Inr meta" using do_put_inner_stat [OF d] by blast
  let ?cs = "[([7], False), (8 # replicate 32 21, True)] :: (bytes \<times> bool) list"
  let ?args = "put_args ''/f'' 2 (node_mode meta) 1 False Encoding_Identity"
  have off: "sent_offset 1 [6, 7, 8] = 1" "of_nat (length [6 :: byte, 7, 8]) - (1 :: u64) = 2" by (simp_all add: sent_offset_def)
  have pl: "payload ?cs = [7, 8] @ k_blake3 demo_client_prims [6, 7, 8]" by code_simp
  from do_put_inner_uploaded [OF demo_link_sends demo_put_facts(1) m d] have "uploaded demo_unread demo_sent 0 (k_blake3 demo_client_prims) [6, 7, 8] ?args demo_uploader s'"
    unfolding off using demo_put_request(1) by (simp add: put_args_def)
  then obtain frame where fr: "encode_framed_message enc_Request (Req_Put ?args) = (Inr frame :: (io_error TransportError, bytes) result)"
    "demo_sent (cl_conn s') 0 = demo_sent (cl_conn demo_uploader) 0 @ frame @ payload ?cs"
    unfolding pl by (auto simp: uploaded_def put_args_def)
  have srv: "fin_at_end ?cs" "rf_remaining demo_upload = 2" "\<not> has_nul (rf_final_path demo_upload)" "\<not> is_dir_at (w_fs demo_world) (rf_final_path demo_upload)"
    "rf_no_clobber demo_upload \<longrightarrow> lookup_node (w_fs demo_world) (rf_final_path demo_upload) = None" "length (p_blake3 demo_prims [6, 7, 8]) = 32"
    by code_simp+
  have k: "p_blake3 demo_prims = k_blake3 demo_client_prims" by (simp add: demo_prims_def demo_client_prims_def)
  have "decode_framed_message dec_Request (frame @ payload ?cs) = (Inr (Some (Req_Put ?args)) :: (io_error TransportError, Request option) result, payload ?cs) \<and>
    (\<exists>st' rs' w'. drive_put demo_prims 4 (map Inr ?cs) demo_upload demo_world = (Some Resp_Ok, st', rs', w') \<and>
       file_bytes (w_fs w') (rf_final_path demo_upload) = Some [6, 7, 8])"
    by (rule upload_end_to_end [OF demo_link_sends demo_put_facts(1) m _ demo_put_request d fr srv(1) _ _ demo_upload_ok(2-4) srv(3-5) k srv(6)])
      (use demo_awaits srv(2) in \<open>simp_all add: off put_args_def\<close>)
  then show ?thesis using d by blast
qed

end
