(* ===== verification/Hostname.thy ===== *)
theory Hostname
  imports Retry Compress
begin

text \<open>
  Matching the server's certificate against the host that the client asked for:
  \<open>cert_matches_hostname\<close> of \<open>crates/qftp-client/src/connect.rs\<close>. The certificate parser is third-party
  code: a certificate is what it returns, the names that the code asks for. The outcome of parsing
  the host as a literal address is an argument too.
\<close>

section \<open>Names\<close>

definition trim_dots :: "string \<Rightarrow> string" where
  "trim_dots s = rev (dropWhile (\<lambda>c. c = CHR ''.'') (rev s))"

definition eq_ignore_ascii_case :: "string \<Rightarrow> string \<Rightarrow> bool" where
  "eq_ignore_ascii_case a b \<longleftrightarrow> map ascii_lower a = map ascii_lower b"

text \<open>\<open>str::split_once('.')\<close>\<close>

fun split_once_dot :: "string \<Rightarrow> (string \<times> string) option" where
  "split_once_dot [] = None"
| "split_once_dot (c # cs) =
     (if c = CHR ''.'' then Some ([], cs) else map_option (\<lambda>(a, b). (c # a, b)) (split_once_dot cs))"

definition dns_name_matches :: "string \<Rightarrow> string \<Rightarrow> bool" where
  "dns_name_matches pattern host =
     (let pattern = trim_dots pattern; host = trim_dots host
      in if pattern = [] \<or> host = [] then False
         else if prefix ''*.'' pattern
         then (let rest = drop 2 pattern
               in case split_once_dot host of
                    None \<Rightarrow> False
                  | Some (host_label, host_rest) \<Rightarrow>
                      (if host_label = [] then False else rest \<noteq> [] \<and> eq_ignore_ascii_case rest host_rest))
         else eq_ignore_ascii_case pattern host)"

section \<open>Certificates\<close>

datatype ServerName = IPAddress bytes | DNSName string | OtherName

text \<open>
  \<open>subject_alternative_name()\<close> fails on an extension that cannot be parsed and is \<open>None\<close> without
  the extension; \<open>common_names\<close> are the outcomes of \<open>as_str\<close> on the common names.
\<close>

record ServerCert =
  subject_alternative_name :: "(unit, ServerName list option) result"
  common_names :: "string option list"

datatype DnsSanVerdict = San_Matched | San_PresentNoMatch | San_NoDnsSan | San_FailClosed

definition ip_san_matches :: "bytes \<Rightarrow> IpAddr \<Rightarrow> bool" where
  "ip_san_matches san ip \<longleftrightarrow> san = ip_octets ip"

definition match_ip_san :: "ServerCert \<Rightarrow> IpAddr \<Rightarrow> bool" where
  "match_ip_san cert ip =
     (case subject_alternative_name cert of
        Inr (Some names) \<Rightarrow> list_ex (\<lambda>gn. case gn of IPAddress b \<Rightarrow> ip_san_matches b ip | _ \<Rightarrow> False) names
      | _ \<Rightarrow> False)"

definition match_dns_san :: "ServerCert \<Rightarrow> string \<Rightarrow> DnsSanVerdict" where
  "match_dns_san cert host =
     (case subject_alternative_name cert of
        Inr (Some names) \<Rightarrow>
          (if list_ex (\<lambda>gn. case gn of DNSName pat \<Rightarrow> dns_name_matches pat host | _ \<Rightarrow> False) names
           then San_Matched else San_PresentNoMatch)
      | Inr None \<Rightarrow> San_NoDnsSan
      | Inl _ \<Rightarrow> San_FailClosed)"

definition match_cn_fallback :: "ServerCert \<Rightarrow> string \<Rightarrow> bool" where
  "match_cn_fallback cert host = list_ex (\<lambda>cn. case cn of Some n \<Rightarrow> dns_name_matches n host | None \<Rightarrow> False) (common_names cert)"

text \<open>\<open>None\<close> is a certificate that cannot be parsed; \<open>ip\<close> is the host as a literal address.\<close>

definition cert_matches_hostname :: "ServerCert option \<Rightarrow> string \<Rightarrow> IpAddr option \<Rightarrow> bool" where
  "cert_matches_hostname der host ip =
     (case der of
        None \<Rightarrow> False
      | Some cert \<Rightarrow>
          (case ip of
             Some a \<Rightarrow> match_ip_san cert a
           | None \<Rightarrow>
               (case match_dns_san cert host of
                  San_Matched \<Rightarrow> True
                | San_FailClosed \<Rightarrow> False
                | San_PresentNoMatch \<Rightarrow> False
                | San_NoDnsSan \<Rightarrow> match_cn_fallback cert host)))"

section \<open>Labels\<close>

text \<open>The labels of a name, a trailing dot apart, in lower case.\<close>

fun split_dots :: "string \<Rightarrow> string list" where
  "split_dots [] = [[]]"
| "split_dots (c # cs) =
     (if c = CHR ''.'' then [] # split_dots cs else (case split_dots cs of l # ls \<Rightarrow> (c # l) # ls | [] \<Rightarrow> [[c]]))"

definition labels :: "string \<Rightarrow> string list" where
  "labels s = split_dots (map ascii_lower (trim_dots s))"

lemma split_dots_not_Nil [simp]: "split_dots s \<noteq> []"
  by (cases s) (auto split: list.splits)

fun join_dots :: "string list \<Rightarrow> string" where
  "join_dots [] = []"
| "join_dots [l] = l"
| "join_dots (l # ls) = l @ ''.'' @ join_dots ls"

lemma join_split_dots [simp]: "join_dots (split_dots s) = s"
proof (induction s)
  case (Cons c cs)
  obtain l ls where l: "split_dots cs = l # ls" using split_dots_not_Nil [of cs] by (cases "split_dots cs") auto
  then show ?case using Cons by (cases ls) auto
qed simp

lemma split_dots_inject: "split_dots a = split_dots b \<longleftrightarrow> a = b"
  by (metis join_split_dots)

lemma ascii_lower_dot [simp]: "ascii_lower c = CHR ''.'' \<longleftrightarrow> c = CHR ''.''"
proof -
  have "ascii_lower c = (if 65 \<le> (of_char c :: nat) \<and> of_char c \<le> (90 :: nat) then char_of (of_char c + 32 :: nat) else c)" by (simp add: ascii_lower_def Let_def)
  moreover have "char_of (of_char c + 32 :: nat) \<noteq> CHR ''.''" if "65 \<le> (of_char c :: nat)" "of_char c \<le> (90 :: nat)"
  proof
    assume "char_of (of_char c + 32 :: nat) = CHR ''.''"
    then have "(of_char (char_of (of_char c + 32 :: nat)) :: nat) = 46" by simp
    then show False using that by (simp add: of_char_of)
  qed
  ultimately show ?thesis by auto
qed

lemma split_once_dot_labels:
  "(case split_once_dot s of None \<Rightarrow> split_dots (map ascii_lower s) = [map ascii_lower s]
    | Some (a, b) \<Rightarrow> split_dots (map ascii_lower s) = map ascii_lower a # split_dots (map ascii_lower b))"
  by (induction s) (auto split: option.splits)

lemma star_lower: "ascii_lower CHR ''*'' = CHR ''*''"
  by code_simp

lemma wildcard_labels:
  assumes "prefix ''*.'' s"
  shows "split_dots (map ascii_lower s) = ''*'' # split_dots (map ascii_lower (drop 2 s))"
proof -
  obtain r where "s = ''*.'' @ r" using assms by (auto simp: prefix_def)
  moreover have "ascii_lower CHR ''.'' = CHR ''.''" by simp
  ultimately show ?thesis by (simp add: star_lower)
qed

lemma ascii_lower_star [simp]: "ascii_lower c = CHR ''*'' \<longleftrightarrow> c = CHR ''*''"
proof -
  have "ascii_lower c = (if 65 \<le> (of_char c :: nat) \<and> of_char c \<le> (90 :: nat) then char_of (of_char c + 32 :: nat) else c)" by (simp add: ascii_lower_def Let_def)
  moreover have "char_of (of_char c + 32 :: nat) \<noteq> CHR ''*''" if "65 \<le> (of_char c :: nat)" "of_char c \<le> (90 :: nat)"
  proof
    assume "char_of (of_char c + 32 :: nat) = CHR ''*''"
    then have "(of_char (char_of (of_char c + 32 :: nat)) :: nat) = 42" by simp
    then show False using that by (simp add: of_char_of)
  qed
  ultimately show ?thesis by auto
qed

lemma wildcard_iff:
  "prefix ''*.'' s \<longleftrightarrow> hd (split_dots (map ascii_lower s)) = ''*'' \<and> tl (split_dots (map ascii_lower s)) \<noteq> []" (is "?a \<longleftrightarrow> ?b")
proof
  assume ?a then show ?b by (simp add: wildcard_labels)
next
  let ?ls = "split_dots (map ascii_lower s)"
  assume b: ?b
  then obtain l ls where "?ls = ''*'' # l # ls" using split_dots_not_Nil [of "map ascii_lower s"] by (cases ?ls; cases "tl ?ls") auto
  then have "map ascii_lower s = ''*.'' @ join_dots (l # ls)" using join_split_dots [of "map ascii_lower s"] by simp
  then show ?a by (auto simp: map_eq_Cons_conv)
qed

lemma trim_dots_last: "trim_dots s \<noteq> [] \<Longrightarrow> last (trim_dots s) \<noteq> CHR ''.''"
  using hd_dropWhile [of "\<lambda>c. c = CHR ''.''" "rev s"] by (simp add: trim_dots_def last_rev)

lemma split_dots_empty: "split_dots s = [[]] \<longleftrightarrow> s = []"
  using split_dots_inject [of s "[]"] by simp

text \<open>When a name of the certificate covers a host: the same labels, or a wildcard for the first one.\<close>

definition names_host :: "string \<Rightarrow> string \<Rightarrow> bool" where
  "names_host pattern host \<longleftrightarrow>
     (let ps = labels pattern; hs = labels host
      in ps \<noteq> [[]] \<and> hs \<noteq> [[]] \<and>
         (if hd ps = ''*'' \<and> tl ps \<noteq> [] then hd hs \<noteq> [] \<and> tl hs = tl ps else hs = ps))"

lemma dns_name_matches_labels: "dns_name_matches pattern host \<longleftrightarrow> names_host pattern host"
proof -
  let ?p = "trim_dots pattern" and ?h = "trim_dots host"
  consider "?p = [] \<or> ?h = []" | (wild) "?p \<noteq> []" "?h \<noteq> []" "prefix ''*.'' ?p" | (exact) "?p \<noteq> []" "?h \<noteq> []" "\<not> prefix ''*.'' ?p" by blast
  then show ?thesis
  proof cases
    case 1
    then show ?thesis by (auto simp: dns_name_matches_def names_host_def labels_def split_dots_empty Let_def)
  next
    case exact
    have "names_host pattern host \<longleftrightarrow> labels host = labels pattern"
      using exact wildcard_iff [of ?p] by (auto simp: names_host_def labels_def split_dots_empty Let_def)
    then show ?thesis using exact by (auto simp: dns_name_matches_def labels_def split_dots_inject eq_ignore_ascii_case_def)
  next
    case wild
    have r: "drop 2 ?p \<noteq> []" using trim_dots_last [OF wild(1)] wild(3) by (auto simp: prefix_def)
    have "names_host pattern host \<longleftrightarrow> hd (labels host) \<noteq> [] \<and> tl (labels host) = split_dots (map ascii_lower (drop 2 ?p))"
      using wild wildcard_labels [OF wild(3)] by (auto simp: names_host_def labels_def split_dots_empty Let_def)
    then show ?thesis using wild r split_once_dot_labels [of ?h]
      by (auto simp: dns_name_matches_def labels_def split_dots_inject eq_ignore_ascii_case_def Let_def split_dots_not_Nil [symmetric] split: option.splits)
  qed
qed

section \<open>Properties\<close>

text \<open>
  C25: what a certificate has to say about the server. It is accepted for a literal address exactly
  if an address entry of its subject alternative names is that address, and for a host name
  exactly if a DNS entry of the extension names the host or, only when the certificate has no
  such extension at all, a common name does. A name covers the hosts with the same labels up to
  ASCII case and trailing dots; a first label \<open>*\<close> of a name with more labels stands for exactly one
  non-empty label. A certificate or an extension that cannot be parsed is never accepted.
\<close>

theorem server_identity:
  "cert_matches_hostname der host ip \<longleftrightarrow>
     (\<exists>cert. der = Some cert \<and>
        (case ip of
           Some a \<Rightarrow> (\<exists>names. subject_alternative_name cert = Inr (Some names) \<and> IPAddress (ip_octets a) \<in> set names)
         | None \<Rightarrow>
             (\<exists>names pat. subject_alternative_name cert = Inr (Some names) \<and> DNSName pat \<in> set names \<and> names_host pat host) \<or>
             subject_alternative_name cert = Inr None \<and> (\<exists>n. Some n \<in> set (common_names cert) \<and> names_host n host)))"
proof (cases der)
  case None
  then show ?thesis by (simp add: cert_matches_hostname_def)
next
  case (Some cert)
  have ex: "list_ex (\<lambda>gn. case gn of IPAddress b \<Rightarrow> P b | _ \<Rightarrow> False) names \<longleftrightarrow> (\<exists>b. IPAddress b \<in> set names \<and> P b)" for P names
    by (induction names) (auto split: ServerName.splits)
  have i: "match_ip_san cert a \<longleftrightarrow> (\<exists>names. subject_alternative_name cert = Inr (Some names) \<and> IPAddress (ip_octets a) \<in> set names)" for a
    by (auto simp: match_ip_san_def ex ip_san_matches_def split: sum.splits option.splits)
  have c: "match_cn_fallback cert host \<longleftrightarrow> (\<exists>n. Some n \<in> set (common_names cert) \<and> names_host n host)"
    unfolding match_cn_fallback_def by (induction "common_names cert") (auto simp: dns_name_matches_labels list_ex_iff split: option.splits)
  have d: "list_ex (\<lambda>gn. case gn of DNSName pat \<Rightarrow> dns_name_matches pat host | _ \<Rightarrow> False) names \<longleftrightarrow> (\<exists>pat. DNSName pat \<in> set names \<and> names_host pat host)" for names
    by (induction names) (auto simp: dns_name_matches_labels split: ServerName.splits)
  show ?thesis using i c d by (auto simp: Some cert_matches_hostname_def match_dns_san_def split: option.splits sum.splits)
qed

end
