(* ===== verification/Known_Hosts.thy ===== *)
theory Known_Hosts
  imports Compress Files Users
begin

text \<open>
  Trust on first use: the \<open>known_hosts\<close> file of \<open>crates/qftp-client/src/known_hosts.rs\<close> and the check
  that \<open>main.rs\<close> makes after the handshake. A text is a \<open>string\<close> of its UTF-8 bytes. SHA-256 is
  a parameter, and so is the outcome of \<open>flock\<close>.
\<close>

section \<open>Text\<close>

text \<open>\<open>to_hex\<close> of \<open>crates/qftp-common/src/util.rs\<close>, and the character classes of the code.\<close>

definition hex_digit :: "nat \<Rightarrow> char" where
  "hex_digit d = char_of (if d < 10 then 48 + d else 87 + d)"

definition to_hex :: "bytes \<Rightarrow> string" where
  "to_hex bs = concat (map (\<lambda>b. [hex_digit (unat b div 16), hex_digit (unat b mod 16)]) bs)"

definition is_ascii_digit :: "char \<Rightarrow> bool" where
  "is_ascii_digit c \<longleftrightarrow> 48 \<le> (of_char c :: nat) \<and> of_char c \<le> (57 :: nat)"

definition is_ascii_alphanumeric :: "char \<Rightarrow> bool" where
  "is_ascii_alphanumeric c \<longleftrightarrow> is_ascii_digit c \<or> 65 \<le> (of_char c :: nat) \<and> of_char c \<le> (90 :: nat) \<or>
     97 \<le> (of_char c :: nat) \<and> of_char c \<le> (122 :: nat)"

definition is_ascii_hexdigit :: "char \<Rightarrow> bool" where
  "is_ascii_hexdigit c \<longleftrightarrow> is_ascii_digit c \<or> 65 \<le> (of_char c :: nat) \<and> of_char c \<le> (70 :: nat) \<or>
     97 \<le> (of_char c :: nat) \<and> of_char c \<le> (102 :: nat)"

text \<open>\<open>BufRead::lines\<close> without the check of the encoding: the line ends are dropped.\<close>

fun split_lines :: "string \<Rightarrow> string list" where
  "split_lines [] = []"
| "split_lines (c # cs) =
     (if c = CHR 0x0A then [] # split_lines cs
      else (case split_lines cs of [] \<Rightarrow> [[c]] | l # ls \<Rightarrow> (c # l) # ls))"

definition strip_cr :: "string \<Rightarrow> string" where
  "strip_cr l = (if l \<noteq> [] \<and> last l = CHR 0x0D then butlast l else l)"

text \<open>\<open>split_whitespace().next()\<close>: the next word, empty for none, and what follows it.\<close>

definition starts_white :: "string \<Rightarrow> bool" where
  "starts_white s \<longleftrightarrow> list_ex (\<lambda>w. prefix w s) white_space"

fun take_word :: "string \<Rightarrow> string \<times> string" where
  "take_word [] = ([], [])"
| "take_word (c # cs) = (if starts_white (c # cs) then ([], c # cs) else (let (w, r) = take_word cs in (c # w, r)))"

definition next_word :: "string \<Rightarrow> string \<times> string" where
  "next_word s = take_word (trim_start_with white_space s)"

section \<open>The file\<close>

record Entry =
  host_port :: string
  fingerprint_hex :: string

datatype Verdict = Verdict_New | Verdict_Match | Verdict_Mismatch string

text \<open>A line of the file; \<open>None\<close> is a line that is skipped.\<close>

definition parse_line :: "string \<Rightarrow> Entry option" where
  "parse_line line =
     (let trimmed = trim line
      in if trimmed = [] \<or> hd trimmed = CHR ''#'' then None
         else (let (host, r) = next_word trimmed; (fp, _) = next_word r
               in if host = [] \<or> fp = [] then None
                  else if \<not> prefix ''sha256:'' fp then None
                  else (let hex = drop 7 fp
                        in if length hex \<noteq> 64 \<or> \<not> list_all is_ascii_hexdigit hex then None
                           else Some \<lparr>host_port = host, fingerprint_hex = map ascii_lower hex\<rparr>)))"

definition from_reader :: "string \<Rightarrow> (io_error, Entry list) result" where
  "from_reader text =
     (let ls = map strip_cr (split_lines text)
      in if list_all utf8_string ls then Inr (List.map_filter parse_line ls)
         else Inl (OtherError ''stream did not contain valid UTF-8''))"

definition read_to_end :: "FS \<Rightarrow> path \<Rightarrow> (io_error, bytes) result" where
  "read_to_end fs place = handle_read fs place 0 (case file_bytes fs place of Some b \<Rightarrow> length b | None \<Rightarrow> 0)"

definition load :: "FS \<Rightarrow> path \<Rightarrow> (io_error, Entry list) result" where
  "load fs path =
     (case open_file fs (OpenOptions_new\<lparr>oo_read := True\<rparr>) path of
        Inl e \<Rightarrow> (if error_kind e = Kind_NotFound then Inr [] else Inl e)
      | Inr (place, _) \<Rightarrow> bindR (read_to_end fs place) (\<lambda>b. from_reader (bytes_string b)))"

definition lookup :: "Entry list \<Rightarrow> string \<Rightarrow> string \<Rightarrow> Verdict" where
  "lookup entries host fp =
     (case List.find (\<lambda>e. host_port e = host) entries of
        None \<Rightarrow> Verdict_New
      | Some e \<Rightarrow> (if fingerprint_hex e = map ascii_lower fp then Verdict_Match else Verdict_Mismatch (fingerprint_hex e)))"

definition is_valid_host_port :: "string \<Rightarrow> bool" where
  "is_valid_host_port s \<longleftrightarrow> s \<noteq> [] \<and> list_all (\<lambda>c. is_ascii_alphanumeric c \<or> c \<in> set ''._-:[]'') s"

definition is_valid_fingerprint_hex :: "string \<Rightarrow> bool" where
  "is_valid_fingerprint_hex s \<longleftrightarrow> length s = 64 \<and> list_all is_ascii_hexdigit s"

definition to_digit16 :: "char \<Rightarrow> nat option" where
  "to_digit16 c =
     (let k = of_char c in if 48 \<le> k \<and> k \<le> 57 then Some (k - 48)
      else if 97 \<le> k \<and> k \<le> 102 then Some (k - 87) else if 65 \<le> k \<and> k \<le> 70 then Some (k - 55) else None)"

fun decode_pairs :: "string \<Rightarrow> bytes option" where
  "decode_pairs (hi # lo # cs) =
     Option.bind (to_digit16 hi) (\<lambda>h. Option.bind (to_digit16 lo) (\<lambda>l.
       map_option ((#) (of_nat (h * 16 + l))) (decode_pairs cs)))"
| "decode_pairs cs = Some []"

definition decode_fingerprint_hex :: "string \<Rightarrow> bytes option" where
  "decode_fingerprint_hex hex = (if length hex \<noteq> 64 then None else decode_pairs hex)"

definition pinned_fingerprint :: "Entry list \<Rightarrow> string \<Rightarrow> bytes option" where
  "pinned_fingerprint entries host =
     Option.bind (List.find (\<lambda>e. host_port e = host) entries) (\<lambda>e. decode_fingerprint_hex (fingerprint_hex e))"

section \<open>Pinning a host\<close>

datatype PinError =
    Pin_BadHost string
  | Pin_BadFingerprint string
  | Pin_Io string io_error
  | Pin_NoCertificate
  | Pin_Changed string string string

text \<open>A write to a file opened for appending, and \<open>writeln!\<close>, which writes its pieces one by one.\<close>

definition append_bytes :: "FS \<Rightarrow> path \<Rightarrow> bytes \<Rightarrow> (io_error, FS) result" where
  "append_bytes fs place data = handle_write fs place (case file_bytes fs place of Some b \<Rightarrow> length b | None \<Rightarrow> 0) data"

fun append_pieces :: "FS \<Rightarrow> path \<Rightarrow> bytes list \<Rightarrow> (io_error, unit) result \<times> FS" where
  "append_pieces fs place [] = (Inr (), fs)"
| "append_pieces fs place (d # ds) =
     (case append_bytes fs place d of Inl e \<Rightarrow> (Inl e, fs) | Inr fs' \<Rightarrow> append_pieces fs' place ds)"

definition append_to_file :: "io_error option \<Rightarrow> FS \<Rightarrow> path \<Rightarrow> string \<Rightarrow> string \<Rightarrow> (PinError, unit) result \<times> FS" where
  "append_to_file flock fs path host fp =
     (if \<not> is_valid_host_port host then (Inl (Pin_BadHost host), fs)
      else if \<not> is_valid_fingerprint_hex fp then (Inl (Pin_BadFingerprint fp), fs)
      else (case (if path \<noteq> [] then create_dir_all fs (butlast path) else (Inr (), fs)) of
          (Inl e, fs) \<Rightarrow> (Inl (Pin_Io ''failed to create'' e), fs)
        | (Inr _, fs) \<Rightarrow>
            (case open_file fs (OpenOptions_new\<lparr>oo_create := True, oo_write := True, oo_mode := 0x180\<rparr>) path of
               Inl e \<Rightarrow> (Inl (Pin_Io ''failed to open for append'' e), fs)
             | Inr (place, fs) \<Rightarrow>
                 (let fs = (case handle_set_permissions fs place 0x180 of Inl _ \<Rightarrow> fs | Inr fs \<Rightarrow> fs)
                  in case flock of
                       Some e \<Rightarrow> (Inl (Pin_Io ''failed to flock'' e), fs)
                     | None \<Rightarrow>
                         (case append_pieces fs place (map string_bytes [host, '' sha256:'', fp, [CHR 0x0A]]) of
                            (Inl e, fs) \<Rightarrow> (Inl (Pin_Io ''failed to write'' e), fs)
                          | (Inr _, fs) \<Rightarrow> (Inr (), fs))))))"

text \<open>
  The check of \<open>main.rs\<close>, on the entries that were loaded before the connection was made.
  \<open>der\<close> is the certificate that the server presented, if any.
\<close>

definition tofu_check ::
  "(bytes \<Rightarrow> bytes) \<Rightarrow> io_error option \<Rightarrow> FS \<Rightarrow> path \<Rightarrow> Entry list \<Rightarrow> string \<Rightarrow> bytes option \<Rightarrow> (PinError, unit) result \<times> FS" where
  "tofu_check sha256 flock fs path kh host der =
     (case der of
        None \<Rightarrow> (Inl Pin_NoCertificate, fs)
      | Some d \<Rightarrow>
          (let seen = to_hex (sha256 d)
           in case lookup kh host seen of
                Verdict_Match \<Rightarrow> (Inr (), fs)
              | Verdict_New \<Rightarrow> append_to_file flock fs path host seen
              | Verdict_Mismatch pinned \<Rightarrow> (Inl (Pin_Changed host pinned seen), fs)))"

definition tofu_connect ::
  "(bytes \<Rightarrow> bytes) \<Rightarrow> io_error option \<Rightarrow> FS \<Rightarrow> path \<Rightarrow> string \<Rightarrow> bytes option \<Rightarrow> (PinError, unit) result \<times> FS" where
  "tofu_connect sha256 flock fs path host der =
     (case load fs path of
        Inl e \<Rightarrow> (Inl (Pin_Io ''failed to open'' e), fs)
      | Inr kh \<Rightarrow> tofu_check sha256 flock fs path kh host der)"

end
