(* ===== verification/Text_Trim.thy ===== *)
theory Text_Trim
  imports Users
begin

text \<open>
  Trimming: Unicode white space, as \<open>str::trim\<close> and \<open>split_whitespace\<close> of the standard library use it, and
  why text of visible ASCII characters stays as it is.
\<close>

text \<open>Visible ASCII characters begin and end no white space.\<close>

definition graphic :: "char \<Rightarrow> bool" where
  "graphic c \<longleftrightarrow> 33 \<le> (of_char c :: nat) \<and> of_char c \<le> (126 :: nat)"

lemma white_space_edges:
  "list_all (\<lambda>w. w \<noteq> [] \<and> \<not> graphic (hd w)) white_space" "list_all (\<lambda>w. w \<noteq> [] \<and> \<not> graphic (hd w)) (map rev white_space)"
  "list_all (\<lambda>w. hd w = CHR '' '' \<longrightarrow> w = '' '') white_space" "'' '' \<in> set white_space"
  by code_simp+

lemma edge_not_graphic:
  assumes "list_all (\<lambda>w. w \<noteq> [] \<and> \<not> graphic (hd w)) ws" "w \<in> set ws" "prefix w (c # cs)"
  shows "\<not> graphic c"
proof -
  have "w \<noteq> []" "\<not> graphic (hd w)" using assms(1,2) by (simp_all add: list_all_iff)
  moreover have "hd w = c" using assms(3) \<open>w \<noteq> []\<close> by (cases w) simp_all
  ultimately show ?thesis by simp
qed

lemmas white_space_hd = edge_not_graphic [OF white_space_edges(1)]
  and white_space_last = edge_not_graphic [OF white_space_edges(2)]

lemma trim_start_graphic: "(\<And>w. w \<in> set ws \<Longrightarrow> w \<noteq> [] \<Longrightarrow> \<not> prefix w s) \<Longrightarrow> trim_start_with ws s = s"
  by (subst trim_start_with.simps) (auto split: option.splits simp: find_Some_iff)

lemma trim_graphic: "graphic (hd s) \<Longrightarrow> graphic (last s) \<Longrightarrow> s \<noteq> [] \<Longrightarrow> trim s = s"
proof -
  assume g: "graphic (hd s)" "graphic (last s)" "s \<noteq> []"
  have 1: "trim_start_with white_space s = s"
    by (rule trim_start_graphic) (use g white_space_hd [of _ "hd s" "tl s"] in auto)
  have 2: "trim_start_with (map rev white_space) (rev s) = rev s"
    by (rule trim_start_graphic) (use g white_space_last [of _ "last s" "tl (rev s)"] in \<open>cases s rule: rev_cases; auto\<close>)
  show ?thesis by (simp add: trim_def 1 2)
qed

end
