(* ===== verification/Known_Hosts_Props.thy ===== *)
theory Known_Hosts_Props
  imports Known_Hosts Text_Trim
begin

text \<open>
  Properties of trust on first use: a line that is appended is read back as exactly one entry, and
  a host that was accepted once stays pinned to its certificate.
\<close>

section \<open>Text\<close>

lemma hex_digit_facts:
  "d < 16 \<Longrightarrow> to_digit16 (hex_digit d) = Some d" "d < 16 \<Longrightarrow> ascii_lower (hex_digit d) = hex_digit d" "d < 16 \<Longrightarrow> is_ascii_hexdigit (hex_digit d)"
  by (auto simp: to_digit16_def hex_digit_def ascii_lower_def is_ascii_hexdigit_def is_ascii_digit_def Let_def of_char_of)

lemma byte_nibbles: "unat b div 16 < 16" "unat b mod 16 < 16" for b :: byte
  by (rule less_mult_imp_div_less) simp_all

lemma to_hex_simps [simp]:
  "to_hex [] = []" "to_hex (b # bs) = hex_digit (unat b div 16) # hex_digit (unat b mod 16) # to_hex bs"
  by (simp_all add: to_hex_def)

lemma decode_to_hex: "decode_pairs (to_hex bs) = Some bs"
  by (induction bs) (simp_all add: hex_digit_facts byte_nibbles del: of_nat_add of_nat_mult)

lemma to_hex_inject: "to_hex a = to_hex b \<longleftrightarrow> a = b"
  using decode_to_hex by (metis option.inject)

lemma length_to_hex [simp]: "length (to_hex bs) = 2 * length bs"
  by (induction bs) simp_all

lemma to_hex_lower [simp]: "map ascii_lower (to_hex bs) = to_hex bs"
  by (induction bs) (simp_all add: hex_digit_facts byte_nibbles)

lemma to_hex_hexdigits: "list_all is_ascii_hexdigit (to_hex bs)"
  by (induction bs) (simp_all add: hex_digit_facts byte_nibbles)

lemma starts_white_graphic: "graphic c \<Longrightarrow> \<not> starts_white (c # cs)"
  using white_space_hd by (auto simp: starts_white_def list_ex_iff)

lemma starts_white_space: "starts_white (CHR '' '' # cs)"
  using white_space_edges(4) by (auto simp: starts_white_def list_ex_iff intro!: bexI [of _ "'' ''"])

lemma take_word_graphic: "list_all graphic w \<Longrightarrow> (r = [] \<or> starts_white r) \<Longrightarrow> take_word (w @ r) = (w, r)"
proof (induction w)
  case Nil
  then show ?case by (cases r) auto
qed (simp add: starts_white_graphic)

lemma next_word_graphic: "list_all graphic w \<Longrightarrow> w \<noteq> [] \<Longrightarrow> (r = [] \<or> starts_white r) \<Longrightarrow> next_word (w @ r) = (w, r)"
proof -
  assume w: "list_all graphic w" "w \<noteq> []" "r = [] \<or> starts_white r"
  have "trim_start_with white_space (w @ r) = w @ r"
    by (rule trim_start_graphic) (use w white_space_hd [of _ "hd w" "tl w @ r"] in \<open>cases w; auto\<close>)
  then show ?thesis using take_word_graphic w by (simp add: next_word_def)
qed

lemma trim_one_space: "graphic (hd w) \<Longrightarrow> w \<noteq> [] \<Longrightarrow> trim_start_with white_space (CHR '' '' # w) = w"
proof -
  assume w: "graphic (hd w)" "w \<noteq> []"
  let ?p = "\<lambda>v. v \<noteq> [] \<and> prefix v (CHR '' '' # w)"
  have "List.find ?p white_space \<noteq> None" using white_space_edges(4) by (auto simp: find_None_iff)
  then obtain v where v: "List.find ?p white_space = Some v" by blast
  then have "v \<in> set white_space" "?p v" by (auto simp: find_Some_iff)
  moreover from this(2) have "hd v = CHR '' ''" by (cases v) simp_all
  ultimately have "v = '' ''" using white_space_edges(3) by (simp add: list_all_iff)
  note f = v [unfolded this]
  have "trim_start_with white_space w = w"
    by (rule trim_start_graphic) (use w white_space_hd [of _ "hd w" "tl w"] in \<open>cases w; auto\<close>)
  then show ?thesis by (subst trim_start_with.simps) (simp add: f)
qed

lemma split_lines_line: "CHR 0x0A \<notin> set l \<Longrightarrow> split_lines (l @ [CHR 0x0A]) = [l]"
  by (induction l) auto

lemma split_lines_last: "CHR 0x0A \<notin> set l \<Longrightarrow> l \<noteq> [] \<Longrightarrow> split_lines l = [l]"
proof (induction l)
  case (Cons c cs)
  then show ?case by (cases "cs = []") auto
qed simp

lemma split_lines_append: "t = [] \<or> last t = CHR 0x0A \<Longrightarrow> split_lines (t @ u) = split_lines t @ split_lines u"
proof (induction t)
  case (Cons c cs)
  then show ?case by (cases "cs = []") (auto split: list.splits, (cases cs; auto split: list.splits if_splits)+)
qed simp

section \<open>The appended line\<close>

lemma host_graphic: "is_valid_host_port h \<Longrightarrow> list_all graphic h"
  by (auto simp: is_valid_host_port_def list_all_iff is_ascii_alphanumeric_def is_ascii_digit_def graphic_def)

lemma fingerprint_graphic: "list_all is_ascii_hexdigit f \<Longrightarrow> list_all graphic f"
  by (auto simp: list_all_iff is_ascii_hexdigit_def is_ascii_digit_def graphic_def)

definition pin_line :: "string \<Rightarrow> string \<Rightarrow> string" where
  "pin_line host fp = host @ '' sha256:'' @ fp"

lemma graphic_join: "list_all graphic a \<Longrightarrow> list_all graphic b \<Longrightarrow> c \<in> set (a @ [x] @ b) \<Longrightarrow> c = x \<or> graphic c"
  by (auto simp: list_all_iff)

lemma pin_line_ascii:
  assumes "is_valid_host_port host" "is_valid_fingerprint_hex fp" "c \<in> set (pin_line host fp)"
  shows "c = CHR '' '' \<or> graphic c"
proof -
  have "list_all graphic host" "list_all graphic (''sha256:'' @ fp)"
    using host_graphic [OF assms(1)] fingerprint_graphic [of fp] assms(2) by (auto simp: is_valid_fingerprint_hex_def graphic_def)
  then show ?thesis by (rule graphic_join) (use assms(3) in \<open>simp only: pin_line_def append.simps\<close>)
qed

lemma pin_line_parsed:
  assumes h: "is_valid_host_port host" and f: "is_valid_fingerprint_hex fp"
  shows "parse_line (strip_cr (pin_line host fp)) = Some \<lparr>host_port = host, fingerprint_hex = map ascii_lower fp\<rparr>"
    and "utf8_string (strip_cr (pin_line host fp))" and "CHR 0x0A \<notin> set (pin_line host fp)"
proof -
  have g: "list_all graphic host" "list_all graphic (''sha256:'' @ fp)" "host \<noteq> []" "fp \<noteq> []" "length fp = 64" "list_all is_ascii_hexdigit fp"
    using host_graphic [OF h] fingerprint_graphic [of fp] f h by (auto simp: is_valid_fingerprint_hex_def is_valid_host_port_def graphic_def)
  have l: "last (pin_line host fp) = last fp" "hd (pin_line host fp) = hd host" using g by (simp_all add: pin_line_def)
  have e: "graphic (last fp)" "graphic (hd host)" using g by (simp_all add: list_all_iff)
  have cr: "strip_cr (pin_line host fp) = pin_line host fp" using l e by (auto simp: strip_cr_def graphic_def)
  have "\<not> prefix ''#'' host" using h by (cases host) (auto simp: is_valid_host_port_def is_ascii_alphanumeric_def is_ascii_digit_def)
  then have nh: "hd host \<noteq> CHR ''#''" using g(3) by (cases host) auto
  have t: "trim (pin_line host fp) = pin_line host fp" by (rule trim_graphic) (use l e g in \<open>simp_all add: pin_line_def\<close>)
  have w1: "next_word (pin_line host fp) = (host, '' sha256:'' @ fp)"
    unfolding pin_line_def by (rule next_word_graphic) (use g starts_white_space in simp_all)
  have w2: "next_word ('' sha256:'' @ fp) = (''sha256:'' @ fp, [])"
    using trim_one_space [of "''sha256:'' @ fp"] g(2) take_word_graphic [OF g(2), of "[]"] by (simp add: next_word_def)
  have ne: "pin_line host fp \<noteq> []" "hd (pin_line host fp) \<noteq> CHR ''#''" "''sha256:'' @ fp \<noteq> []" "prefix ''sha256:'' (''sha256:'' @ fp)"
    "drop 7 (''sha256:'' @ fp) = fp" using nh l by (simp_all add: pin_line_def)
  show "parse_line (strip_cr (pin_line host fp)) = Some \<lparr>host_port = host, fingerprint_hex = map ascii_lower fp\<rparr>"
    unfolding cr parse_line_def t Let_def w1 prod.case w2 by (simp only: ne g if_False de_Morgan_disj not_True_eq_False refl simp_thms)
  note all = pin_line_ascii [OF h f]
  have "(of_char c :: nat) \<le> 0x7F" if "c \<in> set (pin_line host fp)" for c using all [OF that] by (auto simp: graphic_def)
  then show "utf8_string (strip_cr (pin_line host fp))" unfolding cr by (intro utf8_ascii) blast
  show "CHR 0x0A \<notin> set (pin_line host fp)" using all [of "CHR 0x0A"] by (auto simp: graphic_def)
qed

lemma joined_lines_parsed:
  assumes "is_valid_host_port host" "is_valid_fingerprint_hex fp" "is_valid_host_port host'" "is_valid_fingerprint_hex fp'"
  shows "parse_line (strip_cr (pin_line host fp @ pin_line host' fp')) = None"
    and "utf8_string (strip_cr (pin_line host fp @ pin_line host' fp'))" and "CHR 0x0A \<notin> set (pin_line host fp @ pin_line host' fp')"
proof -
  let ?L = "pin_line host fp @ pin_line host' fp'" and ?w = "''sha256:'' @ fp @ host'" and ?r = "'' sha256:'' @ fp'"
  have g: "list_all graphic host" "list_all graphic ?w" "host \<noteq> []" "host' \<noteq> []" "fp' \<noteq> []" "length fp = 64" "list_all graphic fp'"
    using host_graphic [OF assms(1)] host_graphic [OF assms(3)] fingerprint_graphic [of fp] fingerprint_graphic [of fp'] assms
    by (auto simp: is_valid_fingerprint_hex_def is_valid_host_port_def graphic_def)
  have L: "?L = host @ CHR '' '' # ?w @ ?r" by (simp add: pin_line_def)
  have all: "c = CHR '' '' \<or> graphic c" if "c \<in> set ?L" for c
    using that unfolding set_append by (elim UnE) (erule pin_line_ascii [OF assms(1,2)], erule pin_line_ascii [OF assms(3,4)])
  have e: "graphic (hd ?L)" "graphic (last ?L)" "?L \<noteq> []" "hd ?L = hd host" "last ?L = last fp'"
    using g by (simp_all add: pin_line_def list_all_iff)
  have cr: "strip_cr ?L = ?L" using e(2,3) by (auto simp: strip_cr_def graphic_def)
  have t: "trim ?L = ?L" by (rule trim_graphic [OF e(1-3)])
  have w1: "next_word ?L = (host, CHR '' '' # ?w @ ?r)"
    unfolding L by (rule next_word_graphic) (use g starts_white_space in simp_all)
  have "trim_start_with white_space (CHR '' '' # ?w @ ?r) = ?w @ ?r" by (rule trim_one_space) (simp_all add: graphic_def)
  then have w2: "next_word (CHR '' '' # ?w @ ?r) = (?w, ?r)"
    using take_word_graphic [OF g(2), of ?r] starts_white_space by (simp add: next_word_def)
  have len: "length (drop 7 ?w) \<noteq> 64" using g(4,6) by (cases host') simp_all
  show "parse_line (strip_cr ?L) = None"
    unfolding cr parse_line_def t Let_def w1 prod.case w2 using len by (simp only: simp_thms if_True if_cancel split: if_split)
  have "(of_char c :: nat) \<le> 0x7F" if "c \<in> set ?L" for c using all [OF that] by (auto simp: graphic_def)
  then show "utf8_string (strip_cr ?L)" unfolding cr by (intro utf8_ascii) blast
  show "CHR 0x0A \<notin> set ?L" using all [of "CHR 0x0A"] by (auto simp: graphic_def)
qed

lemma from_reader_append:
  assumes "is_valid_host_port host" "is_valid_fingerprint_hex fp" "t = [] \<or> last t = CHR 0x0A" "from_reader t = Inr es"
  shows "from_reader (t @ pin_line host fp @ [CHR 0x0A]) = Inr (es @ [\<lparr>host_port = host, fingerprint_hex = map ascii_lower fp\<rparr>])"
  using assms(4) pin_line_parsed [OF assms(1,2)]
  by (auto simp: from_reader_def split_lines_append [OF assms(3)] split_lines_line Let_def map_filter_def split: if_splits)

section \<open>The file\<close>

text \<open>Making the directories of a path adds directories at its prefixes and changes nothing else.\<close>

definition only_dirs_added :: "path \<Rightarrow> FS \<Rightarrow> FS \<Rightarrow> bool" where
  "only_dirs_added d fs fs' \<longleftrightarrow> env_fault fs' = env_fault fs \<and> (tree_fs fs \<longrightarrow> tree_fs fs') \<and>
     (\<forall>p. lookup_node fs' p = lookup_node fs p \<or>
        prefix p d \<and> lookup_node fs p = None \<and> (\<exists>n. lookup_node fs' p = Some n \<and> n_kind n = KDir))"

lemma only_dirs_added_refl [simp]: "only_dirs_added d fs fs"
  by (simp add: only_dirs_added_def)

lemma only_dirs_added_trans:
  assumes "only_dirs_added a fs fs1" "only_dirs_added b fs1 fs2" "prefix a b"
  shows "only_dirs_added b fs fs2"
proof -
  have "lookup_node fs2 p = lookup_node fs p \<or> prefix p b \<and> lookup_node fs p = None \<and> (\<exists>n. lookup_node fs2 p = Some n \<and> n_kind n = KDir)" for p
    using assms unfolding only_dirs_added_def by (metis option.distinct(1) prefix_order.trans)
  then show ?thesis using assms(1,2) by (simp add: only_dirs_added_def)
qed

lemma only_dirs_added_link: "only_dirs_added d fs fs' \<Longrightarrow> no_link fs p \<Longrightarrow> no_link fs' p"
  unfolding only_dirs_added_def no_link_def by (metis is_symlink_kind.simps(3) option.simps(5))

lemma only_dirs_added_plain: "only_dirs_added d fs fs' \<Longrightarrow> plain fs p \<Longrightarrow> plain fs' p"
  using only_dirs_added_link by (auto simp: plain_def)

lemma create_dir_adds: "create_dir fs d = Inr fs' \<Longrightarrow> names_ok d \<Longrightarrow> plain fs d \<Longrightarrow> only_dirs_added d fs fs'"
  using create_dir_effect [of fs d fs'] create_dir_tree [of fs d fs'] by (auto simp: only_dirs_added_def fs_simps new_node_def)

lemma create_dir_all_adds:
  "create_dir_all fs d = (r, fs') \<Longrightarrow> names_ok d \<Longrightarrow> plain fs d \<Longrightarrow> only_dirs_added d fs fs'"
proof (induction fs d arbitrary: r fs' rule: create_dir_all.induct)
  case (1 fs p)
  show ?case
  proof (cases "create_dir fs p")
    case (Inr f)
    then show ?thesis using "1.prems" create_dir_adds by (simp add: create_dir_all.simps [of fs p])
  next
    case Inl: (Inl e)
    show ?thesis
    proof (cases "e = ENOENT \<and> p \<noteq> []")
      case False
      then show ?thesis using "1.prems"(1) Inl by (auto simp: create_dir_all.simps [of fs p] split: if_splits)
    next
      case True
      obtain r1 fs1 where c: "create_dir_all fs (butlast p) = (r1, fs1)" by (cases "create_dir_all fs (butlast p)")
      have sp: "strict_prefix (butlast p) p" using True strict_prefix_butlast by blast
      have b: "names_ok (butlast p)" "plain fs (butlast p)" "prefix (butlast p) p"
        using "1.prems"(2,3) sp prefix_order.less_trans by (auto simp: names_ok_def list_all_iff plain_def dest: in_set_butlastD)
      have a1: "only_dirs_added (butlast p) fs fs1" by (rule "1.IH" [OF Inl True c b(1,2)])
      have a1': "only_dirs_added p fs fs1" by (rule only_dirs_added_trans [OF a1 only_dirs_added_refl b(3)])
      note eq = "1.prems"(1) [unfolded create_dir_all.simps [of fs p] Inl sum.case if_P [OF True] c prod.case]
      show ?thesis
      proof (cases "is_ok r1 \<and> is_ok (create_dir fs1 p)")
        case ok: True
        then obtain f where f: "create_dir fs1 p = Inr f" by (cases "create_dir fs1 p") (auto simp: is_ok_def)
        then have "fs' = f" using eq ok by (cases r1) (auto simp: is_ok_def)
        moreover have "only_dirs_added p fs1 f" by (rule create_dir_adds [OF f "1.prems"(2) only_dirs_added_plain [OF a1 "1.prems"(3)]])
        ultimately show ?thesis using only_dirs_added_trans [OF a1' _ prefix_order.order_refl] by simp
      next
        case False
        then have "fs' = fs1" using eq by (cases r1; cases "create_dir fs1 p") (auto simp: is_ok_def)
        then show ?thesis using a1' by simp
      qed
    qed
  qed
qed

text \<open>
  The file of pins is named without symbolic links, is a regular file if it exists, and its last
  line is complete.
\<close>

definition contents :: "FS \<Rightarrow> path \<Rightarrow> bytes" where
  "contents fs path = (case file_bytes fs path of Some b \<Rightarrow> b | None \<Rightarrow> [])"

definition pins_place :: "FS \<Rightarrow> path \<Rightarrow> bool" where
  "pins_place fs path \<longleftrightarrow> tree_fs fs \<and> honest fs \<and> names_ok path \<and> path \<noteq> [] \<and> plain fs path \<and>
     (\<forall>n. lookup_node fs path = Some n \<longrightarrow> is_file_kind (n_kind n))"

definition pins_ok :: "FS \<Rightarrow> path \<Rightarrow> bool" where
  "pins_ok fs path \<longleftrightarrow> pins_place fs path \<and>
     (let text = bytes_string (contents fs path) in text = [] \<or> last text = CHR 0x0A)"

definition pinned :: "FS \<Rightarrow> path \<Rightarrow> string \<Rightarrow> string \<Rightarrow> bool" where
  "pinned fs path host fp \<longleftrightarrow> (\<exists>es e. from_reader (bytes_string (contents fs path)) = Inr es \<and>
     List.find (\<lambda>e. host_port e = host) es = Some e \<and> fingerprint_hex e = fp)"

lemma pins_place_facts:
  assumes "pins_place fs path"
  shows "no_link fs path" "lookup_node fs path = None \<or> (\<exists>n b. lookup_node fs path = Some n \<and> n_kind n = KFile b \<and> contents fs path = b)"
proof -
  have "is_file_kind (n_kind n)" if "lookup_node fs path = Some n" for n using assms that by (simp add: pins_place_def)
  then show "no_link fs path" "lookup_node fs path = None \<or> (\<exists>n b. lookup_node fs path = Some n \<and> n_kind n = KFile b \<and> contents fs path = b)"
    by (auto simp: no_link_def contents_def file_bytes_def split: option.splits Kind.splits elim!: is_file_kind.elims is_symlink_kind.elims)
qed

lemma handle_read_bytes: "file_bytes fs p = Some b \<Longrightarrow> handle_read fs p 0 (length b) = Inr data \<Longrightarrow> data = b"
  by (auto simp: handle_read_def bindR_Inr_conv file_bytes_def split: option.splits Kind.splits)

lemma load_reads:
  assumes "load fs path = Inr es" "pins_place fs path"
  shows "from_reader (bytes_string (contents fs path)) = Inr es"
proof -
  note pf = pins_place_facts [OF assms(2)]
  have n: "names_ok path" "plain fs path" "tree_fs fs" "honest fs" using assms(2) by (simp_all add: pins_place_def)
  show ?thesis
  proof (cases "lookup_node fs path")
    case None
    then have c: "contents fs path = []" by (simp add: contents_def file_bytes_def)
    have "open_file fs (OpenOptions_new\<lparr>oo_read := True\<rparr>) path \<noteq> Inr y" for y
      using None syscall_plain [of fs Sys_Open True path] n pf(1) by (auto simp: open_file_def OpenOptions_new_def bindR_Inr_conv)
    then have "es = []" using assms(1) by (cases "open_file fs (OpenOptions_new\<lparr>oo_read := True\<rparr>) path") (auto simp: load_def split: if_splits)
    then show ?thesis by (simp add: c bytes_string_def from_reader_def map_filter_def)
  next
    case (Some nd)
    then obtain b where b: "n_kind nd = KFile b" "contents fs path = b" using pf(2) by auto
    have nm: "namei MAXSYMLINKS fs [] path True = Inr path"
      using namei_descend [OF n(3), of "[]" path nd MAXSYMLINKS "[]" True] Some b n(1) by simp
    have fb: "file_bytes fs path = Some b" using Some b by (simp add: file_bytes_def)
    show ?thesis
    proof (cases "open_file fs (OpenOptions_new\<lparr>oo_read := True\<rparr>) path")
      case (Inl e)
      then have "error_kind e = Kind_NotFound" using assms(1) by (auto simp: load_def split: if_splits)
      then show ?thesis using Inl Some b nm n(4)
        by (auto simp: open_file_def syscall_path_def OpenOptions_new_def kind_not_found honest_def split: if_splits option.splits)
    next
      case (Inr y)
      then have "y = (path, fs)" using Some b nm
        by (auto simp: open_file_def syscall_path_def OpenOptions_new_def split: if_splits option.splits)
      then have "bindR (read_to_end fs path) (\<lambda>b. from_reader (bytes_string b)) = Inr es" using assms(1) Inr by (simp add: load_def)
      then show ?thesis using handle_read_bytes [OF fb] b(2)
        by (auto simp: read_to_end_def fb bindR_Inr_conv)
    qed
  qed
qed

section \<open>Appending\<close>

lemma bytes_string_append: "bytes_string (a @ b) = bytes_string a @ bytes_string b"
  by (simp add: bytes_string_def)

lemma append_pieces_effect:
  assumes "file_bytes fs place = Some b" "append_pieces fs place ds = (r, fs')"
  shows "r = Inr () \<and> same_but place fs fs' \<and> file_bytes fs' place = Some (b @ concat ds) \<or> (\<exists>e. r = Inl e) \<and> fs' = fs"
proof (cases "env_fault fs Sys_Write place")
  case (Some e)
  then show ?thesis using assms
    by (cases ds) (auto simp: append_bytes_def handle_write_def handle_fault_def)
next
  case None
  have "fst (append_pieces fs place ds) = Inr () \<and> same_but place fs (snd (append_pieces fs place ds)) \<and>
    file_bytes (snd (append_pieces fs place ds)) place = Some (b @ concat ds)"
    using None assms(1)
  proof (induction ds arbitrary: fs b)
    case (Cons d ds)
    let ?fs = "update_file fs place (overwrite (length b) d)"
    have st: "append_bytes fs place d = Inr ?fs" using Cons.prems by (simp add: append_bytes_def handle_write_def handle_fault_def)
    have fb: "file_bytes ?fs place = Some (b @ d)" using Cons.prems(2) by (simp add: file_bytes_update)
    from Cons.IH [OF _ fb] Cons.prems(1) show ?case
      using same_but_trans [OF same_but_update, of place fs "overwrite (length b) d"] by (simp add: st)
  qed simp
  then show ?thesis using assms(2) by simp
qed

lemma pins_place_same_but:
  assumes "pins_place fs path" "same_but path fs fs'"
  shows "pins_place fs' path"
  using assms same_but_kind [OF assms(2), of path] same_but_env [OF assms(2)] same_but_tree [OF assms(2)] same_but_plain [OF assms(2)]
  by (auto simp: pins_place_def honest_def)

lemma pins_place_dirs:
  assumes p: "pins_place fs path" and d: "only_dirs_added (butlast path) fs fs'"
  shows "pins_place fs' path \<and> contents fs' path = contents fs path"
proof -
  have "\<not> prefix path (butlast path)" using p strict_prefix_butlast [of path] by (auto simp: pins_place_def)
  then have l: "lookup_node fs' path = lookup_node fs path" using d by (auto simp: only_dirs_added_def)
  then have c: "contents fs' path = contents fs path" by (simp add: contents_def file_bytes_def)
  then show ?thesis using p d l only_dirs_added_plain [OF d] by (simp add: pins_place_def honest_def only_dirs_added_def)
qed

lemma open_append:
  assumes p: "pins_place fs path" and o: "open_file fs (OpenOptions_new\<lparr>oo_create := True, oo_write := True, oo_mode := mode\<rparr>) path = Inr (place, fs')"
  shows "place = path \<and> pins_place fs' path \<and> contents fs' path = contents fs path \<and> file_bytes fs' path = Some (contents fs path)"
proof -
  note pf = pins_place_facts [OF p]
  have n: "names_ok path" "plain fs path" "tree_fs fs" "path \<noteq> []" using p by (simp_all add: pins_place_def)
  obtain x where x: "syscall_path fs Sys_Open True path = Inr x" using o by (auto simp: open_file_def OpenOptions_new_def bindR_Inr_conv)
  have xp: "x = path" using syscall_plain [OF x n(1,2)] pf(1) by simp
  have dir: "is_dir_at fs (butlast path)"
    using syscall_parent_dir [OF x n(3)] n(4) by (simp add: xp)
  show ?thesis
  proof (cases "lookup_node fs path")
    case (Some nd)
    then obtain b where b: "n_kind nd = KFile b" "contents fs path = b" using pf(2) by auto
    then have "place = path" "fs' = fs" using o x xp Some by (auto simp: open_file_def OpenOptions_new_def)
    then show ?thesis using p b Some by (simp add: file_bytes_def)
  next
    case None
    let ?n = "new_node fs (KFile []) mode"
    have e: "place = path" "fs' = set_node fs path ?n" using o x xp None by (auto simp: open_file_def OpenOptions_new_def)
    have c: "contents fs path = []" "file_bytes fs' path = Some []" using None e n(4) by (simp_all add: contents_def file_bytes_def fs_simps new_node_def)
    moreover have "plain fs' path" using n(2) e by (auto simp: plain_def no_link_def fs_simps new_node_def)
    moreover have "tree_fs fs'" unfolding e by (rule tree_set_new [OF n(3) None dir])
    ultimately show ?thesis using p e n(4) by (auto simp: pins_place_def honest_def contents_def fs_simps new_node_def)
  qed
qed

lemma permissions_effect:
  assumes p: "pins_place fs path" and f: "file_bytes fs path = Some b" and h: "handle_set_permissions fs path mode = Inr fs'"
  shows "pins_place fs' path \<and> file_bytes fs' path = Some b"
proof -
  obtain nd where nd: "lookup_node fs path = Some nd" "n_kind nd = KFile b"
    using f by (auto simp: file_bytes_def split: option.splits Kind.splits)
  have e: "fs' = set_node fs path (nd\<lparr>n_perm := mode AND 0xFFF\<rparr>)"
    using h nd by (auto simp: handle_set_permissions_def bindR_Inr_conv)
  have n: "tree_fs fs" "plain fs path" "path \<noteq> []" using p by (simp_all add: pins_place_def)
  have fb: "file_bytes fs' path = Some b" using nd e n(3) by (simp add: file_bytes_def fs_simps)
  have "tree_fs fs'" unfolding e by (rule tree_set_same_kind [OF n(1) nd(1)]) simp
  moreover have "plain fs' path" using n(2) e nd by (auto simp: plain_def no_link_def fs_simps)
  ultimately show ?thesis using p f fb e nd n(3) by (auto simp: pins_place_def honest_def contents_def fs_simps)
qed

definition pin_entry :: "string \<Rightarrow> string \<Rightarrow> Entry" where
  "pin_entry host fp = \<lparr>host_port = host, fingerprint_hex = map ascii_lower fp\<rparr>"

lemma append_effect:
  assumes p: "pins_place fs path" and r: "append_to_file flock fs path host fp = (r, fs')"
  shows "pins_place fs' path \<and>
    (if is_ok r then is_valid_host_port host \<and> is_valid_fingerprint_hex fp \<and>
        bytes_string (contents fs' path) = bytes_string (contents fs path) @ pin_line host fp @ [CHR 0x0A]
     else contents fs' path = contents fs path)"
proof (cases "is_valid_host_port host \<and> is_valid_fingerprint_hex fp")
  case False
  then show ?thesis using p r by (auto simp: append_to_file_def is_ok_def split: if_splits)
next
  case v: True
  have ne: "path \<noteq> []" "names_ok path" "plain fs path" using p by (simp_all add: pins_place_def)
  have b: "names_ok (butlast path)" "plain fs (butlast path)"
    using ne strict_prefix_butlast [OF ne(1)] prefix_order.less_trans by (auto simp: names_ok_def list_all_iff plain_def dest: in_set_butlastD)
  obtain r1 fs1 where c: "create_dir_all fs (butlast path) = (r1, fs1)" by (cases "create_dir_all fs (butlast path)")
  have p1: "pins_place fs1 path" "contents fs1 path = contents fs path" using pins_place_dirs [OF p create_dir_all_adds [OF c b]] by simp_all
  let ?open = "open_file fs1 (OpenOptions_new\<lparr>oo_create := True, oo_write := True, oo_mode := 0x180\<rparr>) path"
  show ?thesis
  proof (cases "is_ok r1 \<and> is_ok ?open")
    case False
    then have "fs' = fs1" "\<not> is_ok r" using r v c ne(1)
      by (cases r1; cases ?open; auto simp: append_to_file_def is_ok_def)+
    then show ?thesis using p1 by simp
  next
    case True
    then obtain place fs2 where o: "?open = Inr (place, fs2)" by (cases ?open) (auto simp: is_ok_def)
    note oa = open_append [OF p1(1) o]
    let ?fs3 = "case handle_set_permissions fs2 place 0x180 of Inl _ \<Rightarrow> fs2 | Inr fs \<Rightarrow> fs"
    have p3: "pins_place ?fs3 path" "file_bytes ?fs3 path = Some (contents fs path)"
      using oa p1(2) permissions_effect [of fs2 path "contents fs path" 384] by (auto split: sum.splits)
    have c3: "contents ?fs3 path = contents fs path" using p3(2) by (simp add: contents_def)
    have r1: "r1 = Inr ()" using True by (cases r1) (auto simp: is_ok_def)
    show ?thesis
    proof (cases flock)
      case (Some e)
      then have "fs' = ?fs3" "\<not> is_ok r" using r v c ne(1) r1 o by (auto simp: append_to_file_def is_ok_def)
      then show ?thesis using p3 c3 by simp
    next
      case None
      let ?ds = "map string_bytes [host, '' sha256:'', fp, [CHR 0x0A]]"
      obtain r4 fs4 where a: "append_pieces ?fs3 path ?ds = (r4, fs4)" by (cases "append_pieces ?fs3 path ?ds")
      have rr: "fs' = fs4" "is_ok r = is_ok r4"
        using r v c ne(1) r1 o None a oa by (cases r4; auto simp: append_to_file_def is_ok_def)+
      from append_pieces_effect [OF p3(2) a] show ?thesis
      proof (elim disjE conjE exE)
        fix e assume "r4 = Inl e" "fs4 = ?fs3"
        then show ?thesis using rr p3 c3 by (simp add: is_ok_def)
      next
        assume x: "r4 = Inr ()" "same_but path ?fs3 fs4" "file_bytes fs4 path = Some (contents fs path @ concat ?ds)"
        then have ct: "contents fs4 path = contents fs path @ concat ?ds" by (simp add: contents_def)
        have "pins_place fs4 path" by (rule pins_place_same_but [OF p3(1) x(2)])
        moreover have "bytes_string (contents fs4 path) = bytes_string (contents fs path) @ pin_line host fp @ [CHR 0x0A]"
          unfolding ct by (simp add: pin_line_def bytes_string_append)
        ultimately show ?thesis using rr x(1) v by (simp add: is_ok_def)
      qed
    qed
  qed
qed

section \<open>Connections\<close>

lemma find_append_Some: "List.find P xs = Some x \<Longrightarrow> List.find P (xs @ ys) = Some x"
  by (induction xs) (auto split: if_splits)

lemma find_append_None: "List.find P xs = None \<Longrightarrow> List.find P (xs @ ys) = List.find P ys"
  by (induction xs) (auto split: if_splits)

lemma pins_okD:
  assumes "pins_ok fs path"
  shows "pins_place fs path" "bytes_string (contents fs path) = [] \<or> last (bytes_string (contents fs path)) = CHR 0x0A"
  using assms by (auto simp: pins_ok_def Let_def)

lemma connect_keeps:
  assumes p: "pins_ok fs path" and r: "tofu_connect sha256 flock fs path host der = (r, fs')"
  shows "pins_ok fs' path \<and> (pinned fs path h f \<longrightarrow> pinned fs' path h f)"
proof -
  consider "fs' = fs" | es d where "load fs path = Inr es" "append_to_file flock fs path host (to_hex (sha256 d)) = (r, fs')"
    using r by (auto simp: tofu_connect_def tofu_check_def Let_def split: sum.splits option.splits Verdict.splits)
  then show ?thesis
  proof cases
    case 1
    then show ?thesis using p by simp
  next
    case 2
    note a = append_effect [OF pins_okD(1) [OF p] 2(2)]
    have "pinned fs' path h f" if h: "pinned fs path h f"
    proof (cases "is_ok r")
      case False
      then show ?thesis using a h by (simp add: pinned_def)
    next
      case True
      obtain es' e where e: "from_reader (bytes_string (contents fs path)) = Inr es'" "List.find (\<lambda>e. host_port e = h) es' = Some e" "fingerprint_hex e = f"
        using h by (auto simp: pinned_def)
      have "from_reader (bytes_string (contents fs' path)) = Inr (es' @ [\<lparr>host_port = host, fingerprint_hex = map ascii_lower (to_hex (sha256 d))\<rparr>])"
        using from_reader_append [OF _ _ pins_okD(2) [OF p] e(1)] a True by simp
      then show ?thesis using find_append_Some [OF e(2)] e(3) unfolding pinned_def by blast
    qed
    moreover have "pins_ok fs' path" using a pins_okD [OF p] by (auto simp: pins_ok_def Let_def split: if_splits)
    ultimately show ?thesis by blast
  qed
qed

lemma connect_pins:
  assumes p: "pins_ok fs path" and r: "tofu_connect sha256 flock fs path host der = (Inr (), fs')"
  shows "\<exists>d. der = Some d \<and> pinned fs' path host (to_hex (sha256 d)) \<and> (\<forall>f. pinned fs path host f \<longrightarrow> f = to_hex (sha256 d) \<and> fs' = fs)"
proof -
  obtain d where d: "der = Some d" using r by (cases der) (auto simp: tofu_connect_def tofu_check_def split: sum.splits)
  obtain es where es: "load fs path = Inr es" using r by (cases "load fs path") (auto simp: tofu_connect_def)
  note rd = load_reads [OF es pins_okD(1) [OF p]]
  let ?f = "to_hex (sha256 d)"
  show ?thesis
  proof (cases "List.find (\<lambda>e. host_port e = host) es")
    case None
    then have a: "append_to_file flock fs path host ?f = (Inr (), fs')" using r d es by (simp add: tofu_connect_def tofu_check_def lookup_def)
    have x: "is_valid_host_port host" "is_valid_fingerprint_hex ?f"
      "bytes_string (contents fs' path) = bytes_string (contents fs path) @ pin_line host ?f @ [CHR 0x0A]"
      using append_effect [OF pins_okD(1) [OF p] a] by (simp_all add: is_ok_def)
    have "from_reader (bytes_string (contents fs' path)) = Inr (es @ [\<lparr>host_port = host, fingerprint_hex = ?f\<rparr>])"
      using from_reader_append [OF x(1,2) pins_okD(2) [OF p] rd] x(3) by simp
    then have "pinned fs' path host ?f" using find_append_None [OF None] by (simp add: pinned_def)
    moreover have "\<not> pinned fs path host f" for f using rd None by (auto simp: pinned_def)
    ultimately show ?thesis using d by blast
  next
    case (Some e)
    then have "fingerprint_hex e = ?f" "fs' = fs" using r d es
      by (auto simp: tofu_connect_def tofu_check_def lookup_def Let_def split: if_splits)
    then show ?thesis using d rd Some by (auto simp: pinned_def)
  qed
qed

text \<open>Any connections, made with success or not, to any hosts.\<close>

inductive visits :: "(bytes \<Rightarrow> bytes) \<Rightarrow> path \<Rightarrow> FS \<Rightarrow> FS \<Rightarrow> bool" for sha256 path fs where
  visits_none: "visits sha256 path fs fs"
| visits_connect: "visits sha256 path fs fs1 \<Longrightarrow> tofu_connect sha256 flock fs1 path host der = (r, fs2) \<Longrightarrow> visits sha256 path fs fs2"

lemma visits_keep: "visits sha256 path fs fs' \<Longrightarrow> pins_ok fs path \<Longrightarrow> pins_ok fs' path \<and> (pinned fs path h f \<longrightarrow> pinned fs' path h f)"
  by (induction rule: visits.induct) (use connect_keeps in blast)+

section \<open>Properties\<close>

text \<open>
  C12: trust on first use. Once the client has accepted a certificate for a host, then after any
  number of connections to this and other hosts, whatever their outcome and whatever the hosts are
  called, it accepts for that host only a certificate with the same SHA-256 fingerprint, and
  accepting it leaves the file alone. The file of pins has to be a regular file (or absent) whose
  last line is complete.
\<close>

theorem tofu_pins:
  assumes "pins_ok fs path" "tofu_connect sha256 flock fs path host (Some d) = (Inr (), fs1)"
    and "visits sha256 path fs1 fs2" "tofu_connect sha256 flock' fs2 path host (Some d') = (Inr (), fs3)"
  shows "sha256 d' = sha256 d \<and> fs3 = fs2"
proof -
  have p1: "pins_ok fs1 path" "pinned fs1 path host (to_hex (sha256 d))"
    using connect_keeps [OF assms(1,2)] connect_pins [OF assms(1,2)] by auto
  have p2: "pins_ok fs2 path" "pinned fs2 path host (to_hex (sha256 d))" using visits_keep [OF assms(3) p1(1)] p1(2) by auto
  then show ?thesis using connect_pins [OF p2(1) assms(4)] by (auto simp: to_hex_inject)
qed

definition demo_sha :: "bytes \<Rightarrow> bytes" where
  "demo_sha d = replicate 32 (sum_list d)"

definition demo_pins :: FS where
  "demo_pins = \<lparr>nodes = [([''kh''], \<lparr>n_kind = KFile (string_bytes (pin_line ''a:1'' (to_hex (demo_sha [1, 2])) @ [CHR 0x0A])),
       n_perm = 0x180, n_uid = 0, n_gid = 0, n_mtime = None, n_len = 0\<rparr>)],
     fs_root = \<lparr>n_kind = KDir, n_perm = 0, n_uid = 0, n_gid = 0, n_mtime = None, n_len = 0\<rparr>,
     env_fault = (\<lambda>sys p. None), fs_umask = 0, fs_uid = 0, fs_gid = 0, fs_now = (0, 0)\<rparr>"

lemma demo_pins_lookup:
  "lookup_node demo_pins p = (if p = [] then Some \<lparr>n_kind = KDir, n_perm = 0, n_uid = 0, n_gid = 0, n_mtime = None, n_len = 0\<rparr>
     else if p = [''kh''] then Some \<lparr>n_kind = KFile (string_bytes (pin_line ''a:1'' (to_hex (demo_sha [1, 2])) @ [CHR 0x0A])),
       n_perm = 0x180, n_uid = 0, n_gid = 0, n_mtime = None, n_len = 0\<rparr> else None)"
  "env_fault demo_pins sys p = None"
  by (auto simp: lookup_node_def demo_pins_def)

lemma demo_pins_ok: "pins_ok demo_pins [''kh'']"
proof -
  have "last (s @ [c]) = c" for s and c :: char by simp
  then show ?thesis
    by (simp add: pins_ok_def pins_place_def tree_fs_def honest_def plain_def no_link_def is_dir_at_def demo_pins_lookup contents_def file_bytes_def
        names_ok_def normal_name_def Let_def)
qed

lemma demo_pins_load: "load demo_pins [''kh''] = Inr [\<lparr>host_port = ''a:1'', fingerprint_hex = to_hex (demo_sha [1, 2])\<rparr>]"
proof -
  let ?f = "to_hex (demo_sha [1, 2])"
  have v: "is_valid_host_port ''a:1''" "is_valid_fingerprint_hex ?f"
    by code_simp (simp add: is_valid_fingerprint_hex_def to_hex_hexdigits demo_sha_def)
  have "from_reader (pin_line ''a:1'' ?f @ [CHR 0x0A]) = Inr [\<lparr>host_port = ''a:1'', fingerprint_hex = ?f\<rparr>]"
    using from_reader_append [OF v, of "[]" "[]"] by (simp add: from_reader_def map_filter_def)
  then show ?thesis
    by (simp add: load_def open_file_def syscall_path_def has_nul_def demo_pins_lookup OpenOptions_new_def read_to_end_def handle_read_def
        handle_fault_def file_bytes_def bytes_string_append)
qed

theorem tofu_pins_witness:
  "\<exists>fs1. tofu_connect demo_sha None demo_pins [''kh''] ''a:1'' (Some [1, 2]) = (Inr (), demo_pins) \<and>
     tofu_connect demo_sha None demo_pins [''kh''] ''b:2'' None = (Inl Pin_NoCertificate, fs1) \<and>
     tofu_connect demo_sha None fs1 [''kh''] ''a:1'' (Some [2, 1]) = (Inr (), demo_pins) \<and> demo_sha [2, 1] = demo_sha [1, 2]"
proof -
  have c: "tofu_connect demo_sha None demo_pins [''kh''] ''a:1'' (Some [1, 2]) = (Inr (), demo_pins)"
    "tofu_connect demo_sha None demo_pins [''kh''] ''b:2'' None = (Inl Pin_NoCertificate, demo_pins)"
    "tofu_connect demo_sha None demo_pins [''kh''] ''a:1'' (Some [2, 1]) = (Inr (), demo_pins)"
    by (simp_all add: tofu_connect_def demo_pins_load tofu_check_def lookup_def demo_sha_def)
  from tofu_pins [OF demo_pins_ok c(1) visits_connect [OF visits_none c(2)] c(3)] c show ?thesis by blast
qed

text \<open>
  A pin is lost when the file does not end with a line end. \<open>append_to_file\<close> does not look at
  the end of the file, so on a file that holds one entry without a line end (edited by hand, or a
  write that was cut short) the new line runs into it. Neither of the two is an entry then: the
  next connection to the pinned host is a first use again, and any certificate is accepted.
\<close>

lemma unterminated_pin_lost:
  assumes "pins_place fs path" "bytes_string (contents fs path) = pin_line host fp" "is_valid_host_port host" "is_valid_fingerprint_hex fp"
    and "append_to_file flock fs path host' fp' = (Inr (), fs')"
  shows "from_reader (bytes_string (contents fs path)) = Inr [\<lparr>host_port = host, fingerprint_hex = map ascii_lower fp\<rparr>] \<and>
    from_reader (bytes_string (contents fs' path)) = Inr []"
proof -
  have v: "is_valid_host_port host'" "is_valid_fingerprint_hex fp'"
    "bytes_string (contents fs' path) = (pin_line host fp @ pin_line host' fp') @ [CHR 0x0A]"
    using append_effect [OF assms(1,5)] assms(2) by (simp_all add: is_ok_def)
  note l = pin_line_parsed [OF assms(3,4)] and j = joined_lines_parsed [OF assms(3,4) v(1,2)]
  have "from_reader (pin_line host fp) = Inr [\<lparr>host_port = host, fingerprint_hex = map ascii_lower fp\<rparr>]"
    using l split_lines_last [OF l(3)] by (simp add: from_reader_def map_filter_def pin_line_def)
  moreover have "from_reader ((pin_line host fp @ pin_line host' fp') @ [CHR 0x0A]) = Inr []"
    unfolding from_reader_def split_lines_line [OF j(3)] using j(1,2) by (simp add: map_filter_def)
  ultimately show ?thesis unfolding v(3) assms(2) by simp
qed

definition demo_unterminated :: FS where
  "demo_unterminated = demo_pins\<lparr>nodes := [([''kh''], \<lparr>n_kind = KFile (string_bytes (pin_line ''a:1'' (to_hex (demo_sha [1, 2])))),
       n_perm = 0x180, n_uid = 0, n_gid = 0, n_mtime = None, n_len = 0\<rparr>)]\<rparr>"

lemma demo_unterminated_place:
  "pins_place demo_unterminated [''kh'']" "bytes_string (contents demo_unterminated [''kh'']) = pin_line ''a:1'' (to_hex (demo_sha [1, 2]))"
  by (auto simp: pins_place_def tree_fs_def honest_def plain_def no_link_def is_dir_at_def lookup_node_def demo_unterminated_def demo_pins_def contents_def
      file_bytes_def names_ok_def normal_name_def split: if_splits)

lemma demo_host_valid: "is_valid_host_port ''a:1''" "is_valid_host_port ''b:2''" "is_valid_fingerprint_hex (to_hex (demo_sha d))"
  by (code_simp, code_simp, simp add: is_valid_fingerprint_hex_def to_hex_hexdigits demo_sha_def)

lemma unterminated_pin_lost_witness:
  "\<exists>fs'. append_to_file None demo_unterminated [''kh''] ''b:2'' (to_hex (demo_sha [7])) = (Inr (), fs') \<and>
     from_reader (bytes_string (contents demo_unterminated [''kh''])) = Inr [\<lparr>host_port = ''a:1'', fingerprint_hex = to_hex (demo_sha [1, 2])\<rparr>] \<and>
     from_reader (bytes_string (contents fs' [''kh''])) = Inr []"
proof -
  have "fst (append_to_file None demo_unterminated [''kh''] ''b:2'' (to_hex (demo_sha [7]))) = Inr ()" by code_simp
  then obtain fs' where a: "append_to_file None demo_unterminated [''kh''] ''b:2'' (to_hex (demo_sha [7])) = (Inr (), fs')" by (metis prod.collapse)
  from unterminated_pin_lost [OF demo_unterminated_place demo_host_valid(1,3) a] a show ?thesis by (simp only: to_hex_lower) blast
qed

end
