(* ===== verification/Session_Store.thy ===== *)
theory Session_Store
  imports Known_Hosts_Props Put_Live
begin

text \<open>
  Session tickets for resumption: \<open>crates/qftp-client/src/session_store.rs\<close>. The clock is an argument, in
  seconds and nanoseconds since the epoch (\<open>None\<close> before it), and so are the process id and the
  sequence number in the name of a temporary file.
\<close>

section \<open>The format\<close>

definition TICKET_FILE_MAGIC_V1 :: bytes where "TICKET_FILE_MAGIC_V1 = [0x51, 0x46, 0x54, 0x31, 0, 0x46, 0x50, 0x0A]"
definition TICKET_FILE_MAGIC_V2 :: bytes where "TICKET_FILE_MAGIC_V2 = [0x51, 0x46, 0x54, 0x32, 0, 0x46, 0x50, 0x0A]"
definition MAGIC_LEN :: nat where "MAGIC_LEN = 8"
definition TIMESTAMP_LEN :: nat where "TIMESTAMP_LEN = 8"
definition HEADER_LEN_V1 :: nat where "HEADER_LEN_V1 = 40"
definition HEADER_LEN_V2 :: nat where "HEADER_LEN_V2 = 48"
definition TICKET_TTL_SECS :: u64 where "TICKET_TTL_SECS = 86400"
definition FUTURE_SKEW_GRACE :: u64 where "FUTURE_SKEW_GRACE = 300"

record ParsedTicket =
  pt_fingerprint :: bytes
  pt_saved_secs :: "u64 option"
  pt_ticket :: bytes

definition parse_ticket_file :: "bytes \<Rightarrow> ParsedTicket option" where
  "parse_ticket_file buf =
     (if length buf < MAGIC_LEN then None
      else if take MAGIC_LEN buf = TICKET_FILE_MAGIC_V2
      then (if length buf < HEADER_LEN_V2 then None
            else Some \<lparr>pt_fingerprint = take 32 (drop (MAGIC_LEN + TIMESTAMP_LEN) buf),
                       pt_saved_secs = Some (of_nat (of_be_bytes (take TIMESTAMP_LEN (drop MAGIC_LEN buf)))),
                       pt_ticket = drop HEADER_LEN_V2 buf\<rparr>)
      else if take MAGIC_LEN buf = TICKET_FILE_MAGIC_V1
      then (if length buf < HEADER_LEN_V1 then None
            else Some \<lparr>pt_fingerprint = take 32 (drop MAGIC_LEN buf), pt_saved_secs = None, pt_ticket = drop HEADER_LEN_V1 buf\<rparr>)
      else None)"

definition v2_timestamp_fresh :: "(u64 \<times> u32) option \<Rightarrow> u64 \<Rightarrow> bool" where
  "v2_timestamp_fresh clock saved_secs =
     (let now = (case clock of Some t \<Rightarrow> fst t | None \<Rightarrow> 0)
      in if saved_secs > now then saved_secs - now \<le> FUTURE_SKEW_GRACE else now - saved_secs \<le> TICKET_TTL_SECS)"

definition ticket_name :: "string \<Rightarrow> string" where
  "ticket_name host =
     (let safe = map (\<lambda>c. if c \<in> {CHR '':'', CHR ''/'', CHR 0x5C} then CHR ''_'' else c) host
      in if safe = ''.'' \<or> safe = ''..'' then ''_'' else safe)"

definition ticket_path :: "path \<Rightarrow> string \<Rightarrow> path" where
  "ticket_path dir host = dir @ [ticket_name host @ ''.ticket'']"

section \<open>Loading\<close>

definition drop_ticket :: "FS \<Rightarrow> path \<Rightarrow> bytes option \<times> FS" where
  "drop_ticket fs path = (None, case remove_file fs path of Inl _ \<Rightarrow> fs | Inr fs' \<Rightarrow> fs')"

text \<open>The file is older than the limit by its time stamp; a time in the future has no age.\<close>

definition mtime_expired :: "(u64 \<times> u32) option \<Rightarrow> Node \<Rightarrow> bool" where
  "mtime_expired clock meta =
     (case (clock, n_mtime meta) of
        (Some now, Some m) \<Rightarrow> nanos m \<le> nanos now \<and> nanos now - nanos m > 86400 * 1000000000
      | _ \<Rightarrow> False)"

definition fs_read :: "FS \<Rightarrow> path \<Rightarrow> bytes option" where
  "fs_read fs path =
     (case open_file fs (OpenOptions_new\<lparr>oo_read := True\<rparr>) path of
        Inl _ \<Rightarrow> None
      | Inr (place, _) \<Rightarrow> (case read_to_end fs place of Inl _ \<Rightarrow> None | Inr b \<Rightarrow> Some b))"

definition load_ticket :: "(u64 \<times> u32) option \<Rightarrow> FS \<Rightarrow> path \<Rightarrow> string \<Rightarrow> bytes option \<Rightarrow> bytes option \<times> FS" where
  "load_ticket clock fs dir host expected_fingerprint =
     (let path = ticket_path dir host
      in case fs_metadata fs path of
           Inl _ \<Rightarrow> (None, fs)
         | Inr meta \<Rightarrow>
             (if mtime_expired clock meta then drop_ticket fs path
              else (case fs_read fs path of
                  None \<Rightarrow> (None, fs)
                | Some raw \<Rightarrow>
                    (case parse_ticket_file raw of
                       None \<Rightarrow> (if expected_fingerprint \<noteq> None then drop_ticket fs path else (Some raw, fs))
                     | Some parsed \<Rightarrow>
                         (if (case pt_saved_secs parsed of Some secs \<Rightarrow> \<not> v2_timestamp_fresh clock secs | None \<Rightarrow> False)
                          then drop_ticket fs path
                          else if (case expected_fingerprint of Some want \<Rightarrow> pt_fingerprint parsed \<noteq> want | None \<Rightarrow> False)
                          then drop_ticket fs path
                          else (Some (pt_ticket parsed), fs))))))"

section \<open>Saving\<close>

definition ticket_body :: "(u64 \<times> u32) option \<Rightarrow> bytes \<Rightarrow> bytes \<Rightarrow> bytes" where
  "ticket_body clock fingerprint ticket =
     TICKET_FILE_MAGIC_V2 @ be_bytes 8 (unat (case clock of Some t \<Rightarrow> fst t | None \<Rightarrow> 0)) @ fingerprint @ ticket"

text \<open>\<open>with_extension\<close> on the ticket's path; the name \<open>.ticket\<close> has no extension to replace.\<close>

definition ticket_tmp :: "path \<Rightarrow> string \<Rightarrow> nat \<Rightarrow> nat \<Rightarrow> path" where
  "ticket_tmp dir host pid seq =
     (let stem = (if ticket_name host = [] then ''.ticket'' else ticket_name host)
      in dir @ [stem @ ''.ticket.tmp.'' @ show_nat pid @ ''.'' @ show_nat seq])"

definition write_owner_only :: "FS \<Rightarrow> path \<Rightarrow> path \<Rightarrow> bytes \<Rightarrow> (PinError, unit) result \<times> FS" where
  "write_owner_only fs tmp path body =
     (case open_file fs (OpenOptions_new\<lparr>oo_write := True, oo_create := True, oo_mode := 0x180\<rparr>) tmp of
        Inl e \<Rightarrow> (Inl (Pin_Io ''failed to open'' e), fs)
      | Inr (place, fs) \<Rightarrow>
          (let fs = update_file fs place (\<lambda>_. [])
           in case handle_write fs place 0 body of
                Inl e \<Rightarrow> (Inl (Pin_Io ''failed to write'' e), fs)
              | Inr fs \<Rightarrow>
                  (case fs_rename fs tmp path of
                     Inl e \<Rightarrow> (Inl (Pin_Io ''failed to rename'' e), fs)
                   | Inr fs \<Rightarrow> (Inr (), fs))))"

definition save_ticket ::
  "(u64 \<times> u32) option \<Rightarrow> nat \<Rightarrow> nat \<Rightarrow> FS \<Rightarrow> path \<Rightarrow> string \<Rightarrow> bytes option \<Rightarrow> bytes \<Rightarrow> (PinError, unit) result \<times> FS" where
  "save_ticket clock pid seq fs dir host ticket fingerprint =
     (case ticket of
        None \<Rightarrow> (Inr (), fs)
      | Some t \<Rightarrow>
          (case create_dir_all fs dir of
             (Inl e, fs) \<Rightarrow> (Inl (Pin_Io ''failed to create'' e), fs)
           | (Inr _, fs) \<Rightarrow>
               write_owner_only fs (ticket_tmp dir host pid seq) (ticket_path dir host) (ticket_body clock fingerprint t)))"

text \<open>A connection without a session or without a certificate saves nothing.\<close>

definition save_from_conn ::
  "(bytes \<Rightarrow> bytes) \<Rightarrow> (u64 \<times> u32) option \<Rightarrow> nat \<Rightarrow> nat \<Rightarrow> FS \<Rightarrow> path \<Rightarrow> string \<Rightarrow> bytes option \<Rightarrow> bytes option \<Rightarrow> (PinError, unit) result \<times> FS" where
  "save_from_conn sha256 clock pid seq fs dir host session peer_cert =
     (case (session, peer_cert) of
        (Some ticket, Some der) \<Rightarrow> save_ticket clock pid seq fs dir host (Some ticket) (sha256 der)
      | _ \<Rightarrow> (Inr (), fs))"

definition forget_ticket :: "FS \<Rightarrow> path \<Rightarrow> string \<Rightarrow> (PinError, unit) result \<times> FS" where
  "forget_ticket fs dir host =
     (case remove_file fs (ticket_path dir host) of
        Inr fs' \<Rightarrow> (Inr (), fs')
      | Inl e \<Rightarrow> (if error_kind e = Kind_NotFound then Inr () else Inl (Pin_Io ''failed to remove'' e), fs))"

section \<open>Lemmas\<close>

abbreviation clock_secs :: "(u64 \<times> u32) option \<Rightarrow> u64" where
  "clock_secs clock \<equiv> (case clock of Some t \<Rightarrow> fst t | None \<Rightarrow> 0)"

lemma parse_ticket_body:
  assumes "length fingerprint = 32"
  shows "parse_ticket_file (ticket_body clock fingerprint ticket) =
    Some \<lparr>pt_fingerprint = fingerprint, pt_saved_secs = Some (clock_secs clock), pt_ticket = ticket\<rparr>"
proof -
  have m: "length TICKET_FILE_MAGIC_V2 = 8" by (simp add: TICKET_FILE_MAGIC_V2_def)
  have b: "length (be_bytes 8 (unat (clock_secs clock))) = 8" by simp
  have "of_be_bytes (be_bytes 8 (unat (clock_secs clock))) = unat (clock_secs clock)"
    by (rule of_be_bytes_inverse) (use unat_less_u64 [of "clock_secs clock"] in simp)
  then show ?thesis using assms m b
    by (simp add: parse_ticket_file_def ticket_body_def MAGIC_LEN_def TIMESTAMP_LEN_def HEADER_LEN_V2_def)
qed

text \<open>A file of the current version that was cut off in its header counts as one without a header.\<close>

lemma truncated_ticket_legacy:
  "take MAGIC_LEN buf = TICKET_FILE_MAGIC_V2 \<Longrightarrow> length buf < HEADER_LEN_V2 \<Longrightarrow> parse_ticket_file buf = None"
  by (simp add: parse_ticket_file_def)

lemma timestamp_fresh_iff:
  "v2_timestamp_fresh clock saved \<longleftrightarrow>
     unat (clock_secs clock) \<le> unat saved + 86400 \<and> unat saved \<le> unat (clock_secs clock) + 300"
  by (auto simp: v2_timestamp_fresh_def Let_def TICKET_TTL_SECS_def FUTURE_SKEW_GRACE_def word_le_nat_alt word_less_nat_alt unat_sub_if')

lemma siblings_apart: "butlast a = butlast b \<Longrightarrow> a \<noteq> [] \<Longrightarrow> b \<noteq> [] \<Longrightarrow> a \<noteq> b \<Longrightarrow> \<not> prefix a b"
  by (cases a rule: rev_cases; cases b rule: rev_cases) auto

lemma plain_siblings: "butlast a = butlast b \<Longrightarrow> a \<noteq> [] \<Longrightarrow> b \<noteq> [] \<Longrightarrow> plain fs a \<Longrightarrow> plain fs b"
  by (cases a rule: rev_cases; cases b rule: rev_cases) (auto simp: plain_def strict_prefix_snoc_iff)

lemma open_file_fields:
  assumes "open_file fs opts p = Inr (place, fs')"
  shows "env_fault fs' = env_fault fs \<and> fs_now fs' = fs_now fs"
proof -
  obtain q where q: "(case lookup_node fs q of
      None \<Rightarrow> (if oo_create opts then Inr (q, set_node fs q (new_node fs (KFile []) (oo_mode opts))) else Inl ENOENT)
    | Some n \<Rightarrow> (case n_kind n of KSymlink t \<Rightarrow> Inl ELOOP
        | KDir \<Rightarrow> (if oo_write opts \<or> oo_create opts then Inl EISDIR else Inr (q, fs)) | _ \<Rightarrow> Inr (q, fs))) = Inr (place, fs')"
    using assms unfolding open_file_def bindR_Inr_conv by blast
  then show ?thesis by (cases "lookup_node fs q") (auto simp: set_node_def split: if_splits Kind.split_asm)
qed

lemma write_owner_only_effect:
  assumes t: "pins_place fs tmp" and p: "pins_place fs path" and i: "butlast tmp = butlast path" "tmp \<noteq> path"
    and w: "write_owner_only fs tmp path body = (Inr (), fs')"
  shows "(\<exists>n. lookup_node fs' path = Some n \<and> n_kind n = KFile body \<and> n_mtime n = Some (fs_now fs)) \<and>
    env_fault fs' = env_fault fs \<and> tree_fs fs' \<and> \<not> has_nul path"
proof -
  have opts: "OpenOptions_new\<lparr>oo_write := True, oo_create := True, oo_mode := 0x180\<rparr> =
    OpenOptions_new\<lparr>oo_create := True, oo_write := True, oo_mode := 0x180\<rparr>" by (simp add: OpenOptions_new_def)
  note w = w [unfolded write_owner_only_def opts]
  obtain place fs1 where o: "open_file fs (OpenOptions_new\<lparr>oo_create := True, oo_write := True, oo_mode := 0x180\<rparr>) tmp = Inr (place, fs1)"
    using w by (auto split: sum.splits)
  from open_append [OF t o] have a: "place = tmp" "pins_place fs1 tmp" "file_bytes fs1 tmp = Some (contents fs tmp)" by auto
  have ne: "tmp \<noteq> []" "path \<noteq> []" using t p by (auto simp: pins_place_def)
  have ap: "\<not> prefix tmp path" "\<not> prefix path tmp" using siblings_apart i ne by metis+
  have env: "env_fault fs1 = env_fault fs \<and> fs_now fs1 = fs_now fs" by (rule open_file_fields [OF o])
  let ?fs2 = "update_file (update_file fs1 tmp (\<lambda>_. [])) tmp (overwrite 0 body)"
  obtain fs3 where h: "handle_write (update_file fs1 tmp (\<lambda>_. [])) tmp 0 body = Inr fs3" "fs_rename fs3 tmp path = Inr fs'"
    using w by (auto simp: o a(1) Let_def split: sum.splits)
  then have rn: "fs_rename ?fs2 tmp path = Inr fs'" by (auto simp: handle_write_def bindR_Inr_conv)
  have sb: "same_but tmp fs1 ?fs2" by (rule same_but_trans [OF same_but_update same_but_update])
  have p2: "pins_place ?fs2 tmp" by (rule pins_place_same_but [OF a(2) sb])
  have fb: "file_bytes ?fs2 tmp = Some body" using a(3) by (simp add: file_bytes_update overwrite_def)
  have pl: "plain ?fs2 path" using p2 plain_siblings [OF i(1) ne] by (simp add: pins_place_def)
  have tr: "names_ok tmp" "plain ?fs2 tmp" "tree_fs ?fs2" "names_ok path" using p2 p by (simp_all add: pins_place_def)
  from rename_upload [OF rn tr(1,2) fb tr(4) pl ap tr(3)] have
    m: "fs' = move_tree ?fs2 tmp path" "empty_below ?fs2 path" by auto
  have l: "lookup_node fs' path = lookup_node ?fs2 tmp" unfolding m(1) using lookup_move_iff [OF m(2) ap ne] by simp
  obtain n where n: "lookup_node fs1 tmp = Some n" "n_kind n = KFile (contents fs tmp)"
    using a(3) by (auto simp: file_bytes_def split: option.splits Kind.splits)
  have "lookup_node ?fs2 tmp = Some (n\<lparr>n_kind := KFile body, n_mtime := Some (fs_now fs1)\<rparr>)"
    using n by (simp add: fs_simps overwrite_def)
  moreover have "env_fault fs' = env_fault fs" using m(1) same_but_env [OF sb] env by (simp add: move_tree_def)
  moreover have "\<not> has_nul path" using rn by (auto simp: fs_rename_def bindR_Inr_conv syscall_path_def split: if_splits)
  ultimately show ?thesis using l env fs_rename_tree [OF rn tr(3)] by simp
qed

lemma load_finds:
  assumes "tree_fs fs" "faultless fs" "names_ok path" "\<not> has_nul path" "lookup_node fs path = Some n" "n_kind n = KFile raw"
  shows "fs_metadata fs path = Inr n" "fs_read fs path = Some raw" "remove_file fs path = Inr (del_node fs path)"
proof -
  have "path \<noteq> []" using assms(5,6) file_bytes_not_root [of fs path raw] by (simp add: file_bytes_def)
  have nm: "namei MAXSYMLINKS fs [] path f = Inr path" for f
    using namei_descend [OF assms(1), of "[]" path n MAXSYMLINKS "[]" f] assms(3,5,6) by simp
  have sp: "syscall_path fs sys f path = Inr path" for sys f using nm assms(2,4) by (simp add: syscall_path_def faultless_def)
  show "fs_metadata fs path = Inr n" "remove_file fs path = Inr (del_node fs path)"
    using sp assms(5,6) by (simp_all add: fs_metadata_def remove_file_def existing_def)
  have "file_bytes fs path = Some raw" using assms(5,6) by (simp add: file_bytes_def)
  then show "fs_read fs path = Some raw"
    using sp assms(2,5,6) by (simp add: fs_read_def open_file_def OpenOptions_new_def read_to_end_def handle_read_def handle_fault_def faultless_def)
qed

lemma create_dir_now: "create_dir fs d = Inr fs' \<Longrightarrow> fs_now fs' = fs_now fs"
  by (auto simp: create_dir_def bindR_Inr_conv set_node_def split: if_splits)

lemma create_dir_all_now: "fs_now (snd (create_dir_all fs d)) = fs_now fs"
proof (induction fs d rule: create_dir_all.induct)
  case (1 fs p)
  obtain r fs1 where c: "create_dir_all fs (butlast p) = (r, fs1)" by (cases "create_dir_all fs (butlast p)")
  show ?case
  proof (cases "create_dir fs p")
    case (Inl e)
    have "e = ENOENT \<Longrightarrow> p \<noteq> [] \<Longrightarrow> fs_now fs1 = fs_now fs" using 1 [OF Inl] c by simp
    then show ?thesis using Inl create_dir_now [of fs1 p]
      by (simp add: create_dir_all.simps [of fs p] c split: sum.splits)
  next
    case (Inr f)
    then show ?thesis using create_dir_now by (simp add: create_dir_all.simps [of fs p])
  qed
qed

lemma save_ticket_effect:
  assumes "pins_place fs (ticket_path dir host)" "pins_place fs (ticket_tmp dir host pid seq)"
    and "save_ticket clock pid seq fs dir host (Some ticket) fingerprint = (Inr (), fs')"
  shows "\<exists>n. lookup_node fs' (ticket_path dir host) = Some n \<and> n_kind n = KFile (ticket_body clock fingerprint ticket) \<and>
    n_mtime n = Some (fs_now fs) \<and> env_fault fs' = env_fault fs \<and> tree_fs fs' \<and> \<not> has_nul (ticket_path dir host)"
proof -
  let ?p = "ticket_path dir host" and ?t = "ticket_tmp dir host pid seq"
  obtain fs1 where c: "create_dir_all fs dir = (Inr (), fs1)"
    and w: "write_owner_only fs1 ?t ?p (ticket_body clock fingerprint ticket) = (Inr (), fs')"
    using assms(3) by (auto simp: save_ticket_def split: prod.splits sum.splits)
  have b: "butlast ?p = dir" "butlast ?t = dir" by (simp_all add: ticket_path_def ticket_tmp_def Let_def)
  have "?t \<noteq> ?p" by (auto simp: ticket_path_def ticket_tmp_def Let_def)
  have nd: "names_ok dir" "plain fs dir"
    using assms(1) by (auto simp: pins_place_def ticket_path_def plain_def strict_prefix_snoc_iff)
  have d: "only_dirs_added dir fs fs1" by (rule create_dir_all_adds [OF c nd])
  have now: "fs_now fs1 = fs_now fs" using create_dir_all_now [of fs dir] c by simp
  from write_owner_only_effect [OF _ _ _ \<open>?t \<noteq> ?p\<close> w] pins_place_dirs [OF assms(1)] pins_place_dirs [OF assms(2)] b d
  show ?thesis unfolding now [symmetric] by (auto simp: only_dirs_added_def)
qed

section \<open>Properties\<close>


lemma demo_ticket_place: "pins_place demo_pins [x]" if "normal_name x" "x \<noteq> ''kh''"
proof -
  have "tree_fs demo_pins" by (auto simp: tree_fs_def demo_pins_lookup is_dir_at_def split: if_splits)
  moreover have "plain demo_pins [x]" by (auto simp: plain_def no_link_def demo_pins_lookup strict_prefix_def prefix_Cons)
  ultimately show ?thesis using that by (simp add: pins_place_def honest_def names_ok_def demo_pins_lookup)
qed


end
