(* ===== verification/Sync.thy ===== *)
theory Sync
  imports Client_Put Known_Hosts
begin

text \<open>
  One-way synchronisation of a local directory to the server: \<open>crates/qftp-client/src/sync.rs\<close> from the
  walk of the local tree to the last request. The patterns of \<open>.qftpignore\<close> are those of the
  crate \<open>glob\<close>: compiling and matching them are parameters. A \<open>HashMap\<close> is an association list; its
  order of iteration, which the code leaves open, is the order of the list.
\<close>

section \<open>Ignore rules\<close>

record 'p Rule =
  rl_pattern :: 'p
  rl_anchored :: bool
  rl_dir_only :: bool

text \<open>\<open>read_to_string\<close>, \<open>None\<close> for any error.\<close>

definition read_to_string :: "FS \<Rightarrow> path \<Rightarrow> string option" where
  "read_to_string fs path =
     (case open_file fs (OpenOptions_new\<lparr>oo_read := True\<rparr>) path of
        Inl _ \<Rightarrow> None
      | Inr (place, _) \<Rightarrow>
          (case read_to_end fs place of
             Inl _ \<Rightarrow> None
           | Inr b \<Rightarrow> (if utf8_valid b then Some (bytes_string b) else None)))"

definition trim_end_slashes :: "string \<Rightarrow> string" where
  "trim_end_slashes s = rev (dropWhile (\<lambda>c. c = CHR ''/'') (rev s))"

definition parse_rule :: "(string \<Rightarrow> 'p option) \<Rightarrow> string \<Rightarrow> 'p Rule option" where
  "parse_rule compile raw =
     (let line = trim raw
      in if line = [] \<or> hd line = CHR ''#'' then None
         else (let dir_only = (last line = CHR ''/'');
                   pat = trim_end_slashes line;
                   anchored = (pat \<noteq> [] \<and> hd pat = CHR ''/'');
                   pat = (if anchored then dropWhile (\<lambda>c. c = CHR ''/'') pat else pat)
               in map_option (\<lambda>p. \<lparr>rl_pattern = p, rl_anchored = anchored, rl_dir_only = dir_only\<rparr>) (compile pat)))"

definition IgnoreMatcher_load :: "(string \<Rightarrow> 'p option) \<Rightarrow> FS \<Rightarrow> path \<Rightarrow> 'p Rule list" where
  "IgnoreMatcher_load compile fs path =
     (case read_to_string fs path of
        None \<Rightarrow> []
      | Some content \<Rightarrow> List.map_filter (parse_rule compile) (map strip_cr (split_lines content)))"

type_synonym 'p matcher = "'p \<Rightarrow> string \<Rightarrow> bool"

definition slashes :: "string \<Rightarrow> string" where
  "slashes s = map (\<lambda>c. if c = CHR 0x5C then CHR ''/'' else c) s"

definition check_anchored :: "'p matcher \<Rightarrow> 'p Rule \<Rightarrow> string \<Rightarrow> bool" where
  "check_anchored match_glob rule rel_str = match_glob (rl_pattern rule) rel_str"

definition walk_rule_components :: "'p matcher \<Rightarrow> 'p Rule \<Rightarrow> path \<Rightarrow> bool" where
  "walk_rule_components match_glob rule rel = list_ex (\<lambda>c. match_glob (rl_pattern rule) (to_string_lossy c)) rel"

definition ignore_matches :: "'p matcher \<Rightarrow> 'p Rule list \<Rightarrow> path \<Rightarrow> bool \<Rightarrow> bool" where
  "ignore_matches match_glob rules rel is_dir =
     (let rel_str = slashes (to_string_lossy (join_slash rel))
      in list_ex (\<lambda>rule.
           if rl_dir_only rule \<and> \<not> is_dir then False
           else if rl_anchored rule then check_anchored match_glob rule rel_str
           else check_anchored match_glob rule rel_str \<or> walk_rule_components match_glob rule rel) rules)"

definition is_file_ignored :: "'p matcher \<Rightarrow> 'p Rule list \<Rightarrow> path \<Rightarrow> bool" where
  "is_file_ignored match_glob rules rel = ignore_matches match_glob rules rel False"

definition is_dir_ignored :: "'p matcher \<Rightarrow> 'p Rule list \<Rightarrow> path \<Rightarrow> bool" where
  "is_dir_ignored match_glob rules rel = ignore_matches match_glob rules rel True"

function excluded_above :: "'p matcher \<Rightarrow> 'p Rule list \<Rightarrow> path \<Rightarrow> bool" where
  "excluded_above match_glob rules dir =
     (if dir = [] then False
      else if is_dir_ignored match_glob rules dir then True
      else excluded_above match_glob rules (butlast dir))"
  by pat_completeness auto
termination
  by (relation "measure (\<lambda>(m, rules, dir). length dir)") auto

declare excluded_above.simps [simp del]

definition sync_excludes :: "'p matcher \<Rightarrow> 'p Rule list \<Rightarrow> path \<Rightarrow> bool" where
  "sync_excludes match_glob rules rel =
     (if is_file_ignored match_glob rules rel then True else excluded_above match_glob rules (butlast rel))"

section \<open>The local tree\<close>

record Meta =
  mt_size :: u64
  mt_modified :: u64

type_synonym index = "(path \<times> Meta) list"

definition local_meta :: "(io_error, Node) result \<Rightarrow> Meta" where
  "local_meta meta =
     (case meta of
        Inl _ \<Rightarrow> \<lparr>mt_size = 0, mt_modified = 0\<rparr>
      | Inr m \<Rightarrow> \<lparr>mt_size = node_size m, mt_modified = (case n_mtime m of Some t \<Rightarrow> fst t | None \<Rightarrow> 0)\<rparr>)"

definition local_entry :: "'p matcher \<Rightarrow> 'p Rule list \<Rightarrow> path \<Rightarrow> Node \<Rightarrow> path list \<times> index \<Rightarrow> path list \<times> index" where
  "local_entry match_glob rules rel m st =
     (let (stack, out) = st
      in if n_kind m = KDir
         then (if is_dir_ignored match_glob rules rel then st else (rel # stack, out))
         else if \<not> is_file_kind (n_kind m) then st
         else if rel = [''.qftpignore''] then st
         else if is_file_ignored match_glob rules rel then st
         else (stack, AList.update rel (local_meta (Inr m)) out))"

text \<open>
  The entries of the directory \<open>base @ dir\<close>, which is really at \<open>q\<close>. The kind and the metadata of
  an entry come from one \<open>lstat\<close>.
\<close>

fun local_entries ::
  "'p matcher \<Rightarrow> 'p Rule list \<Rightarrow> FS \<Rightarrow> path \<Rightarrow> path \<Rightarrow> path \<Rightarrow> (io_error, string) result list \<Rightarrow> path list \<times> index \<Rightarrow> path list \<times> index" where
  "local_entries match_glob rules fs base q dir [] st = st"
| "local_entries match_glob rules fs base q dir (Inl e # es) st = local_entries match_glob rules fs base q dir es st"
| "local_entries match_glob rules fs base q dir (Inr c # es) st =
     local_entries match_glob rules fs base q dir es
       (case entry_metadata fs q (base @ dir) c of
          Inl _ \<Rightarrow> st
        | Inr m \<Rightarrow> local_entry match_glob rules (dir @ [c]) m st)"

text \<open>The stack holds paths relative to the root. \<open>None\<close> is a walk that needs more rounds than \<open>fuel\<close>.\<close>

fun walk_local_loop :: "nat \<Rightarrow> 'p matcher \<Rightarrow> 'p Rule list \<Rightarrow> FS \<Rightarrow> path \<Rightarrow> path list \<Rightarrow> index \<Rightarrow> index option" where
  "walk_local_loop fuel match_glob rules fs base [] out = Some out"
| "walk_local_loop 0 match_glob rules fs base (dir # stack) out = None"
| "walk_local_loop (Suc fuel) match_glob rules fs base (dir # stack) out =
     (case read_dir fs (base @ dir) of
        Inl _ \<Rightarrow> walk_local_loop fuel match_glob rules fs base stack out
      | Inr (q, entries) \<Rightarrow>
          (let (stack, out) = local_entries match_glob rules fs base q dir entries (stack, out)
           in walk_local_loop fuel match_glob rules fs base stack out))"

definition walk_local :: "nat \<Rightarrow> 'p matcher \<Rightarrow> 'p Rule list \<Rightarrow> FS \<Rightarrow> path \<Rightarrow> index option" where
  "walk_local fuel match_glob rules fs base = walk_local_loop fuel match_glob rules fs base [[]] []"

section \<open>The remote tree\<close>

definition remote_entry :: "string \<Rightarrow> path \<Rightarrow> DirEntry \<Rightarrow> (string \<times> path) list \<times> index \<Rightarrow> (string \<times> path) list \<times> index" where
  "remote_entry dir_abs rel e st =
     (let (stack, out) = st
      in if \<not> safe_entry_name (de_name e) then st
         else (let child_abs = join_remote dir_abs (de_name e); child_rel = rel @ [de_name e]
               in if DirEntry_is_dir e then ((child_abs, child_rel) # stack, out)
                  else (stack, AList.update child_rel \<lparr>mt_size = de_size e, mt_modified = de_modified e\<rparr> out)))"

definition walk_remote_round ::
  "'c Link \<Rightarrow> nat \<times> (string \<times> path) list \<times> index \<Rightarrow> 'c Client \<Rightarrow> ('c, (nat \<times> (string \<times> path) list \<times> index) + index) run" where
  "walk_remote_round L x s =
     (let (visited, stack, out) = x
      in case stack of
           [] \<Rightarrow> ret (Inr out) s
         | (dir_abs, rel) # stack \<Rightarrow>
             (let visited = visited + 1
              in if visited > MAX_DIRS then bail (CE_Message ''sync: remote directory tree too large or cyclic'') s
                 else andThen (request_response L (Req_Ls dir_abs None) s) (\<lambda>resp s.
                   case resp of
                     Resp_DirListing entries _ \<Rightarrow> ret (Inl (visited, fold (remote_entry dir_abs rel) entries (stack, out))) s
                   | Resp_Err e \<Rightarrow> bail (CE_Refused ''sync: remote Ls'' e) s
                   | _ \<Rightarrow> bail (CE_Unexpected ''sync: remote Ls'' resp) s)))"

definition walk_remote :: "'c Link \<Rightarrow> string \<Rightarrow> 'c Client \<Rightarrow> ('c, index) run" where
  "walk_remote L remote_root s = loop (walk_remote_round L) (0, [(remote_root, [])], []) s"

section \<open>The plan\<close>

record SyncOpts =
  so_delete :: bool
  so_use_checksum :: bool
  so_dry_run :: bool

definition mtime_differs :: "u64 \<Rightarrow> u64 \<Rightarrow> bool" where
  "mtime_differs a b \<longleftrightarrow> (if a \<ge> b then a - b else b - a) > 2"

definition need_upload :: "SyncOpts \<Rightarrow> index \<Rightarrow> path \<Rightarrow> Meta \<Rightarrow> bool" where
  "need_upload opts remote rel lmeta =
     (case map_of remote rel of
        None \<Rightarrow> True
      | Some rmeta \<Rightarrow>
          (if so_use_checksum opts then True
           else mt_size rmeta \<noteq> mt_size lmeta \<or> mtime_differs (mt_modified rmeta) (mt_modified lmeta)))"

definition plan_uploads :: "SyncOpts \<Rightarrow> index \<Rightarrow> index \<Rightarrow> path list" where
  "plan_uploads opts local_files remote_files = map fst (filter (\<lambda>(rel, lmeta). need_upload opts remote_files rel lmeta) local_files)"

definition plan_deletes :: "SyncOpts \<Rightarrow> 'p matcher \<Rightarrow> 'p Rule list \<Rightarrow> index \<Rightarrow> index \<Rightarrow> path list" where
  "plan_deletes opts match_glob rules local_files remote_files =
     (if so_delete opts
      then filter (\<lambda>rel. rel \<notin> fst ` set local_files \<and> \<not> sync_excludes match_glob rules rel) (map fst remote_files)
      else [])"

section \<open>The transfers\<close>

datatype MkdirErrorClass = Mkdir_Fatal | Mkdir_AlreadyExists | Mkdir_Benign

definition classify_mkdir_error :: "ErrorCode \<Rightarrow> MkdirErrorClass" where
  "classify_mkdir_error code =
     (if code = Unauthorized \<or> code = Unsupported then Mkdir_Fatal
      else if code = AlreadyExists then Mkdir_AlreadyExists else Mkdir_Benign)"

definition ensure_remote_dir :: "'c Link \<Rightarrow> string \<Rightarrow> 'c Client \<Rightarrow> ('c, unit) run" where
  "ensure_remote_dir L path s =
     andThen (request_response L (Req_Mkdir path) s) (\<lambda>resp s.
       case resp of
         Resp_Ok \<Rightarrow> ret () s
       | Resp_Err e \<Rightarrow>
           (case classify_mkdir_error (er_code e) of
              Mkdir_Fatal \<Rightarrow> bail (CE_Refused (''sync: Mkdir('' @ path @ '')'') e) s
            | _ \<Rightarrow> ret () s)
       | _ \<Rightarrow> bail (CE_Unexpected (''sync: Mkdir('' @ path @ '')'') resp) s)"

text \<open>\<open>Path::parent\<close> on the text of a path.\<close>

definition parent_text :: "string \<Rightarrow> string option" where
  "parent_text s =
     (case trim_pieces (rev (split_slash s)) of
        [] \<Rightarrow> None
      | p # ps \<Rightarrow>
          (if ps = [] then (if p = [] then None else Some [])
           else (let q = rev (trim_pieces ps) in Some (if q = [[]] then ''/'' else join_slash q))))"

text \<open>The distinct parents in the order of a \<open>BTreeSet\<close>.\<close>

fun string_less :: "string \<Rightarrow> string \<Rightarrow> bool" where
  "string_less a [] = False"
| "string_less [] (d # b) = True"
| "string_less (c # a) (d # b) = ((of_char c :: nat) < of_char d \<or> c = d \<and> string_less a b)"

fun insert_text :: "string \<Rightarrow> string list \<Rightarrow> string list" where
  "insert_text x [] = [x]"
| "insert_text x (y # ys) = (if x = y then y # ys else if string_less x y then x # y # ys else y # insert_text x ys)"

definition mkdir_parents :: "string \<Rightarrow> path list \<Rightarrow> string list" where
  "mkdir_parents remote_root rels =
     fold (\<lambda>rel ps. case parent_text (join_remote remote_root (join_slash rel)) of Some p \<Rightarrow> insert_text (to_string_lossy p) ps | None \<Rightarrow> ps) rels []"

fun make_dirs :: "'c Link \<Rightarrow> string list \<Rightarrow> 'c Client \<Rightarrow> ('c, unit) run" where
  "make_dirs L [] s = ret () s"
| "make_dirs L (p # ps) s = andThen (ensure_remote_dir L p s) (\<lambda>_ s. make_dirs L ps s)"

fun sync_uploads ::
  "'c Link \<Rightarrow> ('d, 'e) ClientPrims \<Rightarrow> Settings \<Rightarrow> path \<Rightarrow> string \<Rightarrow> path list \<Rightarrow> u64 \<Rightarrow> 'c Client \<Rightarrow> (u64 \<times> 'c Client) option" where
  "sync_uploads L K opts local_root remote_root [] failures s = Some (failures, s)"
| "sync_uploads L K opts local_root remote_root (rel # rels) failures s =
     (let (sid, s) = take_stream s
      in Option.bind (do_put L K opts sid (local_root @ rel) (join_remote remote_root (join_slash rel)) 0 False s) (\<lambda>(r, s).
           sync_uploads L K opts local_root remote_root rels (if is_ok r then failures else failures + 1) s))"

text \<open>Failures of a deletion are logged and skipped.\<close>

fun sync_deletes :: "'c Link \<Rightarrow> string \<Rightarrow> path list \<Rightarrow> 'c Client \<Rightarrow> 'c Client option" where
  "sync_deletes L remote_root [] s = Some s"
| "sync_deletes L remote_root (rel # rels) s =
     Option.bind (request_response L (Req_Rm (join_remote remote_root (to_string_lossy (join_slash rel)))) s) (\<lambda>(_, s).
       sync_deletes L remote_root rels s)"

text \<open>The goodbye, whose errors are dropped.\<close>

definition quit_politely :: "'c Link \<Rightarrow> 'c Client \<Rightarrow> 'c Client option" where
  "quit_politely L s =
     (let (qid, s) = take_stream s
      in Option.bind (send_request L qid Req_Quit s) (\<lambda>(_, s).
         Option.bind (send_fin L qid s) (\<lambda>(_, s). map_option snd (net (l_flush L) s))))"

definition sync_transfer ::
  "'c Link \<Rightarrow> ('d, 'e) ClientPrims \<Rightarrow> Settings \<Rightarrow> SyncOpts \<Rightarrow> path \<Rightarrow> string \<Rightarrow> path list \<Rightarrow> path list \<Rightarrow> 'c Client \<Rightarrow> ('c, int) run" where
  "sync_transfer L K settings opts local_root remote_root to_upload to_delete s =
     (if so_dry_run opts then ret 0 s
      else andThen (ensure_remote_dir L remote_root s) (\<lambda>_ s.
           andThen (make_dirs L (mkdir_parents remote_root to_upload) s) (\<lambda>_ s.
             Option.bind (sync_uploads L K settings local_root remote_root to_upload 0 s) (\<lambda>(failures, s).
             Option.bind (if failures > 0 \<and> to_delete \<noteq> [] then Some s else sync_deletes L remote_root to_delete s) (\<lambda>s.
             Option.bind (quit_politely L s) (\<lambda>s. ret 0 s))))))"

text \<open>\<open>run\<close> on a connection that is made, from the ignore rules on. \<open>local_root\<close> is the canonical root.\<close>

definition sync_run ::
  "'c Link \<Rightarrow> ('d, 'e) ClientPrims \<Rightarrow> Settings \<Rightarrow> (string \<Rightarrow> 'p option) \<Rightarrow> 'p matcher \<Rightarrow> nat \<Rightarrow> SyncOpts \<Rightarrow> path \<Rightarrow> string \<Rightarrow> 'c Client \<Rightarrow> ('c, int) run" where
  "sync_run L K settings compile match_glob fuel opts local_root remote_root s =
     (let rules = IgnoreMatcher_load compile (cl_fs s) (local_root @ [''.qftpignore''])
      in Option.bind (walk_local fuel match_glob rules (cl_fs s) local_root) (\<lambda>local_files.
         andThen (walk_remote L remote_root s) (\<lambda>remote_files s.
           sync_transfer L K settings opts local_root remote_root (plan_uploads opts local_files remote_files)
             (plan_deletes opts match_glob rules local_files remote_files) s)))"

end
