(* ===== verification/Sync_Props.thy ===== *)
theory Sync_Props
  imports Sync
begin

text \<open>
  Properties of synchronisation: what the local walk finds, and what the plan does with it.
\<close>

section \<open>The local walk\<close>

text \<open>
  A directory that the walk goes into: none of the directories down to it is ignored, and all
  above it can be listed. A file that it indexes is not excluded and all directories above it can
  be listed.
\<close>

definition entered :: "'p matcher \<Rightarrow> 'p Rule list \<Rightarrow> FS \<Rightarrow> path \<Rightarrow> path \<Rightarrow> bool" where
  "entered match_glob rules fs base dir \<longleftrightarrow> \<not> excluded_above match_glob rules dir \<and>
     (\<forall>d. strict_prefix d dir \<longrightarrow> is_ok (read_dir fs (base @ d)))"

definition indexed :: "'p matcher \<Rightarrow> 'p Rule list \<Rightarrow> FS \<Rightarrow> path \<Rightarrow> path \<Rightarrow> bool" where
  "indexed match_glob rules fs base rel \<longleftrightarrow> \<not> sync_excludes match_glob rules rel \<and>
     (\<forall>d. strict_prefix d rel \<longrightarrow> is_ok (read_dir fs (base @ d)))"

lemma excluded_above_snoc:
  "excluded_above match_glob rules (dir @ [c]) \<longleftrightarrow> is_dir_ignored match_glob rules (dir @ [c]) \<or> excluded_above match_glob rules dir"
  by (subst excluded_above.simps) simp

lemma sync_excludes_snoc:
  "sync_excludes match_glob rules (dir @ [c]) \<longleftrightarrow> is_file_ignored match_glob rules (dir @ [c]) \<or> excluded_above match_glob rules dir"
  by (simp add: sync_excludes_def)

definition walk_inv :: "'p matcher \<Rightarrow> 'p Rule list \<Rightarrow> FS \<Rightarrow> path \<Rightarrow> path list \<times> index \<Rightarrow> bool" where
  "walk_inv match_glob rules fs base st \<longleftrightarrow>
     list_all (entered match_glob rules fs base) (fst st) \<and> list_all (indexed match_glob rules fs base) (map fst (snd st))"

lemma list_all_update: "P k \<Longrightarrow> list_all P (map fst al) \<Longrightarrow> list_all P (map fst (AList.update k v al))"
  by (induction al) auto

lemma local_entry_inv:
  assumes d: "entered match_glob rules fs base dir" "is_ok (read_dir fs (base @ dir))" and i: "walk_inv match_glob rules fs base st"
  shows "walk_inv match_glob rules fs base (local_entry match_glob rules (dir @ [c]) m st)"
proof -
  have "is_ok (read_dir fs (base @ p))" if "strict_prefix p (dir @ [c])" for p
    using that d by (auto simp: strict_prefix_snoc_iff entered_def)
  then have "\<not> is_dir_ignored match_glob rules (dir @ [c]) \<Longrightarrow> entered match_glob rules fs base (dir @ [c])"
    "\<not> is_file_ignored match_glob rules (dir @ [c]) \<Longrightarrow> indexed match_glob rules fs base (dir @ [c])"
    using d(1) by (simp_all add: entered_def indexed_def excluded_above_snoc sync_excludes_snoc)
  then show ?thesis using i by (auto simp: local_entry_def walk_inv_def list_all_update split: prod.splits)
qed

lemma local_entries_inv:
  assumes "entered match_glob rules fs base dir" "is_ok (read_dir fs (base @ dir))"
  shows "walk_inv match_glob rules fs base st \<Longrightarrow> walk_inv match_glob rules fs base (local_entries match_glob rules fs base q dir es st)"
proof (induction es arbitrary: st)
  case (Cons e es)
  then show ?case using local_entry_inv [OF assms] by (cases e) (auto split: sum.splits)
qed simp

lemma walk_local_loop_inv:
  "walk_local_loop fuel match_glob rules fs base stack out = Some out' \<Longrightarrow>
   list_all (entered match_glob rules fs base) stack \<Longrightarrow> list_all (indexed match_glob rules fs base) (map fst out) \<Longrightarrow>
     list_all (indexed match_glob rules fs base) (map fst out')"
proof (induction fuel match_glob rules fs base stack out rule: walk_local_loop.induct)
  case (3 fuel match_glob rules fs base dir stack out)
  show ?case
  proof (cases "read_dir fs (base @ dir)")
    case (Inl e)
    then show ?thesis using 3 by simp
  next
    case (Inr y)
    obtain q es where y: "y = (q, es)" by (cases y)
    obtain stack1 out1 where l: "local_entries match_glob rules fs base q dir es (stack, out) = (stack1, out1)"
      by (cases "local_entries match_glob rules fs base q dir es (stack, out)")
    have "walk_inv match_glob rules fs base (local_entries match_glob rules fs base q dir es (stack, out))"
      by (rule local_entries_inv) (use "3.prems"(2,3) Inr in \<open>auto simp: is_ok_def walk_inv_def\<close>)
    then show ?thesis using "3.IH"(2) [OF Inr y [symmetric] refl l [symmetric]] "3.prems"(1) Inr y l by (simp add: walk_inv_def)
  qed
qed simp_all

lemma walk_local_indexed:
  assumes "walk_local fuel match_glob rules fs base = Some out" "rel \<in> fst ` set out"
  shows "indexed match_glob rules fs base rel"
proof -
  have "list_all (indexed match_glob rules fs base) (map fst out)"
    by (rule walk_local_loop_inv [OF assms(1) [unfolded walk_local_def]]) (simp_all add: entered_def excluded_above.simps)
  then show ?thesis using assms(2) by (auto simp: list_all_iff)
qed

section \<open>Properties\<close>


text \<open>
  With \<open>--delete\<close>, a local directory that cannot be listed costs the server's copy of it. The
  walk logs the failure and goes on without the directory, so every remote file below it counts
  as missing locally and is deleted, unless it is excluded.
\<close>

lemma unreadable_directory_deleted:
  assumes "walk_local fuel match_glob rules fs base = Some local_files" "read_dir fs (base @ dir) = Inl e" "so_delete opts"
    and "rel \<in> fst ` set remote_files" "strict_prefix dir rel" "\<not> sync_excludes match_glob rules rel"
  shows "rel \<in> set (plan_deletes opts match_glob rules local_files remote_files)"
  using walk_local_indexed [OF assms(1), of rel] assms(2-)
  by (force simp: plan_deletes_def indexed_def is_ok_def)

definition demo_tree :: FS where
  "demo_tree = \<lparr>nodes = [([''w''], \<lparr>n_kind = KDir, n_perm = 0, n_uid = 0, n_gid = 0, n_mtime = None, n_len = 0\<rparr>),
       ([''w'', ''d''], \<lparr>n_kind = KDir, n_perm = 0, n_uid = 0, n_gid = 0, n_mtime = None, n_len = 0\<rparr>),
       ([''w'', ''d'', ''x''], \<lparr>n_kind = KFile [1], n_perm = 0, n_uid = 0, n_gid = 0, n_mtime = None, n_len = 0\<rparr>),
       ([''w'', ''f''], \<lparr>n_kind = KFile [2], n_perm = 0, n_uid = 0, n_gid = 0, n_mtime = None, n_len = 0\<rparr>)],
     fs_root = \<lparr>n_kind = KDir, n_perm = 0, n_uid = 0, n_gid = 0, n_mtime = None, n_len = 0\<rparr>,
     env_fault = (\<lambda>sys p. if sys = Sys_ReadDir \<and> p = [''w'', ''d''] then Some EACCES else None),
     fs_umask = 0, fs_uid = 0, fs_gid = 0, fs_now = (0, 0)\<rparr>"

abbreviation demo_remote :: index where
  "demo_remote \<equiv> [([''d'', ''x''], \<lparr>mt_size = 1, mt_modified = 0\<rparr>), ([''f''], \<lparr>mt_size = 1, mt_modified = 0\<rparr>)]"

abbreviation demo_opts :: SyncOpts where
  "demo_opts \<equiv> \<lparr>so_delete = True, so_use_checksum = False, so_dry_run = False\<rparr>"

lemma demo_walk: "walk_local 3 (\<lambda>p s. p = s) ([] :: string Rule list) demo_tree [''w''] = Some [([''f''], \<lparr>mt_size = 1, mt_modified = 0\<rparr>)]"
  "read_dir demo_tree ([''w''] @ [''d'']) = Inl EACCES"
  by code_simp+

lemma unreadable_directory_deleted_witness:
  "walk_local 3 (\<lambda>p s. p = s) ([] :: string Rule list) demo_tree [''w''] = Some [([''f''], \<lparr>mt_size = 1, mt_modified = 0\<rparr>)] \<and>
     [''d'', ''x''] \<in> set (plan_deletes demo_opts (\<lambda>p s. p = s) ([] :: string Rule list) [([''f''], \<lparr>mt_size = 1, mt_modified = 0\<rparr>)] demo_remote)"
proof -
  have "\<not> sync_excludes (\<lambda>p s. p = s) ([] :: string Rule list) [''d'', ''x'']" by code_simp
  from unreadable_directory_deleted [OF demo_walk(1,2) _ _ _ this, of demo_opts demo_remote] demo_walk(1) show ?thesis
    by (simp add: strict_prefix_def)
qed


end
