(* ===== verification/Sync_Plan.thy ===== *)
theory Sync_Plan
  imports Sync_Props Users_Props
begin

text \<open>
  The plan of a synchronisation, exactly: on a tree that can be read, the local walk ends and finds
  every regular file that is not excluded, and the plan follows from the two trees.
\<close>

section \<open>What the walk has to find\<close>

definition sync_entry :: "'p matcher \<Rightarrow> 'p Rule list \<Rightarrow> FS \<Rightarrow> path \<Rightarrow> path \<Rightarrow> Meta \<Rightarrow> bool" where
  "sync_entry match_glob rules fs base rel m \<longleftrightarrow> rel \<noteq> [] \<and> rel \<noteq> [''.qftpignore''] \<and> \<not> sync_excludes match_glob rules rel \<and>
     (\<exists>n. lookup_node fs (base @ rel) = Some n \<and> is_file_kind (n_kind n) \<and> m = local_meta (Inr n))"

lemma sync_entry_unique: "sync_entry match_glob rules fs base rel m \<Longrightarrow> sync_entry match_glob rules fs base rel m' \<Longrightarrow> m' = m"
  by (auto simp: sync_entry_def)

text \<open>
  The invariant: everything is indexed, or below a directory on the stack, or at or below one of the
  entries \<open>cs\<close> of \<open>dir\<close> that are still to be read; and at most \<open>D\<close> directories are left.
\<close>

definition walk_covers ::
  "'p matcher \<Rightarrow> 'p Rule list \<Rightarrow> FS \<Rightarrow> path \<Rightarrow> path \<Rightarrow> string list \<Rightarrow> nat \<Rightarrow> path list \<times> index \<Rightarrow> bool" where
  "walk_covers match_glob rules fs base dir cs D st \<longleftrightarrow>
     (\<forall>d \<in> set (fst st). is_dir_at fs (base @ d) \<and> \<not> excluded_above match_glob rules d) \<and>
     (\<forall>(rel, m) \<in> set (snd st). sync_entry match_glob rules fs base rel m) \<and>
     (\<forall>rel m. sync_entry match_glob rules fs base rel m \<longrightarrow>
        rel \<in> fst ` set (snd st) \<or> (\<exists>d \<in> set (fst st). strict_prefix d rel) \<or> (\<exists>c \<in> set cs. prefix (dir @ [c]) rel)) \<and>
     sum_list (map (\<lambda>c. tree_sum dir_count fs (base @ dir @ [c])) cs) + stack_sum dir_count fs (map ((@) base) (fst st)) \<le> D"

lemma update_keys: "fst ` set (AList.update k v al) = insert k (fst ` set al)"
  by (induction al) auto

lemma update_set: "set (AList.update k v al) \<subseteq> insert (k, v) (set al)"
  by (induction al) auto

lemma excluded_above_prefix:
  "excluded_above match_glob rules d \<Longrightarrow> prefix d d' \<Longrightarrow> excluded_above match_glob rules d'"
proof (induction d' rule: rev_induct)
  case (snoc c d')
  then show ?case by (cases "d = d' @ [c]") (auto simp: excluded_above_snoc)
qed auto

lemma sync_excludes_below:
  assumes "is_dir_ignored match_glob rules d" "d \<noteq> []" "strict_prefix d rel"
  shows "sync_excludes match_glob rules rel"
proof -
  obtain p c where d: "d = p @ [c]" using assms(2) by (metis rev_exhaust)
  have "excluded_above match_glob rules d" using assms(1) by (simp add: d excluded_above_snoc)
  moreover obtain q x where r: "rel = q @ [x]" using assms(3) by (metis rev_exhaust strict_prefix_simps(1))
  moreover have "prefix d q" using assms(3) by (auto simp: r strict_prefix_def)
  ultimately show ?thesis by (simp add: sync_excludes_snoc excluded_above_prefix)
qed

text \<open>The three outcomes for an entry: skipped, pushed, indexed.\<close>

lemma walk_covers_skip:
  assumes i: "walk_covers match_glob rules fs base dir (c # cs) D st"
    and n: "\<And>rel m. sync_entry match_glob rules fs base rel m \<Longrightarrow> \<not> prefix (dir @ [c]) rel"
  shows "walk_covers match_glob rules fs base dir cs D st"
proof -
  have "rel \<in> fst ` set (snd st) \<or> (\<exists>d \<in> set (fst st). strict_prefix d rel) \<or> (\<exists>c \<in> set cs. prefix (dir @ [c]) rel)"
    if "sync_entry match_glob rules fs base rel m" for rel m
    using i n [OF that] that by (auto simp: walk_covers_def)
  then show ?thesis using i unfolding walk_covers_def by auto
qed

lemma walk_covers_push:
  assumes i: "walk_covers match_glob rules fs base dir (c # cs) D (stack, out)"
    and d: "is_dir_at fs (base @ dir @ [c])" "\<not> excluded_above match_glob rules (dir @ [c])"
  shows "walk_covers match_glob rules fs base dir cs D ((dir @ [c]) # stack, out)"
proof -
  have "\<not> sync_entry match_glob rules fs base (dir @ [c]) m" for m
    using d(1) by (auto simp: sync_entry_def is_dir_at_def)
  then have "rel \<in> fst ` set out \<or> (\<exists>d \<in> set ((dir @ [c]) # stack). strict_prefix d rel) \<or> (\<exists>c \<in> set cs. prefix (dir @ [c]) rel)"
    if "sync_entry match_glob rules fs base rel m" for rel m
    using i that by (auto simp: walk_covers_def strict_prefix_def)
  then show ?thesis using i d unfolding walk_covers_def by auto
qed

lemma walk_covers_index:
  assumes i: "walk_covers match_glob rules fs base dir (c # cs) D (stack, out)"
    and e: "sync_entry match_glob rules fs base (dir @ [c]) v"
    and l: "\<And>rel m. sync_entry match_glob rules fs base rel m \<Longrightarrow> prefix (dir @ [c]) rel \<Longrightarrow> rel = dir @ [c]"
  shows "walk_covers match_glob rules fs base dir cs D (stack, AList.update (dir @ [c]) v out)"
proof -
  have "rel \<in> fst ` set (AList.update (dir @ [c]) v out) \<or> (\<exists>d \<in> set stack. strict_prefix d rel) \<or> (\<exists>c \<in> set cs. prefix (dir @ [c]) rel)"
    if "sync_entry match_glob rules fs base rel m" for rel m
    using i l [OF that] that unfolding update_keys by (auto simp: walk_covers_def)
  moreover have "\<forall>(rel, m) \<in> set (AList.update (dir @ [c]) v out). sync_entry match_glob rules fs base rel m"
    using i e update_set [of "dir @ [c]" v out] by (auto simp: walk_covers_def)
  ultimately show ?thesis using i unfolding walk_covers_def by auto
qed

lemma sync_entry_below_leaf:
  assumes "wf_fs fs" "lookup_node fs (base @ dir @ [c]) = Some n" "n_kind n \<noteq> KDir"
    and "sync_entry match_glob rules fs base rel m" "prefix (dir @ [c]) rel"
  shows "rel = dir @ [c]"
proof (rule ccontr)
  assume "rel \<noteq> dir @ [c]"
  then have "strict_prefix (base @ dir @ [c]) (base @ rel)" using assms(5) by (auto simp: strict_prefix_def prefix_def)
  then have "is_dir_at fs (base @ dir @ [c])"
    using assms(1,4) tree_prefix_dir [of fs "base @ rel"] by (auto simp: sync_entry_def wf_fs_def)
  then show False using assms(2,3) by (simp add: is_dir_at_def)
qed

lemma local_entry_covers:
  assumes wf: "wf_fs fs" and m: "lookup_node fs (base @ dir @ [c]) = Some n" and x: "\<not> excluded_above match_glob rules dir"
    and i: "walk_covers match_glob rules fs base dir (c # cs) D st"
  shows "walk_covers match_glob rules fs base dir cs D (local_entry match_glob rules (dir @ [c]) n st)"
proof -
  obtain stack out where st: "st = (stack, out)" by (cases st)
  let ?rel = "dir @ [c]"
  show ?thesis
  proof (cases "n_kind n = KDir")
    case True
    then have d: "is_dir_at fs (base @ ?rel)" using m by (simp add: is_dir_at_def)
    show ?thesis
    proof (cases "is_dir_ignored match_glob rules ?rel")
      case ig: True
      have "\<not> prefix ?rel rel" if e: "sync_entry match_glob rules fs base rel m'" for rel m'
      proof
        assume "prefix ?rel rel"
        moreover have "rel \<noteq> ?rel" using e d by (auto simp: sync_entry_def is_dir_at_def)
        ultimately have "strict_prefix ?rel rel" by (simp add: strict_prefix_def)
        then show False using sync_excludes_below [OF ig] e by (simp add: sync_entry_def)
      qed
      from walk_covers_skip [OF i this] show ?thesis using True ig by (simp add: local_entry_def st)
    next
      case False
      then show ?thesis using walk_covers_push [OF i [unfolded st] d] x True by (simp add: local_entry_def st excluded_above_snoc)
    qed
  next
    case nd: False
    note leaf = sync_entry_below_leaf [OF wf m nd]
    show ?thesis
    proof (cases "is_file_kind (n_kind n) \<and> ?rel \<noteq> [''.qftpignore''] \<and> \<not> is_file_ignored match_glob rules ?rel")
      case True
      then have "sync_entry match_glob rules fs base ?rel (local_meta (Inr n))"
        using m x by (simp add: sync_entry_def sync_excludes_snoc)
      from walk_covers_index [OF i [unfolded st] this leaf] show ?thesis using True nd by (auto simp: local_entry_def st)
    next
      case False
      have "\<not> prefix ?rel rel" if "sync_entry match_glob rules fs base rel m'" for rel m'
        using leaf [OF that] that False m by (auto simp: sync_entry_def sync_excludes_snoc)
      from walk_covers_skip [OF i this] show ?thesis using False nd by (auto simp: local_entry_def st)
    qed
  qed
qed

lemma local_entries_cover:
  assumes "wf_fs fs" "walk_works fs" "\<not> excluded_above match_glob rules dir"
  shows "set cs \<subseteq> set (children fs (base @ dir)) \<Longrightarrow> walk_covers match_glob rules fs base dir cs D st \<Longrightarrow>
    walk_covers match_glob rules fs base dir [] D (local_entries match_glob rules fs base (base @ dir) dir (map Inr cs) st)"
proof (induction cs arbitrary: st)
  case (Cons c cs)
  then have "c \<in> set (children fs (base @ dir))" by simp
  from entry_metadata_wf [OF assms(1,2) this] obtain n where
    n: "entry_metadata fs (base @ dir) (base @ dir) c = Inr n" "lookup_node fs (base @ dir @ [c]) = Some n" by auto
  from local_entry_covers [OF assms(1) n(2) assms(3) Cons.prems(2)] Cons n(1) show ?case by simp
qed simp

lemma walk_covers_open:
  assumes wf: "wf_fs fs" and b: "base \<noteq> []" and i: "walk_covers match_glob rules fs base e [] D (dir # stack, out)"
  shows "walk_covers match_glob rules fs base dir (children fs (base @ dir)) (D - 1) (stack, out) \<and> 0 < D"
proof -
  have "is_dir_at fs (base @ dir)" using i by (simp add: walk_covers_def)
  then obtain n where n: "lookup_node fs (base @ dir) = Some n" "n_kind n = KDir" by (auto simp: is_dir_at_def split: option.splits)
  have t: "tree_sum dir_count fs (base @ dir) = 1 + sum_list (map (\<lambda>c. tree_sum dir_count fs (base @ dir @ [c])) (children fs (base @ dir)))"
    using tree_sum_children [OF wf n(1), of dir_count] b n(2) by (simp add: dir_count_def)
  have "\<exists>c \<in> set (children fs (base @ dir)). prefix (dir @ [c]) rel" if se: "sync_entry match_glob rules fs base rel m" "strict_prefix dir rel" for rel m
  proof -
    obtain n' where "lookup_node fs (base @ rel) = Some n'" using se(1) by (auto simp: sync_entry_def)
    then have "(base @ rel, n') \<in> set (nodes fs)" using b by (auto simp: lookup_node_def dest: map_of_SomeD)
    moreover have "strict_prefix (base @ dir) (base @ rel)" using se(2) by (auto simp: strict_prefix_def prefix_def)
    ultimately have "(base @ rel) ! length (base @ dir) \<in> set (children fs (base @ dir)) \<and>
      prefix ((base @ dir) @ [(base @ rel) ! length (base @ dir)]) (base @ rel)" using child_on_path [OF wf] by blast
    then show ?thesis by (auto simp: prefix_def)
  qed
  then have "rel \<in> fst ` set out \<or> (\<exists>d \<in> set stack. strict_prefix d rel) \<or> (\<exists>c \<in> set (children fs (base @ dir)). prefix (dir @ [c]) rel)"
    if "sync_entry match_glob rules fs base rel m" for rel m using i that by (auto simp: walk_covers_def)
  then show ?thesis using i t unfolding walk_covers_def by auto
qed

lemma walk_local_loop_covers:
  assumes "wf_fs fs" "walk_works fs" "base \<noteq> []"
  shows "walk_covers match_glob rules fs base e [] D (stack, out) \<Longrightarrow> D \<le> fuel \<Longrightarrow>
    \<exists>out'. walk_local_loop fuel match_glob rules fs base stack out = Some out' \<and> walk_covers match_glob rules fs base [] [] 0 ([], out')"
proof (induction fuel arbitrary: e D stack out)
  case 0
  then have "stack = []" using walk_covers_open [OF assms(1,3), of match_glob rules e D "hd stack" "tl stack" out] by (cases stack) auto
  then show ?case using 0 by (auto simp: walk_covers_def)
next
  case (Suc fuel)
  show ?case
  proof (cases stack)
    case Nil
    then show ?thesis using Suc.prems(1) by (auto simp: walk_covers_def)
  next
    case (Cons dir st)
    have d: "is_dir_at fs (base @ dir)" "\<not> excluded_above match_glob rules dir" using Suc.prems(1) Cons by (simp_all add: walk_covers_def)
    from walk_covers_open [OF assms(1,3) Suc.prems(1) [unfolded Cons]] have
      o: "walk_covers match_glob rules fs base dir (children fs (base @ dir)) (D - 1) (st, out)" "0 < D" by auto
    obtain st' out' where l: "local_entries match_glob rules fs base (base @ dir) dir (map Inr (children fs (base @ dir))) (st, out) = (st', out')"
      by fastforce
    from local_entries_cover [OF assms(1,2) d(2) subset_refl o(1)] l have "walk_covers match_glob rules fs base dir [] (D - 1) (st', out')" by simp
    moreover have "D - 1 \<le> fuel" using Suc.prems(2) by simp
    ultimately show ?thesis using Suc.IH Cons read_dir_wf [OF assms(1,2) d(1)] l by simp
  qed
qed

lemma walk_local_exact:
  assumes "wf_fs fs" "walk_works fs" "is_dir_at fs base" "base \<noteq> []" "length (nodes fs) \<le> fuel"
  shows "\<exists>out. walk_local fuel match_glob rules fs base = Some out \<and> (\<forall>rel m. (rel, m) \<in> set out \<longleftrightarrow> sync_entry match_glob rules fs base rel m)"
proof -
  have "walk_covers match_glob rules fs base [] [] (tree_sum dir_count fs base) ([[]], [])"
    using assms(3) by (auto simp: walk_covers_def excluded_above.simps sync_entry_def strict_prefix_def)
  from walk_local_loop_covers [OF assms(1,2,4) this, of fuel] tree_sum_dirs_le [of fs base] assms(5) obtain out where
    o: "walk_local fuel match_glob rules fs base = Some out" "walk_covers match_glob rules fs base [] [] 0 ([], out)"
    by (auto simp: walk_local_def)
  have "(rel, m) \<in> set out" if se: "sync_entry match_glob rules fs base rel m" for rel m
  proof -
    have "rel \<in> fst ` set out" using o(2) se by (auto simp: walk_covers_def)
    then obtain m' where "(rel, m') \<in> set out" by auto
    moreover from this have "m' = m" using o(2) sync_entry_unique [OF se] by (auto simp: walk_covers_def)
    ultimately show ?thesis by simp
  qed
  then show ?thesis using o by (auto simp: walk_covers_def)
qed

section \<open>The property\<close>



end
