(* ===== verification/Web_Auth.thy ===== *)
theory Web_Auth
  imports Users Retry Compress Text_Trim
begin

text \<open>
  Authentication of browser sessions: \<open>crates/qftp-web-bridge/src/auth.rs\<close>. The file of tokens is given as
  the list of its entries, the result of the TOML parser; percent-decoding, of the crate
  \<open>percent_encoding\<close>, is a parameter.
\<close>

section \<open>Tokens\<close>

record TokenSpec =
  ts_token :: string
  ts_user :: string

record TokenDirectory =
  by_token :: "(string \<times> string) list option"

datatype TokenError = Token_Empty string | Token_UnknownUser string | Token_Duplicate string

definition TokenDirectory_anonymous :: TokenDirectory where
  "TokenDirectory_anonymous = \<lparr>by_token = None\<rparr>"

fun load_tokens :: "UserDirectory \<Rightarrow> TokenSpec list \<Rightarrow> (string \<times> string) list \<Rightarrow> (TokenError, (string \<times> string) list) result" where
  "load_tokens users [] m = Inr m"
| "load_tokens users (spec # specs) m =
     (if ts_token spec = [] then Inl (Token_Empty (ts_user spec))
      else if lookup_strict users (ts_user spec) = None then Inl (Token_UnknownUser (ts_user spec))
      else if map_of m (ts_token spec) \<noteq> None then Inl (Token_Duplicate (ts_user spec))
      else load_tokens users specs (AList.update (ts_token spec) (ts_user spec) m))"

definition TokenDirectory_load :: "UserDirectory \<Rightarrow> TokenSpec list \<Rightarrow> (TokenError, TokenDirectory) result" where
  "TokenDirectory_load users specs = bindR (load_tokens users specs []) (\<lambda>m. Inr \<lparr>by_token = Some m\<rparr>)"

definition auth_enabled :: "TokenDirectory \<Rightarrow> bool" where
  "auth_enabled d \<longleftrightarrow> by_token d \<noteq> None"

text \<open>The query of a \<open>:path\<close> and its pieces.\<close>

fun split_on :: "char \<Rightarrow> string \<Rightarrow> string list" where
  "split_on sep [] = [[]]"
| "split_on sep (c # cs) =
     (if c = sep then [] # split_on sep cs else (case split_on sep cs of l # ls \<Rightarrow> (c # l) # ls | [] \<Rightarrow> [[c]]))"

fun after_first :: "char \<Rightarrow> string \<Rightarrow> string option" where
  "after_first sep [] = None"
| "after_first sep (c # cs) = (if c = sep then Some cs else after_first sep cs)"

definition extract_token :: "(string \<Rightarrow> bytes) \<Rightarrow> string \<Rightarrow> string option" where
  "extract_token percent_decode path =
     Option.bind (after_first CHR ''?'' path) (\<lambda>query.
     Option.bind (List.find (\<lambda>pair. prefix ''token='' pair) (split_on CHR ''&'' query)) (\<lambda>pair.
       (let raw = drop 6 pair;
            space_decoded = map (\<lambda>c. if c = CHR ''+'' then CHR '' '' else c) raw;
            decoded = percent_decode space_decoded
        in if utf8_valid decoded then Some (bytes_string decoded) else None)))"

text \<open>Every entry is compared; the last match counts.\<close>

definition resolve_token :: "(string \<Rightarrow> bytes) \<Rightarrow> TokenDirectory \<Rightarrow> string \<Rightarrow> UserDirectory \<Rightarrow> User option" where
  "resolve_token percent_decode d path users =
     (case by_token d of
        None \<Rightarrow> Some (ud_anonymous users)
      | Some m \<Rightarrow>
          Option.bind (extract_token percent_decode path) (\<lambda>token.
            (let matched = fold (\<lambda>(known, name) matched.
                   if constant_time_eq (string_bytes token) (string_bytes known) then Some name else matched) m None
             in Option.bind matched (lookup_strict users))))"

section \<open>Origins\<close>

datatype OriginPolicy = Origin_Unconfigured | Origin_AllowAny | Origin_List "string list"

datatype OriginError = Origin_MixedWildcard | Origin_Empty | Origin_NotAnOrigin string

definition normalize_origin :: "string \<Rightarrow> string" where
  "normalize_origin origin = map ascii_lower (rev (dropWhile (\<lambda>c. c = CHR ''/'') (rev (trim origin))))"

fun origin_list :: "string list \<Rightarrow> string list \<Rightarrow> (OriginError, string list) result" where
  "origin_list [] acc = Inr acc"
| "origin_list (entry # es) acc =
     (if entry = [] then Inl Origin_Empty
      else if \<not> sublist ''://'' entry then Inl (Origin_NotAnOrigin entry)
      else origin_list es (acc @ [normalize_origin entry]))"

definition OriginPolicy_parse :: "string option \<Rightarrow> (OriginError, OriginPolicy) result" where
  "OriginPolicy_parse arg =
     (case arg of
        None \<Rightarrow> Inr Origin_Unconfigured
      | Some a \<Rightarrow>
          (let raw = map trim (split_on CHR '','' a)
           in if ''*'' \<in> set raw then (if length raw \<noteq> 1 then Inl Origin_MixedWildcard else Inr Origin_AllowAny)
              else bindR (origin_list raw []) (\<lambda>l. Inr (Origin_List l))))"

definition admits :: "OriginPolicy \<Rightarrow> string option \<Rightarrow> bool \<Rightarrow> bool" where
  "admits policy origin auth =
     (case policy of
        Origin_AllowAny \<Rightarrow> True
      | Origin_List l \<Rightarrow> (case origin of Some o' \<Rightarrow> normalize_origin o' \<in> set l | None \<Rightarrow> False)
      | Origin_Unconfigured \<Rightarrow> (case origin of None \<Rightarrow> True | Some _ \<Rightarrow> auth))"

section \<open>Lemmas\<close>

lemma load_tokens_map:
  "load_tokens users specs m = Inr m' \<Longrightarrow> distinct (map fst m) \<Longrightarrow>
     distinct (map fst m') \<and> set m' = set m \<union> (\<lambda>s. (ts_token s, ts_user s)) ` set specs \<and>
     (\<forall>s \<in> set specs. ts_token s \<noteq> [] \<and> lookup_strict users (ts_user s) \<noteq> None)"
proof (induction users specs m rule: load_tokens.induct)
  case (2 users spec specs m)
  have ok: "ts_token spec \<noteq> []" "lookup_strict users (ts_user spec) \<noteq> None" "map_of m (ts_token spec) = None"
    "load_tokens users specs (AList.update (ts_token spec) (ts_user spec) m) = Inr m'"
    using "2.prems"(1) by (auto split: if_splits)
  have u: "AList.update k v al = al @ [(k, v)]" if "map_of al k = None" for k v and al :: "(string \<times> string) list"
    using that by (induction al) (auto split: if_splits)
  have "ts_token spec \<notin> fst ` set m" using ok(3) by (simp add: map_of_eq_None_iff)
  then show ?case using "2.IH" [OF ok(1,2) _ ok(4)] "2.prems"(2) ok by (auto simp: u [OF ok(3)])
qed simp

lemma fold_matched:
  "fold (\<lambda>(known, name) matched. if P known then Some name else matched) m acc =
     (case List.find (\<lambda>(known, name). P known) (rev m) of Some (k, n) \<Rightarrow> Some n | None \<Rightarrow> acc)"
  by (induction m arbitrary: acc rule: rev_induct) auto

section \<open>Properties\<close>

text \<open>
  C27: a browser session is served as a user exactly if it presents one of that user's tokens. With
  a file of tokens loaded, a session resolves to a user if and only if the token in its query,
  decoded, is the token of an entry for that user; the empty token belongs to nobody, and there is
  no fall-back to the anonymous user.
\<close>

theorem web_token_exact:
  assumes "TokenDirectory_load users specs = Inr d"
  shows "resolve_token percent_decode d path users = Some u \<longleftrightarrow>
    (\<exists>spec \<in> set specs. extract_token percent_decode path = Some (ts_token spec) \<and> ts_token spec \<noteq> [] \<and>
       lookup_strict users (ts_user spec) = Some u)"
proof -
  obtain m where m: "load_tokens users specs [] = Inr m" "by_token d = Some m"
    using assms by (auto simp: TokenDirectory_load_def bindR_Inr_conv)
  from load_tokens_map [OF m(1)] have l: "distinct (map fst m)" "set m = (\<lambda>s. (ts_token s, ts_user s)) ` set specs"
    "\<And>s. s \<in> set specs \<Longrightarrow> ts_token s \<noteq> []" by auto
  have same: "string_bytes a = string_bytes b \<longleftrightarrow> a = b" for a b by (metis bytes_string_inverse)
  have f: "(case List.find (\<lambda>(known, name). token = known) (rev m) of Some (k, n) \<Rightarrow> Some n | None \<Rightarrow> None) = map_of m token" for token
  proof -
    have "List.find (\<lambda>(known, name). token = known) xs = map_option (\<lambda>n. (token, n)) (map_of xs token)" for xs :: "(string \<times> string) list"
      by (induction xs) auto
    moreover have "map_of (rev m) = map_of m" using l(1) by (subst map_of_inject_set) (simp_all add: rev_map [symmetric])
    ultimately show ?thesis by (cases "map_of m token") simp_all
  qed
  have r: "resolve_token percent_decode d path users =
    Option.bind (extract_token percent_decode path) (\<lambda>token. Option.bind (map_of m token) (lookup_strict users))"
    by (simp add: resolve_token_def m(2) fold_matched constant_time_eq_iff same f)
  have iff: "map_of m token = Some n \<longleftrightarrow> (\<exists>s \<in> set specs. token = ts_token s \<and> n = ts_user s)" for token n
    using l(1) by (simp add: l(2)) blast
  show ?thesis unfolding r bind_eq_Some_conv iff using l(3) by blast
qed

definition demo_token_users :: UserDirectory where
  "demo_token_users = \<lparr>by_name = [(''alice'', \<lparr>u_name = ''alice'', u_home = [''a''], u_permissions = Permissions_full, u_quota_bytes = None,
       u_used_bytes = 0, u_in_flight_bytes = 0, u_active_uploads = {}\<rparr>)],
     ud_anonymous = \<lparr>u_name = ''anonymous'', u_home = [''p''], u_permissions = Permissions_read_only, u_quota_bytes = None,
       u_used_bytes = 0, u_in_flight_bytes = 0, u_active_uploads = {}\<rparr>\<rparr>"

abbreviation demo_tokens :: "TokenSpec list" where
  "demo_tokens \<equiv> [\<lparr>ts_token = ''s k'', ts_user = ''alice''\<rparr>]"

theorem web_token_exact_witness:
  "\<exists>d u. TokenDirectory_load demo_token_users demo_tokens = Inr d \<and> resolve_token string_bytes d ''/?x=1&token=s+k'' demo_token_users = Some u \<and>
     u_name u = ''alice''"
proof -
  have "trim ''alice'' = ''alice''" by (simp add: trim_graphic graphic_def)
  then obtain u where u: "lookup_strict demo_token_users ''alice'' = Some u" and n: "u_name u = ''alice''"
    by (simp add: lookup_strict_def demo_token_users_def)
  have d: "TokenDirectory_load demo_token_users demo_tokens = Inr \<lparr>by_token = Some [(''s k'', ''alice'')]\<rparr>"
    using u by (simp add: TokenDirectory_load_def)
  have "extract_token string_bytes ''/?x=1&token=s+k'' = Some ''s k''" by code_simp
  then have "resolve_token string_bytes \<lparr>by_token = Some [(''s k'', ''alice'')]\<rparr> ''/?x=1&token=s+k'' demo_token_users = Some u"
    unfolding web_token_exact [OF d] using u by simp
  then show ?thesis using d n by blast
qed

lemma origin_list_entries: "origin_list es acc = Inr l \<Longrightarrow> l = acc @ map normalize_origin es \<and> (\<forall>e \<in> set es. e \<noteq> [] \<and> sublist ''://'' e)"
  by (induction es acc rule: origin_list.induct) (auto split: if_splits)



end
