(* ===== verification/Spec2Isabelle.thy ===== *)
theory Spec2Isabelle
  imports Gso Handler_Props Users_Props Retry Rate_Limits Server_Props End_To_End Hostname Known_Hosts_Props
    Session_Store Sync_Plan Web_Auth
begin

text \<open>
  \<^bold>\<open>qftp\<close> is a file-transfer service over QUIC, written in Rust. This development models its message
  layer, its server and the core of its client, and proves what makes them correct. The
  sources are named relative to \<open>src/\<close>.

  \<^bold>\<open>The program.\<close> A client opens a bidirectional QUIC stream per request and sends a
  length-prefixed frame with an encoded \<open>Request\<close> (\<open>qftp-common\<close>: \<open>protocol.rs\<close>, \<open>transport.rs\<close>). The
  server (\<open>qftp-server\<close>) is one thread that loops over ingress, timeouts, per-connection work and
  egress (\<open>server.rs\<close>, \<open>run\<close>). Requests on paths are handed to a pool of worker threads, which run
  \<open>handle_request\<close> (\<open>qftp-protocol\<close>: \<open>handler.rs\<close>) on behalf of a user (\<open>user.rs\<close>); uploads and
  downloads are driven by the loop itself (\<open>transfer_put.rs\<close>, \<open>transfer_get.rs\<close>, with the per-stream
  state of \<open>stream.rs\<close> and the zstd wrappers of \<open>compress.rs\<close>). Admission is guarded by retry
  tokens, a rate limiter and connection caps (\<open>retry.rs\<close>, \<open>limits.rs\<close>). The client
  (\<open>qftp-client\<close>) pumps its connection from blocking loops (\<open>proto.rs\<close>, \<open>transfer.rs\<close>), decides
  whom to trust (\<open>connect.rs\<close>, \<open>known_hosts.rs\<close>, \<open>session_store.rs\<close>) and synchronises directories
  (\<open>sync.rs\<close>); a bridge (\<open>qftp-web-bridge\<close>) admits browser sessions (\<open>auth.rs\<close>).

  \<^bold>\<open>Foundations.\<close>
  \<^item> Prelude: machine words, results, saturating arithmetic, byte strings, UTF-8 text; the collection
    \<open>fs_simps\<close> and others that the component proofs use.
  \<^item> Filesystem and Files: the part of \<open>std::fs\<close>, \<open>std::path\<close> and \<open>std::io::BufWriter\<close> that the program
    calls, on a Linux file system with symbolic links; any call may fail as \<open>env_fault\<close> says. Files
    states buffered writing as the locale \<open>byte_sink\<close>, interpreted on \<open>BufWriter\<close>. Text_Trim: \<open>str::trim\<close>.

  \<^bold>\<open>Messages.\<close>
  \<^item> Protocol: the message types, their numeric enums and the field caps (\<open>validate_request\<close>,
    \<open>validate_response\<close>). Wire: the serde encoding; the locale \<open>codec\<close> states the round trip and
    canonicity, is interpreted for every type of the wire format, and carries the lemmas of Framing.
  \<^item> Framing: frames and the loops \<open>send_message\<close>, \<open>stream_send_all\<close>, \<open>recv_message\<close>: a frame decodes to
    its message and leaves what follows it, and a message arrives however the stream is cut.
  \<^item> Gso: \<open>flush_egress\<close> with segmentation offload puts the same datagrams on the wire as the simple loop.

  \<^bold>\<open>Server.\<close>
  \<^item> Handler and Handler_Props: path resolution, the re-check before every operation and all
    operations on paths. A request changes nothing outside the root even if the tree is changed by others
    between resolution and operation, only what its permission covers, and no upload in progress.
  \<^item> Users and Users_Props: permissions, quotas, identities from certificates, configuration, and the
    walks at start-up, which take their number of steps as fuel; the number of nodes of the
    tree is shown to be enough.
  \<^item> Retry, Rate_Limits, Metrics: admission and counters. A token is accepted exactly from the
    address, port and connection it was issued for and in time; over any interval a source is granted
    at most what the bucket allows. The locale \<open>slot_counter\<close> is what the server relies on in the
    connection caps, interpreted on \<open>ConnectionCounter\<close>. The \<open>f64\<close> of the buckets are rationals.
  \<^item> Compress, Streams, Transfer_Put, Put_Props, Put_Quota, Put_Start, Put_Live: uploads. A
    committed file is exactly what was sent and has the announced digest, a failure leaves the destination
    alone, the quota counters are settled on every way out, and a correct upload is committed.
  \<^item> Transfer_Get, Get_Props: downloads. Only files inside the home are served, and the
    stream carries the body and the digest of the whole file however many calls that takes.
  \<^item> Connection, Server, Server_Frame, Server_Jobs, Server_Props: a connection, the pool and one
    iteration of the loop with all phases. The step relation interleaves iterations with the steps of
    the workers; Server_Jobs proves its invariant by rule induction over the reachable
    states. An iteration is one step: what a worker does to the file system in the middle of one is
    not interleaved with it, though Handler takes the file system before and at the operation apart.

  \<^bold>\<open>Client.\<close>
  \<^item> Client_Session, Client_Get, Client_Put: waiting for responses, \<open>do_get\<close>, \<open>do_put\<close>. Loops that wait for
    the network are partial functions into \<open>option\<close>, \<open>None\<close> being a wait without end.
  \<^item> Client_Get_Props, Client_Put_Props: what holds on success, that is, the local file is the
    announced one and has the digest, or the whole file was sent and acknowledged. Client_Get_Live,
    Client_Put_Live: on a link that makes progress the calls return, with success.
  \<^item> End_To_End: what the server sends for a download is what the client stores, and what the
    client sends for an upload is what the server commits.
  \<^item> Hostname, Known_Hosts, Known_Hosts_Props, Session_Store: which certificate identifies a host,
    trust on first use over any sequence of connections, and to whom a session ticket is offered.
  \<^item> Sync, Sync_Props, Sync_Plan: rules of \<open>.qftpignore\<close>, the local and the remote walk and the plan, which
    is exactly the difference of the two trees less the excluded files. The local walk has fuel;
    the number of nodes is enough. Web_Auth: tokens and origins of browser sessions.

  \<^bold>\<open>Parameters.\<close> Code outside the repository is an argument of the definitions: quiche and the socket
  (the records \<open>Quic\<close> of the server and \<open>Link\<close> of the client), BLAKE3, SHA-256, HMAC, zstd, the
  certificate parser, glob patterns, TOML, percent-decoding, the clock and the lock on a
  file. What a theorem needs of one of them is a premise, such as \<open>in_order\<close>, \<open>sends\<close> and
  \<open>responsive\<close> for a link or \<open>send_delivers\<close> for a stream, and each witness has an instance of it.

  \<^bold>\<open>Not modelled.\<close> TLS and transport configuration, \<open>handle_ingress\<close> and the \<open>libc\<close> message headers,
  starting and joining threads, the command line, REPL, configuration files, recursive transfers,
  fan-out and file watching of the client, the HTTP listener for metrics, the sessions of the web
  bridge, the admin, benchmark, conformance and fuzzing programs and the browser client: they are
  input and output around the parts above, or run on libraries that are not in the repository.
\<close>

end
